(* ===== verification/Ufs_Prelude.thy ===== *)
theory Ufs_Prelude
  imports Main "HOL-Library.Word" "HOL-Library.Signed_Division" "HOL-Library.Monad_Syntax"
begin

unbundle bit_operations_syntax

section \<open>Prelude: C values, memory, bit maps and error numbers\<close>

text \<open>
  What every component shares. C integers are \<open>int\<close>; a conversion to a fixed width is
  written out with \<open>u8\<close> .. \<open>s64\<close> where a value is stored into a field of that width or
  where an unsigned computation can wrap. A buffer, and the block device, is a function from
  byte offsets to bytes (\<open>mem\<close>), so a pointer into a buffer is an offset; what lies outside
  the allocated size is whatever the function holds there. Multi-byte fields are little
  endian, the order of the hosts the program supports (the README excludes file systems of
  the other byte order). A function that may not return (\<open>exit\<close>, the null write of
  \<open>debugferr\<close>, a failed \<open>assert\<close> or a loop without end) has an \<open>option\<close> result,
  \<open>None\<close> meaning that the call does not return.
\<close>

named_theorems mem_simps \<open>loads after stores\<close>
named_theorems bit_simps_ufs \<open>bit map reads after bit map updates\<close>
named_theorems fs_macros \<open>the shift and mask macros of fs.h as arithmetic\<close>
named_theorems io_simps \<open>device I/O that succeeds\<close>

type_synonym byte = "8 word"
type_synonym mem = "int \<Rightarrow> byte"

subsection \<open>Fixed widths\<close>

abbreviation u8 :: "int \<Rightarrow> int" where "u8 \<equiv> take_bit 8"
abbreviation u16 :: "int \<Rightarrow> int" where "u16 \<equiv> take_bit 16"
abbreviation u32 :: "int \<Rightarrow> int" where "u32 \<equiv> take_bit 32"
abbreviation u64 :: "int \<Rightarrow> int" where "u64 \<equiv> take_bit 64"
abbreviation s8 :: "int \<Rightarrow> int" where "s8 \<equiv> signed_take_bit 7"
abbreviation s16 :: "int \<Rightarrow> int" where "s16 \<equiv> signed_take_bit 15"
abbreviation s32 :: "int \<Rightarrow> int" where "s32 \<equiv> signed_take_bit 31"
abbreviation s64 :: "int \<Rightarrow> int" where "s64 \<equiv> signed_take_bit 63"

lemma s32_id: "- (2 ^ 31) \<le> v \<Longrightarrow> v < 2 ^ 31 \<Longrightarrow> s32 v = v"
  by (rule signed_take_bit_int_eq_self) simp_all

lemma s64_id: "- (2 ^ 63) \<le> v \<Longrightarrow> v < 2 ^ 63 \<Longrightarrow> s64 v = v"
  by (rule signed_take_bit_int_eq_self) simp_all

lemma u_id: "0 \<le> v \<Longrightarrow> v < 2 ^ n \<Longrightarrow> take_bit n (v :: int) = v"
  by (simp add: take_bit_int_eq_self_iff)

lemma sdiv_nonneg: "0 \<le> a \<Longrightarrow> 0 \<le> b \<Longrightarrow> (a :: int) sdiv b = a div b"
  by (cases "a = 0"; cases "b = 0") (auto simp: signed_divide_int_def)

lemma smod_nonneg: "0 \<le> a \<Longrightarrow> 0 \<le> b \<Longrightarrow> (a :: int) smod b = a mod b"
  by (cases "a = 0") (auto simp: signed_modulo_int_def)

text \<open>\<open>howmany\<close> of sys/param.h: the number of chunks of size \<open>y\<close> that hold \<open>x\<close>.\<close>

definition howmany :: "int \<Rightarrow> int \<Rightarrow> int" where
  "howmany x y = (x + (y - 1)) sdiv y"

definition NBBY :: int where [simp]: "NBBY = 8"

lemma howmany_ceil:
  assumes "0 \<le> x" and "0 < y"
  shows "x \<le> howmany x y * y" and "howmany x y * y < x + y"
proof -
  have eq: "howmany x y = (x + (y - 1)) div y"
    using assms by (simp add: howmany_def sdiv_nonneg)
  have dm: "(x + (y - 1)) div y * y + (x + (y - 1)) mod y = x + (y - 1)"
    by (rule div_mult_mod_eq)
  have m: "0 \<le> (x + (y - 1)) mod y" "(x + (y - 1)) mod y < y"
    using assms by simp_all
  show "x \<le> howmany x y * y" using dm m unfolding eq by linarith
  show "howmany x y * y < x + y" using dm m unfolding eq by linarith
qed

subsection \<open>Loads and stores\<close>

fun ldn :: "nat \<Rightarrow> mem \<Rightarrow> int \<Rightarrow> int" where
  "ldn 0 m a = 0"
| "ldn (Suc k) m a = uint (m a) + 256 * ldn k m (a + 1)"

fun stn :: "nat \<Rightarrow> mem \<Rightarrow> int \<Rightarrow> int \<Rightarrow> mem" where
  "stn 0 m a v = m"
| "stn (Suc k) m a v = stn k (m(a := word_of_int v)) (a + 1) (v div 256)"

definition ld8 :: "mem \<Rightarrow> int \<Rightarrow> int" where "ld8 m a = uint (m a)"
definition ld16 :: "mem \<Rightarrow> int \<Rightarrow> int" where "ld16 m a = ldn 2 m a"
definition ld32 :: "mem \<Rightarrow> int \<Rightarrow> int" where "ld32 m a = s32 (ldn 4 m a)"
definition ld32u :: "mem \<Rightarrow> int \<Rightarrow> int" where "ld32u m a = ldn 4 m a"
definition ld64 :: "mem \<Rightarrow> int \<Rightarrow> int" where "ld64 m a = s64 (ldn 8 m a)"
definition ld64u :: "mem \<Rightarrow> int \<Rightarrow> int" where "ld64u m a = ldn 8 m a"

definition st8 :: "mem \<Rightarrow> int \<Rightarrow> int \<Rightarrow> mem" where "st8 m a v = m(a := word_of_int v)"
definition st16 :: "mem \<Rightarrow> int \<Rightarrow> int \<Rightarrow> mem" where "st16 m a v = stn 2 m a v"
definition st32 :: "mem \<Rightarrow> int \<Rightarrow> int \<Rightarrow> mem" where "st32 m a v = stn 4 m a v"
definition st64 :: "mem \<Rightarrow> int \<Rightarrow> int \<Rightarrow> mem" where "st64 m a v = stn 8 m a v"

lemmas ld_defs = ld8_def ld16_def ld32_def ld32u_def ld64_def ld64u_def
lemmas st_defs = st8_def st16_def st32_def st64_def

lemma stn_other: "i < a \<or> a + int k \<le> i \<Longrightarrow> stn k m a v i = m i"
  by (induction k m a v rule: stn.induct) auto

lemma ldn_cong: "(\<And>i. a \<le> i \<Longrightarrow> i < a + int k \<Longrightarrow> m i = m' i) \<Longrightarrow> ldn k m a = ldn k m' a"
  by (induction k m a rule: ldn.induct) auto

lemma ldn_nonneg: "0 \<le> ldn k m a"
  by (induction k m a rule: ldn.induct) auto

lemma ldn_bound: "ldn k m a < 256 ^ k"
proof (induction k m a rule: ldn.induct)
  case (2 k m a)
  have "uint (m a) < 256" using uint_bounded [of "m a"] by simp
  with 2 show ?case by simp
qed simp

lemma ldn_stn_same: "ldn k (stn k m a v) a = v mod 256 ^ k"
proof (induction k m a v rule: stn.induct)
  case (2 k m a v)
  have "stn k (m(a := word_of_int v)) (a + 1) (v div 256) a = word_of_int v"
    by (subst stn_other) auto
  moreover have "v mod (256 * 256 ^ k) = 256 * (v div 256 mod 256 ^ k) + v mod 256"
    by (rule zmod_zmult2_eq) simp
  ultimately show ?case using 2 by (simp add: uint_word_of_int del: fun_upd_apply)
qed simp

lemma ldn_stn_other:
  assumes "a + int k \<le> b \<or> b + int j \<le> a"
  shows "ldn j (stn k m a v) b = ldn j m b"
  by (rule ldn_cong) (use assms in \<open>auto intro!: stn_other\<close>)

lemma stn_at: "stn k m a v i = (if a \<le> i \<and> i < a + int k then word_of_int (v div 256 ^ nat (i - a)) else m i)"
proof (induction k m a v rule: stn.induct)
  case (2 k m a v)
  have "v div 256 div 256 ^ nat (i - (a + 1)) = v div 256 ^ nat (i - a)" if "a + 1 \<le> i"
  proof -
    have "nat (i - a) = Suc (nat (i - (a + 1)))" using that by simp
    then show ?thesis by (simp add: zdiv_zmult2_eq)
  qed
  then show ?case by (simp only: stn.simps 2) auto
qed auto

lemma stn_stn_same: "stn k (stn k m a v) a w = stn k m a w"
  by (rule ext) (simp add: stn_at)

lemma stn_swap: "a + int k \<le> b \<or> b + int j \<le> a \<Longrightarrow> stn k (stn j m b w) a v = stn j (stn k m a v) b w"
  by (rule ext) (auto simp: stn_at)

lemma ldn_upd_other: "x < b \<or> b + int j \<le> x \<Longrightarrow> ldn j (m(x := w)) b = ldn j m b"
  by (rule ldn_cong) auto

lemma mod_take: "v mod 256 = u8 v" "v mod 65536 = u16 v" "v mod 4294967296 = u32 v"
  "v mod 18446744073709551616 = u64 v"
  by (simp_all add: take_bit_eq_mod)

lemma ld_st_same [mem_simps]:
  "ld8 (st8 m a v) a = u8 v"
  "ld16 (st16 m a v) a = u16 v"
  "ld32 (st32 m a v) a = s32 v"
  "ld32u (st32 m a v) a = u32 v"
  "ld64 (st64 m a v) a = s64 v"
  "ld64u (st64 m a v) a = u64 v"
  by (simp_all add: ld_defs st_defs ldn_stn_same mod_take signed_take_bit_take_bit
      uint_word_of_int)

lemma ld_stn_other [mem_simps]:
  "a + int k \<le> b \<or> b + 1 \<le> a \<Longrightarrow> ld8 (stn k m a v) b = ld8 m b"
  "a + int k \<le> b \<or> b + 2 \<le> a \<Longrightarrow> ld16 (stn k m a v) b = ld16 m b"
  "a + int k \<le> b \<or> b + 4 \<le> a \<Longrightarrow> ld32 (stn k m a v) b = ld32 m b"
  "a + int k \<le> b \<or> b + 4 \<le> a \<Longrightarrow> ld32u (stn k m a v) b = ld32u m b"
  "a + int k \<le> b \<or> b + 8 \<le> a \<Longrightarrow> ld64 (stn k m a v) b = ld64 m b"
  "a + int k \<le> b \<or> b + 8 \<le> a \<Longrightarrow> ld64u (stn k m a v) b = ld64u m b"
  using stn_other [of b a k m v]
  by (auto simp: ld8_def ld16_def ld32_def ld32u_def ld64_def ld64u_def ldn_stn_other)

lemma ld_st8_other [mem_simps]:
  "a < b \<or> b < a \<Longrightarrow> ld8 (st8 m a v) b = ld8 m b"
  "a < b \<or> b + 2 \<le> a \<Longrightarrow> ld16 (st8 m a v) b = ld16 m b"
  "a < b \<or> b + 4 \<le> a \<Longrightarrow> ld32 (st8 m a v) b = ld32 m b"
  "a < b \<or> b + 4 \<le> a \<Longrightarrow> ld32u (st8 m a v) b = ld32u m b"
  "a < b \<or> b + 8 \<le> a \<Longrightarrow> ld64 (st8 m a v) b = ld64 m b"
  "a < b \<or> b + 8 \<le> a \<Longrightarrow> ld64u (st8 m a v) b = ld64u m b"
  using ld_stn_other [of a 1 b m v] by (auto simp: st8_def)

lemma ld_st16_other [mem_simps]:
  "a + 2 \<le> b \<or> b + 1 \<le> a \<Longrightarrow> ld8 (st16 m a v) b = ld8 m b"
  "a + 2 \<le> b \<or> b + 2 \<le> a \<Longrightarrow> ld16 (st16 m a v) b = ld16 m b"
  "a + 2 \<le> b \<or> b + 4 \<le> a \<Longrightarrow> ld32 (st16 m a v) b = ld32 m b"
  "a + 2 \<le> b \<or> b + 4 \<le> a \<Longrightarrow> ld32u (st16 m a v) b = ld32u m b"
  "a + 2 \<le> b \<or> b + 8 \<le> a \<Longrightarrow> ld64 (st16 m a v) b = ld64 m b"
  "a + 2 \<le> b \<or> b + 8 \<le> a \<Longrightarrow> ld64u (st16 m a v) b = ld64u m b"
  by (simp_all add: st16_def ld_stn_other)

lemma ld_st32_other [mem_simps]:
  "a + 4 \<le> b \<or> b + 1 \<le> a \<Longrightarrow> ld8 (st32 m a v) b = ld8 m b"
  "a + 4 \<le> b \<or> b + 2 \<le> a \<Longrightarrow> ld16 (st32 m a v) b = ld16 m b"
  "a + 4 \<le> b \<or> b + 4 \<le> a \<Longrightarrow> ld32 (st32 m a v) b = ld32 m b"
  "a + 4 \<le> b \<or> b + 4 \<le> a \<Longrightarrow> ld32u (st32 m a v) b = ld32u m b"
  "a + 4 \<le> b \<or> b + 8 \<le> a \<Longrightarrow> ld64 (st32 m a v) b = ld64 m b"
  "a + 4 \<le> b \<or> b + 8 \<le> a \<Longrightarrow> ld64u (st32 m a v) b = ld64u m b"
  by (simp_all add: st32_def ld_stn_other)

lemma ld_st64_other [mem_simps]:
  "a + 8 \<le> b \<or> b + 1 \<le> a \<Longrightarrow> ld8 (st64 m a v) b = ld8 m b"
  "a + 8 \<le> b \<or> b + 2 \<le> a \<Longrightarrow> ld16 (st64 m a v) b = ld16 m b"
  "a + 8 \<le> b \<or> b + 4 \<le> a \<Longrightarrow> ld32 (st64 m a v) b = ld32 m b"
  "a + 8 \<le> b \<or> b + 4 \<le> a \<Longrightarrow> ld32u (st64 m a v) b = ld32u m b"
  "a + 8 \<le> b \<or> b + 8 \<le> a \<Longrightarrow> ld64 (st64 m a v) b = ld64 m b"
  "a + 8 \<le> b \<or> b + 8 \<le> a \<Longrightarrow> ld64u (st64 m a v) b = ld64u m b"
  by (simp_all add: st64_def ld_stn_other)

lemma st_other [mem_simps]:
  "i < a \<or> a + 1 \<le> i \<Longrightarrow> st8 m a v i = m i"
  "i < a \<or> a + 2 \<le> i \<Longrightarrow> st16 m a v i = m i"
  "i < a \<or> a + 4 \<le> i \<Longrightarrow> st32 m a v i = m i"
  "i < a \<or> a + 8 \<le> i \<Longrightarrow> st64 m a v i = m i"
  by (auto simp: st_defs intro!: stn_other)

lemma ld_cong:
  "m a = m' a \<Longrightarrow> ld8 m a = ld8 m' a"
  "(\<And>i. a \<le> i \<Longrightarrow> i < a + 2 \<Longrightarrow> m i = m' i) \<Longrightarrow> ld16 m a = ld16 m' a"
  "(\<And>i. a \<le> i \<Longrightarrow> i < a + 4 \<Longrightarrow> m i = m' i) \<Longrightarrow> ld32 m a = ld32 m' a"
  "(\<And>i. a \<le> i \<Longrightarrow> i < a + 4 \<Longrightarrow> m i = m' i) \<Longrightarrow> ld32u m a = ld32u m' a"
  "(\<And>i. a \<le> i \<Longrightarrow> i < a + 8 \<Longrightarrow> m i = m' i) \<Longrightarrow> ld64 m a = ld64 m' a"
  "(\<And>i. a \<le> i \<Longrightarrow> i < a + 8 \<Longrightarrow> m i = m' i) \<Longrightarrow> ld64u m a = ld64u m' a"
  using ldn_cong [of a 2 m m'] ldn_cong [of a 4 m m'] ldn_cong [of a 8 m m']
  by (simp_all add: ld_defs)

lemma ld_bounds:
  "0 \<le> ld8 m a" "ld8 m a < 256"
  "0 \<le> ld16 m a" "ld16 m a < 65536"
  "0 \<le> ld32u m a" "ld32u m a < 4294967296"
  "0 \<le> ld64u m a" "ld64u m a < 18446744073709551616"
  using ldn_bound [of 1 m a] ldn_bound [of 2 m a] ldn_bound [of 4 m a] ldn_bound [of 8 m a]
  by (simp_all add: ld_defs ldn_nonneg)

text \<open>\<open>add32 m a k\<close> is \<open>*(int32_t *)a += k\<close>.\<close>

definition add32 :: "mem \<Rightarrow> int \<Rightarrow> int \<Rightarrow> mem" where
  "add32 m a k = st32 m a (ld32 m a + k)"

fun add32_times :: "nat \<Rightarrow> mem \<Rightarrow> int \<Rightarrow> int \<Rightarrow> mem" where
  "add32_times 0 m a k = m"
| "add32_times (Suc n) m a k = add32_times n (add32 m a k) a k"

lemma s32_add_left: "s32 (s32 x + y) = s32 (x + y)"
  by (metis signed_take_bit_add signed_take_bit_signed_take_bit min.idem)

lemma ld32_add32_times: "s32 (ld32 m a) = ld32 m a \<Longrightarrow> ld32 (add32_times n m a k) a = s32 (ld32 m a + int n * k)"
proof (induction n arbitrary: m)
  case (Suc n)
  have "s32 (s32 (ld32 m a + k) + int n * k) = s32 (ld32 m a + int (Suc n) * k)"
    by (simp add: s32_add_left) (simp add: algebra_simps)
  then show ?case using Suc by (simp add: add32_def ld_st_same)
qed simp

lemma add32_times_other: "i < a \<or> a + 4 \<le> i \<Longrightarrow> add32_times n m a k i = m i"
  by (induction n arbitrary: m) (auto simp: add32_def mem_simps)

lemma s32_ld32 [simp]: "s32 (ld32 m a) = ld32 m a"
  by (simp add: ld32_def)

lemma ld32_add32_times_other:
  "b + 4 \<le> a \<or> a + 4 \<le> b \<Longrightarrow> ld32 (add32_times n m a k) b = ld32 m b"
  by (rule ld_cong) (auto intro!: add32_times_other)

lemma ld32_add32_idx:
  "ld32 (add32 m (a + 4 * i) k) (a + 4 * j) = s32 (ld32 m (a + 4 * j) + (if i = j then k else 0))"
proof (cases "i = j")
  case False
  then have "a + 4 * i + 4 \<le> a + 4 * j \<or> a + 4 * j + 4 \<le> a + 4 * i" by linarith
  then show ?thesis using False by (simp add: add32_def mem_simps)
qed (simp add: add32_def mem_simps)

lemma add32_other [mem_simps]: "i < a \<or> a + 4 \<le> i \<Longrightarrow> add32 m a k i = m i"
  by (simp add: add32_def mem_simps)

subsection \<open>memset and memcpy\<close>

definition memset :: "mem \<Rightarrow> int \<Rightarrow> byte \<Rightarrow> int \<Rightarrow> mem" where
  "memset m a b n = (\<lambda>i. if a \<le> i \<and> i < a + n then b else m i)"

definition memcpy :: "mem \<Rightarrow> int \<Rightarrow> mem \<Rightarrow> int \<Rightarrow> int \<Rightarrow> mem" where
  "memcpy dst d src s n = (\<lambda>i. if d \<le> i \<and> i < d + n then src (s + (i - d)) else dst i)"

lemma memcpy_in [mem_simps]: "d \<le> i \<Longrightarrow> i < d + n \<Longrightarrow> memcpy dst d src s n i = src (s + (i - d))"
  by (simp add: memcpy_def)

lemma memcpy_out [mem_simps]: "i < d \<or> d + n \<le> i \<Longrightarrow> memcpy dst d src s n i = dst i"
  by (auto simp: memcpy_def)

lemma memset_in [mem_simps]: "a \<le> i \<Longrightarrow> i < a + n \<Longrightarrow> memset m a b n i = b"
  by (simp add: memset_def)

lemma memset_out [mem_simps]: "i < a \<or> a + n \<le> i \<Longrightarrow> memset m a b n i = m i"
  by (auto simp: memset_def)

subsection \<open>Bit maps (sys/param.h)\<close>

definition setbit :: "mem \<Rightarrow> int \<Rightarrow> int \<Rightarrow> mem" where
  "setbit m a i = m(a + i div 8 := m (a + i div 8) OR push_bit (nat (i mod 8)) 1)"

definition clrbit :: "mem \<Rightarrow> int \<Rightarrow> int \<Rightarrow> mem" where
  "clrbit m a i = m(a + i div 8 := m (a + i div 8) AND NOT (push_bit (nat (i mod 8)) 1))"

definition isset :: "mem \<Rightarrow> int \<Rightarrow> int \<Rightarrow> bool" where
  "isset m a i \<longleftrightarrow> m (a + i div 8) AND push_bit (nat (i mod 8)) 1 \<noteq> 0"

abbreviation isclr :: "mem \<Rightarrow> int \<Rightarrow> int \<Rightarrow> bool" where
  "isclr m a i \<equiv> \<not> isset m a i"

lemma and_push_bit_1: "n < 8 \<Longrightarrow> (w :: byte) AND push_bit n 1 \<noteq> 0 \<longleftrightarrow> bit w n"
  by (metis (no_types, lifting) and_exp_eq_0_iff_not_bit push_bit_of_1)

lemma isset_bit: "isset m a i \<longleftrightarrow> bit (m (a + i div 8)) (nat (i mod 8))"
  unfolding isset_def by (rule and_push_bit_1) (simp add: nat_less_iff)

lemma nat_mod8_eq: "i div 8 = j div 8 \<Longrightarrow> nat (i mod 8) = nat (j mod 8) \<longleftrightarrow> i = (j :: int)"
  by (metis div_mult_mod_eq eq_nat_nat_iff pos_mod_sign zero_less_numeral)

lemma nat_mod8_less: "nat (i mod 8) < 8"
  by (simp add: nat_less_iff)

lemma bit_exp_byte: "n < 8 \<Longrightarrow> bit (2 ^ k :: byte) n \<longleftrightarrow> k = n"
  by (auto simp: bit_exp_iff)

lemma isset_setbit [bit_simps_ufs]: "isset (setbit m a i) a j \<longleftrightarrow> i = j \<or> isset m a j"
proof (cases "i div 8 = j div 8")
  case True
  then show ?thesis
    using nat_mod8_eq [OF True]
    by (simp add: isset_bit setbit_def bit_or_iff bit_exp_byte nat_mod8_less) blast
next
  case False
  then have "i \<noteq> j" by auto
  with False show ?thesis by (simp add: isset_def setbit_def)
qed

lemma isset_clrbit [bit_simps_ufs]: "isset (clrbit m a i) a j \<longleftrightarrow> i \<noteq> j \<and> isset m a j"
proof (cases "i div 8 = j div 8")
  case True
  then show ?thesis
    using nat_mod8_eq [OF True]
    by (simp add: isset_bit clrbit_def bit_and_iff bit_not_iff bit_exp_byte nat_mod8_less) blast
next
  case False
  then have "i \<noteq> j" by auto
  with False show ?thesis by (simp add: isset_def clrbit_def)
qed

lemma setbit_other [mem_simps]: "x \<noteq> a + i div 8 \<Longrightarrow> setbit m a i x = m x"
  by (simp add: setbit_def)

lemma clrbit_other [mem_simps]: "x \<noteq> a + i div 8 \<Longrightarrow> clrbit m a i x = m x"
  by (simp add: clrbit_def)

lemma isset_cong: "m (a + i div 8) = m' (a + i div 8) \<Longrightarrow> isset m a i = isset m' a i"
  by (simp add: isset_def)

lemma div_mod_8: "0 \<le> r \<Longrightarrow> r < 8 \<Longrightarrow> x = 8 * q + r \<Longrightarrow> x mod 8 = r \<and> x div 8 = (q :: int)"
  by simp

lemma mod8_succ: "(i :: int) mod 8 \<noteq> 7 \<Longrightarrow> (i + 1) mod 8 = i mod 8 + 1 \<and> (i + 1) div 8 = i div 8"
  and mod8_succ7: "(i :: int) mod 8 = 7 \<Longrightarrow> (i + 1) mod 8 = 0 \<and> (i + 1) div 8 = i div 8 + 1"
  and mod8_pred: "(i :: int) mod 8 \<noteq> 0 \<Longrightarrow> (i - 1) mod 8 = i mod 8 - 1 \<and> (i - 1) div 8 = i div 8"
  and mod8_pred0: "(i :: int) mod 8 = 0 \<Longrightarrow> (i - 1) mod 8 = 7 \<and> (i - 1) div 8 = i div 8 - 1"
proof -
  have d: "i = 8 * (i div 8) + i mod 8" "0 \<le> i mod 8" "i mod 8 < 8" by simp_all
  show "(i + 1) mod 8 = i mod 8 + 1 \<and> (i + 1) div 8 = i div 8" if "i mod 8 \<noteq> 7"
    by (rule div_mod_8) (use d that in linarith)+
  show "(i + 1) mod 8 = 0 \<and> (i + 1) div 8 = i div 8 + 1" if "i mod 8 = 7"
    by (rule div_mod_8) (use d that in \<open>simp_all add: distrib_left\<close>)
  show "(i - 1) mod 8 = i mod 8 - 1 \<and> (i - 1) div 8 = i div 8" if "i mod 8 \<noteq> 0"
    by (rule div_mod_8) (use d that in linarith)+
  show "(i - 1) mod 8 = 7 \<and> (i - 1) div 8 = i div 8 - 1" if "i mod 8 = 0"
    by (rule div_mod_8) (use d that in \<open>simp_all add: right_diff_distrib\<close>)
qed

lemma byte_subset: "(w :: byte) AND k = k \<longleftrightarrow> (\<forall>n<8. bit k n \<longrightarrow> bit w n)"
  by (auto simp: bit_eq_iff bit_and_iff bit_imp_le_length)

lemma byte_disjoint: "(w :: byte) AND k = 0 \<longleftrightarrow> (\<forall>n<8. bit k n \<longrightarrow> \<not> bit w n)"
  by (auto simp: bit_eq_iff bit_and_iff bit_imp_le_length)

subsection \<open>Error numbers and file modes\<close>

abbreviation (input) EPERM :: int where "EPERM \<equiv> 1"
abbreviation (input) ENOENT :: int where "ENOENT \<equiv> 2"
abbreviation (input) EIO :: int where "EIO \<equiv> 5"
abbreviation (input) ENOMEM :: int where "ENOMEM \<equiv> 12"
abbreviation (input) ENXIO :: int where "ENXIO \<equiv> 6"
abbreviation (input) EACCES :: int where "EACCES \<equiv> 13"
abbreviation (input) EEXIST :: int where "EEXIST \<equiv> 17"
abbreviation (input) ENOTDIR :: int where "ENOTDIR \<equiv> 20"
abbreviation (input) EISDIR :: int where "EISDIR \<equiv> 21"
abbreviation (input) EINVAL :: int where "EINVAL \<equiv> 22"
abbreviation (input) ENOSPC :: int where "ENOSPC \<equiv> 28"
abbreviation (input) EROFS :: int where "EROFS \<equiv> 30"
abbreviation (input) EMLINK :: int where "EMLINK \<equiv> 31"
abbreviation (input) ENAMETOOLONG :: int where "ENAMETOOLONG \<equiv> 36"
abbreviation (input) ENOTEMPTY :: int where "ENOTEMPTY \<equiv> 39"

end
