(* ===== verification/Ufs_Fs.thy ===== *)
theory Ufs_Fs
  imports Ufs_Prelude
begin

section \<open>The super block and its macros (libufs/fs.h, libufs/dinode.h, libufs/dir.h)\<close>

text \<open>
  \<open>struct fs\<close> as the record \<open>fs\<close>: every field the program reads or writes, an \<open>int\<close>
  each; the arrays reached through the in-core pointers \<open>fs_csp\<close>, \<open>fs_maxcluster\<close> and
  \<open>fs_contigdirs\<close> are functions of the cylinder group number. \<open>fs_active\<close> is NULL from
  \<open>op_init\<close> on, so \<open>ACTIVECLEAR\<close> does nothing and the field is not part of the model. The
  macros that turn block numbers into addresses and byte counts into blocks keep their shifts
  and masks; the predicate \<open>fs_ok\<close> says how the derived fields of a valid super block relate
  to the block and fragment sizes, and under it each macro computes what its comment in fs.h
  says.
\<close>

record csum =
  cs_ndir :: int
  cs_nbfree :: int
  cs_nifree :: int
  cs_nffree :: int

record fs =
  fs_sblkno :: int
  fs_cblkno :: int
  fs_iblkno :: int
  fs_dblkno :: int
  fs_old_cgoffset :: int
  fs_old_cgmask :: int
  fs_ncg :: int
  fs_bsize :: int
  fs_fsize :: int
  fs_frag :: int
  fs_minfree :: int
  fs_bmask :: int
  fs_fmask :: int
  fs_bshift :: int
  fs_fshift :: int
  fs_fragshift :: int
  fs_fsbtodb :: int
  fs_nindir :: int
  fs_inopb :: int
  fs_cssize :: int
  fs_cgsize :: int
  fs_ipg :: int
  fs_fpg :: int
  fs_fmod :: int
  fs_ronly :: int
  fs_contigdirs :: "int \<Rightarrow> int"
  fs_csp :: "int \<Rightarrow> csum"
  fs_maxcluster :: "int \<Rightarrow> int"
  fs_sblockloc :: int
  fs_cstotal :: csum
  fs_size :: int
  fs_dsize :: int
  fs_csaddr :: int
  fs_pendingblocks :: int
  fs_pendinginodes :: int
  fs_avgfilesize :: int
  fs_avgfpdir :: int
  fs_contigsumsize :: int
  fs_maxsymlinklen :: int
  fs_qbmask :: int
  fs_qfmask :: int
  fs_magic :: int

definition FS_UFS1_MAGIC :: int where [simp]: "FS_UFS1_MAGIC = 0x011954"
definition FS_UFS2_MAGIC :: int where [simp]: "FS_UFS2_MAGIC = 0x19540119"
definition CG_MAGIC :: int where [simp]: "CG_MAGIC = 0x090255"
definition ROOTINO :: int where [simp]: "ROOTINO = 2"
definition NDADDR :: int where [simp]: "NDADDR = 12"
definition MAXNAMLEN :: int where [simp]: "MAXNAMLEN = 255"
definition DEV_BSHIFT :: nat where [simp]: "DEV_BSHIFT = 9"
definition DIRBLKSIZ :: int where [simp]: "DIRBLKSIZ = 512"
definition LINK_MAX :: int where [simp]: "LINK_MAX = 255"

subsection \<open>File types (dinode.h, dir.h)\<close>

abbreviation (input) IFMT :: int where "IFMT \<equiv> 0xF000"
abbreviation (input) IFIFO :: int where "IFIFO \<equiv> 0x1000"
abbreviation (input) IFCHR :: int where "IFCHR \<equiv> 0x2000"
abbreviation (input) IFDIR :: int where "IFDIR \<equiv> 0x4000"
abbreviation (input) IFBLK :: int where "IFBLK \<equiv> 0x6000"
abbreviation (input) IFREG :: int where "IFREG \<equiv> 0x8000"
abbreviation (input) IFLNK :: int where "IFLNK \<equiv> 0xA000"
abbreviation (input) IFSOCK :: int where "IFSOCK \<equiv> 0xC000"
abbreviation (input) DT_UNKNOWN :: int where "DT_UNKNOWN \<equiv> 0"
abbreviation (input) DT_FIFO :: int where "DT_FIFO \<equiv> 1"
abbreviation (input) DT_CHR :: int where "DT_CHR \<equiv> 2"
abbreviation (input) DT_DIR :: int where "DT_DIR \<equiv> 4"
abbreviation (input) DT_BLK :: int where "DT_BLK \<equiv> 6"
abbreviation (input) DT_REG :: int where "DT_REG \<equiv> 8"
abbreviation (input) DT_LNK :: int where "DT_LNK \<equiv> 10"
abbreviation (input) DT_SOCK :: int where "DT_SOCK \<equiv> 12"

definition IFTODT :: "int \<Rightarrow> int" where
  "IFTODT mode = drop_bit 12 (mode AND IFMT)"

definition DTTOIF :: "int \<Rightarrow> int" where
  "DTTOIF dirtype = push_bit 12 dirtype"

definition S_ISDIR :: "int \<Rightarrow> bool" where "S_ISDIR m \<longleftrightarrow> m AND IFMT = IFDIR"
definition S_ISLNK :: "int \<Rightarrow> bool" where "S_ISLNK m \<longleftrightarrow> m AND IFMT = IFLNK"
definition S_ISREG :: "int \<Rightarrow> bool" where "S_ISREG m \<longleftrightarrow> m AND IFMT = IFREG"
definition S_ISCHR :: "int \<Rightarrow> bool" where "S_ISCHR m \<longleftrightarrow> m AND IFMT = IFCHR"
definition S_ISBLK :: "int \<Rightarrow> bool" where "S_ISBLK m \<longleftrightarrow> m AND IFMT = IFBLK"
definition S_ISFIFO :: "int \<Rightarrow> bool" where "S_ISFIFO m \<longleftrightarrow> m AND IFMT = IFIFO"
definition S_ISSOCK :: "int \<Rightarrow> bool" where "S_ISSOCK m \<longleftrightarrow> m AND IFMT = IFSOCK"

subsection \<open>Address macros\<close>

definition fsbtodb :: "fs \<Rightarrow> int \<Rightarrow> int" where
  "fsbtodb fs b = push_bit (nat (fs_fsbtodb fs)) b"

definition dbtofsb :: "fs \<Rightarrow> int \<Rightarrow> int" where
  "dbtofsb fs b = drop_bit (nat (fs_fsbtodb fs)) b"

definition cgbase :: "fs \<Rightarrow> int \<Rightarrow> int" where
  "cgbase fs c = fs_fpg fs * c"

definition cgstart :: "fs \<Rightarrow> int \<Rightarrow> int" where
  "cgstart fs c =
     (if fs_magic fs = FS_UFS2_MAGIC then cgbase fs c
      else cgbase fs c + fs_old_cgoffset fs * (c AND NOT (fs_old_cgmask fs)))"

definition cgimin :: "fs \<Rightarrow> int \<Rightarrow> int" where "cgimin fs c = cgstart fs c + fs_iblkno fs"
definition cgsblock :: "fs \<Rightarrow> int \<Rightarrow> int" where "cgsblock fs c = cgstart fs c + fs_sblkno fs"
definition cgtod :: "fs \<Rightarrow> int \<Rightarrow> int" where "cgtod fs c = cgstart fs c + fs_cblkno fs"

definition blkstofrags :: "fs \<Rightarrow> int \<Rightarrow> int" where
  "blkstofrags fs blks = push_bit (nat (fs_fragshift fs)) blks"

definition fragstoblks :: "fs \<Rightarrow> int \<Rightarrow> int" where
  "fragstoblks fs frags = drop_bit (nat (fs_fragshift fs)) frags"

definition INOPB :: "fs \<Rightarrow> int" where "INOPB fs = fs_inopb fs"

definition ino_to_cg :: "fs \<Rightarrow> int \<Rightarrow> int" where "ino_to_cg fs x = x sdiv fs_ipg fs"

definition ino_to_fsba :: "fs \<Rightarrow> int \<Rightarrow> int" where
  "ino_to_fsba fs x =
     cgimin fs (ino_to_cg fs x) + blkstofrags fs (x smod fs_ipg fs sdiv INOPB fs)"

definition dtog :: "fs \<Rightarrow> int \<Rightarrow> int" where "dtog fs d = d sdiv fs_fpg fs"
definition dtogd :: "fs \<Rightarrow> int \<Rightarrow> int" where "dtogd fs d = d smod fs_fpg fs"

text \<open>\<open>blkmap\<close> extracts the bits of one block from a bit map that starts at offset \<open>a\<close>.\<close>

definition blkmap :: "fs \<Rightarrow> mem \<Rightarrow> int \<Rightarrow> int \<Rightarrow> int" where
  "blkmap fs m a loc =
     drop_bit (nat (loc mod 8)) (uint (m (a + loc div 8))) AND drop_bit (nat (8 - fs_frag fs)) 0xff"

definition blkoff :: "fs \<Rightarrow> int \<Rightarrow> int" where "blkoff fs loc = loc AND fs_qbmask fs"
definition fragoff :: "fs \<Rightarrow> int \<Rightarrow> int" where "fragoff fs loc = loc AND fs_qfmask fs"
definition lblkno :: "fs \<Rightarrow> int \<Rightarrow> int" where "lblkno fs loc = drop_bit (nat (fs_bshift fs)) loc"
definition numfrags :: "fs \<Rightarrow> int \<Rightarrow> int" where "numfrags fs loc = drop_bit (nat (fs_fshift fs)) loc"
definition fragroundup :: "fs \<Rightarrow> int \<Rightarrow> int" where
  "fragroundup fs sz = (sz + fs_qfmask fs) AND fs_fmask fs"
definition fragnum :: "fs \<Rightarrow> int \<Rightarrow> int" where "fragnum fs fsb = fsb AND (fs_frag fs - 1)"
definition blknum :: "fs \<Rightarrow> int \<Rightarrow> int" where "blknum fs fsb = fsb AND NOT (fs_frag fs - 1)"

definition freespace :: "fs \<Rightarrow> int \<Rightarrow> int" where
  "freespace fs percentreserved =
     blkstofrags fs (cs_nbfree (fs_cstotal fs)) + cs_nffree (fs_cstotal fs)
     - (fs_dsize fs * percentreserved) sdiv 100"

definition max_symlinklen :: "fs \<Rightarrow> int" where "max_symlinklen fs = fs_maxsymlinklen fs"

subsection \<open>Valid super blocks\<close>

definition fs_ok :: "fs \<Rightarrow> bool" where
  "fs_ok fs \<longleftrightarrow>
     0 \<le> fs_bshift fs \<and> 0 \<le> fs_fshift fs \<and> 0 \<le> fs_fragshift fs \<and> 0 \<le> fs_fsbtodb fs \<and>
     fs_bsize fs = 2 ^ nat (fs_bshift fs) \<and> fs_fsize fs = 2 ^ nat (fs_fshift fs) \<and>
     fs_frag fs = 2 ^ nat (fs_fragshift fs) \<and> fs_bsize fs = fs_frag fs * fs_fsize fs \<and>
     fs_frag fs \<in> {1, 2, 4, 8} \<and>
     fs_bmask fs = - fs_bsize fs \<and> fs_fmask fs = - fs_fsize fs \<and>
     fs_qbmask fs = fs_bsize fs - 1 \<and> fs_qfmask fs = fs_fsize fs - 1 \<and>
     fs_nindir fs = fs_bsize fs div 8 \<and> 0 < fs_nindir fs \<and>
     0 < fs_ncg fs \<and> 0 < fs_ipg fs \<and> 0 < fs_inopb fs \<and>
     0 < fs_fpg fs \<and> fs_fpg fs mod fs_frag fs = 0 \<and> fs_fpg fs mod 8 = 0 \<and>
     0 < fs_cgsize fs \<and> fs_cgsize fs \<le> fs_bsize fs"

lemma fs_okD:
  assumes "fs_ok fs"
  shows "fs_bsize fs = 2 ^ nat (fs_bshift fs)" "fs_fsize fs = 2 ^ nat (fs_fshift fs)"
    "fs_frag fs = 2 ^ nat (fs_fragshift fs)" "fs_bsize fs = fs_frag fs * fs_fsize fs"
    "fs_frag fs \<in> {1, 2, 4, 8}" "fs_bmask fs = - fs_bsize fs" "fs_fmask fs = - fs_fsize fs"
    "fs_qbmask fs = fs_bsize fs - 1" "fs_qfmask fs = fs_fsize fs - 1"
    "fs_nindir fs = fs_bsize fs div 8" "0 < fs_nindir fs"
    "0 < fs_ncg fs" "0 < fs_ipg fs" "0 < fs_inopb fs" "0 < fs_fpg fs"
    "fs_fpg fs mod fs_frag fs = 0" "fs_fpg fs mod 8 = 0" "0 < fs_cgsize fs"
    "fs_cgsize fs \<le> fs_bsize fs"
  using assms unfolding fs_ok_def by - (elim conjE, assumption)+

lemma fs_ok_pos:
  assumes "fs_ok fs"
  shows "0 < fs_bsize fs" "0 < fs_fsize fs" "0 < fs_frag fs"
  unfolding fs_okD(1-3) [OF assms] by simp_all

lemma and_mask_mod: "(x :: int) AND (2 ^ n - 1) = x mod 2 ^ n"
  by (metis mask_eq_exp_minus_1 take_bit_eq_mask take_bit_eq_mod)

lemma and_neg_exp: "(x :: int) AND (- (2 ^ n)) = x div 2 ^ n * 2 ^ n"
proof -
  have "x AND (- (2 ^ n)) = push_bit n (drop_bit n x)"
    by (rule bit_eqI) (auto simp: minus_exp_eq_not_mask bit_simps)
  then show ?thesis
    by (simp add: push_bit_eq_mult drop_bit_eq_div)
qed

lemma macro_div_mod [fs_macros]:
  assumes "fs_ok fs"
  shows "lblkno fs x = x div fs_bsize fs"
    and "numfrags fs x = x div fs_fsize fs"
    and "fragstoblks fs x = x div fs_frag fs"
    and "blkstofrags fs x = x * fs_frag fs"
    and "blkoff fs x = x mod fs_bsize fs"
    and "fragoff fs x = x mod fs_fsize fs"
    and "fragnum fs x = x mod fs_frag fs"
    and "blknum fs x = x div fs_frag fs * fs_frag fs"
    and "fragroundup fs x = (x + (fs_fsize fs - 1)) div fs_fsize fs * fs_fsize fs"
proof -
  note d = fs_okD [OF assms]
  show "lblkno fs x = x div fs_bsize fs"
    by (simp add: lblkno_def drop_bit_eq_div d(1))
  show "numfrags fs x = x div fs_fsize fs"
    by (simp add: numfrags_def drop_bit_eq_div d(2))
  show "fragstoblks fs x = x div fs_frag fs"
    by (simp add: fragstoblks_def drop_bit_eq_div d(3))
  show "blkstofrags fs x = x * fs_frag fs"
    by (simp add: blkstofrags_def push_bit_eq_mult d(3))
  show "blkoff fs x = x mod fs_bsize fs"
    by (simp only: blkoff_def d(8) d(1) and_mask_mod)
  show "fragoff fs x = x mod fs_fsize fs"
    by (simp only: fragoff_def d(9) d(2) and_mask_mod)
  show "fragnum fs x = x mod fs_frag fs"
    by (simp only: fragnum_def d(3) and_mask_mod)
  have "NOT (fs_frag fs - 1) = - (2 ^ nat (fs_fragshift fs))"
    by (simp add: not_int_def d(3))
  then show "blknum fs x = x div fs_frag fs * fs_frag fs"
    by (simp only: blknum_def and_neg_exp) (simp only: d(3))
  show "fragroundup fs x = (x + (fs_fsize fs - 1)) div fs_fsize fs * fs_fsize fs"
    by (simp only: fragroundup_def d(9) d(7)) (simp only: d(2) and_neg_exp)
qed

text \<open>The rounded size is the least multiple of the fragment size that holds the bytes.\<close>

lemma round_up_bounds:
  assumes "0 < (f :: int)"
  shows "x \<le> (x + (f - 1)) div f * f" and "(x + (f - 1)) div f * f < x + f"
proof -
  have dm: "(x + (f - 1)) div f * f + (x + (f - 1)) mod f = x + (f - 1)"
    by (rule div_mult_mod_eq)
  have m: "0 \<le> (x + (f - 1)) mod f" "(x + (f - 1)) mod f < f"
    using assms by simp_all
  show "x \<le> (x + (f - 1)) div f * f" using dm m by linarith
  show "(x + (f - 1)) div f * f < x + f" using dm m by linarith
qed

lemma fsbtodb_eq: "fsbtodb fs b = b * 2 ^ nat (fs_fsbtodb fs)"
  by (simp add: fsbtodb_def push_bit_eq_mult)

subsection \<open>A sample super block\<close>

text \<open>
  The geometry of a small UFS2 file system, for the examples: blocks of 4096 bytes in eight
  fragments, two cylinder groups of 1024 fragments and 64 inodes each.
\<close>

definition csum_ex :: csum where
  "csum_ex = \<lparr>cs_ndir = 1, cs_nbfree = 10, cs_nifree = 20, cs_nffree = 3\<rparr>"

definition fs_ex :: fs where
  "fs_ex = \<lparr>fs_sblkno = 16, fs_cblkno = 24, fs_iblkno = 32, fs_dblkno = 64, fs_old_cgoffset = 0,
     fs_old_cgmask = -1, fs_ncg = 2, fs_bsize = 4096, fs_fsize = 512, fs_frag = 8, fs_minfree = 8,
     fs_bmask = -4096, fs_fmask = -512, fs_bshift = 12, fs_fshift = 9, fs_fragshift = 3,
     fs_fsbtodb = 0, fs_nindir = 512, fs_inopb = 16, fs_cssize = 512, fs_cgsize = 1024,
     fs_ipg = 64, fs_fpg = 1024, fs_fmod = 0, fs_ronly = 0, fs_contigdirs = (\<lambda>_. 0),
     fs_csp = (\<lambda>_. csum_ex), fs_maxcluster = (\<lambda>_. 0), fs_sblockloc = 65536,
     fs_cstotal = csum_ex, fs_size = 2048, fs_dsize = 1900, fs_csaddr = 64, fs_pendingblocks = 0,
     fs_pendinginodes = 0, fs_avgfilesize = 16384, fs_avgfpdir = 64, fs_contigsumsize = 8,
     fs_maxsymlinklen = 120, fs_qbmask = 4095, fs_qfmask = 511, fs_magic = FS_UFS2_MAGIC\<rparr>"

lemma fs_ok_ex [simp]: "fs_ok fs_ex"
  by (simp add: fs_ok_def fs_ex_def)

end
