(* ===== verification/Ufs_Disk.thy ===== *)
theory Ufs_Disk
  imports Ufs_Fs
begin

section \<open>The disk handle and block I/O (libufs/libufs.h, block.c, type.c, sblock.c, cgroup.c)\<close>

text \<open>
  \<open>struct uufsd\<close> as the record \<open>uufsd\<close>. The fields from \<open>dev_data\<close> on are the
  environment the code calls: the bytes of the device, the byte counts \<open>pread\<close> and
  \<open>pwrite\<close> return for an offset and a size (-1 for an error), the descriptor
  \<open>open(d_name, O_RDWR)\<close> gives, the clock, the \<open>rand\<close> sequence with the number of calls
  made so far, whether \<open>malloc\<close> succeeds, and what freshly allocated memory holds. The
  diagnostic string \<open>d_error\<close> is not part of the model. The bounce buffers that
  \<open>bread\<close> and \<open>bwrite\<close> use for unaligned memory do not change what is transferred.
\<close>

record uufsd =
  d_ufs :: int
  d_fd :: int
  d_bsize :: int
  d_sblock :: int
  d_inoblock :: "mem option"
  d_inomin :: int
  d_inomax :: int
  d_fs :: fs
  d_sb :: mem
  d_buf :: mem
  d_ccg :: int
  d_lcg :: int
  d_mine :: int
  d_now :: int
  dev_data :: mem
  dev_pread :: "int \<Rightarrow> int \<Rightarrow> int"
  dev_pwrite :: "int \<Rightarrow> int \<Rightarrow> int"
  dev_open_rw :: int
  env_time :: int
  env_rand :: "nat \<Rightarrow> int"
  env_nrand :: nat
  env_mem :: bool
  env_junk :: mem

definition MINE_WRITE :: int where [simp]: "MINE_WRITE = 2"
definition MAXBSIZE :: int where [simp]: "MAXBSIZE = 65536"
definition SBLOCKSIZE :: int where [simp]: "SBLOCKSIZE = 8192"
definition SIZEOF_FS :: int where [simp]: "SIZEOF_FS = 1376"
definition FS_UFS2_CIGAM :: int where [simp]: "FS_UFS2_CIGAM = 0x19015419"

definition c_rand :: "uufsd \<Rightarrow> int \<times> uufsd" where
  "c_rand s = (env_rand s (env_nrand s), s\<lparr>env_nrand := Suc (env_nrand s)\<rparr>)"

subsection \<open>block.c and type.c\<close>

definition bread :: "int \<Rightarrow> mem \<Rightarrow> int \<Rightarrow> uufsd \<Rightarrow> int \<times> mem" where
  "bread blockno data sz s =
     (let off = blockno * d_bsize s;
          cnt = (if d_fd s < 0 then -1 else dev_pread s off sz)
      in if cnt = -1 \<or> cnt = 0 \<or> cnt \<noteq> sz then (-1, memset data 0 0 sz)
         else (cnt, memcpy data 0 (dev_data s) off sz))"

definition ufs_disk_write :: "uufsd \<Rightarrow> int \<times> uufsd" where
  "ufs_disk_write s =
     (if d_mine s AND MINE_WRITE \<noteq> 0 then (0, s)
      else let s = s\<lparr>d_fd := dev_open_rw s\<rparr>
           in if d_fd s < 0 then (-1, s) else (0, s\<lparr>d_mine := d_mine s OR MINE_WRITE\<rparr>))"

definition bwrite :: "int \<Rightarrow> mem \<Rightarrow> int \<Rightarrow> uufsd \<Rightarrow> int \<times> uufsd" where
  "bwrite blockno data sz s =
     (let (rv, s) = ufs_disk_write s
      in if rv = -1 then (-1, s)
         else let off = blockno * d_bsize s;
                  cnt = dev_pwrite s off sz;
                  s = s\<lparr>dev_data := memcpy (dev_data s) off data 0 cnt\<rparr>
              in if cnt = -1 then (-1, s) else if cnt \<noteq> sz then (-1, s) else (cnt, s))"

definition blkread :: "int \<Rightarrow> mem \<Rightarrow> int \<Rightarrow> uufsd \<Rightarrow> int \<times> mem" where
  "blkread blockno data sz s = bread blockno data sz s"

definition blkwrite :: "int \<Rightarrow> mem \<Rightarrow> int \<Rightarrow> uufsd \<Rightarrow> int \<times> uufsd" where
  "blkwrite blockno data sz s = bwrite blockno data sz s"

text \<open>
  The state in which I/O works: an open descriptor, already reopened for writing, a device
  whose transfers are complete, and memory to allocate.
\<close>

definition io_ok :: "uufsd \<Rightarrow> bool" where
  "io_ok s \<longleftrightarrow>
     0 \<le> d_fd s \<and> d_mine s AND MINE_WRITE \<noteq> 0 \<and> env_mem s \<and> 0 < d_bsize s \<and>
     (\<forall>off n. 0 \<le> off \<longrightarrow> 0 < n \<longrightarrow> dev_pread s off n = n \<and> dev_pwrite s off n = n)"

lemma io_ok_mem [simp]: "io_ok s \<Longrightarrow> env_mem s"
  by (simp add: io_ok_def)

lemma bread_ok [io_simps]:
  assumes "io_ok s" and "0 \<le> b" and "0 < n"
  shows "bread b m n s = (n, memcpy m 0 (dev_data s) (b * d_bsize s) n)"
  using assms by (auto simp: bread_def io_ok_def Let_def)

lemma bwrite_ok [io_simps]:
  assumes "io_ok s" and "0 \<le> b" and "0 < n"
  shows "bwrite b m n s = (n, s\<lparr>dev_data := memcpy (dev_data s) (b * d_bsize s) m 0 n\<rparr>)"
  using assms by (auto simp: bwrite_def ufs_disk_write_def io_ok_def Let_def)

lemma blkread_ok [io_simps]:
  assumes "io_ok s" and "0 \<le> b" and "0 < n"
  shows "blkread b m n s = (n, memcpy m 0 (dev_data s) (b * d_bsize s) n)"
  using assms by (simp add: blkread_def bread_ok)

lemma blkwrite_ok [io_simps]:
  assumes "io_ok s" and "0 \<le> b" and "0 < n"
  shows "blkwrite b m n s = (n, s\<lparr>dev_data := memcpy (dev_data s) (b * d_bsize s) m 0 n\<rparr>)"
  using assms by (simp add: blkwrite_def bwrite_ok)

lemma io_ok_update [simp]:
  "io_ok (s\<lparr>dev_data := m\<rparr>) = io_ok s"
  "io_ok (s\<lparr>d_fs := f\<rparr>) = io_ok s"
  "io_ok (s\<lparr>d_inoblock := i\<rparr>) = io_ok s"
  "io_ok (s\<lparr>d_inomin := x\<rparr>) = io_ok s"
  "io_ok (s\<lparr>d_inomax := x\<rparr>) = io_ok s"
  "io_ok (s\<lparr>env_nrand := k\<rparr>) = io_ok s"
  by (simp_all add: io_ok_def)

subsection \<open>The cylinder group (struct cg)\<close>

text \<open>
  A cylinder group lives in a buffer that is read from and written to the disk as it is, so
  its fields are loads and stores at the offsets of \<open>struct cg\<close>; the bit maps and the cluster
  summary start at the offsets the group itself records.
\<close>

definition cg_magic :: "mem \<Rightarrow> int" where "cg_magic c = ld32 c 4"
definition cg_cgx :: "mem \<Rightarrow> int" where "cg_cgx c = ld32 c 12"
definition cg_ndir :: "mem \<Rightarrow> int" where "cg_ndir c = ld32 c 24"
definition cg_nbfree :: "mem \<Rightarrow> int" where "cg_nbfree c = ld32 c 28"
definition cg_nifree :: "mem \<Rightarrow> int" where "cg_nifree c = ld32 c 32"
definition cg_nffree :: "mem \<Rightarrow> int" where "cg_nffree c = ld32 c 36"
definition cg_rotor :: "mem \<Rightarrow> int" where "cg_rotor c = ld32 c 40"
definition cg_frotor :: "mem \<Rightarrow> int" where "cg_frotor c = ld32 c 44"
definition cg_irotor :: "mem \<Rightarrow> int" where "cg_irotor c = ld32 c 48"
definition cg_frsum :: "mem \<Rightarrow> int \<Rightarrow> int" where "cg_frsum c i = ld32 c (52 + 4 * i)"
definition cg_iusedoff :: "mem \<Rightarrow> int" where "cg_iusedoff c = ld32 c 92"
definition cg_freeoff :: "mem \<Rightarrow> int" where "cg_freeoff c = ld32 c 96"
definition cg_clustersumoff :: "mem \<Rightarrow> int" where "cg_clustersumoff c = ld32 c 104"
definition cg_clusteroff :: "mem \<Rightarrow> int" where "cg_clusteroff c = ld32 c 108"
definition cg_nclusterblks :: "mem \<Rightarrow> int" where "cg_nclusterblks c = ld32 c 112"
definition cg_niblk :: "mem \<Rightarrow> int" where "cg_niblk c = ld32 c 116"
definition cg_initediblk :: "mem \<Rightarrow> int" where "cg_initediblk c = ld32 c 120"

definition cg_chkmagic :: "mem \<Rightarrow> bool" where "cg_chkmagic c \<longleftrightarrow> cg_magic c = CG_MAGIC"

definition set_ndir :: "mem \<Rightarrow> int \<Rightarrow> mem" where "set_ndir c v = st32 c 24 v"
definition set_nbfree :: "mem \<Rightarrow> int \<Rightarrow> mem" where "set_nbfree c v = st32 c 28 v"
definition set_nifree :: "mem \<Rightarrow> int \<Rightarrow> mem" where "set_nifree c v = st32 c 32 v"
definition set_nffree :: "mem \<Rightarrow> int \<Rightarrow> mem" where "set_nffree c v = st32 c 36 v"
definition set_rotor :: "mem \<Rightarrow> int \<Rightarrow> mem" where "set_rotor c v = st32 c 40 v"
definition set_frotor :: "mem \<Rightarrow> int \<Rightarrow> mem" where "set_frotor c v = st32 c 44 v"
definition set_irotor :: "mem \<Rightarrow> int \<Rightarrow> mem" where "set_irotor c v = st32 c 48 v"
definition set_frsum :: "mem \<Rightarrow> int \<Rightarrow> int \<Rightarrow> mem" where "set_frsum c i v = st32 c (52 + 4 * i) v"
definition set_initediblk :: "mem \<Rightarrow> int \<Rightarrow> mem" where "set_initediblk c v = st32 c 120 v"

text \<open>\<open>cgp->cg_old_time = cgp->cg_time = time(NULL)\<close>\<close>

definition set_cg_time :: "mem \<Rightarrow> int \<Rightarrow> mem" where "set_cg_time c t = st32 (st64 c 136 t) 8 t"

lemmas cg_get_defs = cg_magic_def cg_cgx_def cg_ndir_def cg_nbfree_def cg_nifree_def
  cg_nffree_def cg_rotor_def cg_frotor_def cg_irotor_def cg_frsum_def cg_iusedoff_def
  cg_freeoff_def cg_clustersumoff_def cg_clusteroff_def cg_nclusterblks_def cg_niblk_def
  cg_initediblk_def

lemmas cg_set_defs = set_ndir_def set_nbfree_def set_nifree_def set_nffree_def set_rotor_def
  set_frotor_def set_irotor_def set_frsum_def set_initediblk_def set_cg_time_def

lemmas cg_defs = cg_get_defs cg_set_defs cg_chkmagic_def

end
