(* ===== verification/Ufs_Bitmap.thy ===== *)
theory Ufs_Bitmap
  imports Ufs_Disk
begin

section \<open>Block maps, fragment tables and cluster summaries (fuse-ufs-tables.c, fuse-inodeops.c)\<close>

text \<open>
  The bit-level routines of the allocator. \<open>ffs_isblock\<close>, \<open>ffs_isfreeblock\<close>,
  \<open>ffs_clrblock\<close> and \<open>ffs_setblock\<close> treat the fragment map as a map of blocks;
  \<open>scanc\<close> and \<open>ffs_mapsearch\<close> search it with the precomputed tables;
  \<open>ffs_fragacct\<close> and \<open>ffs_clusteracct\<close> keep the counts of free fragment runs and of free
  block clusters. The lemmas of this theory say which bits the block operations read and
  change; those on the searches and counts are in \<open>Ufs_Search\<close>.
\<close>

subsection \<open>Tables\<close>

definition around :: "int list" where
  "around = [3, 7, 15, 31, 63, 127, 255, 511, 1023]"

definition inside :: "int list" where
  "inside = [0, 2, 6, 14, 30, 62, 126, 254, 510]"

definition fragtbl124 :: "int list" where
  "fragtbl124 = [
     0, 22, 22, 42, 22, 22, 38, 78, 22, 22, 22, 62, 42, 62, 78, 138,
     22, 22, 22, 62, 22, 22, 54, 94, 22, 22, 22, 62, 62, 62, 94, 158,
     22, 22, 22, 62, 22, 22, 54, 94, 22, 22, 22, 62, 62, 62, 94, 158,
     42, 62, 62, 42, 62, 62, 46, 110, 62, 62, 62, 62, 42, 62, 110, 170,
     22, 22, 22, 62, 22, 22, 54, 94, 22, 22, 22, 62, 62, 62, 94, 158,
     22, 22, 22, 62, 22, 22, 54, 94, 22, 22, 22, 62, 62, 62, 94, 158,
     38, 54, 54, 46, 54, 54, 38, 110, 54, 54, 54, 62, 46, 62, 110, 174,
     78, 94, 94, 110, 94, 94, 110, 78, 94, 94, 94, 126, 110, 126, 78, 206,
     22, 22, 22, 62, 22, 22, 54, 94, 22, 22, 22, 62, 62, 62, 94, 158,
     22, 22, 22, 62, 22, 22, 54, 94, 22, 22, 22, 62, 62, 62, 94, 158,
     22, 22, 22, 62, 22, 22, 54, 94, 22, 22, 22, 62, 62, 62, 94, 158,
     62, 62, 62, 62, 62, 62, 62, 126, 62, 62, 62, 62, 62, 62, 126, 190,
     42, 62, 62, 42, 62, 62, 46, 110, 62, 62, 62, 62, 42, 62, 110, 170,
     62, 62, 62, 62, 62, 62, 62, 126, 62, 62, 62, 62, 62, 62, 126, 190,
     78, 94, 94, 110, 94, 94, 110, 78, 94, 94, 94, 126, 110, 126, 78, 206,
     138, 158, 158, 170, 158, 158, 174, 206, 158, 158, 158, 190, 170, 190, 206, 138]"

definition fragtbl8 :: "int list" where
  "fragtbl8 = [
     0, 1, 1, 2, 1, 1, 2, 4, 1, 1, 1, 3, 2, 3, 4, 8,
     1, 1, 1, 3, 1, 1, 3, 5, 2, 3, 3, 2, 4, 5, 8, 16,
     1, 1, 1, 3, 1, 1, 3, 5, 1, 1, 1, 3, 3, 3, 5, 9,
     2, 3, 3, 2, 3, 3, 2, 6, 4, 5, 5, 6, 8, 9, 16, 32,
     1, 1, 1, 3, 1, 1, 3, 5, 1, 1, 1, 3, 3, 3, 5, 9,
     1, 1, 1, 3, 1, 1, 3, 5, 3, 3, 3, 3, 5, 5, 9, 17,
     2, 3, 3, 2, 3, 3, 2, 6, 3, 3, 3, 3, 2, 3, 6, 10,
     4, 5, 5, 6, 5, 5, 6, 4, 8, 9, 9, 10, 16, 17, 32, 64,
     1, 1, 1, 3, 1, 1, 3, 5, 1, 1, 1, 3, 3, 3, 5, 9,
     1, 1, 1, 3, 1, 1, 3, 5, 3, 3, 3, 3, 5, 5, 9, 17,
     1, 1, 1, 3, 1, 1, 3, 5, 1, 1, 1, 3, 3, 3, 5, 9,
     3, 3, 3, 3, 3, 3, 3, 7, 5, 5, 5, 7, 9, 9, 17, 33,
     2, 3, 3, 2, 3, 3, 2, 6, 3, 3, 3, 3, 2, 3, 6, 10,
     3, 3, 3, 3, 3, 3, 3, 7, 2, 3, 3, 2, 6, 7, 10, 18,
     4, 5, 5, 6, 5, 5, 6, 4, 5, 5, 5, 7, 6, 7, 4, 12,
     8, 9, 9, 10, 9, 9, 10, 12, 16, 17, 17, 18, 32, 33, 64, 128]"

text \<open>The array of table pointers; \<open>None\<close> is the null pointer.\<close>

definition fragtbl :: "int \<Rightarrow> int list option" where
  "fragtbl frag =
     (if frag = 1 \<or> frag = 2 \<or> frag = 4 then Some fragtbl124
      else if frag = 8 then Some fragtbl8 else None)"

subsection \<open>Blocks in the fragment map\<close>

text \<open>\<open>cp\<close> is the offset of the map in the buffer \<open>m\<close>, \<open>h\<close> the number of the block.\<close>

definition ffs_isblock :: "fs \<Rightarrow> mem \<Rightarrow> int \<Rightarrow> int \<Rightarrow> bool" where
  "ffs_isblock fs m cp h =
     (if fs_frag fs = 8 then m (cp + h) = 0xff
      else if fs_frag fs = 4 then
        (let msk = push_bit (nat (push_bit 2 (h AND 0x1))) 0x0f
         in m (cp + drop_bit 1 h) AND msk = msk)
      else if fs_frag fs = 2 then
        (let msk = push_bit (nat (push_bit 1 (h AND 0x3))) 0x03
         in m (cp + drop_bit 2 h) AND msk = msk)
      else if fs_frag fs = 1 then
        (let msk = push_bit (nat (h AND 0x7)) 0x01
         in m (cp + drop_bit 3 h) AND msk = msk)
      else False)"

definition ffs_isfreeblock :: "fs \<Rightarrow> mem \<Rightarrow> int \<Rightarrow> int \<Rightarrow> bool option" where
  "ffs_isfreeblock fs m cp h =
     (if fs_frag fs = 8 then Some (m (cp + h) = 0)
      else if fs_frag fs = 4 then
        Some (m (cp + drop_bit 1 h) AND push_bit (nat (push_bit 2 (h AND 0x1))) 0x0f = 0)
      else if fs_frag fs = 2 then
        Some (m (cp + drop_bit 2 h) AND push_bit (nat (push_bit 1 (h AND 0x3))) 0x03 = 0)
      else if fs_frag fs = 1 then
        Some (m (cp + drop_bit 3 h) AND push_bit (nat (h AND 0x7)) 0x01 = 0)
      else None)"

definition ffs_clrblock :: "fs \<Rightarrow> mem \<Rightarrow> int \<Rightarrow> int \<Rightarrow> mem" where
  "ffs_clrblock fs m cp h =
     (if fs_frag fs = 8 then m(cp + h := 0)
      else if fs_frag fs = 4 then
        (let i = cp + drop_bit 1 h
         in m(i := m i AND NOT (push_bit (nat (push_bit 2 (h AND 0x1))) 0x0f)))
      else if fs_frag fs = 2 then
        (let i = cp + drop_bit 2 h
         in m(i := m i AND NOT (push_bit (nat (push_bit 1 (h AND 0x3))) 0x03)))
      else if fs_frag fs = 1 then
        (let i = cp + drop_bit 3 h
         in m(i := m i AND NOT (push_bit (nat (h AND 0x7)) 0x01)))
      else m)"

definition ffs_setblock :: "fs \<Rightarrow> mem \<Rightarrow> int \<Rightarrow> int \<Rightarrow> mem option" where
  "ffs_setblock fs m cp h =
     (if fs_frag fs = 8 then Some (m(cp + h := 0xff))
      else if fs_frag fs = 4 then
        (let i = cp + drop_bit 1 h
         in Some (m(i := m i OR push_bit (nat (push_bit 2 (h AND 0x1))) 0x0f)))
      else if fs_frag fs = 2 then
        (let i = cp + drop_bit 2 h
         in Some (m(i := m i OR push_bit (nat (push_bit 1 (h AND 0x3))) 0x03)))
      else if fs_frag fs = 1 then
        (let i = cp + drop_bit 3 h
         in Some (m(i := m i OR push_bit (nat (h AND 0x7)) 0x01)))
      else None)"

subsection \<open>Searching the map\<close>

function scanc_loop :: "mem \<Rightarrow> int list \<Rightarrow> int \<Rightarrow> int \<Rightarrow> int \<Rightarrow> int" where
  "scanc_loop m table msk cp end =
     (if cp < end then
        (if table ! nat (uint (m cp)) AND msk \<noteq> 0 then end - cp
         else scanc_loop m table msk (cp + 1) end)
      else end - cp)"
  by pat_completeness auto
termination by (relation "measure (\<lambda>(m, t, k, cp, end). nat (end - cp))") auto

declare scanc_loop.simps [simp del]

definition scanc :: "mem \<Rightarrow> int \<Rightarrow> int \<Rightarrow> int list \<Rightarrow> int \<Rightarrow> int" where
  "scanc m sz cp table mask0 = scanc_loop m table (u8 mask0) cp (cp + sz)"

text \<open>The inner loop of \<open>ffs_mapsearch\<close>: the first position where the pattern matches.\<close>

function frag_pos :: "int \<Rightarrow> int \<Rightarrow> int \<Rightarrow> int \<Rightarrow> int \<Rightarrow> int option" where
  "frag_pos blk field subfield pos lim =
     (if pos \<le> lim then
        (if blk AND field = subfield then Some pos
         else frag_pos blk (push_bit 1 field) (push_bit 1 subfield) (pos + 1) lim)
      else None)"
  by pat_completeness auto
termination by (relation "measure (\<lambda>(b, f, g, p, l). nat (l + 1 - p))") auto

declare frag_pos.simps [simp del]

text \<open>The outer loop, over the blocks of one byte of the map; the fragment count is positive here.\<close>

function map_sift :: "fs \<Rightarrow> mem \<Rightarrow> int \<Rightarrow> int \<Rightarrow> int \<Rightarrow> int \<Rightarrow> int" where
  "map_sift fs m a allocsiz bno i =
     (if bno < i \<and> 0 < fs_frag fs then
        (case frag_pos (push_bit 1 (blkmap fs m a bno)) (around ! nat allocsiz)
                (inside ! nat allocsiz) 0 (fs_frag fs - allocsiz) of
           Some pos \<Rightarrow> bno + pos
         | None \<Rightarrow> map_sift fs m a allocsiz (bno + fs_frag fs) i)
      else -1)"
  by pat_completeness auto
termination by (relation "measure (\<lambda>(fs, m, a, s, b, i). nat (i - b))") auto

declare map_sift.simps [simp del]

definition ffs_mapsearch :: "fs \<Rightarrow> mem \<Rightarrow> int \<Rightarrow> int \<Rightarrow> (int \<times> mem) option" where
  "ffs_mapsearch fs cgp bpref allocsiz =
     do {
       tbl \<leftarrow> fragtbl (fs_frag fs);
       let start = (if bpref \<noteq> 0 then dtogd fs bpref sdiv NBBY else cg_frotor cgp sdiv NBBY);
       let blksfree = cg_freeoff cgp;
       let len = howmany (fs_fpg fs) NBBY - start;
       let msk = push_bit (nat (allocsiz - 1 + fs_frag fs mod NBBY)) 1;
       let loc = scanc cgp len (blksfree + start) tbl msk;
       let (start, len, loc) =
         (if loc = 0 then (0, start + 1, scanc cgp (start + 1) blksfree tbl msk)
          else (start, len, loc));
       let bno = (start + len - loc) * NBBY;
       let cgp = set_frotor cgp bno;
       Some (map_sift fs cgp blksfree allocsiz bno (bno + NBBY), cgp)
     }"

subsection \<open>Accounting\<close>

text \<open>The inner loop of \<open>ffs_fragacct\<close>; \<open>fl\<close> is the offset of the count array.\<close>

function fragacct_pos :: "mem \<Rightarrow> int \<Rightarrow> int \<Rightarrow> int \<Rightarrow> int \<Rightarrow> int \<Rightarrow> int \<Rightarrow> int \<Rightarrow> int \<Rightarrow> mem" where
  "fragacct_pos m fl cnt frag fragmap siz field subfield pos =
     (if pos \<le> frag then
        (if fragmap AND field = subfield then
           fragacct_pos (st32 m (fl + 4 * siz) (ld32 m (fl + 4 * siz) + cnt)) fl cnt frag fragmap siz
             (push_bit 1 (push_bit (nat siz) field)) (push_bit 1 (push_bit (nat siz) subfield))
             (pos + int (nat siz) + 1)
         else fragacct_pos m fl cnt frag fragmap siz (push_bit 1 field) (push_bit 1 subfield) (pos + 1))
      else m)"
  by pat_completeness auto
termination by (relation "measure (\<lambda>(m, fl, c, f, fm, s, a, b, p). nat (f + 1 - p))") auto

declare fragacct_pos.simps [simp del]

function fragacct_siz :: "mem \<Rightarrow> int \<Rightarrow> int \<Rightarrow> int \<Rightarrow> int \<Rightarrow> int \<Rightarrow> int \<Rightarrow> mem" where
  "fragacct_siz m fl cnt frag inblk fragmap siz =
     (if siz < frag then
        fragacct_siz
          (if inblk AND push_bit (nat (siz + frag mod NBBY)) 1 = 0 then m
           else fragacct_pos m fl cnt frag fragmap siz (around ! nat siz) (inside ! nat siz) siz)
          fl cnt frag inblk fragmap (siz + 1)
      else m)"
  by pat_completeness auto
termination by (relation "measure (\<lambda>(m, fl, c, f, i, fm, s). nat (f - s))") auto

declare fragacct_siz.simps [simp del]

definition ffs_fragacct :: "fs \<Rightarrow> int \<Rightarrow> mem \<Rightarrow> int \<Rightarrow> int \<Rightarrow> mem option" where
  "ffs_fragacct fs fragmap m fl cnt =
     do {
       tbl \<leftarrow> fragtbl (fs_frag fs);
       let inblk = push_bit 1 (tbl ! nat fragmap);
       Some (fragacct_siz m fl cnt (fs_frag fs) inblk (push_bit 1 fragmap) 1)
     }"

text \<open>
  The two scans of \<open>ffs_clusteracct\<close>, with the byte \<open>mp\<close> and the one-bit mask \<open>bt\<close> the code
  carries from one step to the next. For block 0 the backward scan starts at -1 and makes no
  step; the shift by a negative count that the code evaluates there is not used.
\<close>

function clus_forw :: "mem \<Rightarrow> int \<Rightarrow> int \<Rightarrow> int \<Rightarrow> int \<Rightarrow> int \<Rightarrow> int" where
  "clus_forw m mapp mp bt i end =
     (if i < end then
        (if mp AND bt = 0 then i
         else if i AND (NBBY - 1) \<noteq> NBBY - 1 then clus_forw m mapp mp (push_bit 1 bt) (i + 1) end
         else clus_forw m (mapp + 1) (uint (m mapp)) 1 (i + 1) end)
      else i)"
  by pat_completeness auto
termination by (relation "measure (\<lambda>(m, p, mp, b, i, e). nat (e - i))") auto

declare clus_forw.simps [simp del]

function clus_back :: "mem \<Rightarrow> int \<Rightarrow> int \<Rightarrow> int \<Rightarrow> int \<Rightarrow> int \<Rightarrow> int" where
  "clus_back m mapp mp bt i end =
     (if i > end then
        (if mp AND bt = 0 then i
         else if i AND (NBBY - 1) \<noteq> 0 then clus_back m mapp mp (drop_bit 1 bt) (i - 1) end
         else clus_back m (mapp - 1) (uint (m mapp)) (push_bit 7 1) (i - 1) end)
      else i)"
  by pat_completeness auto
termination by (relation "measure (\<lambda>(m, p, mp, b, i, e). nat (i - e))") auto

declare clus_back.simps [simp del]

text \<open>The largest cluster size with a positive count, 0 when there is none.\<close>

function max_cluster :: "mem \<Rightarrow> int \<Rightarrow> int \<Rightarrow> int" where
  "max_cluster m sump i =
     (if i > 0 then (if ld32 m (sump + 4 * i) > 0 then i else max_cluster m sump (i - 1)) else i)"
  by pat_completeness auto
termination by (relation "measure (\<lambda>(m, s, i). nat i)") auto

declare max_cluster.simps [simp del]

definition ffs_clusteracct :: "fs \<Rightarrow> mem \<Rightarrow> int \<Rightarrow> int \<Rightarrow> fs \<times> mem" where
  "ffs_clusteracct fs cgp blkno cnt =
     (if fs_contigsumsize fs \<le> 0 then (fs, cgp)
      else
        let freemapp = cg_clusteroff cgp;
            sump = cg_clustersumoff cgp;
            n = fs_contigsumsize fs;
            cgp = (if cnt > 0 then setbit cgp freemapp blkno else clrbit cgp freemapp blkno);
            start = blkno + 1;
            end = (if start + n \<ge> cg_nclusterblks cgp then cg_nclusterblks cgp else start + n);
            mapp = freemapp + start sdiv NBBY;
            forw = clus_forw cgp (mapp + 1) (uint (cgp mapp)) (push_bit (nat (start smod NBBY)) 1)
                     start end - start;
            start = blkno - 1;
            end = (if start - n < 0 then -1 else start - n);
            mapp = freemapp + start sdiv NBBY;
            back = start - clus_back cgp (mapp - 1) (uint (cgp mapp))
                             (push_bit (nat (start smod NBBY)) 1) start end;
            i = (if back + forw + 1 > n then n else back + forw + 1);
            cgp = st32 cgp (sump + 4 * i) (ld32 cgp (sump + 4 * i) + cnt);
            cgp = (if back > 0 then st32 cgp (sump + 4 * back) (ld32 cgp (sump + 4 * back) - cnt)
                   else cgp);
            cgp = (if forw > 0 then st32 cgp (sump + 4 * forw) (ld32 cgp (sump + 4 * forw) - cnt)
                   else cgp)
        in (fs\<lparr>fs_maxcluster := (fs_maxcluster fs)(cg_cgx cgp := max_cluster cgp sump n)\<rparr>, cgp))"

subsection \<open>Blocks as sets of bits\<close>

lemma and_1_int: "(h :: int) AND 1 = h mod 2"
  and and_3_int: "(h :: int) AND 3 = h mod 4" and and_7_int: "(h :: int) AND 7 = h mod 8"
  using and_mask_mod [of h 1] and_mask_mod [of h 2] and_mask_mod [of h 3] by simp_all

lemma block_shift:
  "(4 :: int) * h div 8 = h div 2" "(4 :: int) * h mod 8 = 4 * (h mod 2)"
  "(2 :: int) * h div 8 = h div 4" "(2 :: int) * h mod 8 = (h mod 4) * 2"
  by presburger+

lemma push_bit_2_int: "push_bit 2 (x :: int) = 4 * x"
  by (simp add: push_bit_eq_mult)

definition frag_valid :: "fs \<Rightarrow> bool" where
  "frag_valid fs \<longleftrightarrow> fs_frag fs \<in> {1, 2, 4, 8}"

lemma frag_cases:
  assumes "frag_valid fs"
  obtains "fs_frag fs = 1" | "fs_frag fs = 2" | "fs_frag fs = 4" | "fs_frag fs = 8"
  using assms by (auto simp: frag_valid_def)

text \<open>The bits of block \<open>h\<close> in its byte.\<close>

definition blkmsk :: "fs \<Rightarrow> int \<Rightarrow> byte" where
  "blkmsk fs h = push_bit (nat (fs_frag fs * h mod 8)) (mask (nat (fs_frag fs)))"

lemma mask_nums: "mask 8 = (0xff :: byte)" "mask 4 = (0x0f :: byte)" "mask 2 = (0x03 :: byte)" "mask (Suc 0) = (0x01 :: byte)"
  by (simp_all add: mask_eq_exp_minus_1)

lemma byte_ff: "(0xff :: byte) = - 1"
  by simp

lemma byte_m256: "(- 256 :: byte) = 0"
  by simp

lemma or_ff: "(w :: byte) OR 0xff = 0xff"
  unfolding byte_ff by (rule bit.disj_one_right)

lemma ffs_setblock_eq:
  assumes "frag_valid fs"
  shows "ffs_setblock fs m cp h =
    Some (m(cp + fs_frag fs * h div 8 := m (cp + fs_frag fs * h div 8) OR blkmsk fs h))"
  using assms
proof (cases rule: frag_cases)
  case 1
  then show ?thesis
    by (simp add: ffs_setblock_def blkmsk_def Let_def mask_nums and_7_int drop_bit_eq_div)
next
  case 2
  then show ?thesis
    by (simp add: ffs_setblock_def blkmsk_def Let_def mask_nums and_3_int drop_bit_eq_div block_shift)
next
  case 3
  then show ?thesis
    by (simp add: ffs_setblock_def blkmsk_def Let_def mask_nums and_1_int drop_bit_eq_div block_shift push_bit_2_int)
next
  case 4
  then show ?thesis
    by (simp add: ffs_setblock_def blkmsk_def Let_def mask_nums or_ff)
qed


lemma ffs_clrblock_eq:
  assumes "frag_valid fs"
  shows "ffs_clrblock fs m cp h =
    m(cp + fs_frag fs * h div 8 := m (cp + fs_frag fs * h div 8) AND NOT (blkmsk fs h))"
  using assms
proof (cases rule: frag_cases)
  case 1
  then show ?thesis
    by (simp add: ffs_clrblock_def blkmsk_def Let_def mask_nums and_7_int drop_bit_eq_div)
next
  case 2
  then show ?thesis
    by (simp add: ffs_clrblock_def blkmsk_def Let_def mask_nums and_3_int drop_bit_eq_div block_shift)
next
  case 3
  then show ?thesis
    by (simp add: ffs_clrblock_def blkmsk_def Let_def mask_nums and_1_int drop_bit_eq_div block_shift push_bit_2_int)
next
  case 4
  then show ?thesis
    by (simp add: ffs_clrblock_def blkmsk_def Let_def mask_nums byte_m256)
qed

lemma and_ff: "(w :: byte) AND 0xff = w"
  unfolding byte_ff by (rule bit.conj_one_right)

lemma ffs_isblock_eq:
  assumes "frag_valid fs"
  shows "ffs_isblock fs m cp h \<longleftrightarrow> m (cp + fs_frag fs * h div 8) AND blkmsk fs h = blkmsk fs h"
  using assms
proof (cases rule: frag_cases)
  case 1
  then show ?thesis
    by (simp add: ffs_isblock_def blkmsk_def Let_def mask_nums and_7_int drop_bit_eq_div)
next
  case 2
  then show ?thesis
    by (simp add: ffs_isblock_def blkmsk_def Let_def mask_nums and_3_int drop_bit_eq_div block_shift)
next
  case 3
  then show ?thesis
    by (simp add: ffs_isblock_def blkmsk_def Let_def mask_nums and_1_int drop_bit_eq_div block_shift push_bit_2_int)
next
  case 4
  then show ?thesis
    by (simp add: ffs_isblock_def blkmsk_def Let_def mask_nums and_ff)
qed

lemma ffs_isfreeblock_eq:
  assumes "frag_valid fs"
  shows "ffs_isfreeblock fs m cp h = Some (m (cp + fs_frag fs * h div 8) AND blkmsk fs h = 0)"
  using assms
proof (cases rule: frag_cases)
  case 1
  then show ?thesis
    by (simp add: ffs_isfreeblock_def blkmsk_def Let_def mask_nums and_7_int drop_bit_eq_div)
next
  case 2
  then show ?thesis
    by (simp add: ffs_isfreeblock_def blkmsk_def Let_def mask_nums and_3_int drop_bit_eq_div block_shift)
next
  case 3
  then show ?thesis
    by (simp add: ffs_isfreeblock_def blkmsk_def Let_def mask_nums and_1_int drop_bit_eq_div block_shift push_bit_2_int)
next
  case 4
  then show ?thesis
    by (simp add: ffs_isfreeblock_def blkmsk_def Let_def mask_nums and_ff)
qed

lemma block_range:
  assumes f: "0 < (f :: int)"
  shows "i div f = h \<longleftrightarrow> f * h \<le> i \<and> i < f * h + f"
proof
  assume h: "i div f = h"
  have "f * h + i mod f = i" unfolding h [symmetric] by simp
  with pos_mod_sign [OF f, of i] pos_mod_bound [OF f, of i] show "f * h \<le> i \<and> i < f * h + f"
    by linarith
next
  assume "f * h \<le> i \<and> i < f * h + f"
  then have "i = f * h + (i - f * h)" "0 \<le> i - f * h" "i - f * h < f" by auto
  then show "i div f = h" by (metis div_mult_self4 div_pos_pos_trivial f less_irrefl add.right_neutral)
qed

lemma frag_in_byte:
  assumes "frag_valid fs"
  shows "fs_frag fs * h mod 8 + fs_frag fs \<le> 8"
  using assms by (cases rule: frag_cases) (simp_all, presburger+)

lemma same_byte:
  assumes "i = 8 * q + r" "e = 8 * p + t" "0 \<le> r" "r < 8" "0 \<le> t" "t + f \<le> (8 :: int)"
  shows "e \<le> i \<and> i < e + f \<longleftrightarrow> q = p \<and> t \<le> r \<and> r < t + f"
proof
  assume a: "e \<le> i \<and> i < e + f"
  then have "q = p" using assms by linarith
  with a show "q = p \<and> t \<le> r \<and> r < t + f" using assms by linarith
qed (use assms in linarith)

lemma frag_block_bit:
  assumes "frag_valid fs"
  shows "i div fs_frag fs = h \<longleftrightarrow>
    i div 8 = fs_frag fs * h div 8 \<and> fs_frag fs * h mod 8 \<le> i mod 8 \<and>
    i mod 8 < fs_frag fs * h mod 8 + fs_frag fs" (is "?L \<longleftrightarrow> ?R")
proof -
  define f where "f = fs_frag fs"
  define e where "e = f * h"
  have f: "0 < f" using assms by (auto simp: frag_valid_def f_def)
  have L: "?L \<longleftrightarrow> e \<le> i \<and> i < e + f"
    using block_range [OF f, of i h] by (simp add: e_def f_def)
  have b: "e mod 8 + f \<le> 8" using frag_in_byte [OF assms, of h] by (simp add: e_def f_def)
  have R: "e \<le> i \<and> i < e + f \<longleftrightarrow> i div 8 = e div 8 \<and> e mod 8 \<le> i mod 8 \<and> i mod 8 < e mod 8 + f"
    by (rule same_byte) (use b in simp_all)
  show ?thesis using L R unfolding e_def f_def by blast
qed

lemma bit_blkmsk:
  assumes "frag_valid fs" and "n < 8"
  shows "bit (blkmsk fs h) n \<longleftrightarrow> fs_frag fs * h mod 8 \<le> int n \<and> int n < fs_frag fs * h mod 8 + fs_frag fs"
proof -
  have "0 \<le> fs_frag fs" using assms(1) by (auto simp: frag_valid_def)
  then show ?thesis using assms(2)
    by (auto simp: blkmsk_def bit_push_bit_iff bit_mask_iff nat_le_iff nat_less_iff)
qed

lemma isset_setblock:
  assumes "frag_valid fs" "ffs_setblock fs m cp h = Some m'"
  shows "isset m' cp i \<longleftrightarrow> i div fs_frag fs = h \<or> isset m cp i"
proof (cases "i div 8 = fs_frag fs * h div 8")
  case True
  have m': "m' = m(cp + fs_frag fs * h div 8 := m (cp + fs_frag fs * h div 8) OR blkmsk fs h)"
    using assms by (simp add: ffs_setblock_eq)
  show ?thesis
    using True frag_block_bit [OF assms(1), of i h] bit_blkmsk [OF assms(1) nat_mod8_less, of h i]
    by (auto simp: m' isset_bit bit_or_iff)
next
  case False
  then show ?thesis
    using assms frag_block_bit [OF assms(1), of i h] by (auto simp: ffs_setblock_eq isset_def)
qed

lemma isset_clrblock:
  assumes "frag_valid fs"
  shows "isset (ffs_clrblock fs m cp h) cp i \<longleftrightarrow> i div fs_frag fs \<noteq> h \<and> isset m cp i"
proof (cases "i div 8 = fs_frag fs * h div 8")
  case True
  then show ?thesis
    using assms frag_block_bit [OF assms(1), of i h] bit_blkmsk [OF assms(1) nat_mod8_less, of h i]
    by (simp add: ffs_clrblock_eq isset_bit bit_and_iff bit_not_iff nat_mod8_less) blast
next
  case False
  then show ?thesis
    using assms frag_block_bit [OF assms(1), of i h] by (auto simp: ffs_clrblock_eq isset_def)
qed

end
