(* ===== verification/Ufs_Search.thy ===== *)
theory Ufs_Search
  imports Ufs_Bitmap
begin

section \<open>What the searches find and the accounting counts\<close>

text \<open>
  The lemmas on the routines of \<open>Ufs_Bitmap\<close>: the fragment tables against the runs of free
  fragments a byte holds, \<open>scanc\<close> and \<open>ffs_mapsearch\<close> against the runs of the whole map,
  \<open>ffs_fragacct\<close> against the number of maximal runs in a block, and the two scans of
  \<open>ffs_clusteracct\<close> against the neighbouring free blocks.
\<close>

subsection \<open>The tables and the runs of a byte\<close>

text \<open>
  \<open>tbl_says\<close> is the test the code makes on the tables, \<open>byte_has\<close> looks for the run with the
  same patterns in every block of the byte. The four checks evaluate both on all 256 bytes and
  every run length.
\<close>

definition tbl_says :: "int \<Rightarrow> int \<Rightarrow> int \<Rightarrow> bool" where
  "tbl_says f s b \<longleftrightarrow>
     (if f = 8 then fragtbl8 else fragtbl124) ! nat b AND push_bit (nat (s - 1 + f mod 8)) 1 \<noteq> 0"

definition byte_has :: "int \<Rightarrow> int \<Rightarrow> int \<Rightarrow> bool" where
  "byte_has f s b \<longleftrightarrow>
     list_ex (\<lambda>k. frag_pos (push_bit 1 (drop_bit (nat (k * f)) b AND mask (nat f)))
                    (around ! nat s) (inside ! nat s) 0 (f - s) \<noteq> None) [0..8 div f - 1]"

lemma tbl_check1: "list_all (\<lambda>s. list_all (\<lambda>b. tbl_says 1 s b = byte_has 1 s b) [0..255]) [1..1]"
  by code_simp
lemma tbl_check2: "list_all (\<lambda>s. list_all (\<lambda>b. tbl_says 2 s b = byte_has 2 s b) [0..255]) [1..2]"
  by code_simp
lemma tbl_check4: "list_all (\<lambda>s. list_all (\<lambda>b. tbl_says 4 s b = byte_has 4 s b) [0..255]) [1..4]"
  by code_simp
lemma tbl_check8: "list_all (\<lambda>s. list_all (\<lambda>b. tbl_says 8 s b = byte_has 8 s b) [0..255]) [1..8]"
  by code_simp

lemma tbl_correct:
  assumes "f \<in> {1, 2, 4, 8}" "1 \<le> s" "s \<le> f" "0 \<le> b" "b < 256"
  shows "tbl_says f s b = byte_has f s b"
  using assms tbl_check1 tbl_check2 tbl_check4 tbl_check8
  by (auto simp only: list_all_iff set_upto atLeastAtMost_iff insert_iff empty_iff) auto

text \<open>A maximal run of exactly \<open>s\<close> set bits at position \<open>p\<close> of the block map \<open>blk\<close>.\<close>

definition frag_run :: "int \<Rightarrow> int \<Rightarrow> int \<Rightarrow> bool" where
  "frag_run blk s p \<longleftrightarrow>
     (\<forall>j \<in> {nat p..<nat p + nat s}. bit blk j) \<and>
     (0 < p \<longrightarrow> \<not> bit blk (nat p - 1)) \<and> \<not> bit blk (nat p + nat s)"

lemma around_mask: "0 \<le> s \<Longrightarrow> s \<le> 8 \<Longrightarrow> around ! nat s = mask (nat s + 2)"
  and inside_mask: "0 \<le> s \<Longrightarrow> s \<le> 8 \<Longrightarrow> inside ! nat s = push_bit 1 (mask (nat s))"
proof -
  have *: "nat s \<in> set [0,1,2,3,4,5,6,7,8]" if "0 \<le> s" "s \<le> 8"
    using that by auto
  show "around ! nat s = mask (nat s + 2)" if "0 \<le> s" "s \<le> 8"
    using * [OF that] by (elim set_ConsD [elim_format] disjE) (simp_all add: around_def mask_eq_exp_minus_1)
  show "inside ! nat s = push_bit 1 (mask (nat s))" if "0 \<le> s" "s \<le> 8"
    using * [OF that] by (auto simp: inside_def mask_eq_exp_minus_1)
qed

lemma frag_match_bits:
  "push_bit 1 blk AND push_bit P (mask (S + 2)) = push_bit P (push_bit 1 (mask S)) \<longleftrightarrow>
    (\<forall>k. (1 \<le> k \<and> bit (blk :: int) (k - 1) \<and> P \<le> k \<and> k < P + S + 2) \<longleftrightarrow> (P + 1 \<le> k \<and> k < P + S + 1))"
proof -
  have d: "P \<le> k \<and> k - P < n \<longleftrightarrow> P \<le> k \<and> k < P + n" for k n :: nat
    by (simp add: less_diff_conv2 add.commute cong: conj_cong)
  have 1: "bit (push_bit 1 blk AND push_bit P (mask (S + 2))) k \<longleftrightarrow>
      (1 \<le> k \<and> bit blk (k - 1)) \<and> P \<le> k \<and> k - P < S + 2" for k
    by (simp only: bit_and_iff bit_push_bit_iff_int bit_mask_iff possible_bit_def simp_thms)
      (simp add: ac_simps)
  have 2: "bit (push_bit P (push_bit 1 (mask S)) :: int) k \<longleftrightarrow> P \<le> k \<and> 1 \<le> k - P \<and> k - P - 1 < S" for k
    by (simp only: bit_push_bit_iff_int bit_mask_iff possible_bit_def simp_thms) (simp add: ac_simps)
  have 3: "P \<le> k \<and> 1 \<le> k - P \<and> k - P - 1 < S \<longleftrightarrow> P + 1 \<le> k \<and> k < P + S + 1" for k :: nat
    by linarith
  show ?thesis unfolding bit_eq_iff 1 2 3 d by (simp only: conj_assoc add.assoc possible_bit_int simp_thms)
qed

lemma run_shift:
  "(\<forall>k. (1 \<le> k \<and> b (k - 1) \<and> P \<le> k \<and> k < P + S + 2) \<longleftrightarrow> (P + 1 \<le> k \<and> k < P + S + 1)) \<longleftrightarrow>
   (\<forall>j \<in> {P..<P + S}. b j) \<and> (0 < P \<longrightarrow> \<not> b (P - 1)) \<and> \<not> b (P + S)" (is "?A \<longleftrightarrow> ?B")
  for P S :: nat
proof
  assume A: ?A
  have "b j" if "j \<in> {P..<P + S}" for j
    using A [rule_format, of "j + 1"] that by auto
  then show ?B
    using A [rule_format, of P] A [rule_format, of "P + S + 1"] by auto
next
  assume B: ?B
  have "b (k - 1)" if "P + 1 \<le> k" "k < P + S + 1" for k
    using B that by (metis (no_types, lifting) Suc_eq_plus1 Suc_le_D atLeastLessThan_iff diff_Suc_1
        not_less_eq_eq Suc_less_eq)
  moreover have "k \<noteq> P \<and> k \<noteq> P + S + 1" if "1 \<le> k" "b (k - 1)" for k
    using B that by auto
  ultimately show ?A
    by (metis One_nat_def Suc_leI add_2_eq_Suc' add_Suc_right add.right_neutral le_add2 le_antisym
        le_neq_implies_less le_trans less_Suc_eq less_imp_le_nat Suc_eq_plus1)
qed

lemma frag_match_iff:
  assumes "0 \<le> s" "s \<le> 8" "0 \<le> p"
  shows "push_bit 1 blk AND push_bit (nat p) (around ! nat s) = push_bit (nat p) (inside ! nat s)
    \<longleftrightarrow> frag_run blk s p"
  unfolding around_mask [OF assms(1,2)] inside_mask [OF assms(1,2)] frag_match_bits run_shift
    frag_run_def using assms by simp

lemma frag_pos_loop:
  assumes "0 \<le> s" "s \<le> 8" "0 \<le> pos"
    "field = push_bit (nat pos) (around ! nat s)" "subfield = push_bit (nat pos) (inside ! nat s)"
  shows "case frag_pos (push_bit 1 blk) field subfield pos lim of
     Some p \<Rightarrow> pos \<le> p \<and> p \<le> lim \<and> frag_run blk s p
   | None \<Rightarrow> \<forall>p. pos \<le> p \<longrightarrow> p \<le> lim \<longrightarrow> \<not> frag_run blk s p"
  using assms
proof (induction "push_bit 1 blk" field subfield pos lim rule: frag_pos.induct)
  case (1 field subfield pos lim)
  note match = frag_match_iff [OF 1(2-4), of blk, folded 1(5,6)]
  show ?case
  proof (cases "pos \<le> lim \<and> \<not> frag_run blk s pos")
    case True
    have sh: "push_bit 1 (push_bit (nat pos) x) = push_bit (nat (pos + 1)) x" for x :: int
      using 1(4) by (simp add: nat_add_distrib)
    have "case frag_pos (push_bit 1 blk) (push_bit 1 field) (push_bit 1 subfield) (pos + 1) lim of
       Some p \<Rightarrow> pos + 1 \<le> p \<and> p \<le> lim \<and> frag_run blk s p
     | None \<Rightarrow> \<forall>p. pos + 1 \<le> p \<longrightarrow> p \<le> lim \<longrightarrow> \<not> frag_run blk s p"
      by (rule 1(1)) (use 1(2-6) True match sh in auto)
    then show ?thesis
      using True match frag_pos.simps [of "push_bit 1 blk" field subfield pos lim]
      by (smt (verit) option.case_eq_if)
  next
    case False
    then show ?thesis using match by (subst frag_pos.simps) auto
  qed
qed

lemma frag_pos_Some:
  assumes "frag_pos (push_bit 1 blk) (around ! nat s) (inside ! nat s) 0 lim = Some p" "0 \<le> s" "s \<le> 8"
  shows "0 \<le> p" "p \<le> lim" "frag_run blk s p"
  using frag_pos_loop [where pos = 0 and lim = lim and blk = blk and s = s and field = "around ! nat s"
      and subfield = "inside ! nat s"] assms by auto

lemma frag_pos_None:
  assumes "frag_pos (push_bit 1 blk) (around ! nat s) (inside ! nat s) 0 lim = None" "0 \<le> s" "s \<le> 8"
    "0 \<le> p" "p \<le> lim"
  shows "\<not> frag_run blk s p"
  using frag_pos_loop [where pos = 0 and lim = lim and blk = blk and s = s and field = "around ! nat s"
      and subfield = "inside ! nat s"] assms by auto

lemma map_sift_found:
  assumes "map_sift fs m a s bno i = r" "r \<noteq> -1" "0 \<le> s" "s \<le> 8" "0 < fs_frag fs"
  shows "\<exists>b p. bno \<le> b \<and> b < i \<and> fs_frag fs dvd b - bno \<and> 0 \<le> p \<and> p \<le> fs_frag fs - s \<and>
     frag_run (blkmap fs m a b) s p \<and> r = b + p"
  using assms
proof (induction fs m a s bno i rule: map_sift.induct)
  case (1 fs m a s bno i)
  have lt: "bno < i" using 1(2,3) map_sift.simps [of fs m a s bno i] by (auto split: if_splits)
  show ?case
  proof (cases "frag_pos (push_bit 1 (blkmap fs m a bno)) (around ! nat s) (inside ! nat s) 0 (fs_frag fs - s)")
    case (Some p)
    then have "r = bno + p" using 1(2,6) lt map_sift.simps [of fs m a s bno i] by simp
    then show ?thesis using frag_pos_Some [OF Some 1(4,5)] lt
      by (intro exI [of _ bno] exI [of _ p]) simp
  next
    case None
    then have "map_sift fs m a s (bno + fs_frag fs) i = r"
      using 1(2,6) lt map_sift.simps [of fs m a s bno i] by simp
    from 1(1) [OF _ None this 1(3-6)] obtain b p where bp: "bno + fs_frag fs \<le> b" "b < i"
      "fs_frag fs dvd b - (bno + fs_frag fs)" "0 \<le> p" "p \<le> fs_frag fs - s"
      "frag_run (blkmap fs m a b) s p" "r = b + p" using lt 1(6) by auto
    have "fs_frag fs dvd b - bno"
      using dvd_add [OF bp(3) dvd_refl] by (simp add: algebra_simps)
    with bp 1(6) show ?thesis by (intro exI [of _ b] exI [of _ p]) simp
  qed
qed

lemma map_sift_none:
  assumes "map_sift fs m a s bno i = -1" "0 \<le> bno" "0 \<le> s" "s \<le> 8" "0 < fs_frag fs"
    and "bno \<le> b" "b < i" "fs_frag fs dvd b - bno" "0 \<le> p" "p \<le> fs_frag fs - s"
  shows "\<not> frag_run (blkmap fs m a b) s p"
  using assms
proof (induction fs m a s bno i rule: map_sift.induct)
  case (1 fs m a s bno i)
  have lt: "bno < i" using 1(7,8) by simp
  show ?case
  proof (cases "frag_pos (push_bit 1 (blkmap fs m a bno)) (around ! nat s) (inside ! nat s) 0 (fs_frag fs - s)")
    case (Some q)
    then have False using 1(2,3,6) lt map_sift.simps [of fs m a s bno i] frag_pos_Some(1) [OF Some 1(4,5)]
      by simp
    then show ?thesis ..
  next
    case None
    then have r: "map_sift fs m a s (bno + fs_frag fs) i = -1"
      using 1(2,6) lt map_sift.simps [of fs m a s bno i] by simp
    show ?thesis
    proof (cases "b = bno")
      case True
      then show ?thesis using frag_pos_None [OF None 1(4,5) 1(10,11)] by simp
    next
      case False
      have "bno + fs_frag fs \<le> b" using 1(7,9) False 1(6) zdvd_imp_le [of "fs_frag fs" "b - bno"] by simp
      moreover have "fs_frag fs dvd b - (bno + fs_frag fs)"
        using dvd_diff [OF 1(9) dvd_refl] by (simp add: algebra_simps)
      ultimately show ?thesis using 1(1) [OF _ None r] 1(3-11) lt by simp
    qed
  qed
qed

lemma scanc_loop_spec:
  assumes "cp \<le> e"
  shows "let r = scanc_loop m tbl msk cp e in
     0 \<le> r \<and> r \<le> e - cp \<and>
     (\<forall>x. cp \<le> x \<longrightarrow> x < e - r \<longrightarrow> tbl ! nat (uint (m x)) AND msk = 0) \<and>
     (0 < r \<longrightarrow> tbl ! nat (uint (m (e - r))) AND msk \<noteq> 0)"
  using assms
proof (induction m tbl msk cp e rule: scanc_loop.induct)
  case (1 m tbl msk cp e)
  show ?case
  proof (cases "cp < e \<and> tbl ! nat (uint (m cp)) AND msk = 0")
    case True
    with 1 have IH: "let r = scanc_loop m tbl msk (cp + 1) e in
     0 \<le> r \<and> r \<le> e - (cp + 1) \<and>
     (\<forall>x. cp + 1 \<le> x \<longrightarrow> x < e - r \<longrightarrow> tbl ! nat (uint (m x)) AND msk = 0) \<and>
     (0 < r \<longrightarrow> tbl ! nat (uint (m (e - r))) AND msk \<noteq> 0)" by simp
    have unf: "scanc_loop m tbl msk cp e = scanc_loop m tbl msk (cp + 1) e"
      using True scanc_loop.simps [of m tbl msk cp e] by simp
    have "tbl ! nat (uint (m x)) AND msk = 0" if "cp \<le> x" "x < e - scanc_loop m tbl msk (cp + 1) e" for x
      using IH that True by (cases "x = cp") (auto simp: Let_def)
    with IH show ?thesis unfolding unf Let_def by simp
  next
    case False
    then have "scanc_loop m tbl msk cp e = e - cp" using 1(2) scanc_loop.simps [of m tbl msk cp e] by auto
    with False 1(2) show ?thesis by (auto simp: Let_def)
  qed
qed

subsection \<open>The search\<close>

lemma frag_valid_ok: "fs_ok fs \<Longrightarrow> frag_valid fs"
  using fs_okD(5) by (simp add: frag_valid_def)

lemma frag_mask:
  assumes "frag_valid fs"
  shows "drop_bit (nat (8 - fs_frag fs)) 0xff = (mask (nat (fs_frag fs)) :: int)"
  using assms by (cases rule: frag_cases) (simp_all add: mask_eq_exp_minus_1 drop_bit_eq_div)

lemma uint_bounded_byte: "0 \<le> uint (w :: byte)" "uint (w :: byte) < 256"
  using uint_bounded [of w] by simp_all

lemma aligned_in_byte:
  assumes "frag_valid fs" "fs_frag fs dvd b"
  shows "b mod 8 + fs_frag fs \<le> 8"
  using assms frag_in_byte [OF assms(1)] by (auto elim!: dvdE)

lemma bit_blkmap:
  assumes "frag_valid fs" "fs_frag fs dvd b"
  shows "bit (blkmap fs m a b) j \<longleftrightarrow> int j < fs_frag fs \<and> isset m a (b + int j)"
proof (cases "int j < fs_frag fs")
  case True
  define q r where "q = b div 8" and "r = b mod 8 + int j"
  have r: "0 \<le> r" "r < 8" using aligned_in_byte [OF assms] True by (simp_all add: r_def)
  have "b + int j = 8 * q + r" by (simp add: q_def r_def)
  then have dm: "(b + int j) div 8 = b div 8" "(b + int j) mod 8 = b mod 8 + int j"
    using r by (simp_all add: q_def [symmetric] r_def [symmetric])
  have "nat (b mod 8) + j < 8" using r by (simp add: r_def nat_add_distrib) 
  then show ?thesis
    using True
    by (auto simp: blkmap_def frag_mask [OF assms(1)] bit_and_iff bit_drop_bit_eq bit_mask_iff
        isset_bit dm nat_add_distrib bit_uint_iff)
next
  case False
  then show ?thesis by (auto simp: blkmap_def frag_mask [OF assms(1)] bit_and_iff bit_mask_iff)
qed

text \<open>A maximal run of \<open>s\<close> free fragments of the map at \<open>a\<close>, inside one block.\<close>

definition free_run :: "fs \<Rightarrow> mem \<Rightarrow> int \<Rightarrow> int \<Rightarrow> int \<Rightarrow> bool" where
  "free_run fs m a s n \<longleftrightarrow>
     n mod fs_frag fs + s \<le> fs_frag fs \<and>
     (\<forall>j \<in> {0..<s}. isset m a (n + j)) \<and>
     (0 < n mod fs_frag fs \<longrightarrow> \<not> isset m a (n - 1)) \<and>
     (n mod fs_frag fs + s < fs_frag fs \<longrightarrow> \<not> isset m a (n + s))"

lemma free_run_iff:
  assumes "frag_valid fs" "fs_frag fs dvd b" "0 \<le> p" "p + s \<le> fs_frag fs" "1 \<le> s"
  shows "free_run fs m a s (b + p) \<longleftrightarrow> frag_run (blkmap fs m a b) s p"
proof -
  have f: "0 < fs_frag fs" using assms(1) by (auto simp: frag_valid_def)
  obtain k where k: "b = fs_frag fs * k" using assms(2) by (auto elim: dvdE)
  have md: "(b + p) mod fs_frag fs = p"
    unfolding k using assms(3-5) by simp
  have all: "(\<forall>j \<in> {0..<s}. isset m a (b + p + j)) \<longleftrightarrow>
      (\<forall>j \<in> {nat p..<nat p + nat s}. int j < fs_frag fs \<and> isset m a (b + int j))" (is "?A \<longleftrightarrow> ?B")
  proof
    assume A: ?A
    show ?B
    proof
      fix j assume "j \<in> {nat p..<nat p + nat s}"
      then have "int j - p \<in> {0..<s}" "int j < fs_frag fs" using assms by auto
      with A have "isset m a (b + p + (int j - p))" by blast
      with \<open>int j < fs_frag fs\<close> show "int j < fs_frag fs \<and> isset m a (b + int j)" by simp
    qed
  next
    assume B: ?B
    show ?A
    proof
      fix j assume "j \<in> {0..<s}"
      then have "nat (p + j) \<in> {nat p..<nat p + nat s}" "int (nat (p + j)) = p + j" using assms by auto
      with B show "isset m a (b + p + j)" by (metis add.assoc)
    qed
  qed
  have lo: "(0 < p \<longrightarrow> \<not> isset m a (b + p - 1)) \<longleftrightarrow>
      (0 < p \<longrightarrow> \<not> (int (nat p - 1) < fs_frag fs \<and> isset m a (b + int (nat p - 1))))"
  proof (cases "0 < p")
    case True
    then have "int (nat p - 1) = p - 1" by simp
    then show ?thesis using assms(4,5) by (simp add: algebra_simps)
  qed simp
  have hi: "int (nat p + nat s) = p + s" using assms by simp
  show ?thesis
    unfolding free_run_def frag_run_def md all bit_blkmap [OF assms(1,2)] lo hi
    using assms(4) by (auto simp: add.assoc)
qed


lemma fragtbl_valid:
  assumes "frag_valid fs"
  obtains tbl where "fragtbl (fs_frag fs) = Some tbl"
    and "\<And>s x. 1 \<le> s \<Longrightarrow> s \<le> fs_frag fs \<Longrightarrow>
      (tbl ! nat x AND u8 (push_bit (nat (s - 1 + fs_frag fs mod NBBY)) 1) \<noteq> 0) = tbl_says (fs_frag fs) s x"
proof -
  have u: "u8 (push_bit (nat (s - 1 + fs_frag fs mod NBBY)) 1) = push_bit (nat (s - 1 + fs_frag fs mod 8)) 1"
    if "1 \<le> s" "s \<le> fs_frag fs" for s
  proof -
    have "nat (s - 1 + fs_frag fs mod 8) < 8"
      using assms that by (cases rule: frag_cases) auto
    then show ?thesis using u_id [of "2 ^ nat (s - 1 + fs_frag fs mod 8)" 8]
        power_strict_increasing [of _ 8 "2 :: int"] by (simp add: push_bit_eq_mult)
  qed
  show thesis
  proof
    show "fragtbl (fs_frag fs) = Some (if fs_frag fs = 8 then fragtbl8 else fragtbl124)"
      using assms by (cases rule: frag_cases) (simp_all add: fragtbl_def)
    show "((if fs_frag fs = 8 then fragtbl8 else fragtbl124) ! nat x AND
        u8 (push_bit (nat (s - 1 + fs_frag fs mod NBBY)) 1) \<noteq> 0) = tbl_says (fs_frag fs) s x"
      if "1 \<le> s" "s \<le> fs_frag fs" for s x
      unfolding u [OF that] tbl_says_def by simp
  qed
qed

lemma byte_has_iff:
  assumes "frag_valid fs" "1 \<le> s" "s \<le> fs_frag fs"
  shows "byte_has (fs_frag fs) s (uint (m (a + y))) \<longleftrightarrow>
    (\<exists>b p. 8 * y \<le> b \<and> b < 8 * y + 8 \<and> fs_frag fs dvd b \<and> 0 \<le> p \<and> p \<le> fs_frag fs - s \<and>
       frag_run (blkmap fs m a b) s p)" (is "?L \<longleftrightarrow> ?R")
proof -
  define f where "f = fs_frag fs"
  have f: "0 < f" "8 = f * (8 div f)" "f \<le> 8" using assms(1) by (auto simp: frag_valid_def f_def)
  have s8: "0 \<le> s" "s \<le> 8" using assms f by (auto simp: f_def)
  have blk: "drop_bit (nat (k * f)) (uint (m (a + y))) AND mask (nat f) = blkmap fs m a (8 * y + k * f)"
    if "0 \<le> k" "k * f < 8" for k
  proof -
    have "0 \<le> k * f" using that(1) f(1) by simp
    then have "(8 * y + k * f) mod 8 = k * f" "(8 * y + k * f) div 8 = y"
      using that(2) by simp_all
    then show ?thesis by (simp add: blkmap_def frag_mask [OF assms(1)] f_def)
  qed
  have k8: "k * f < 8 \<longleftrightarrow> k \<le> 8 div f - 1" for k
    using assms(1) unfolding f_def by (cases rule: frag_cases) (simp_all, linarith+)
  have L: "?L \<longleftrightarrow> (\<exists>k. 0 \<le> k \<and> k * f < 8 \<and> (\<exists>p. 0 \<le> p \<and> p \<le> f - s \<and>
      frag_run (blkmap fs m a (8 * y + k * f)) s p))" (is "_ \<longleftrightarrow> (\<exists>k. ?P k)")
  proof -
    have fp: "frag_pos (push_bit 1 blk) (around ! nat s) (inside ! nat s) 0 lim \<noteq> None \<longleftrightarrow>
        (\<exists>p. 0 \<le> p \<and> p \<le> lim \<and> frag_run blk s p)" for blk lim
      using frag_pos_Some [OF _ s8] frag_pos_None [OF _ s8]
      by (cases "frag_pos (push_bit 1 blk) (around ! nat s) (inside ! nat s) 0 lim") blast+
    show ?thesis
      unfolding byte_has_def list_ex_iff f_def [symmetric] set_upto Bex_def atLeastAtMost_iff
        k8 [symmetric] fp
      using blk by (intro ex_cong1) auto
  qed
  have "?R \<longleftrightarrow> (\<exists>k. ?P k)"
  proof
    assume ?R
    then obtain b p where b: "8 * y \<le> b" "b < 8 * y + 8" "f dvd b" "0 \<le> p" "p \<le> f - s"
      "frag_run (blkmap fs m a b) s p" unfolding f_def by blast
    have f8: "f dvd 8 * y" using f(2) by (metis dvd_mult2 dvd_triv_left)
    have "f dvd b - 8 * y" using b(3) f8 by (rule dvd_diff)
    then obtain k where k: "b - 8 * y = k * f" by (metis dvdE mult.commute)
    have "0 \<le> k" using b(1) k f(1) by (metis diff_ge_0_iff_ge zero_le_mult_iff not_less)
    moreover have "k * f < 8" using b(2) k by linarith
    moreover have "b = 8 * y + k * f" using k by linarith
    ultimately show "\<exists>k. ?P k" using b by blast
  next
    assume "\<exists>k. ?P k"
    then obtain k p where k: "0 \<le> k" "k * f < 8" "0 \<le> p" "p \<le> f - s"
      "frag_run (blkmap fs m a (8 * y + k * f)) s p" by blast
    have "f dvd 8 * y" using f(2) by (metis dvd_mult2 dvd_triv_left)
    then have "f dvd 8 * y + k * f" by simp
    moreover have "0 \<le> k * f" using k f by simp
    ultimately show ?R using k unfolding f_def
      by (intro exI [of _ "8 * y + k * fs_frag fs"] exI [of _ p]) simp
  qed
  with L show ?thesis by simp
qed


definition search_start :: "fs \<Rightarrow> mem \<Rightarrow> int \<Rightarrow> int" where
  "search_start fs cgp bpref = (if bpref \<noteq> 0 then dtogd fs bpref sdiv NBBY else cg_frotor cgp sdiv NBBY)"

lemma ffs_mapsearch_byte:
  assumes fv: "frag_valid fs" and s: "1 \<le> s" "s \<le> fs_frag fs"
  shows "\<exists>y. ffs_mapsearch fs cgp bpref s =
       Some (map_sift fs (set_frotor cgp (8 * y)) (cg_freeoff cgp) s (8 * y) (8 * y + 8), set_frotor cgp (8 * y)) \<and>
     (0 \<le> search_start fs cgp bpref \<longrightarrow> search_start fs cgp bpref < howmany (fs_fpg fs) NBBY \<longrightarrow>
      0 \<le> x \<longrightarrow> x < howmany (fs_fpg fs) NBBY \<longrightarrow>
      tbl_says (fs_frag fs) s (uint (cgp (cg_freeoff cgp + x))) \<longrightarrow>
      0 \<le> y \<and> y < howmany (fs_fpg fs) NBBY \<and> tbl_says (fs_frag fs) s (uint (cgp (cg_freeoff cgp + y))))"
proof -
  obtain tbl where tbl: "fragtbl (fs_frag fs) = Some tbl"
    "\<And>x. (tbl ! nat x AND u8 (push_bit (nat (s - 1 + fs_frag fs mod NBBY)) 1) \<noteq> 0) = tbl_says (fs_frag fs) s x"
    using fragtbl_valid [OF fv] s by metis
  define a where "a = cg_freeoff cgp"
  define st where "st = search_start fs cgp bpref"
  define nb where "nb = howmany (fs_fpg fs) NBBY"
  define msk where "msk = push_bit (nat (s - 1 + fs_frag fs mod NBBY)) (1 :: int)"
  define l1 where "l1 = scanc cgp (nb - st) (a + st) tbl msk"
  define l2 where "l2 = scanc cgp (st + 1) a tbl msk"
  define y where "y = (if l1 = 0 then st + 1 - l2 else nb - l1)"
  have eq: "ffs_mapsearch fs cgp bpref s =
      Some (map_sift fs (set_frotor cgp (8 * y)) a s (8 * y) (8 * y + 8), set_frotor cgp (8 * y))"
    unfolding ffs_mapsearch_def Let_def search_start_def [symmetric] st_def [symmetric]
      nb_def [symmetric] msk_def [symmetric] a_def [symmetric] tbl(1)
    by (simp add: l1_def [symmetric] l2_def y_def algebra_simps)
  have "0 \<le> y \<and> y < nb \<and> tbl_says (fs_frag fs) s (uint (cgp (a + y)))"
    if st: "0 \<le> st" "st < nb" and x: "0 \<le> x" "x < nb" "tbl_says (fs_frag fs) s (uint (cgp (a + x)))"
  proof -
    have s1: "0 \<le> l1" "l1 \<le> nb - st"
      "\<And>z. a + st \<le> z \<Longrightarrow> z < a + nb - l1 \<Longrightarrow> \<not> tbl_says (fs_frag fs) s (uint (cgp z))"
      "0 < l1 \<Longrightarrow> tbl_says (fs_frag fs) s (uint (cgp (a + nb - l1)))"
      using scanc_loop_spec [of "a + st" "a + st + (nb - st)" cgp tbl "u8 msk"] st
      by (simp_all add: l1_def scanc_def Let_def tbl(2) [symmetric] msk_def algebra_simps)
    have s2: "0 \<le> l2" "l2 \<le> st + 1"
      "\<And>z. a \<le> z \<Longrightarrow> z < a + st + 1 - l2 \<Longrightarrow> \<not> tbl_says (fs_frag fs) s (uint (cgp z))"
      "0 < l2 \<Longrightarrow> tbl_says (fs_frag fs) s (uint (cgp (a + st + 1 - l2)))"
      using scanc_loop_spec [of a "a + (st + 1)" cgp tbl "u8 msk"] st
      by (simp_all add: l2_def scanc_def Let_def tbl(2) [symmetric] msk_def algebra_simps)
    show ?thesis
    proof (cases "l1 = 0")
      case True
      have "x < st" using s1(3) [of "a + x"] x True by force
      then have "0 < l2" using s2(1) s2(3) [of "a + x"] x by (cases "l2 = 0") auto
      then show ?thesis using True s2 st by (simp add: y_def algebra_simps)
    next
      case False
      then show ?thesis using s1 st by (simp add: y_def algebra_simps)
    qed
  qed
  with eq show ?thesis unfolding a_def st_def nb_def by blast
qed

lemma blkmap_set_frotor:
  "48 \<le> a \<Longrightarrow> 0 \<le> b \<Longrightarrow> blkmap fs (set_frotor c v) a b = blkmap fs c a b"
proof -
  assume "48 \<le> a" "0 \<le> b"
  then have "44 + 4 \<le> a + b div 8" using pos_imp_zdiv_nonneg_iff [of 8 b] by simp
  then show ?thesis by (simp add: blkmap_def set_frotor_def mem_simps)
qed

text \<open>What the search returns is a maximal run of exactly the requested length.\<close>

lemma mapsearch_found:
  assumes "frag_valid fs" "1 \<le> s" "s \<le> fs_frag fs" "48 \<le> cg_freeoff cgp"
    and "ffs_mapsearch fs cgp bpref s = Some (bno, cgp')" "0 \<le> bno"
  shows "free_run fs cgp (cg_freeoff cgp) s bno"
proof -
  have f: "0 < fs_frag fs" "s \<le> 8" using assms(1,3) by (auto simp: frag_valid_def)
  obtain y where y: "bno = map_sift fs (set_frotor cgp (8 * y)) (cg_freeoff cgp) s (8 * y) (8 * y + 8)"
    using ffs_mapsearch_byte [OF assms(1-3), of cgp bpref] assms(5) by auto
  obtain b p where bp: "8 * y \<le> b" "fs_frag fs dvd b - 8 * y" "0 \<le> p" "p \<le> fs_frag fs - s"
      "frag_run (blkmap fs (set_frotor cgp (8 * y)) (cg_freeoff cgp) b) s p" "bno = b + p"
    using map_sift_found [OF y [symmetric]] assms(2,6) f by auto
  have "fs_frag fs dvd 8 * y" using assms(1) by (auto simp: frag_valid_def)
  then have d: "fs_frag fs dvd b" using bp(2) by (metis dvd_add diff_add_cancel)
  have "0 \<le> b"
  proof (rule ccontr)
    assume "\<not> 0 \<le> b"
    then have "fs_frag fs \<le> - b" using d by (intro zdvd_imp_le) auto
    then show False using bp(4,6) assms(2,6) by linarith
  qed
  then have "frag_run (blkmap fs cgp (cg_freeoff cgp) b) s p"
    using bp(5) assms(4) by (simp add: blkmap_set_frotor)
  then show ?thesis using free_run_iff [OF assms(1) d bp(3)] bp(4,6) assms(2) by simp
qed

text \<open>If the map has such a run anywhere, the search returns one.\<close>

lemma mapsearch_complete:
  assumes fv: "frag_valid fs" and s: "1 \<le> s" "s \<le> fs_frag fs" and a: "48 \<le> cg_freeoff cgp"
    and fpg: "0 < fs_fpg fs" "fs_fpg fs mod 8 = 0"
    and st: "0 \<le> search_start fs cgp bpref" "search_start fs cgp bpref < howmany (fs_fpg fs) NBBY"
    and run: "0 \<le> n" "n < fs_fpg fs" "free_run fs cgp (cg_freeoff cgp) s n"
  shows "\<exists>bno y. ffs_mapsearch fs cgp bpref s = Some (bno, set_frotor cgp (8 * y)) \<and>
    0 \<le> y \<and> 8 * y < fs_fpg fs \<and> 0 \<le> bno \<and> bno + s \<le> fs_fpg fs"
proof -
  define f where "f = fs_frag fs"
  have f: "0 < f" "s \<le> 8" using fv s by (auto simp: frag_valid_def f_def)
  have nb: "8 * howmany (fs_fpg fs) NBBY = fs_fpg fs"
    using fpg by (simp add: howmany_def sdiv_nonneg) presburger
  define b where "b = n - n mod f"
  have b: "f dvd b" "0 \<le> b" using run(1) f by (simp_all add: b_def minus_mod_eq_div_mult pos_imp_zdiv_nonneg_iff)
  have nm: "n mod f + s \<le> f" "0 \<le> n mod f" using run(3) f by (simp_all add: free_run_def f_def)
  have fr: "frag_run (blkmap fs cgp (cg_freeoff cgp) b) s (n mod f)"
    using free_run_iff [OF fv b(1) [unfolded f_def] nm(2) [unfolded f_def] nm(1) [unfolded f_def] s(1), of cgp "cg_freeoff cgp"] run(3)
    by (simp add: b_def f_def)
  define x where "x = b div 8"
  have x: "0 \<le> x" "x < howmany (fs_fpg fs) NBBY" "8 * x \<le> b" "b < 8 * x + 8"
    using b(2) run(2) nb nm by (auto simp: x_def b_def)
  have "byte_has f s (uint (cgp (cg_freeoff cgp + x)))"
    unfolding f_def byte_has_iff [OF fv s] using x(3,4) b(1) nm fr unfolding f_def
    by (intro exI [of _ b] exI [of _ "n mod fs_frag fs"]) simp
  then have says: "tbl_says f s (uint (cgp (cg_freeoff cgp + x)))"
    using tbl_correct [of f s "uint (cgp (cg_freeoff cgp + x))"] fv s
    by (simp add: f_def frag_valid_def uint_bounded_byte)
  obtain y where y: "ffs_mapsearch fs cgp bpref s =
       Some (map_sift fs (set_frotor cgp (8 * y)) (cg_freeoff cgp) s (8 * y) (8 * y + 8), set_frotor cgp (8 * y))"
     "0 \<le> y" "y < howmany (fs_fpg fs) NBBY" "tbl_says f s (uint (cgp (cg_freeoff cgp + y)))"
    using ffs_mapsearch_byte [OF fv s, of cgp bpref x] st x(1,2) says unfolding f_def by blast
  have "byte_has f s (uint (cgp (cg_freeoff cgp + y)))"
    using y(4) tbl_correct [of f s "uint (cgp (cg_freeoff cgp + y))"] fv s
    by (simp add: f_def frag_valid_def uint_bounded_byte)
  then obtain c p where c: "8 * y \<le> c" "c < 8 * y + 8" "f dvd c" "0 \<le> p" "p \<le> f - s"
      "frag_run (blkmap fs cgp (cg_freeoff cgp) c) s p"
    unfolding f_def byte_has_iff [OF fv s] by blast
  have "frag_run (blkmap fs (set_frotor cgp (8 * y)) (cg_freeoff cgp) c) s p"
    using c(1,6) y(2) a by (simp add: blkmap_set_frotor)
  moreover have f8: "f dvd 8 * y" using fv by (auto simp: frag_valid_def f_def)
  ultimately have ne: "map_sift fs (set_frotor cgp (8 * y)) (cg_freeoff cgp) s (8 * y) (8 * y + 8) \<noteq> -1"
    using map_sift_none [of fs "set_frotor cgp (8 * y)" "cg_freeoff cgp" s "8 * y" "8 * y + 8" c p]
      c y(2) s f dvd_diff [OF c(3) f8] by (auto simp: f_def)
  obtain b' p' where "8 * y \<le> b'" "b' < 8 * y + 8" "f dvd b' - 8 * y" "0 \<le> p'" "p' \<le> f - s"
    "map_sift fs (set_frotor cgp (8 * y)) (cg_freeoff cgp) s (8 * y) (8 * y + 8) = b' + p'"
    using map_sift_found [OF refl ne] s f unfolding f_def by auto
  moreover have "b' + f \<le> 8 * y + 8"
  proof -
    have "f dvd b'" using calculation(3) f8 by (metis dvd_add diff_add_cancel)
    then have "b' mod 8 + f \<le> 8" using aligned_in_byte [OF fv] by (simp add: f_def)
    moreover have "b' mod 8 = b' - 8 * y"
      using \<open>8 * y \<le> b'\<close> \<open>b' < 8 * y + 8\<close>
      by (metis add_diff_cancel_left' diff_ge_0_iff_ge diff_less_eq mod_mult_self4 mod_pos_pos_trivial add.commute
          diff_add_cancel)
    ultimately show ?thesis by linarith
  qed
  ultimately show ?thesis using y(1-3) nb s by (auto intro!: exI [of _ y])
qed

text \<open>C17. \<open>ffs_mapsearch\<close> always returns; a block number it returns is the start of a maximal run of
  exactly \<open>allocsiz\<close> free fragments inside one block, and when the group's map has such a run
  anywhere the search finds one that lies within the group.\<close>

theorem ffs_mapsearch_spec:
  assumes "fs_ok fs" "1 \<le> s" "s \<le> fs_frag fs" "48 \<le> cg_freeoff cgp"
    "0 \<le> search_start fs cgp bpref" "search_start fs cgp bpref < howmany (fs_fpg fs) NBBY"
  shows "\<exists>bno cgp'. ffs_mapsearch fs cgp bpref s = Some (bno, cgp') \<and>
    (0 \<le> bno \<longrightarrow> free_run fs cgp (cg_freeoff cgp) s bno) \<and>
    ((\<exists>n. 0 \<le> n \<and> n < fs_fpg fs \<and> free_run fs cgp (cg_freeoff cgp) s n) \<longrightarrow>
       0 \<le> bno \<and> bno + s \<le> fs_fpg fs)"
proof -
  have fv: "frag_valid fs" using assms(1) by (rule frag_valid_ok)
  obtain bno cgp' where r: "ffs_mapsearch fs cgp bpref s = Some (bno, cgp')"
    using ffs_mapsearch_byte [OF fv assms(2,3)] by blast
  show ?thesis
    using mapsearch_found [OF fv assms(2-4) r]
      mapsearch_complete [OF fv assms(2-4) fs_okD(15,17) [OF assms(1)] assms(5,6)] r
    by auto
qed

theorem ffs_mapsearch_spec_witness:
  "\<exists>bno cgp'. ffs_mapsearch fs_ex (st32 (\<lambda>i. if i = 170 then 0x30 else 0) 96 168) 0 2 = Some (bno, cgp') \<and>
     free_run fs_ex (st32 (\<lambda>i. if i = 170 then 0x30 else 0) 96 168) 168 2 bno"
proof -
  define c where "c = st32 (\<lambda>i. if i = 170 then 0x30 else (0 :: byte)) 96 168"
  have h: "cg_freeoff c = 168 \<and> search_start fs_ex c 0 = 0 \<and> howmany (fs_fpg fs_ex) NBBY = 128 \<and>
      fs_frag fs_ex = 8 \<and> fs_fpg fs_ex = 1024 \<and> isset c 168 20 \<and> isset c 168 21 \<and>
      \<not> isset c 168 19 \<and> \<not> isset c 168 22"
    unfolding c_def by code_simp
  have "{0..<2} = {0, 1 :: int}" by auto
  then have "free_run fs_ex c 168 2 20" using h by (simp add: free_run_def)
  then show ?thesis
    using ffs_mapsearch_spec [of fs_ex 2 c 0] h unfolding c_def [symmetric] by fastforce
qed

lemma block_bits:
  assumes "frag_valid fs"
  shows "(\<forall>n<8. bit (blkmsk fs h) n \<longrightarrow> P n) \<longleftrightarrow> (\<forall>i. i div fs_frag fs = h \<longrightarrow> P (nat (i mod 8)))"
    (is "?A \<longleftrightarrow> ?B")
proof
  assume A: ?A
  show ?B
  proof (intro allI impI)
    fix i assume "i div fs_frag fs = h"
    then have "bit (blkmsk fs h) (nat (i mod 8))"
      using frag_block_bit [OF assms, of i h] bit_blkmsk [OF assms nat_mod8_less, of h i] by simp
    then show "P (nat (i mod 8))" using A nat_mod8_less by blast
  qed
next
  assume B: ?B
  show ?A
  proof (intro allI impI)
    fix n :: nat assume n: "n < 8" "bit (blkmsk fs h) n"
    define i where "i = 8 * (fs_frag fs * h div 8) + int n"
    have im: "i mod 8 = int n" "i div 8 = fs_frag fs * h div 8" using n(1) by (simp_all add: i_def)
    then have "i div fs_frag fs = h"
      using frag_block_bit [OF assms, of i h] bit_blkmsk [OF assms n(1), of h] n(2) by simp
    with B have "P (nat (i mod 8))" by blast
    then show "P n" by (simp add: im)
  qed
qed

lemma isblock_iff:
  assumes "frag_valid fs"
  shows "ffs_isblock fs m cp h \<longleftrightarrow> (\<forall>i. i div fs_frag fs = h \<longrightarrow> isset m cp i)"
proof -
  have "(\<forall>i. i div fs_frag fs = h \<longrightarrow> bit (m (cp + fs_frag fs * h div 8)) (nat (i mod 8))) \<longleftrightarrow>
      (\<forall>i. i div fs_frag fs = h \<longrightarrow> isset m cp i)"
    using frag_block_bit [OF assms, of _ h] by (auto simp: isset_bit)
  then show ?thesis
    unfolding ffs_isblock_eq [OF assms] byte_subset
    using block_bits [OF assms, of h "bit (m (cp + fs_frag fs * h div 8))"] by blast
qed

lemma isfreeblock_iff:
  assumes "frag_valid fs"
  shows "ffs_isfreeblock fs m cp h = Some (\<forall>i. i div fs_frag fs = h \<longrightarrow> \<not> isset m cp i)"
proof -
  have "(\<forall>i. i div fs_frag fs = h \<longrightarrow> \<not> bit (m (cp + fs_frag fs * h div 8)) (nat (i mod 8))) \<longleftrightarrow>
      (\<forall>i. i div fs_frag fs = h \<longrightarrow> \<not> isset m cp i)"
    using frag_block_bit [OF assms, of _ h] by (auto simp: isset_bit)
  then show ?thesis
    unfolding ffs_isfreeblock_eq [OF assms] byte_disjoint
    using block_bits [OF assms, of h "\<lambda>n. \<not> bit (m (cp + fs_frag fs * h div 8)) n"] by blast
qed

text \<open>C18. The four block operations are exact on the fragment map: \<open>ffs_isblock\<close> holds when all
  fragments of block \<open>h\<close> are free, \<open>ffs_isfreeblock\<close> when none is, \<open>ffs_clrblock\<close> clears and
  \<open>ffs_setblock\<close> sets the bits of block \<open>h\<close> and no other bit, for every fragment count the file
  system allows.\<close>

theorem block_ops_spec:
  assumes "fs_ok fs"
  shows "(ffs_isblock fs m cp h \<longleftrightarrow> (\<forall>i. i div fs_frag fs = h \<longrightarrow> isset m cp i)) \<and>
    ffs_isfreeblock fs m cp h = Some (\<forall>i. i div fs_frag fs = h \<longrightarrow> \<not> isset m cp i) \<and>
    (\<forall>i. isset (ffs_clrblock fs m cp h) cp i \<longleftrightarrow> i div fs_frag fs \<noteq> h \<and> isset m cp i) \<and>
    (\<exists>m'. ffs_setblock fs m cp h = Some m' \<and>
       (\<forall>i. isset m' cp i \<longleftrightarrow> i div fs_frag fs = h \<or> isset m cp i))"
proof -
  have fv: "frag_valid fs" using assms by (rule frag_valid_ok)
  obtain m' where "ffs_setblock fs m cp h = Some m'" using ffs_setblock_eq [OF fv] by blast
  then have "\<exists>m'. ffs_setblock fs m cp h = Some m' \<and>
       (\<forall>i. isset m' cp i \<longleftrightarrow> i div fs_frag fs = h \<or> isset m cp i)"
    using isset_setblock [OF fv] by blast
  with isblock_iff [OF fv] isfreeblock_iff [OF fv] isset_clrblock [OF fv] show ?thesis by blast
qed

theorem block_ops_spec_witness:
  "ffs_isblock fs_ex (\<lambda>i. if i = 3 then 0xff else 0) 0 3 \<and> isset (\<lambda>i. if i = 3 then 0xff else 0) 0 29 \<and>
   \<not> isset (ffs_clrblock fs_ex (\<lambda>i. if i = 3 then 0xff else 0) 0 3) 0 29"
proof -
  have "ffs_isblock fs_ex (\<lambda>i. if i = 3 then 0xff else 0) 0 3" "29 div fs_frag fs_ex = 3"
    by (simp_all add: ffs_isblock_def fs_ex_def)
  then show ?thesis
    using block_ops_spec [OF fs_ok_ex, of "\<lambda>i. if i = 3 then 0xff else 0" 0 3] by blast
qed

subsection \<open>Fragment accounting\<close>

text \<open>How often the inner loop finds the pattern.\<close>

function frag_hits :: "int \<Rightarrow> int \<Rightarrow> int \<Rightarrow> int \<Rightarrow> int \<Rightarrow> int \<Rightarrow> nat" where
  "frag_hits frag fragmap siz field subfield pos =
     (if pos \<le> frag then
        (if fragmap AND field = subfield then
           Suc (frag_hits frag fragmap siz
             (push_bit 1 (push_bit (nat siz) field)) (push_bit 1 (push_bit (nat siz) subfield))
             (pos + int (nat siz) + 1))
         else frag_hits frag fragmap siz (push_bit 1 field) (push_bit 1 subfield) (pos + 1))
      else 0)"
  by pat_completeness auto
termination by (relation "measure (\<lambda>(f, fm, s, a, b, p). nat (f + 1 - p))") auto

declare frag_hits.simps [simp del]

lemma fragacct_pos_hits:
  "fragacct_pos m fl cnt frag fragmap siz field subfield pos =
   add32_times (frag_hits frag fragmap siz field subfield pos) m (fl + 4 * siz) cnt"
proof (induction m fl cnt frag fragmap siz field subfield pos rule: fragacct_pos.induct)
  case (1 m fl cnt frag fragmap siz field subfield pos)
  then show ?case
    by (subst fragacct_pos.simps, subst frag_hits.simps) (simp add: add32_def)
qed

text \<open>The number of maximal runs of \<open>s\<close> free fragments in the block map, by definition and as the
  two loops find it (0 when the table says there is none).\<close>

definition run_count :: "int \<Rightarrow> int \<Rightarrow> int \<Rightarrow> nat" where
  "run_count f blk s = length (filter (frag_run blk s) [0..f - s])"

definition acct_hits :: "int \<Rightarrow> int \<Rightarrow> int \<Rightarrow> nat" where
  "acct_hits f blk s =
     (if push_bit 1 ((if f = 8 then fragtbl8 else fragtbl124) ! nat blk) AND push_bit (nat (s + f mod 8)) 1 = 0
      then 0 else frag_hits f (push_bit 1 blk) s (around ! nat s) (inside ! nat s) s)"

lemma acct_check:
  "list_all (\<lambda>f. list_all (\<lambda>b. list_all (\<lambda>s. acct_hits f b s = run_count f b s) [1..f - 1]) [0..2 ^ nat f - 1])
     [1, 2, 4, 8]"
  by code_simp

lemma acct_hits_eq:
  assumes "f \<in> {1, 2, 4, 8}" "0 \<le> b" "b < 2 ^ nat f" "1 \<le> s" "s < f"
  shows "acct_hits f b s = run_count f b s"
  using assms acct_check
  by (auto simp only: list_all_iff set_upto atLeastAtMost_iff insert_iff empty_iff list.set zle_diff1_eq)

lemma fragacct_siz_step:
  assumes "f = fs_frag fs" "s < f" "inblk = push_bit 1 ((if f = 8 then fragtbl8 else fragtbl124) ! nat b)"
  shows "fragacct_siz m fl cnt f inblk (push_bit 1 b) s =
    fragacct_siz (add32_times (acct_hits f b s) m (fl + 4 * s) cnt) fl cnt f inblk (push_bit 1 b) (s + 1)"
  using assms by (subst fragacct_siz.simps) (simp add: acct_hits_def fragacct_pos_hits)

lemma fragacct_siz_spec:
  assumes "f \<in> {1, 2, 4, 8}" "f = fs_frag fs" "0 \<le> b" "b < 2 ^ nat f" "1 \<le> s0"
    "inblk = push_bit 1 ((if f = 8 then fragtbl8 else fragtbl124) ! nat b)"
    "m' = fragacct_siz m fl cnt f inblk (push_bit 1 b) s0"
  shows "(\<forall>s. s0 \<le> s \<longrightarrow> s < f \<longrightarrow> ld32 m' (fl + 4 * s) = s32 (ld32 m (fl + 4 * s) + int (run_count f b s) * cnt)) \<and>
    (\<forall>i. i < fl + 4 * s0 \<or> fl + 4 * f \<le> i \<longrightarrow> m' i = m i)"
  using assms(5,7)
proof (induction "nat (f - s0)" arbitrary: s0 m)
  case 0
  then have "m' = m" by (subst (asm) fragacct_siz.simps) simp
  with 0 show ?case by simp
next
  case (Suc n)
  define m1 where "m1 = add32_times (acct_hits f b s0) m (fl + 4 * s0) cnt"
  have lt: "s0 < f" using Suc(2) by simp
  have "m' = fragacct_siz m1 fl cnt f inblk (push_bit 1 b) (s0 + 1)"
    using Suc(4) fragacct_siz_step [OF assms(2) lt assms(6)] by (simp add: m1_def)
  with Suc(1) [of "s0 + 1" m1] Suc(2,3) have IH:
    "\<And>s. s0 + 1 \<le> s \<Longrightarrow> s < f \<Longrightarrow> ld32 m' (fl + 4 * s) = s32 (ld32 m1 (fl + 4 * s) + int (run_count f b s) * cnt)"
    "\<And>i. i < fl + 4 * (s0 + 1) \<or> fl + 4 * f \<le> i \<Longrightarrow> m' i = m1 i" by auto
  have "ld32 m' (fl + 4 * s0) = ld32 m1 (fl + 4 * s0)" by (rule ld_cong) (auto intro: IH(2))
  also have "\<dots> = s32 (ld32 m (fl + 4 * s0) + int (run_count f b s0) * cnt)"
    unfolding m1_def acct_hits_eq [OF assms(1,3,4) Suc(3) lt] by (rule ld32_add32_times) simp
  finally have eq0: "ld32 m' (fl + 4 * s0) = s32 (ld32 m (fl + 4 * s0) + int (run_count f b s0) * cnt)" .
  have "ld32 m' (fl + 4 * s) = s32 (ld32 m (fl + 4 * s) + int (run_count f b s) * cnt)"
    if "s0 \<le> s" "s < f" for s
  proof (cases "s = s0")
    case False
    then have "ld32 m1 (fl + 4 * s) = ld32 m (fl + 4 * s)"
      unfolding m1_def using that by (intro ld32_add32_times_other) simp
    then show ?thesis using IH(1) [of s] that False by simp
  qed (use eq0 in simp)
  moreover have "m' i = m i" if "i < fl + 4 * s0 \<or> fl + 4 * f \<le> i" for i
    using IH(2) [of i] that lt add32_times_other [of i "fl + 4 * s0"] unfolding m1_def by auto
  ultimately show ?case by blast
qed

lemma fragacct_runs:
  assumes "fs_ok fs" "0 \<le> fragmap" "fragmap < 2 ^ nat (fs_frag fs)"
  shows "\<exists>m'. ffs_fragacct fs fragmap m fl cnt = Some m' \<and>
    (\<forall>s \<in> {1..<fs_frag fs}. ld32 m' (fl + 4 * s) =
       s32 (ld32 m (fl + 4 * s) + int (length (filter (frag_run fragmap s) [0..fs_frag fs - s])) * cnt)) \<and>
    (\<forall>i. i < fl + 4 \<or> fl + 4 * fs_frag fs \<le> i \<longrightarrow> m' i = m i)"
proof -
  have f: "fs_frag fs \<in> {1, 2, 4, 8}" using fs_okD(5) [OF assms(1)] .
  have t: "fragtbl (fs_frag fs) = Some (if fs_frag fs = 8 then fragtbl8 else fragtbl124)"
    using f by (auto simp: fragtbl_def)
  show ?thesis
    using fragacct_siz_spec [OF f refl assms(2,3) order.refl refl refl, of m fl cnt]
    by (simp add: ffs_fragacct_def t run_count_def)
qed

text \<open>C19. \<open>ffs_fragacct\<close> adds \<open>cnt\<close> to the counter of run length \<open>s\<close> once for every maximal run of
  exactly \<open>s\<close> free fragments of the block map, for every length below the fragment count, and
  changes nothing else.\<close>

theorem ffs_fragacct_spec:
  assumes "fs_ok fs" "0 \<le> fragmap" "fragmap < 2 ^ nat (fs_frag fs)"
  shows "\<exists>m'. ffs_fragacct fs fragmap m fl cnt = Some m' \<and>
    (\<forall>s \<in> {1..<fs_frag fs}. ld32 m' (fl + 4 * s) =
       s32 (ld32 m (fl + 4 * s) + int (length (filter (frag_run fragmap s) [0..fs_frag fs - s])) * cnt)) \<and>
    (\<forall>i. i < fl + 4 \<or> fl + 4 * fs_frag fs \<le> i \<longrightarrow> m' i = m i)"
  using assms by (rule fragacct_runs)

theorem ffs_fragacct_spec_witness:
  "\<exists>m'. ffs_fragacct fs_ex 0x36 (\<lambda>_. 0) 52 1 = Some m' \<and> ld32 m' 60 = 2"
proof -
  have f: "fs_frag fs_ex = 8" by (simp add: fs_ex_def)
  have c: "length (filter (frag_run 0x36 2) [0..8 - 2]) = 2" by code_simp
  have z: "ld32 (\<lambda>_. 0) 60 = 0" by (simp add: ld32_def numeral_eq_Suc)
  obtain m' where m': "ffs_fragacct fs_ex 0x36 (\<lambda>_. 0) 52 1 = Some m'"
    "\<forall>s \<in> {1..<8}. ld32 m' (52 + 4 * s) = s32 (ld32 (\<lambda>_. 0) (52 + 4 * s) +
       int (length (filter (frag_run 0x36 s) [0..8 - s])) * 1)"
    using ffs_fragacct_spec [where fs = fs_ex and fragmap = "0x36" and m = "\<lambda>_. 0" and fl = 52 and cnt = 1]
    unfolding f by auto
  have "ld32 m' (52 + 4 * 2) = s32 (ld32 (\<lambda>_. 0) (52 + 4 * 2) + int 2 * 1)"
    using m'(2) c by (metis atLeastLessThan_iff one_le_numeral numeral_less_iff semiring_norm(76,78))
  then show ?thesis using m'(1) z by (intro exI [of _ m']) simp
qed

subsection \<open>Cluster accounting\<close>

lemma and_bit_uint: "n < 8 \<Longrightarrow> uint (w :: byte) AND push_bit n 1 = 0 \<longleftrightarrow> \<not> bit w n"
  using and_exp_eq_0_iff_not_bit [of "uint w" n] by (simp add: bit_uint_iff push_bit_eq_mult)

lemma isset_and: "uint (m (a + i div 8)) AND push_bit (nat (i mod 8)) 1 = 0 \<longleftrightarrow> \<not> isset m a i"
  unfolding isset_bit by (rule and_bit_uint) (rule nat_mod8_less)

lemma clus_forw_spec:
  assumes "mapp = a + i div 8 + 1" "mp = uint (m (a + i div 8))" "bt = push_bit (nat (i mod 8)) 1" "i \<le> e"
    "r = clus_forw m mapp mp bt i e"
  shows "i \<le> r \<and> r \<le> e \<and> (\<forall>j \<in> {i..<r}. isset m a j) \<and> (r < e \<longrightarrow> \<not> isset m a r)"
  using assms
proof (induction m mapp mp bt i e rule: clus_forw.induct)
  case (1 m mapp mp bt i e)
  have t: "mp AND bt = 0 \<longleftrightarrow> \<not> isset m a i" unfolding 1(4,5) by (rule isset_and)
  show ?case
  proof (cases "i < e \<and> isset m a i")
    case False
    then have "r = i" using 1(6,7) t by (subst (asm) clus_forw.simps) auto
    then show ?thesis using False 1(6) by auto
  next
    case True
    have IH: "i + 1 \<le> r \<and> r \<le> e \<and> (\<forall>j \<in> {i + 1..<r}. isset m a j) \<and> (r < e \<longrightarrow> \<not> isset m a r)"
    proof (cases "i mod 8 = 7")
      case False
      have "r = clus_forw m mapp mp (push_bit 1 bt) (i + 1) e"
        using 1(7) t True False by (subst (asm) clus_forw.simps) (simp add: and_7_int)
      moreover have "push_bit 1 bt = push_bit (nat ((i + 1) mod 8)) 1"
        using mod8_succ [OF False] by (simp add: 1(5) nat_add_distrib)
      ultimately show ?thesis
        by (intro 1(1)) (use True False t mod8_succ [OF False] 1(3,4) in \<open>simp_all add: and_7_int\<close>)
    next
      case T7: True
      have "r = clus_forw m (mapp + 1) (uint (m mapp)) 1 (i + 1) e"
        using 1(7) t True T7 by (subst (asm) clus_forw.simps) (simp add: and_7_int)
      then show ?thesis
        by (intro 1(2)) (use True T7 t mod8_succ7 [OF T7] 1(3,4) in \<open>simp_all add: and_7_int algebra_simps\<close>)
    qed
    have "isset m a j" if "j \<in> {i..<r}" for j using IH True that by (cases "j = i") auto
    with IH show ?thesis by auto
  qed
qed

lemma clus_back_spec:
  assumes "mapp = a + i div 8 - 1" "mp = uint (m (a + i div 8))" "bt = push_bit (nat (i mod 8)) 1" "e \<le> i"
    "r = clus_back m mapp mp bt i e"
  shows "e \<le> r \<and> r \<le> i \<and> (\<forall>j \<in> {r<..i}. isset m a j) \<and> (e < r \<longrightarrow> \<not> isset m a r)"
  using assms
proof (induction m mapp mp bt i e rule: clus_back.induct)
  case (1 m mapp mp bt i e)
  have t: "mp AND bt = 0 \<longleftrightarrow> \<not> isset m a i" unfolding 1(4,5) by (rule isset_and)
  show ?case
  proof (cases "e < i \<and> isset m a i")
    case False
    then have "r = i" using 1(6,7) t by (subst (asm) clus_back.simps) auto
    then show ?thesis using False 1(6) by auto
  next
    case True
    have IH: "e \<le> r \<and> r \<le> i - 1 \<and> (\<forall>j \<in> {r<..i - 1}. isset m a j) \<and> (e < r \<longrightarrow> \<not> isset m a r)"
    proof (cases "i mod 8 = 0")
      case False
      have "r = clus_back m mapp mp (drop_bit 1 bt) (i - 1) e"
        using 1(7) t True False by (subst (asm) clus_back.simps) (simp add: and_7_int)
      moreover have "drop_bit 1 bt = push_bit (nat ((i - 1) mod 8)) 1"
      proof -
        have "nat (i mod 8) = Suc (nat ((i - 1) mod 8))" using mod8_pred [OF False] False
          by (simp add: Suc_nat_eq_nat_zadd1)
        then show ?thesis by (simp add: 1(5) drop_bit_eq_div)
      qed
      ultimately show ?thesis
        by (intro 1(1)) (use True False t mod8_pred [OF False] 1(3,4) in \<open>simp_all add: and_7_int\<close>)
    next
      case T0: True
      have "r = clus_back m (mapp - 1) (uint (m mapp)) (push_bit 7 1) (i - 1) e"
        using 1(7) t True T0 by (subst (asm) clus_back.simps) (simp add: and_7_int)
      then show ?thesis
        by (intro 1(2)) (use True T0 t mod8_pred0 [OF T0] 1(3,4) in \<open>simp_all add: and_7_int add_diff_eq\<close>)
    qed
    have "isset m a j" if "j \<in> {r<..i}" for j using IH True that by (cases "j = i") auto
    with IH show ?thesis by auto
  qed
qed

lemma max_cluster_spec:
  assumes "0 \<le> n" "r = max_cluster m sump n"
  shows "0 \<le> r \<and> r \<le> n \<and> (0 < r \<longrightarrow> 0 < ld32 m (sump + 4 * r)) \<and>
    (\<forall>k. r < k \<longrightarrow> k \<le> n \<longrightarrow> ld32 m (sump + 4 * k) \<le> 0)"
  using assms
proof (induction m sump n rule: max_cluster.induct)
  case (1 m sump n)
  show ?case
  proof (cases "n > 0 \<and> ld32 m (sump + 4 * n) \<le> 0")
    case True
    then have "r = max_cluster m sump (n - 1)" using 1(3) by (subst (asm) max_cluster.simps) simp
    with 1(1) True have IH: "0 \<le> r \<and> r \<le> n - 1 \<and> (0 < r \<longrightarrow> 0 < ld32 m (sump + 4 * r)) \<and>
      (\<forall>k. r < k \<longrightarrow> k \<le> n - 1 \<longrightarrow> ld32 m (sump + 4 * k) \<le> 0)" by simp
    then have "ld32 m (sump + 4 * k) \<le> 0" if "r < k" "k \<le> n" for k
      using that True by (cases "k = n") auto
    with IH show ?thesis by auto
  next
    case False
    then have "r = n" using 1(2,3) by (subst (asm) max_cluster.simps) auto
    then show ?thesis using False 1(2) by auto
  qed
qed

end
