(* ===== verification/Ufs_Alloc.thy ===== *)
theory Ufs_Alloc
  imports Ufs_Search
begin

section \<open>Block allocation and release (fuse-inodeops.c)\<close>

text \<open>
  The block allocator: \<open>ufs_alloccgblk\<close> and \<open>ufs_alloccg\<close> take blocks and fragments out of a
  cylinder group, \<open>ufs_hashalloc\<close> tries the groups one after the other with an allocator it is
  given, \<open>ufs_block_alloc\<close> is what the file code calls, and \<open>ufs_block_free\<close> returns blocks
  and fragments to their group. The state is the disk handle; the inode the C functions take
  only leads to the super block and the handle.
\<close>

subsection \<open>Summary counters\<close>

text \<open>The paired updates of \<open>fs_cstotal\<close> and of the summary of one group.\<close>

definition add_nbfree :: "int \<Rightarrow> int \<Rightarrow> fs \<Rightarrow> fs" where
  "add_nbfree cg k fs =
     fs\<lparr>fs_cstotal := (fs_cstotal fs)\<lparr>cs_nbfree := cs_nbfree (fs_cstotal fs) + k\<rparr>,
        fs_csp := (fs_csp fs)(cg := (fs_csp fs cg)\<lparr>cs_nbfree := cs_nbfree (fs_csp fs cg) + k\<rparr>)\<rparr>"

definition add_nffree :: "int \<Rightarrow> int \<Rightarrow> fs \<Rightarrow> fs" where
  "add_nffree cg k fs =
     fs\<lparr>fs_cstotal := (fs_cstotal fs)\<lparr>cs_nffree := cs_nffree (fs_cstotal fs) + k\<rparr>,
        fs_csp := (fs_csp fs)(cg := (fs_csp fs cg)\<lparr>cs_nffree := cs_nffree (fs_csp fs cg) + k\<rparr>)\<rparr>"

subsection \<open>Taking blocks from a group\<close>

definition alloccgblk_gotit :: "fs \<Rightarrow> mem \<Rightarrow> int \<Rightarrow> int \<times> fs \<times> mem" where
  "alloccgblk_gotit fs cgp bno =
     (let blkno = fragstoblks fs bno;
          cgp = ffs_clrblock fs cgp (cg_freeoff cgp) blkno;
          (fs, cgp) = ffs_clusteracct fs cgp blkno (-1);
          cgp = set_nbfree cgp (cg_nbfree cgp - 1);
          fs = (add_nbfree (cg_cgx cgp) (-1) fs)\<lparr>fs_fmod := 1\<rparr>
      in (cgbase fs (cg_cgx cgp) + bno, fs, cgp))"

definition ufs_alloccgblk :: "fs \<Rightarrow> mem \<Rightarrow> int \<Rightarrow> (int \<times> fs \<times> mem) option" where
  "ufs_alloccgblk fs cgp bpref =
     (let other = (bpref = 0 \<or> dtog fs bpref \<noteq> cg_cgx cgp);
          bpref = (if other then cg_rotor cgp else blknum fs bpref);
          bno = dtogd fs bpref
      in if \<not> other \<and> ffs_isblock fs cgp (cg_freeoff cgp) (fragstoblks fs bno)
         then Some (alloccgblk_gotit fs cgp bno)
         else do {
           (bno, cgp) \<leftarrow> ffs_mapsearch fs cgp bpref (fs_frag fs);
           if bno < 0 then Some (0, fs, cgp)
           else Some (alloccgblk_gotit fs (set_rotor cgp bno) bno)
         })"

function setbits :: "mem \<Rightarrow> int \<Rightarrow> int \<Rightarrow> int \<Rightarrow> int \<Rightarrow> mem" where
  "setbits m a bno i e = (if i < e then setbits (setbit m a (bno + i)) a bno (i + 1) e else m)"
  by pat_completeness auto
termination by (relation "measure (\<lambda>(m, a, b, i, e). nat (e - i))") auto

function clrbits :: "mem \<Rightarrow> int \<Rightarrow> int \<Rightarrow> int \<Rightarrow> int \<Rightarrow> mem" where
  "clrbits m a bno i e = (if i < e then clrbits (clrbit m a (bno + i)) a bno (i + 1) e else m)"
  by pat_completeness auto
termination by (relation "measure (\<lambda>(m, a, b, i, e). nat (e - i))") auto

text \<open>The loop that looks for the smallest run of fragments that is large enough.\<close>

function alloc_size :: "mem \<Rightarrow> int \<Rightarrow> int \<Rightarrow> int" where
  "alloc_size cgp allocsiz frag =
     (if allocsiz < frag then
        (if cg_frsum cgp allocsiz \<noteq> 0 then allocsiz else alloc_size cgp (allocsiz + 1) frag)
      else allocsiz)"
  by pat_completeness auto
termination by (relation "measure (\<lambda>(c, a, f). nat (f - a))") auto

declare setbits.simps [simp del] clrbits.simps [simp del] alloc_size.simps [simp del]

text \<open>What the two fragment branches of \<open>ufs_alloccg\<close> do to the group: the rest of a block that is
  broken up becomes free fragments, and a run of fragments loses its head.\<close>

definition alloccg_split :: "fs \<Rightarrow> mem \<Rightarrow> int \<Rightarrow> int \<Rightarrow> mem" where
  "alloccg_split fs cgp bno frags =
     (let cgp = setbits cgp (cg_freeoff cgp) bno frags (fs_frag fs);
          i = fs_frag fs - frags;
          cgp = set_nffree cgp (cg_nffree cgp + i)
      in set_frsum cgp i (cg_frsum cgp i + 1))"

definition alloccg_frags :: "mem \<Rightarrow> int \<Rightarrow> int \<Rightarrow> int \<Rightarrow> mem" where
  "alloccg_frags cgp bno frags allocsiz =
     (let cgp = clrbits cgp (cg_freeoff cgp) bno 0 frags;
          cgp = set_nffree cgp (cg_nffree cgp - frags);
          cgp = set_frsum cgp allocsiz (cg_frsum cgp allocsiz - 1)
      in if frags \<noteq> allocsiz
         then set_frsum cgp (allocsiz - frags) (cg_frsum cgp (allocsiz - frags) + 1)
         else cgp)"

text \<open>\<open>malloc\<close> is not checked here: without memory the read into the null pointer fails.\<close>

definition ufs_alloccg :: "int \<Rightarrow> int \<Rightarrow> int \<Rightarrow> uufsd \<Rightarrow> (int \<times> uufsd) option" where
  "ufs_alloccg cg bpref sz s =
     (let fs = d_fs s; addr = fsbtodb fs (cgtod fs cg)
      in if cs_nbfree (fs_csp fs cg) = 0 \<and> sz = fs_bsize fs then Some (0, s)
         else if \<not> env_mem s then None
         else
           let (err, cgp) = blkread addr (env_junk s) (fs_cgsize fs) s
           in if err = -1 then Some (0, s)
              else if \<not> cg_chkmagic cgp \<or> cg_nbfree cgp = 0 \<and> sz = fs_bsize fs then Some (0, s)
              else
                let cgp = set_cg_time cgp (env_time s)
                in if sz = fs_bsize fs then do {
                     (blkno, fs, cgp) \<leftarrow> ufs_alloccgblk fs cgp bpref;
                     Some (blkno, snd (blkwrite addr cgp (fs_cgsize fs) (s\<lparr>d_fs := fs\<rparr>)))
                   }
                   else
                     let frags = numfrags fs sz; allocsiz = alloc_size cgp frags (fs_frag fs)
                     in if allocsiz = fs_frag fs then
                          (if cg_nbfree cgp = 0 then Some (0, s)
                           else do {
                             (blkno, fs, cgp) \<leftarrow> ufs_alloccgblk fs cgp bpref;
                             let bno = dtogd fs blkno;
                             let cgp = alloccg_split fs cgp bno frags;
                             let fs = (add_nffree cg (fs_frag fs - frags) fs)\<lparr>fs_fmod := 1\<rparr>;
                             Some (blkno, snd (blkwrite addr cgp (fs_cgsize fs) (s\<lparr>d_fs := fs\<rparr>)))
                           })
                        else do {
                          (bno, cgp) \<leftarrow> ffs_mapsearch fs cgp bpref allocsiz;
                          if bno < 0 then Some (0, s)
                          else do {
                            let cgp = alloccg_frags cgp bno frags allocsiz;
                            let fs = (add_nffree cg (- frags) fs)\<lparr>fs_fmod := 1\<rparr>;
                            Some (cgbase fs cg + bno,
                                  snd (blkwrite addr cgp (fs_cgsize fs) (s\<lparr>d_fs := fs\<rparr>)))
                          }
                        })"

subsection \<open>Trying the groups\<close>

text \<open>
  The allocator is a parameter, as in the code (\<open>allocfunc_t\<close>). The number of groups is read
  once: nothing in the program assigns \<open>fs_ncg\<close>. The step of the rehash starts at 1 and
  doubles; the guard \<open>0 < i\<close> only states that.
\<close>

type_synonym allocfunc = "int \<Rightarrow> int \<Rightarrow> int \<Rightarrow> uufsd \<Rightarrow> (int \<times> uufsd) option"

function hash_rehash :: "allocfunc \<Rightarrow> int \<Rightarrow> int \<Rightarrow> int \<Rightarrow> int \<Rightarrow> uufsd \<Rightarrow> (int \<times> uufsd) option" where
  "hash_rehash allocator ncg sz cg i s =
     (if i < ncg \<and> 0 < i then
        let cg = (if cg + i \<ge> ncg then cg + i - ncg else cg + i)
        in case allocator cg 0 sz s of
             None \<Rightarrow> None
           | Some (result, s) \<Rightarrow>
               if result \<noteq> 0 then Some (result, s) else hash_rehash allocator ncg sz cg (i * 2) s
      else Some (0, s))"
  by pat_completeness auto
termination by (relation "measure (\<lambda>(a, n, z, c, i, s). nat (n - i))") auto

function hash_brute :: "allocfunc \<Rightarrow> int \<Rightarrow> int \<Rightarrow> int \<Rightarrow> int \<Rightarrow> uufsd \<Rightarrow> (int \<times> uufsd) option" where
  "hash_brute allocator ncg sz cg i s =
     (if i < ncg then
        case allocator cg 0 sz s of
          None \<Rightarrow> None
        | Some (result, s) \<Rightarrow>
            if result \<noteq> 0 then Some (result, s)
            else hash_brute allocator ncg sz (if cg + 1 = ncg then 0 else cg + 1) (i + 1) s
      else Some (0, s))"
  by pat_completeness auto
termination by (relation "measure (\<lambda>(a, n, z, c, i, s). nat (n - i))") auto

declare hash_rehash.simps [simp del] hash_brute.simps [simp del]

definition ufs_hashalloc :: "int \<Rightarrow> int \<Rightarrow> int \<Rightarrow> allocfunc \<Rightarrow> uufsd \<Rightarrow> (int \<times> uufsd) option" where
  "ufs_hashalloc cg pref sz allocator s =
     (let ncg = fs_ncg (d_fs s) in do {
        (result, s) \<leftarrow> allocator cg pref sz s;
        if result \<noteq> 0 then Some (result, s)
        else do {
          (result, s) \<leftarrow> hash_rehash allocator ncg sz cg 1 s;
          if result \<noteq> 0 then Some (result, s)
          else hash_brute allocator ncg sz ((cg + 2) smod ncg) 2 s
        }
      })"

text \<open>The result is the error code and the block number stored through \<open>blkno\<close>.\<close>

definition ufs_block_alloc :: "int \<Rightarrow> int \<Rightarrow> uufsd \<Rightarrow> (int \<times> int \<times> uufsd) option" where
  "ufs_block_alloc ino sz s =
     (let fs = d_fs s; fullblock = (sz = fs_bsize fs)
      in if sz > fs_bsize fs then Some (- EINVAL, -1, s)
         else if fullblock \<and> cs_nbfree (fs_cstotal fs) = 0 then Some (- ENOSPC, -1, s)
         else do {
           (blkno, s) \<leftarrow> ufs_hashalloc (ino_to_cg fs ino) 0 sz ufs_alloccg s;
           if blkno = 0 then Some (- ENOSPC, blkno, s) else Some (0, blkno, s)
         })"

subsection \<open>Returning blocks\<close>

text \<open>The loop that frees the fragments; a fragment that is already free is fatal.\<close>

function free_frags :: "mem \<Rightarrow> int \<Rightarrow> int \<Rightarrow> int \<Rightarrow> int \<Rightarrow> mem option" where
  "free_frags m a cgbno i frags =
     (if i < frags then
        (if isset m a (cgbno + i) then None
         else free_frags (setbit m a (cgbno + i)) a cgbno (i + 1) frags)
      else Some m)"
  by pat_completeness auto
termination by (relation "measure (\<lambda>(m, a, b, i, e). nat (e - i))") auto

declare free_frags.simps [simp del]

text \<open>
  The two branches of \<open>ufs_block_free\<close>: a whole block, and fragments of a block, which may
  complete it. A block that is not entirely in use is fatal.
\<close>

definition blkfree_full :: "fs \<Rightarrow> int \<Rightarrow> mem \<Rightarrow> int \<Rightarrow> fs \<times> mem" where
  "blkfree_full fs cg cgp fragno =
     (let (fs, cgp) = ffs_clusteracct fs cgp fragno 1;
          cgp = set_nbfree cgp (cg_nbfree cgp + 1)
      in (add_nbfree cg 1 fs, cgp))"

definition blkfree_block :: "fs \<Rightarrow> int \<Rightarrow> mem \<Rightarrow> int \<Rightarrow> (fs \<times> mem) option" where
  "blkfree_block fs cg cgp cgbno =
     (let fragno = fragstoblks fs cgbno; blksfree = cg_freeoff cgp
      in do {
           free \<leftarrow> ffs_isfreeblock fs cgp blksfree fragno;
           if \<not> free then None
           else do {
             cgp \<leftarrow> ffs_setblock fs cgp blksfree fragno;
             Some (blkfree_full fs cg cgp fragno)
           }
         })"

definition blkfree_frags :: "fs \<Rightarrow> int \<Rightarrow> mem \<Rightarrow> int \<Rightarrow> int \<Rightarrow> (fs \<times> mem) option" where
  "blkfree_frags fs cg cgp cgbno frags =
     (let blksfree = cg_freeoff cgp; bbase = cgbno - fragnum fs cgbno
      in do {
           cgp \<leftarrow> ffs_fragacct fs (blkmap fs cgp blksfree bbase) cgp 52 (-1);
           cgp \<leftarrow> free_frags cgp blksfree cgbno 0 frags;
           let i = (if frags < 0 then 0 else frags);
           let cgp = set_nffree cgp (cg_nffree cgp + i);
           let fs = add_nffree cg i fs;
           cgp \<leftarrow> ffs_fragacct fs (blkmap fs cgp blksfree bbase) cgp 52 1;
           let fragno = fragstoblks fs bbase;
           if ffs_isblock fs cgp blksfree fragno then
             Some (blkfree_full (add_nffree cg (- fs_frag fs) fs) cg
                     (set_nffree cgp (cg_nffree cgp - fs_frag fs)) fragno)
           else Some (fs, cgp)
         })"

text \<open>
  The comparison of the block number with the size of the file system converts the number to
  an unsigned int. The last write transfers \<open>fs_bsize\<close> bytes from the buffer of \<open>fs_cgsize\<close>
  bytes; what follows the buffer in memory is what \<open>env_junk\<close> holds there.
\<close>

text \<open>
  A run of the function ends in one of two ways: \<open>Inr s\<close>, it returns and \<open>s\<close> is the handle, or
  \<open>Inl s\<close>, the program stops at a diagnostic and \<open>s\<close> is the handle, with its device, at that
  moment. Every diagnostic of the function stands before its only write to the device and before
  the counters of the super block change.
\<close>

definition ufs_block_free_run :: "int \<Rightarrow> int \<Rightarrow> uufsd \<Rightarrow> uufsd + uufsd" where
  "ufs_block_free_run bno sz s =
     (let fs = d_fs s; cg = dtog fs bno; cgblkno = fsbtodb fs (cgtod fs cg)
      in if u32 sz > fs_bsize fs \<or> fragoff fs sz \<noteq> 0 \<or>
            fragnum fs bno + numfrags fs sz > fs_frag fs then Inl s
         else if u32 bno \<ge> fs_size fs then Inl s
         else if \<not> env_mem s then Inl s
         else
           let (err, cgp) = blkread cgblkno (env_junk s) (fs_cgsize fs) s
           in if err = -1 then Inr s
              else if \<not> cg_chkmagic cgp then Inr s
              else
                let cgp = set_cg_time cgp (env_time s);
                    cgbno = dtogd fs bno
                in case (if sz = fs_bsize fs then blkfree_block fs cg cgp cgbno
                         else blkfree_frags fs cg cgp cgbno (numfrags fs sz)) of
                     None \<Rightarrow> Inl s
                   | Some (fs, cgp) \<Rightarrow>
                       let fs = fs\<lparr>fs_fmod := 1\<rparr>
                       in Inr (snd (blkwrite cgblkno cgp (fs_bsize fs) (s\<lparr>d_fs := fs\<rparr>))))"

text \<open>The callers go on only when the function returns.\<close>

definition ufs_block_free :: "int \<Rightarrow> int \<Rightarrow> uufsd \<Rightarrow> uufsd option" where
  "ufs_block_free bno sz s = (case ufs_block_free_run bno sz s of Inl _ \<Rightarrow> None | Inr s \<Rightarrow> Some s)"

end
