(* ===== verification/Ufs_Inode.thy ===== *)
theory Ufs_Inode
  imports Ufs_Alloc
begin

section \<open>Inodes (libufs/inode.c, do_readinode.c, fuse-inodealloc.c, fuse-inodeops.c)\<close>

text \<open>
  The in-core inode (\<open>struct inode\<close>) with the copy of its on-disk form, a buffer of 256 bytes
  laid out as \<open>struct ufs2_dinode\<close>; the cached inode block of \<open>getino\<close>; the conversions
  between both forms; allocating and freeing inode numbers in a cylinder group; and the choice
  of a group for a new directory. The pointers of \<open>struct inode\<close> to the handle and the super
  block are implicit.
\<close>

record inode =
  i_flag :: int
  i_number :: int
  i_effnlink :: int
  i_count :: int
  i_endoff :: int
  i_diroff :: int
  i_offset :: int
  i_ino :: int
  i_reclen :: int
  i_mode :: int
  i_nlink :: int
  i_size :: int
  i_flags :: int
  i_gen :: int
  i_uid :: int
  i_gid :: int
  i_blocks :: int
  i_atime :: int
  i_mtime :: int
  i_ctime :: int
  i_din2 :: mem

definition SIZEOF_DINODE1 :: int where [simp]: "SIZEOF_DINODE1 = 128"
definition SIZEOF_DINODE2 :: int where [simp]: "SIZEOF_DINODE2 = 256"

text \<open>Fields of \<open>struct ufs2_dinode\<close> by their offset.\<close>

definition di_mode :: "mem \<Rightarrow> int" where "di_mode d = ld16 d 0"
definition di_nlink :: "mem \<Rightarrow> int" where "di_nlink d = s16 (ld16 d 2)"
definition di_uid :: "mem \<Rightarrow> int" where "di_uid d = ld32u d 4"
definition di_gid :: "mem \<Rightarrow> int" where "di_gid d = ld32u d 8"
definition di_size :: "mem \<Rightarrow> int" where "di_size d = ld64u d 16"
definition di_blocks :: "mem \<Rightarrow> int" where "di_blocks d = ld64u d 24"
definition di_atime :: "mem \<Rightarrow> int" where "di_atime d = ld64 d 32"
definition di_mtime :: "mem \<Rightarrow> int" where "di_mtime d = ld64 d 40"
definition di_ctime :: "mem \<Rightarrow> int" where "di_ctime d = ld64 d 48"
definition di_gen :: "mem \<Rightarrow> int" where "di_gen d = ld32 d 80"
definition di_flags :: "mem \<Rightarrow> int" where "di_flags d = ld32u d 88"
definition di_db :: "mem \<Rightarrow> int \<Rightarrow> int" where "di_db d i = ld64 d (112 + 8 * i)"
definition di_ib :: "mem \<Rightarrow> int \<Rightarrow> int" where "di_ib d i = ld64 d (208 + 8 * i)"

definition set_di_db :: "inode \<Rightarrow> int \<Rightarrow> int \<Rightarrow> inode" where
  "set_di_db ip i v = ip\<lparr>i_din2 := st64 (i_din2 ip) (112 + 8 * i) v\<rparr>"

definition set_di_ib :: "inode \<Rightarrow> int \<Rightarrow> int \<Rightarrow> inode" where
  "set_di_ib ip i v = ip\<lparr>i_din2 := st64 (i_din2 ip) (208 + 8 * i) v\<rparr>"

lemmas di_defs = di_mode_def di_nlink_def di_uid_def di_gid_def di_size_def di_blocks_def
  di_atime_def di_mtime_def di_ctime_def di_gen_def di_flags_def di_db_def di_ib_def

subsection \<open>The inode block cache\<close>

text \<open>
  The result is the return code and the offset of the inode in the cached block (the pointer
  \<open>getino\<close> stores through \<open>dino\<close>). A failed read of the block is not noticed.
\<close>

definition getino :: "int \<Rightarrow> uufsd \<Rightarrow> int \<times> int \<times> uufsd" where
  "getino ino s =
     (case (case d_inoblock s of Some b \<Rightarrow> Some b | None \<Rightarrow> if env_mem s then Some (env_junk s) else None) of
        None \<Rightarrow> (-1, 0, s)
      | Some inoblock \<Rightarrow>
          let fs = d_fs s;
              s = (if d_inomin s \<le> ino \<and> ino < d_inomax s then s\<lparr>d_inoblock := Some inoblock\<rparr>
                   else let (_, inoblock) = bread (fsbtodb fs (ino_to_fsba fs ino)) inoblock (fs_bsize fs) s;
                            mn = ino - ino mod INOPB fs
                        in s\<lparr>d_inoblock := Some inoblock, d_inomin := mn, d_inomax := mn + INOPB fs\<rparr>)
          in if d_ufs s = 1 then (0, SIZEOF_DINODE1 * (ino - d_inomin s), s)
             else if d_ufs s = 2 then (0, SIZEOF_DINODE2 * (ino - d_inomin s), s)
             else (-1, 0, s))"

subsection \<open>In-core and on-disk form\<close>

text \<open>
  The number of sectors the file occupies, guessed from its size. The block counts are
  \<open>int\<close>; the division of the 64-bit size is unsigned.
\<close>

definition calc_num_blocks :: "fs \<Rightarrow> inode \<Rightarrow> int" where
  "calc_num_blocks fs ip =
     (let numblocks = s32 (howmany (i_size ip) (fs_bsize fs))
      in if S_ISLNK (i_mode ip) \<and> i_size ip < max_symlinklen fs then 0
         else
           let nfrags =
             (if numblocks < NDADDR then s32 (numfrags fs (fragroundup fs (i_size ip)))
              else
                let nindirs = fs_nindir fs;
                    l1_indir = howmany (numblocks - NDADDR) nindirs;
                    numblocks = numblocks + l1_indir;
                    l2_indir = howmany (l1_indir - 1) nindirs;
                    numblocks = numblocks + l2_indir;
                    numblocks = (if l2_indir \<noteq> 0 then numblocks + howmany (l2_indir - 1) nindirs
                                 else numblocks)
                in numblocks * fs_frag fs)
           in nfrags * drop_bit DEV_BSHIFT (fs_fsize fs))"

text \<open>Every caller passes the inode's own on-disk copy as the destination.\<close>

definition copy_incore_to_ondisk :: "fs \<Rightarrow> inode \<Rightarrow> inode" where
  "copy_incore_to_ondisk fs ip =
     (let ip = ip\<lparr>i_blocks := u64 (calc_num_blocks fs ip)\<rparr>;
          d = i_din2 ip;
          d = st16 d 2 (i_effnlink ip);
          d = st16 d 0 (i_mode ip);
          d = st16 d 2 (i_nlink ip);
          d = st64 d 16 (i_size ip);
          d = st32 d 88 (i_flags ip);
          d = st32 d 80 (i_gen ip);
          d = st32 d 4 (i_uid ip);
          d = st32 d 8 (i_gid ip);
          d = st64 d 24 (i_blocks ip);
          d = st64 d 32 (i_atime ip);
          d = st64 d 40 (i_mtime ip);
          d = st64 d 48 (i_ctime ip)
      in ip\<lparr>i_din2 := d\<rparr>)"

text \<open>The on-disk inode is at offset \<open>off\<close> of the buffer \<open>b\<close>.\<close>

definition copy_ondisk_to_incore :: "inode \<Rightarrow> mem \<Rightarrow> int \<Rightarrow> int \<Rightarrow> inode" where
  "copy_ondisk_to_incore ip b off ino =
     (let d = memcpy (i_din2 ip) 0 b off SIZEOF_DINODE2
      in ip\<lparr>i_din2 := d, i_number := ino, i_effnlink := di_nlink d, i_count := 0, i_endoff := 0,
            i_diroff := 0, i_offset := 0, i_ino := ino, i_reclen := 0, i_mode := di_mode d,
            i_nlink := di_nlink d, i_size := di_size d, i_flags := di_flags d, i_gen := di_gen d,
            i_uid := di_uid d, i_gid := di_gid d, i_blocks := di_blocks d, i_atime := di_atime d,
            i_mtime := di_mtime d, i_ctime := di_ctime d\<rparr>)"

text \<open>The inode is given and returned by value: the caller stores it back into its vnode.\<close>

definition ufs_write_inode :: "int \<Rightarrow> inode \<Rightarrow> uufsd \<Rightarrow> int \<times> inode \<times> uufsd" where
  "ufs_write_inode ino ip s =
     (let (rc, off, s) = getino ino s
      in if rc \<noteq> 0 then (rc, ip, s)
         else let fs = d_fs s;
                  ip = copy_incore_to_ondisk fs ip;
                  inoblock = memcpy (the (d_inoblock s)) off (i_din2 ip) 0 SIZEOF_DINODE2;
                  s = s\<lparr>d_inoblock := Some inoblock\<rparr>;
                  (rc, s) = blkwrite (fsbtodb fs (ino_to_fsba fs ino)) inoblock (fs_bsize fs) s
              in if rc \<le> 0 then (- EIO, ip, s) else (0, ip, s))"

subsection \<open>Inode numbers\<close>

definition add_nifree :: "int \<Rightarrow> int \<Rightarrow> fs \<Rightarrow> fs" where
  "add_nifree cg k fs =
     fs\<lparr>fs_cstotal := (fs_cstotal fs)\<lparr>cs_nifree := cs_nifree (fs_cstotal fs) + k\<rparr>,
        fs_csp := (fs_csp fs)(cg := (fs_csp fs cg)\<lparr>cs_nifree := cs_nifree (fs_csp fs cg) + k\<rparr>)\<rparr>"

definition add_ndir :: "int \<Rightarrow> int \<Rightarrow> fs \<Rightarrow> fs" where
  "add_ndir cg k fs =
     fs\<lparr>fs_cstotal := (fs_cstotal fs)\<lparr>cs_ndir := cs_ndir (fs_cstotal fs) + k\<rparr>,
        fs_csp := (fs_csp fs)(cg := (fs_csp fs cg)\<lparr>cs_ndir := cs_ndir (fs_csp fs cg) + k\<rparr>)\<rparr>"

text \<open>
  The byte searches of \<open>ufs_inode_alloc\<close>: \<open>memchr\<close> for a zero byte, the first byte that is
  not \<open>0xff\<close>, and the first clear bit of a byte.
\<close>

function byte_find :: "(byte \<Rightarrow> bool) \<Rightarrow> mem \<Rightarrow> int \<Rightarrow> int \<Rightarrow> int \<Rightarrow> int option" where
  "byte_find p m a i len =
     (if i < len then (if p (m (a + i)) then Some i else byte_find p m a (i + 1) len) else None)"
  by pat_completeness auto
termination by (relation "measure (\<lambda>(p, m, a, i, l). nat (l - i))") auto

function first_clear :: "int \<Rightarrow> int \<Rightarrow> int \<Rightarrow> int option" where
  "first_clear mp i ipref =
     (if i < push_bit 8 1 \<and> 0 < i then
        (if mp AND i = 0 then Some ipref else first_clear mp (push_bit 1 i) (ipref + 1))
      else None)"
  by pat_completeness auto
termination by (relation "measure (\<lambda>(m, i, p). nat (256 - i))") (auto simp: push_bit_eq_mult)

declare byte_find.simps [simp del] first_clear.simps [simp del]

text \<open>The search for a free inode number in the group: the number and the updated group.\<close>

definition inode_search :: "fs \<Rightarrow> mem \<Rightarrow> int \<Rightarrow> (int \<times> mem) option" where
  "inode_search fs cgp ipref =
     (let inosused = cg_iusedoff cgp; pref = ipref smod fs_ipg fs
      in if ipref \<noteq> 0 \<and> isclr cgp inosused pref then Some (pref, cgp)
         else do {
           let start = cg_irotor cgp sdiv NBBY;
           let len = howmany (fs_ipg fs - cg_irotor cgp) NBBY;
           i \<leftarrow> (case byte_find (\<lambda>b. b = 0) cgp (inosused + start) 0 len of
                   Some loc \<Rightarrow> Some (start + loc)
                 | None \<Rightarrow> byte_find (\<lambda>b. b \<noteq> 0xff) cgp inosused 0 (howmany (fs_ipg fs) NBBY));
           ipref \<leftarrow> first_clear (uint (cgp (inosused + i))) 1 (i * NBBY);
           Some (ipref, set_irotor cgp ipref)
         })"

text \<open>The generation numbers of a freshly initialised inode block.\<close>

fun init_gens :: "nat \<Rightarrow> mem \<Rightarrow> int \<Rightarrow> uufsd \<Rightarrow> mem \<times> uufsd" where
  "init_gens 0 ibp dp2 s = (ibp, s)"
| "init_gens (Suc n) ibp dp2 s =
     (let (r, s) = c_rand s
      in init_gens n (st32 ibp (dp2 + 80) (r sdiv 2 + 1)) (dp2 + SIZEOF_DINODE2) s)"

text \<open>
  The block of inodes to initialise is read at the number \<open>cg_initediblk\<close> has before it is
  advanced and written at the one it has after. Negative results are error codes.
\<close>

definition ufs_inode_alloc :: "int \<Rightarrow> int \<Rightarrow> int \<Rightarrow> uufsd \<Rightarrow> (int \<times> uufsd) option" where
  "ufs_inode_alloc cg ipref mode s =
     (let fs = d_fs s; addr = fsbtodb fs (cgtod fs cg)
      in if cs_nifree (fs_csp fs cg) = 0 then Some (0, s)
         else if \<not> env_mem s then Some (- ENOMEM, s)
         else
           let (err, cgp) = blkread addr (env_junk s) (fs_cgsize fs) s
           in if err = -1 then Some (- EIO, s)
              else if \<not> cg_chkmagic cgp \<or> cg_nifree cgp = 0 then Some (- EIO, s)
              else do {
                let cgp = set_cg_time cgp (env_time s);
                (ipref, cgp) \<leftarrow> inode_search fs cgp ipref;
                let init = (fs_magic fs = FS_UFS2_MAGIC \<and> ipref + INOPB fs > cg_initediblk cgp \<and>
                            cg_initediblk cgp < cg_niblk cgp);
                let (err, ibp) =
                  (if init then blkread (fsbtodb fs (ino_to_fsba fs (cg * fs_ipg fs + cg_initediblk cgp)))
                                  (env_junk s) (fs_bsize fs) s
                   else (0, env_junk s));
                if err = -1 then Some (- EIO, s)
                else do {
                  let (ibp, s) = (if init then init_gens (nat (INOPB fs)) (memset ibp 0 0 (fs_bsize fs)) 0 s
                                  else (ibp, s));
                  let cgp = (if init then set_initediblk cgp (cg_initediblk cgp + INOPB fs) else cgp);
                  let cgp = setbit cgp (cg_iusedoff cgp) ipref;
                  let cgp = set_nifree cgp (cg_nifree cgp - 1);
                  let fs = (add_nifree cg (-1) fs)\<lparr>fs_fmod := 1\<rparr>;
                  let (cgp, fs) = (if IFTODT mode = DT_DIR
                                   then (set_ndir cgp (cg_ndir cgp + 1), add_ndir cg 1 fs)
                                   else (cgp, fs));
                  let (err, s) = blkwrite addr cgp (fs_cgsize fs) (s\<lparr>d_fs := fs\<rparr>);
                  if err = -1 then Some (- EIO, s)
                  else do {
                    let (err, s) =
                      (if init then blkwrite (fsbtodb fs (ino_to_fsba fs (cg * fs_ipg fs + cg_initediblk cgp)))
                                      ibp (fs_bsize fs) s
                       else (0, s));
                    if err = -1 then Some (- EIO, s) else Some (cg * fs_ipg fs + ipref, s)
                  }
                }
              })"

text \<open>
  The number is compared as an unsigned int; a bad one is fatal, as is freeing a free inode of
  a file system that is not read-only. The type of the mode is compared with \<open>IFDIR\<close> after
  \<open>IFTODT\<close>, as in the code.
\<close>

text \<open>
  As in \<open>ufs_block_free_run\<close>, \<open>Inr\<close> is a return, with the result and the handle, and \<open>Inl s\<close> a stop of
  the program with the handle \<open>s\<close>.
\<close>

definition ufs_free_inode_run :: "int \<Rightarrow> int \<Rightarrow> uufsd \<Rightarrow> uufsd + (int \<times> uufsd)" where
  "ufs_free_inode_run ino mode s =
     (let fs = d_fs s; cg = ino_to_cg fs ino; cgbno = fsbtodb fs (cgtod fs cg)
      in if \<not> env_mem s then Inr (- ENOMEM, s)
         else if u32 ino \<ge> u32 (fs_ipg fs * fs_ncg fs) then Inl s
         else
           let (err, cgp) = blkread cgbno (env_junk s) (fs_cgsize fs) s
           in if err = -1 then Inr (err, s)
              else if \<not> cg_chkmagic cgp then Inr (0, s)
              else
                let cgp = set_cg_time cgp (env_time s);
                    inosused = cg_iusedoff cgp;
                    i = ino smod fs_ipg fs
                in if isclr cgp inosused i \<and> fs_ronly fs = 0 then Inl s
                   else
                     let cgp = clrbit cgp inosused i;
                         cgp = (if i < u64 (cg_irotor cgp) then set_irotor cgp i else cgp);
                         cgp = set_nifree cgp (cg_nifree cgp + 1);
                         fs = add_nifree cg 1 fs;
                         (cgp, fs) = (if IFTODT mode = IFDIR
                                      then (set_ndir cgp (cg_ndir cgp - 1), add_ndir cg (-1) fs)
                                      else (cgp, fs));
                         fs = fs\<lparr>fs_fmod := 1\<rparr>;
                         (err, s) = blkwrite cgbno cgp (fs_cgsize fs) (s\<lparr>d_fs := fs\<rparr>)
                     in if err = -1 then Inr (- EIO, s) else Inr (0, s))"

definition ufs_free_inode :: "int \<Rightarrow> int \<Rightarrow> uufsd \<Rightarrow> (int \<times> uufsd) option" where
  "ufs_free_inode ino mode s = (case ufs_free_inode_run ino mode s of Inl _ \<Rightarrow> None | Inr r \<Rightarrow> Some r)"

subsection \<open>Choosing a group for a directory\<close>

text \<open>The first group from \<open>cg\<close> on, below \<open>e\<close>, that satisfies a condition.\<close>

function find_cg :: "(int \<Rightarrow> bool) \<Rightarrow> int \<Rightarrow> int \<Rightarrow> int option" where
  "find_cg p cg e = (if cg < e then (if p cg then Some cg else find_cg p (cg + 1) e) else None)"
  by pat_completeness auto
termination by (relation "measure (\<lambda>(p, c, e). nat (e - c))") auto

declare find_cg.simps [simp del]

text \<open>Products of 32-bit values wrap, which the code counts on for \<open>dirsize\<close>.\<close>

definition dirpref_contigdirs :: "fs \<Rightarrow> int" where
  "dirpref_contigdirs fs =
     (let avgbfree = s32 (cs_nbfree (fs_cstotal fs) sdiv fs_ncg fs);
          avgndir = s32 (cs_ndir (fs_cstotal fs) sdiv fs_ncg fs);
          cgsize = s32 (fs_fsize fs * fs_fpg fs);
          dirsize = s32 (fs_avgfilesize fs * fs_avgfpdir fs);
          curdirsize = (if avgndir \<noteq> 0 then s32 (cgsize - s32 (avgbfree * fs_bsize fs)) sdiv avgndir else 0);
          dirsize = (if dirsize < curdirsize then curdirsize else dirsize);
          maxcontigdirs = (if dirsize \<le> 0 then 0 else min (s32 (avgbfree * fs_bsize fs) sdiv dirsize) 255);
          maxcontigdirs = (if fs_avgfpdir fs > 0 then min maxcontigdirs (fs_ipg fs sdiv fs_avgfpdir fs)
                           else maxcontigdirs)
      in if maxcontigdirs = 0 then 1 else maxcontigdirs)"

definition ufs_dirpref :: "fs \<Rightarrow> int \<Rightarrow> int" where
  "ufs_dirpref fs ino =
     (let avgifree = s32 (cs_nifree (fs_cstotal fs) sdiv fs_ncg fs);
          avgbfree = s32 (cs_nbfree (fs_cstotal fs) sdiv fs_ncg fs);
          avgndir = s32 (cs_ndir (fs_cstotal fs) sdiv fs_ncg fs);
          maxndir = min (avgndir + fs_ipg fs sdiv 16) (fs_ipg fs);
          minifree = max 1 (avgifree - avgifree sdiv 4);
          minbfree = max 1 (avgbfree - avgbfree sdiv 4);
          maxcontigdirs = dirpref_contigdirs fs;
          prefcg = ino_to_cg fs ino;
          good = (\<lambda>cg. cs_ndir (fs_csp fs cg) < maxndir \<and> cs_nifree (fs_csp fs cg) \<ge> minifree \<and>
                        cs_nbfree (fs_csp fs cg) \<ge> minbfree \<and> fs_contigdirs fs cg < maxcontigdirs);
          enough = (\<lambda>cg. cs_nifree (fs_csp fs cg) \<ge> avgifree);
          cg = (case find_cg good prefcg (fs_ncg fs) of Some cg \<Rightarrow> cg | None \<Rightarrow>
               (case find_cg good 0 prefcg of Some cg \<Rightarrow> cg | None \<Rightarrow>
               (case find_cg enough prefcg (fs_ncg fs) of Some cg \<Rightarrow> cg | None \<Rightarrow>
               (case find_cg enough 0 prefcg of Some cg \<Rightarrow> cg | None \<Rightarrow> max 0 prefcg))))
      in fs_ipg fs * cg)"

end
