(* ===== verification/Ufs_Bmap.thy ===== *)
theory Ufs_Bmap
  imports Ufs_Inode
begin

section \<open>The blocks of a file (fuse-ufs-fileio.c, fuse-inodeops.c)\<close>

text \<open>
  \<open>ufs_bmap\<close> and \<open>ufs_set_block\<close> read and write the block pointers of a file, directly in
  the inode or through indirect blocks on the disk; \<open>ufs_truncate\<close> frees the blocks behind a
  new size, with \<open>ufs_clear_indirect\<close> for the second-level indirect blocks. An inode is given
  and returned by value. Block numbers within a file (\<open>blk_t\<close>) are unsigned 32-bit.
\<close>

subsection \<open>Sizes of transfers\<close>

text \<open>The size in bytes of the part of a block that is read or written at an offset.\<close>

definition ufs_inode_io_size :: "fs \<Rightarrow> inode \<Rightarrow> int \<Rightarrow> bool \<Rightarrow> int" where
  "ufs_inode_io_size fs ip offset write =
     (let filesize = di_size (i_din2 ip); blksize = fs_bsize fs; fragsize = fs_fsize fs
      in if filesize \<ge> blksize * NDADDR then blksize
         else if write then
           let nfrags = s32 (numfrags fs (fragroundup fs offset))
           in if nfrags \<noteq> 0 then
                (if nfrags smod fs_frag fs \<noteq> 0 then nfrags smod fs_frag fs * fragsize else blksize)
              else 0
         else
           let n = u64 (u64 (i_size ip - offset) + fs_qfmask fs) AND u64 (fs_fmask fs)
           in if blksize < n then blksize else n)"

subsection \<open>Reading block pointers\<close>

text \<open>
  The result is the return code and the block number stored through \<open>pbno\<close>, whose previous
  content is \<open>p0\<close>. The third level follows \<open>di_ib[1]\<close>, as the code does. The two levels of
  pointers are read whether or not the pointer to them is 0. One block number makes the program
  exit.
\<close>

definition read_ptr :: "int \<Rightarrow> mem \<Rightarrow> int \<Rightarrow> uufsd \<Rightarrow> (int \<times> mem) option" where
  "read_ptr blk buf index s =
     (let (err, buf) = blkread (fsbtodb (d_fs s) blk) buf (fs_bsize (d_fs s)) s
      in if err = -1 then None else Some (ld64 buf (8 * index), buf))"

definition bmap_ptr :: "inode \<Rightarrow> int \<Rightarrow> uufsd \<Rightarrow> int \<times> int" where
  "bmap_ptr ip fbn s =
     (let nindir = fs_nindir (d_fs s); blockbuf = env_junk s
      in if fbn < NDADDR then (0, di_db (i_din2 ip) fbn)
         else
           let fbn = fbn - NDADDR
           in if fbn div nindir = 0 then
                (case read_ptr (di_ib (i_din2 ip) 0) blockbuf (fbn mod nindir) s of
                   None \<Rightarrow> (-1, di_ib (i_din2 ip) 0)
                 | Some (p, _) \<Rightarrow> (0, p))
              else
                let fbn = fbn - nindir
                in if fbn div (nindir * nindir) = 0 then
                     (case read_ptr (di_ib (i_din2 ip) 1) blockbuf (fbn div nindir) s of
                        None \<Rightarrow> (-1, di_ib (i_din2 ip) 1)
                      | Some (p, blockbuf) \<Rightarrow>
                     (case read_ptr p blockbuf (fbn mod nindir) s of
                        None \<Rightarrow> (-1, p)
                      | Some (p, _) \<Rightarrow> (0, p)))
                   else
                     let fbn = fbn - nindir * nindir
                     in (case read_ptr (di_ib (i_din2 ip) 1) blockbuf (fbn div (nindir * nindir)) s of
                           None \<Rightarrow> (-1, di_ib (i_din2 ip) 1)
                         | Some (p, blockbuf) \<Rightarrow>
                        (case read_ptr p blockbuf (fbn div nindir) s of
                           None \<Rightarrow> (-1, p)
                         | Some (p, blockbuf) \<Rightarrow>
                        (case read_ptr p blockbuf (fbn mod nindir) s of
                           None \<Rightarrow> (-1, p)
                         | Some (p, _) \<Rightarrow> (0, p)))))"

definition ufs_bmap :: "inode \<Rightarrow> int \<Rightarrow> int \<Rightarrow> uufsd \<Rightarrow> (int \<times> int) option" where
  "ufs_bmap ip fbn p0 s =
     (if \<not> env_mem s then Some (ENOMEM, p0)
      else let (ret, p) = bmap_ptr ip fbn s
           in if ret \<noteq> 0 then Some (ret, p)
              else if p = 1852140901 then None else Some (0, p))"

subsection \<open>Writing block pointers\<close>

text \<open>
  The step \<open>ufs_set_block\<close> repeats for each level: read the indirect block, or allocate one.
  The result is the code, the block number, the buffer and the handle.
\<close>

definition ind_block :: "inode \<Rightarrow> int \<Rightarrow> mem \<Rightarrow> uufsd \<Rightarrow> (int \<times> int \<times> mem \<times> uufsd) option" where
  "ind_block ip tempblock blockbuf s =
     (let fs = d_fs s
      in if tempblock \<noteq> 0 then
           let (err, blockbuf) = blkread (fsbtodb fs tempblock) blockbuf (fs_bsize fs) s
           in Some (if err = -1 then - ENOMEM else 0, tempblock, blockbuf, s)
         else do {
           (ret, tempblock, s) \<leftarrow> ufs_block_alloc (i_number ip) (fs_bsize fs) s;
           Some (ret, tempblock, blockbuf, s)
         })"

definition write_ptrs :: "int \<Rightarrow> mem \<Rightarrow> uufsd \<Rightarrow> int \<times> uufsd" where
  "write_ptrs blk buf s =
     (let (ret, s) = blkwrite (fsbtodb (d_fs s) blk) buf (fs_bsize (d_fs s)) s
      in (if ret \<le> 0 then - EIO else 0, s))"

definition set_block_l1 :: "inode \<Rightarrow> int \<Rightarrow> int \<Rightarrow> mem \<Rightarrow> uufsd \<Rightarrow> (int \<times> inode \<times> uufsd) option" where
  "set_block_l1 ip fbn blockno blockbuf s = do {
     let index = fbn mod fs_nindir (d_fs s);
     let tb = di_ib (i_din2 ip) 0;
     (ret, tempblock, blockbuf, s) \<leftarrow> ind_block ip tb blockbuf s;
     if ret \<noteq> 0 then Some (ret, ip, s)
     else do {
       let ip = (if tb = 0 then set_di_ib ip 0 tempblock else ip);
       let blockbuf = st64 blockbuf (8 * index) blockno;
       let (ret, s) = write_ptrs tempblock blockbuf s;
       Some (ret, ip, s)
     }
   }"

definition set_block_l2 :: "inode \<Rightarrow> int \<Rightarrow> int \<Rightarrow> mem \<Rightarrow> uufsd \<Rightarrow> (int \<times> inode \<times> uufsd) option" where
  "set_block_l2 ip fbn blockno blockbuf s = do {
     let nindir = fs_nindir (d_fs s);
     let index = fbn div nindir;
     let tb = di_ib (i_din2 ip) 1;
     (ret, tempblock, blockbuf, s) \<leftarrow> ind_block ip tb blockbuf s;
     if ret \<noteq> 0 then Some (ret, ip, s)
     else do {
       let (ret, s) = (if tb = 0 then write_ptrs tempblock blockbuf s else (0, s));
       if ret \<noteq> 0 then Some (ret, ip, s)
       else do {
         let ip = (if tb = 0 then set_di_ib ip 1 tempblock else ip);
         let l1block = tempblock;
         let tb = ld64 blockbuf (8 * index);
         (ret, tempblock, blockbuf, s) \<leftarrow> ind_block ip tb blockbuf s;
         if ret \<noteq> 0 then Some (ret, ip, s)
         else do {
           let (ret, blockbuf, s) =
             (if tb = 0 then
                let blockbuf = st64 blockbuf (8 * index) tempblock;
                    (ret, s) = write_ptrs l1block blockbuf s
                in if ret \<noteq> 0 then (ret, blockbuf, s)
                   else let blockbuf = memset blockbuf 0 0 (fs_bsize (d_fs s));
                            (ret, s) = write_ptrs tempblock blockbuf s
                        in (ret, blockbuf, s)
              else (0, blockbuf, s));
           if ret \<noteq> 0 then Some (ret, ip, s)
           else do {
             let blockbuf = st64 blockbuf (8 * (fbn mod nindir)) blockno;
             let (ret, s) = write_ptrs tempblock blockbuf s;
             Some (ret, ip, s)
           }
         }
       }
     }
   }"

text \<open>A block that needs the third level makes the program exit.\<close>

definition ufs_set_block :: "inode \<Rightarrow> int \<Rightarrow> int \<Rightarrow> uufsd \<Rightarrow> (int \<times> inode \<times> uufsd) option" where
  "ufs_set_block ip fbn blockno s =
     (let fs = d_fs s; nindir = fs_nindir fs; blockbuf = memset (env_junk s) 0 0 (fs_bsize fs)
      in if \<not> env_mem s then Some (ENOMEM, ip, s)
         else if fbn < NDADDR then Some (0, set_di_db ip fbn blockno, s)
         else
           let fbn = fbn - NDADDR
           in if fbn div nindir = 0 then set_block_l1 ip fbn blockno blockbuf s
              else
                let fbn = fbn - nindir
                in if fbn div (nindir * nindir) = 0 then set_block_l2 ip fbn blockno blockbuf s
                   else None)"

subsection \<open>Truncation\<close>

text \<open>Free the block a pointer in an indirect block names, and clear the pointer.\<close>

definition clear_ptr :: "int \<Rightarrow> mem \<Rightarrow> int \<Rightarrow> uufsd \<Rightarrow> uufsd option" where
  "clear_ptr tempblock blockbuf index s =
     (let p = ld64 blockbuf (8 * index)
      in if p \<noteq> 0 then do {
           s \<leftarrow> ufs_block_free p (fs_bsize (d_fs s)) s;
           Some (snd (blkwrite (fsbtodb (d_fs s) tempblock) (st64 blockbuf (8 * index) 0)
                        (fs_bsize (d_fs s)) s))
         }
         else Some s)"

definition ufs_clear_indirect :: "inode \<Rightarrow> int \<Rightarrow> uufsd \<Rightarrow> (int \<times> uufsd) option" where
  "ufs_clear_indirect ip fbn s =
     (let nindir = fs_nindir (d_fs s); fbn = u32 (fbn - NDADDR); tempblock = di_ib (i_din2 ip) 1
      in if fbn < NDADDR \<or> fbn mod nindir \<noteq> 0 then Some (0, s)
         else if fbn div nindir = 0 then Some (0, s)
         else if \<not> env_mem s then Some (- ENOMEM, s)
         else
           let fbn = fbn - nindir
           in if fbn div (nindir * nindir) = 0 then
                (if tempblock = 0 then Some (0, s)
                 else let (err, blockbuf) = blkread (fsbtodb (d_fs s) tempblock) (env_junk s) (fs_bsize (d_fs s)) s
                      in if err = -1 then Some (-1, s)
                         else do { s \<leftarrow> clear_ptr tempblock blockbuf (fbn div nindir) s; Some (0, s) })
              else
                let fbn = fbn - nindir * nindir
                in if tempblock = 0 then Some (0, s)
                   else (case read_ptr tempblock (env_junk s) (fbn div (nindir * nindir)) s of
                           None \<Rightarrow> Some (-1, s)
                         | Some (tempblock, blockbuf) \<Rightarrow>
                             if tempblock = 0 then Some (0, s)
                             else let (err, blockbuf) = blkread (fsbtodb (d_fs s) tempblock) blockbuf (fs_bsize (d_fs s)) s
                                  in if err = -1 then Some (-1, s)
                                     else do { s \<leftarrow> clear_ptr tempblock blockbuf (fbn div nindir) s; Some (0, s) }))"

text \<open>
  One pass of the first loop of \<open>ufs_truncate\<close>, on file block \<open>i\<close>. The first component of the
  result is \<open>Some r\<close> when the function returns \<open>r\<close> there. The flag \<open>partial_truncate\<close> can only
  be set when old and new size end in the same block, where the loop makes one pass.
\<close>

definition trunc_size :: "fs \<Rightarrow> inode \<Rightarrow> int \<Rightarrow> int \<Rightarrow> int \<Rightarrow> int \<Rightarrow> (int \<times> bool) option" where
  "trunc_size fs ip newsize new_fbn old_fbn i =
     (let blksize = fs_bsize fs
      in if old_fbn < NDADDR \<and> i = old_fbn then
           (if new_fbn \<noteq> old_fbn then
              Some (if i_size ip mod blksize \<noteq> 0 then fragroundup fs (i_size ip mod blksize) else blksize, False)
            else
              let ofrags = s32 (numfrags fs (fragroundup fs (i_size ip)));
                  nfrags = s32 (numfrags fs (fragroundup fs newsize))
              in if nfrags = ofrags then None else Some ((ofrags - nfrags) * fs_fsize fs, True))
         else Some (blksize, False))"

definition trunc_block ::
  "int \<Rightarrow> int \<Rightarrow> int \<Rightarrow> int \<Rightarrow> inode \<Rightarrow> uufsd \<Rightarrow> (int option \<times> inode \<times> uufsd) option" where
  "trunc_block newsize new_fbn old_fbn i ip s =
     (let fs = d_fs s; blksize = fs_bsize fs in do {
        (retval, blkno) \<leftarrow> ufs_bmap ip (u32 i) 0 s;
        if retval \<noteq> 0 then Some (Some retval, ip, s)
        else case trunc_size fs ip newsize new_fbn old_fbn i of
          None \<Rightarrow> Some (Some 0, ip, s)
        | Some (sz, partial) \<Rightarrow>
            if blkno = 0 then Some (None, ip, s)
            else if partial \<and> newsize \<noteq> 0 then
              (if \<not> env_mem s then Some (Some (- ENOMEM), ip, s)
               else do {
                 let buf = memset (env_junk s) 0 0 blksize;
                 let (_, buf) = blkread (fsbtodb fs blkno) buf sz s;
                 let buf = memset buf (newsize smod blksize) 0 (i_size ip - newsize);
                 s \<leftarrow> ufs_block_free blkno sz s;
                 (retval, blkno, s) \<leftarrow> ufs_block_alloc (i_number ip) sz s;
                 if retval \<noteq> 0 then Some (Some retval, ip, s)
                 else do {
                   (retval, ip, s) \<leftarrow> ufs_set_block ip (u32 i) blkno s;
                   if retval \<noteq> 0 then Some (Some retval, ip, s)
                   else Some (None, ip, snd (blkwrite (fsbtodb fs blkno) buf sz s))
                 }
               })
            else do {
              s \<leftarrow> ufs_block_free blkno sz s;
              (retval, ip, s) \<leftarrow> ufs_set_block ip (u32 i) 0 s;
              Some (if retval \<noteq> 0 then Some retval else None, ip, s)
            }
      })"

function trunc_blocks ::
  "int \<Rightarrow> int \<Rightarrow> int \<Rightarrow> int \<Rightarrow> inode \<Rightarrow> uufsd \<Rightarrow> (int option \<times> inode \<times> uufsd) option" where
  "trunc_blocks newsize new_fbn old_fbn i ip s =
     (if i \<ge> new_fbn then
        case trunc_block newsize new_fbn old_fbn i ip s of
          None \<Rightarrow> None
        | Some (Some retval, ip, s) \<Rightarrow> Some (Some retval, ip, s)
        | Some (None, ip, s) \<Rightarrow> trunc_blocks newsize new_fbn old_fbn (i - 1) ip s
      else Some (None, ip, s))"
  by pat_completeness auto
termination by (relation "measure (\<lambda>(z, n, e, i, ip, s). nat (i - n + 1))") auto

declare trunc_blocks.simps [simp del]

text \<open>Free the indirect block \<open>di_ib[k]\<close> of the inode.\<close>

definition free_ib :: "int \<Rightarrow> inode \<Rightarrow> uufsd \<Rightarrow> (inode \<times> uufsd) option" where
  "free_ib k ip s = do {
     let p = di_ib (i_din2 ip) k;
     s \<leftarrow> (if p \<noteq> 0 then ufs_block_free p (fs_bsize (d_fs s)) s else Some s);
     Some (set_di_ib ip k 0, s)
   }"

text \<open>The second loop; with no pointers per block its remainder divides by zero.\<close>

function trunc_indirect :: "int \<Rightarrow> int \<Rightarrow> int \<Rightarrow> inode \<Rightarrow> uufsd \<Rightarrow> (inode \<times> uufsd) option" where
  "trunc_indirect nindir new_fbn i ip s =
     (if i > new_fbn \<and> u32 i \<ge> NDADDR then
        (if nindir \<le> 0 then None
         else
           let rest = (u32 i - NDADDR) mod nindir
           in case (if rest = 0 then map_option snd (ufs_clear_indirect ip (u32 i) s) else Some s) of
                None \<Rightarrow> None
              | Some s \<Rightarrow>
             (case (if i = NDADDR then free_ib 0 ip s
                    else if i = nindir + NDADDR then free_ib 1 ip s
                    else if i = nindir * nindir + nindir + NDADDR then free_ib 2 ip s
                    else Some (ip, s)) of
                None \<Rightarrow> None
              | Some (ip, s) \<Rightarrow>
                  trunc_indirect nindir new_fbn (if rest \<noteq> 0 then i - rest else i - nindir) ip s))
      else Some (ip, s))"
  by pat_completeness auto
termination
proof (relation "measure (\<lambda>(n, b, i, ip, s). nat (i - b))", goal_cases)
  case (2 nindir new_fbn i ip s rest)
  have "0 \<le> (u32 i - 12) mod nindir" using 2 by simp
  then have "(u32 i - 12) mod nindir \<noteq> 0 \<Longrightarrow> 0 < (u32 i - 12) mod nindir" by linarith
  with 2 show ?case by auto
qed auto

declare trunc_indirect.simps [simp del]

definition ufs_truncate :: "inode \<Rightarrow> int \<Rightarrow> uufsd \<Rightarrow> (int \<times> inode \<times> uufsd) option" where
  "ufs_truncate ip newsize s =
     (let fs = d_fs s; new_fbn = lblkno fs newsize; old_fbn = s32 (lblkno fs (i_size ip)) in do {
        (ret, ip, s) \<leftarrow> trunc_blocks newsize new_fbn old_fbn old_fbn ip s;
        case ret of
          Some retval \<Rightarrow> Some (retval, ip, s)
        | None \<Rightarrow> do {
            (ip, s) \<leftarrow> trunc_indirect (fs_nindir fs) new_fbn old_fbn ip s;
            Some (ufs_write_inode (i_ino ip) ip s)
          }
      })"

end
