(* ===== verification/Ufs_Vnode.thy ===== *)
theory Ufs_Vnode
  imports Ufs_Bmap
begin

section \<open>The vnode table (vnode_hash.c, do_killfilebyinode.c, fuse-inodealloc.c)\<close>

text \<open>
  In-core inodes live in reference-counted vnodes, which hang in doubly linked lists off a
  table of 256 heads. The model keeps the pointers of the code: a vnode has an address, its
  \<open>nexthash\<close> is an address or null, and its \<open>pprevhash\<close> is the place that points to it, a
  table head or the \<open>nexthash\<close> field of another vnode. The state of the whole program is the
  record \<open>world\<close>: the disk handle, the table, the vnodes, the open files, the address of the
  handle (which the hash uses), the next address \<open>malloc\<close> returns, and the user and group of
  the caller of the current operation. Following a pointer to freed memory is not given a
  meaning: the call does not return.
\<close>

datatype vlink = Head int | Next int

record ufs_vnode =
  v_inode :: inode
  v_ino :: int
  v_count :: int
  v_pprevhash :: vlink
  v_nexthash :: "int option"

record ufs_file =
  f_magic :: int
  f_ino :: int
  f_vnode :: int
  f_flags :: int
  f_pos :: int
  f_blockno :: int
  f_physblock :: int
  f_buf :: mem

record world =
  w_ufs :: uufsd
  w_ufsp :: int
  ht_head :: "int \<Rightarrow> int option"
  w_vnodes :: "int \<Rightarrow> ufs_vnode option"
  w_files :: "int \<Rightarrow> ufs_file option"
  w_brk :: int
  w_uid :: int
  w_gid :: int

definition VNODE_HASH_MASK :: int where [simp]: "VNODE_HASH_MASK = 255"

text \<open>Run an operation of the lower layers on the handle.\<close>

definition on_ufs :: "(uufsd \<Rightarrow> ('a \<times> uufsd) option) \<Rightarrow> world \<Rightarrow> ('a \<times> world) option" where
  "on_ufs f w = map_option (\<lambda>(r, s). (r, w\<lparr>w_ufs := s\<rparr>)) (f (w_ufs w))"

text \<open>Dereference and update a vnode pointer.\<close>

definition get_vnode :: "int \<Rightarrow> world \<Rightarrow> ufs_vnode option" where
  "get_vnode p w = w_vnodes w p"

definition set_vnode :: "int \<Rightarrow> ufs_vnode \<Rightarrow> world \<Rightarrow> world" where
  "set_vnode p v w = w\<lparr>w_vnodes := (w_vnodes w)(p \<mapsto> v)\<rparr>"

definition get_inode :: "int \<Rightarrow> world \<Rightarrow> inode option" where
  "get_inode p w = map_option v_inode (w_vnodes w p)"

definition set_inode :: "int \<Rightarrow> inode \<Rightarrow> world \<Rightarrow> world option" where
  "set_inode p ip w = map_option (\<lambda>v. set_vnode p (v\<lparr>v_inode := ip\<rparr>) w) (w_vnodes w p)"

definition upd_inode :: "int \<Rightarrow> (inode \<Rightarrow> inode) \<Rightarrow> world \<Rightarrow> world option" where
  "upd_inode p f w = map_option (\<lambda>v. set_vnode p (v\<lparr>v_inode := f (v_inode v)\<rparr>) w) (w_vnodes w p)"

text \<open>A \<open>bzero\<close>ed inode.\<close>

definition inode0 :: inode where
  "inode0 = \<lparr>i_flag = 0, i_number = 0, i_effnlink = 0, i_count = 0, i_endoff = 0, i_diroff = 0,
     i_offset = 0, i_ino = 0, i_reclen = 0, i_mode = 0, i_nlink = 0, i_size = 0, i_flags = 0,
     i_gen = 0, i_uid = 0, i_gid = 0, i_blocks = 0, i_atime = 0, i_mtime = 0, i_ctime = 0,
     i_din2 = (\<lambda>_. 0)\<rparr>"

subsection \<open>Looking up and inserting\<close>

definition vnode_hash_key :: "int \<Rightarrow> int \<Rightarrow> int" where
  "vnode_hash_key ufsp ino = (ufsp + ino) AND VNODE_HASH_MASK"

text \<open>The walk along a chain; it does not return when the chain is cyclic.\<close>

partial_function (option) vnode_find ::
  "(int \<Rightarrow> ufs_vnode option) \<Rightarrow> int \<Rightarrow> int option \<Rightarrow> int option option" where
  "vnode_find h ino rv =
     (case rv of
        None \<Rightarrow> Some None
      | Some p \<Rightarrow> Option.bind (h p) (\<lambda>v. if v_ino v = ino then Some (Some p) else vnode_find h ino (v_nexthash v)))"

text \<open>Link a new vnode in front of its chain.\<close>

definition vnode_insert :: "int \<Rightarrow> int \<Rightarrow> ufs_vnode \<Rightarrow> world \<Rightarrow> world option" where
  "vnode_insert key p new w =
     (case ht_head w key of
        None \<Rightarrow>
          Some ((set_vnode p (new\<lparr>v_nexthash := None, v_pprevhash := Head key\<rparr>) w)
                  \<lparr>ht_head := (ht_head w)(key \<mapsto> p)\<rparr>)
      | Some q \<Rightarrow>
          map_option (\<lambda>v.
            (set_vnode p (new\<lparr>v_nexthash := Some q, v_pprevhash := Head key\<rparr>)
               (set_vnode q (v\<lparr>v_pprevhash := Next p\<rparr>) w))
              \<lparr>ht_head := (ht_head w)(key \<mapsto> p)\<rparr>) (get_vnode q w))"

text \<open>The result is the address of the vnode, \<open>None\<close> for the null pointer.\<close>

definition vnode_get :: "int \<Rightarrow> world \<Rightarrow> (int option \<times> world) option" where
  "vnode_get ino w =
     (let key = vnode_hash_key (w_ufsp w) ino in do {
        rv \<leftarrow> vnode_find (w_vnodes w) ino (ht_head w key);
        case rv of
          Some p \<Rightarrow> do {
            v \<leftarrow> get_vnode p w;
            Some (Some p, set_vnode p (v\<lparr>v_count := v_count v + 1\<rparr>) w)
          }
        | None \<Rightarrow>
            if \<not> env_mem (w_ufs w) then Some (None, w)
            else do {
              let p = w_brk w;
              let w = w\<lparr>w_brk := p + 1\<rparr>;
              let (rc, off, s) = (if ino \<noteq> 0 then getino ino (w_ufs w) else (0, 0, w_ufs w));
              let w = w\<lparr>w_ufs := s\<rparr>;
              if rc \<noteq> 0 then Some (None, w)
              else do {
                let ip = (if ino \<noteq> 0 then copy_ondisk_to_incore inode0 (the (d_inoblock s)) off ino else inode0);
                w \<leftarrow> vnode_insert key p
                       \<lparr>v_inode = ip, v_ino = ino, v_count = 1, v_pprevhash = Head key, v_nexthash = None\<rparr> w;
                Some (Some p, w)
              }
            }
      })"

subsection \<open>Deleting files\<close>

definition ufs_clear_inode :: "inode \<Rightarrow> inode" where
  "ufs_clear_inode ip =
     ip\<lparr>i_size := 0, i_mtime := 0, i_ctime := 0, i_atime := 0, i_blocks := 0, i_effnlink := 0,
        i_count := 0, i_endoff := 0, i_diroff := 0, i_offset := 0, i_reclen := 0, i_mode := 0,
        i_nlink := 0, i_flags := 0, i_uid := 0, i_gid := 0\<rparr>"

definition do_killfilebyinode :: "int \<Rightarrow> inode \<Rightarrow> uufsd \<Rightarrow> (int \<times> inode \<times> uufsd) option" where
  "do_killfilebyinode ino ip s = do {
     let ip = ip\<lparr>i_nlink := 0\<rparr>;
     (_, ip, s) \<leftarrow> (if i_blocks ip \<noteq> 0 then ufs_truncate ip 0 s else Some (0, ip, s));
     (rc, s) \<leftarrow> ufs_free_inode ino (i_mode ip) s;
     if rc \<noteq> 0 then Some (- EIO, ip, s)
     else do {
       let (rc, ip, s) = ufs_write_inode ino (ufs_clear_inode ip) s;
       if rc \<noteq> 0 then Some (- EIO, ip, s) else Some (0, ip, s)
     }
   }"

subsection \<open>Releasing\<close>

text \<open>Store through a \<open>pprevhash\<close> pointer.\<close>

definition set_link :: "vlink \<Rightarrow> int option \<Rightarrow> world \<Rightarrow> world option" where
  "set_link l x w =
     (case l of
        Head key \<Rightarrow> Some (w\<lparr>ht_head := (ht_head w)(key := x)\<rparr>)
      | Next q \<Rightarrow> map_option (\<lambda>v. set_vnode q (v\<lparr>v_nexthash := x\<rparr>) w) (get_vnode q w))"

definition vnode_remove :: "int \<Rightarrow> world \<Rightarrow> world option" where
  "vnode_remove p w = do {
     v \<leftarrow> get_vnode p w;
     w \<leftarrow> set_link (v_pprevhash v) (v_nexthash v) w;
     w \<leftarrow> (case v_nexthash v of
              None \<Rightarrow> Some w
            | Some q \<Rightarrow> map_option (\<lambda>u. set_vnode q (u\<lparr>v_pprevhash := v_pprevhash v\<rparr>) w) (get_vnode q w));
     Some (w\<lparr>w_vnodes := (w_vnodes w)(p := None)\<rparr>)
   }"

definition vnode_put :: "int \<Rightarrow> bool \<Rightarrow> world \<Rightarrow> (int \<times> world) option" where
  "vnode_put p dirty w = do {
     v \<leftarrow> get_vnode p w;
     let fs = d_fs (w_ufs w);
     let v = v\<lparr>v_count := v_count v - 1\<rparr>;
     let v = (if dirty then v\<lparr>v_inode := copy_incore_to_ondisk fs (v_inode v)\<rparr> else v);
     if v_count v \<le> 0 then do {
       (rt, ip, s) \<leftarrow>
         (if i_nlink (v_inode v) < 1 then do_killfilebyinode (v_ino v) (v_inode v) (w_ufs w)
          else if dirty then Some (ufs_write_inode (v_ino v) (v_inode v) (w_ufs w))
          else Some (0, v_inode v, w_ufs w));
       w \<leftarrow> vnode_remove p ((set_vnode p (v\<lparr>v_inode := ip\<rparr>) w)\<lparr>w_ufs := s\<rparr>);
       Some (rt, w)
     }
     else if dirty then do {
       let (rt, ip, s) = ufs_write_inode (v_ino v) (v_inode v) (w_ufs w);
       Some (rt, (set_vnode p (v\<lparr>v_inode := ip\<rparr>) w)\<lparr>w_ufs := s\<rparr>)
     }
     else Some (0, set_vnode p v w)
   }"

subsection \<open>Allocating an inode with its vnode\<close>

text \<open>
  The group's count of directories created in a row, an unsigned byte. The result of
  \<open>ufs_valloc\<close> is the code, the new vnode and the state; an allocated inode that is already in
  use is fatal.
\<close>

definition note_contigdirs :: "int \<Rightarrow> int \<Rightarrow> fs \<Rightarrow> fs" where
  "note_contigdirs mode cg fs =
     (let n = fs_contigdirs fs cg
      in if mode AND IFMT = IFDIR
         then (if n < 255 then fs\<lparr>fs_contigdirs := (fs_contigdirs fs)(cg := n + 1)\<rparr> else fs)
         else (if n > 0 then fs\<lparr>fs_contigdirs := (fs_contigdirs fs)(cg := n - 1)\<rparr> else fs))"

definition valloc_pref :: "fs \<Rightarrow> int \<Rightarrow> int \<Rightarrow> int" where
  "valloc_pref fs i_num mode =
     (let ipref = (if IFTODT mode = DT_DIR then ufs_dirpref fs i_num else i_num)
      in if ipref \<ge> fs_ncg fs * fs_ipg fs then 0 else ipref)"

definition ufs_valloc :: "int \<Rightarrow> int \<Rightarrow> world \<Rightarrow> (int \<times> int option \<times> world) option" where
  "ufs_valloc pvp mode w = do {
     pip \<leftarrow> get_inode pvp w;
     let fs = d_fs (w_ufs w);
     if cs_nifree (fs_cstotal fs) = 0 then Some (- ENOSPC, None, w)
     else do {
       let ipref = valloc_pref fs (i_number pip) mode;
       let cg = ino_to_cg fs ipref;
       let w = w\<lparr>w_ufs := (w_ufs w)\<lparr>d_fs := note_contigdirs mode cg fs\<rparr>\<rparr>;
       (ino, w) \<leftarrow> on_ufs (ufs_hashalloc cg (s32 ipref) mode ufs_inode_alloc) w;
       if s32 ino \<le> 0 then Some (- ENOSPC, None, w)
       else do {
         (vp, w) \<leftarrow> vnode_get ino w;
         case vp of
           None \<Rightarrow> Some (0, None, w)
         | Some p \<Rightarrow> do {
             ip \<leftarrow> get_inode p w;
             if i_mode ip \<noteq> 0 then None
             else do {
               let ip = ip\<lparr>i_blocks := 0, i_flags := 0, i_size := 0\<rparr>;
               let (r, s) = c_rand (w_ufs w);
               let redo = (i_gen ip = 0 \<or> i_gen ip + 1 = 0);
               let ip = ip\<lparr>i_gen := (if redo then r sdiv 2 + 1 else i_gen ip + 1), i_flag := 0\<rparr>;
               w \<leftarrow> set_inode p ip (if redo then w\<lparr>w_ufs := s\<rparr> else w);
               Some (0, Some p, w)
             }
           }
       }
     }
   }"

end
