(* ===== verification/Ufs_Dir.thy ===== *)
theory Ufs_Dir
  imports Ufs_Vnode
begin

section \<open>Directories (fuse-ufs-utils.c, fuse-inodeops.c, dir.h)\<close>

text \<open>
  A directory is a sequence of blocks of 512 bytes filled with entries. \<open>ufs_dir_iterate\<close>
  reads the directory block by block and calls a function on every entry; lookup, linking,
  unlinking, the test for emptiness and the repair of \<open>..\<close> are such functions. The callback
  gets its private data, the buffer, the offset of the entry in the buffer and the offset in
  its directory block, and returns the code, the buffer and the private data; \<open>None\<close> when it
  does not return. A name is a \<open>string\<close> without NUL characters. The walk does not return when
  an entry has length 0 and the callback does not stop it.
\<close>

definition DIRENT_CHANGED :: int where [simp]: "DIRENT_CHANGED = 1"
definition DIRENT_ABORT :: int where [simp]: "DIRENT_ABORT = 2"

subsection \<open>Directory entries (struct direct)\<close>

definition d_ino :: "mem \<Rightarrow> int \<Rightarrow> int" where "d_ino m o' = ld32u m o'"
definition d_reclen :: "mem \<Rightarrow> int \<Rightarrow> int" where "d_reclen m o' = ld16 m (o' + 4)"
definition d_type :: "mem \<Rightarrow> int \<Rightarrow> int" where "d_type m o' = ld8 m (o' + 6)"
definition d_namlen :: "mem \<Rightarrow> int \<Rightarrow> int" where "d_namlen m o' = ld8 m (o' + 7)"

definition set_d_ino :: "mem \<Rightarrow> int \<Rightarrow> int \<Rightarrow> mem" where "set_d_ino m o' v = st32 m o' v"
definition set_d_reclen :: "mem \<Rightarrow> int \<Rightarrow> int \<Rightarrow> mem" where "set_d_reclen m o' v = st16 m (o' + 4) v"
definition set_d_type :: "mem \<Rightarrow> int \<Rightarrow> int \<Rightarrow> mem" where "set_d_type m o' v = st8 m (o' + 6) v"
definition set_d_namlen :: "mem \<Rightarrow> int \<Rightarrow> int \<Rightarrow> mem" where "set_d_namlen m o' v = st8 m (o' + 7) v"

lemmas dirent_defs = d_ino_def d_reclen_def d_type_def d_namlen_def set_d_ino_def
  set_d_reclen_def set_d_type_def set_d_namlen_def

definition UFS_DIR_REC_LEN :: "int \<Rightarrow> int" where
  "UFS_DIR_REC_LEN namlen = (8 + (namlen + 1) + 3) AND NOT 3"

text \<open>Copy the characters of a string, and compare them with memory (\<open>strncmp\<close> over the
  length of the string).\<close>

fun put_chars :: "mem \<Rightarrow> int \<Rightarrow> string \<Rightarrow> mem" where
  "put_chars m a [] = m"
| "put_chars m a (c # cs) = put_chars (m(a := of_char c)) (a + 1) cs"

fun same_chars :: "string \<Rightarrow> mem \<Rightarrow> int \<Rightarrow> bool" where
  "same_chars [] m a \<longleftrightarrow> True"
| "same_chars (c # cs) m a \<longleftrightarrow> m a = of_char c \<and> same_chars cs m (a + 1)"

subsection \<open>Iteration\<close>

type_synonym 'p dirfunc = "'p \<Rightarrow> mem \<Rightarrow> int \<Rightarrow> int \<Rightarrow> (int \<times> mem \<times> 'p) option"

text \<open>
  The entries of one file system block. The first component of the result is \<open>Inl r\<close> when the
  function leaves with code \<open>r\<close> (a failed write, or an abort), otherwise \<open>Inr\<close> of the code of
  the last callback.
\<close>

partial_function (option) dir_block ::
  "'p dirfunc \<Rightarrow> int \<Rightarrow> int \<Rightarrow> int \<Rightarrow> int \<Rightarrow> int \<Rightarrow> int \<Rightarrow> mem \<Rightarrow> 'p \<Rightarrow> uufsd \<Rightarrow>
     ((int + int) \<times> mem \<times> 'p \<times> uufsd) option" where
  "dir_block func blkno blksize dir_size pos offset ret dirbuf priv s =
     (if offset < blksize \<and> pos + offset < dir_size then
        Option.bind (func priv dirbuf offset (offset mod DIRBLKSIZ)) (\<lambda>(ret, dirbuf, priv).
          let (err, s) =
            (if ret AND DIRENT_CHANGED \<noteq> 0 then blkwrite (fsbtodb (d_fs s) blkno) dirbuf blksize s else (0, s))
          in if err = -1 then Some (Inl (- EIO), dirbuf, priv, s)
             else if ret AND DIRENT_ABORT \<noteq> 0 then Some (Inl 0, dirbuf, priv, s)
             else dir_block func blkno blksize dir_size pos (offset + d_reclen dirbuf offset) ret dirbuf priv s)
      else Some (Inr ret, dirbuf, priv, s))"

function dir_blocks ::
  "'p dirfunc \<Rightarrow> inode \<Rightarrow> int \<Rightarrow> int \<Rightarrow> int \<Rightarrow> int \<Rightarrow> int \<Rightarrow> mem \<Rightarrow> 'p \<Rightarrow> uufsd \<Rightarrow> (int \<times> 'p \<times> uufsd) option" where
  "dir_blocks func ip dir_size ndb i pos ret dirbuf priv s =
     (if i < ndb then
        case ufs_bmap ip (u32 i) 0 s of
          None \<Rightarrow> None
        | Some (ret, blkno) \<Rightarrow>
            if ret \<noteq> 0 then Some (- EIO, priv, s)
            else
              let blksize = ufs_inode_io_size (d_fs s) ip pos False;
                  (err, dirbuf) = blkread (fsbtodb (d_fs s) blkno) dirbuf blksize s
              in if err = -1 then Some (- EIO, priv, s)
                 else (case dir_block func blkno blksize dir_size pos 0 ret dirbuf priv s of
                         None \<Rightarrow> None
                       | Some (Inl r, dirbuf, priv, s) \<Rightarrow> Some (r, priv, s)
                       | Some (Inr ret, dirbuf, priv, s) \<Rightarrow>
                           dir_blocks func ip dir_size ndb (i + 1) (pos + blksize) ret dirbuf priv s)
      else Some (ret, priv, s))"
  by pat_completeness auto
termination by (relation "measure (\<lambda>(f, ip, d, n, i, p, r, b, pr, s). nat (n - i))") auto

declare dir_blocks.simps [simp del]

definition ufs_dir_iterate :: "int \<Rightarrow> 'p dirfunc \<Rightarrow> 'p \<Rightarrow> world \<Rightarrow> (int \<times> 'p \<times> world) option" where
  "ufs_dir_iterate dirino func priv w = do {
     (vp, w) \<leftarrow> vnode_get dirino w;
     case vp of
       None \<Rightarrow> Some (- ENOMEM, priv, w)
     | Some p \<Rightarrow> do {
         ip \<leftarrow> get_inode p w;
         (ret, priv, w) \<leftarrow>
           (if \<not> env_mem (w_ufs w) then Some (- ENOMEM, priv, w)
            else do {
              let dir_size = i_size ip;
              let ndb = howmany dir_size (fs_bsize (d_fs (w_ufs w)));
              (ret, priv, s) \<leftarrow> dir_blocks func ip dir_size ndb 0 0 0 (env_junk (w_ufs w)) priv (w_ufs w);
              Some (ret, priv, w\<lparr>w_ufs := s\<rparr>)
            });
         (_, w) \<leftarrow> vnode_put p False w;
         Some (ret, priv, w)
       }
   }"

subsection \<open>Lookup\<close>

record lookup_struct =
  lk_name :: string
  lk_len :: int
  lk_inode :: int
  lk_found :: int

definition lookup_proc :: "lookup_struct dirfunc" where
  "lookup_proc ls m de off =
     (if d_ino m de = 0 then Some (0, m, ls)
      else if lk_len ls \<noteq> d_namlen m de AND 0xFF then Some (0, m, ls)
      else if \<not> same_chars (lk_name ls) m (de + 8) then Some (0, m, ls)
      else Some (DIRENT_ABORT, m, ls\<lparr>lk_inode := d_ino m de, lk_found := lk_found ls + 1\<rparr>))"

text \<open>The name is the first \<open>namelen\<close> characters of the path the caller walks along.\<close>

definition ufs_lookup :: "int \<Rightarrow> string \<Rightarrow> world \<Rightarrow> (int \<times> int \<times> world) option" where
  "ufs_lookup dir name w = do {
     (retval, ls, w) \<leftarrow> ufs_dir_iterate dir lookup_proc
        \<lparr>lk_name = name, lk_len = int (length name), lk_inode = 0, lk_found = 0\<rparr> w;
     if retval \<noteq> 0 then Some (retval, lk_inode ls, w)
     else Some (if lk_found ls \<noteq> 0 then 0 else ENOENT, lk_inode ls, w)
   }"

text \<open>
  The components of a path up to the last one: the result is the code, the last component, the
  directory it is in, and the state.
\<close>

function dir_namei_loop :: "int \<Rightarrow> string \<Rightarrow> world \<Rightarrow> (int \<times> string \<times> int \<times> world) option" where
  "dir_namei_loop dir pathname w =
     (let thisname = takeWhile (\<lambda>c. c \<noteq> CHR ''/'') pathname
      in case dropWhile (\<lambda>c. c \<noteq> CHR ''/'') pathname of
           [] \<Rightarrow> Some (0, thisname, dir, w)
         | _ # rest \<Rightarrow>
             (case ufs_lookup dir thisname w of
                None \<Rightarrow> None
              | Some (retval, ino, w) \<Rightarrow>
                  if retval \<noteq> 0 then Some (retval, [], 0, w) else dir_namei_loop ino rest w))"
  by pat_completeness auto
termination
proof (relation "measure (\<lambda>(d, p, w). length p)", goal_cases)
  case (2 dir pathname w thisname c rest)
  then show ?case using length_dropWhile_le [of "\<lambda>c. c \<noteq> CHR ''/''" pathname] by simp
qed simp

declare dir_namei_loop.simps [simp del]

definition ufs_dir_namei :: "int \<Rightarrow> int \<Rightarrow> string \<Rightarrow> world \<Rightarrow> (int \<times> string \<times> int \<times> world) option" where
  "ufs_dir_namei root dir pathname w =
     (case pathname of
        c # rest \<Rightarrow> if c = CHR ''/'' then dir_namei_loop root rest w else dir_namei_loop dir pathname w
      | [] \<Rightarrow> dir_namei_loop dir pathname w)"

definition ufs_open_namei :: "int \<Rightarrow> int \<Rightarrow> string \<Rightarrow> world \<Rightarrow> (int \<times> int \<times> world) option" where
  "ufs_open_namei root base path w = do {
     (retval, base_name, dir, w) \<leftarrow> ufs_dir_namei root base path w;
     if retval \<noteq> 0 then Some (retval, 0, w)
     else if base_name = [] then Some (0, dir, w)
     else do {
       (retval, ino, w) \<leftarrow> ufs_lookup dir base_name w;
       Some (retval, if retval \<noteq> 0 then 0 else ino, w)
     }
   }"

definition ufs_namei :: "int \<Rightarrow> int \<Rightarrow> string \<Rightarrow> world \<Rightarrow> (int \<times> int \<times> world) option" where
  "ufs_namei root_ino cur_ino filename w = ufs_open_namei root_ino cur_ino filename w"

text \<open>The vnode of a path (do_readinode.c): code, inode number and vnode.\<close>

definition do_readvnode :: "string \<Rightarrow> world \<Rightarrow> (int \<times> int \<times> int option \<times> world) option" where
  "do_readvnode path w = do {
     (rc, ino, w) \<leftarrow> ufs_namei ROOTINO ROOTINO path w;
     if rc \<noteq> 0 \<or> ino = 0 then Some (- ENOENT, ino, None, w)
     else do {
       (vp, w) \<leftarrow> vnode_get ino w;
       Some (if vp = None then - EIO else 0, ino, vp, w)
     }
   }"

text \<open>The same for an inode structure of the caller.\<close>

definition do_readinode :: "string \<Rightarrow> inode \<Rightarrow> world \<Rightarrow> (int \<times> int \<times> inode \<times> world) option" where
  "do_readinode path ip w = do {
     (rc, ino, w) \<leftarrow> ufs_namei ROOTINO ROOTINO path w;
     if rc \<noteq> 0 \<or> ino = 0 then Some (- ENOENT, ino, ip, w)
     else do {
       let (rc, off, s) = getino ino (w_ufs w);
       let w = w\<lparr>w_ufs := s\<rparr>;
       if rc \<noteq> 0 then Some (- EIO, ino, ip, w)
       else Some (0, ino, copy_ondisk_to_incore ip (the (d_inoblock s)) off ino, w)
     }
   }"

subsection \<open>Adding an entry\<close>

record link_struct =
  l_name :: string
  l_namelen :: int
  l_inode :: int
  l_flags :: int
  l_done :: int
  l_blocksize :: int

text \<open>
  The callback absorbs an unused successor, splits an entry with enough room, and fills an
  unused entry. (\<open>ufs_get_rec_len\<close> and \<open>ufs_set_rec_len\<close> always succeed, so \<open>err\<close> stays 0.)
\<close>

definition link_absorb :: "int \<Rightarrow> mem \<Rightarrow> int \<Rightarrow> int \<Rightarrow> int \<times> int \<times> mem" where
  "link_absorb blocksize m de off =
     (let curr_rec_len = d_reclen m de; nxt = de + curr_rec_len
      in if off + curr_rec_len < blocksize - 8 \<and> d_ino m nxt = 0 \<and>
            off + curr_rec_len + d_reclen m nxt \<le> blocksize
         then let curr_rec_len = curr_rec_len + d_reclen m nxt
              in (DIRENT_CHANGED, curr_rec_len, set_d_reclen m de curr_rec_len)
         else (0, curr_rec_len, m))"

definition link_proc :: "link_struct dirfunc" where
  "link_proc ls m de off =
     (let rec_len = UFS_DIR_REC_LEN (l_namelen ls);
          (ret, curr_rec_len, m) = link_absorb (l_blocksize ls) m de off
      in if d_ino m de \<noteq> 0 then
           let min_rec_len = UFS_DIR_REC_LEN (d_namlen m de AND 0xFF)
           in if curr_rec_len < min_rec_len + rec_len then Some (ret, m, ls)
              else
                let rec_len = curr_rec_len - min_rec_len;
                    m = set_d_reclen m de min_rec_len;
                    nxt = de + d_reclen m de;
                    m = set_d_ino m nxt 0;
                    m = set_d_namlen m nxt 0;
                    m = set_d_reclen m nxt rec_len
                in Some (DIRENT_CHANGED, m, ls)
         else if curr_rec_len < rec_len then Some (ret, m, ls)
         else
           let m = set_d_ino m de (l_inode ls);
               m = set_d_namlen m de (l_namelen ls);
               m = set_d_type m de (IFTODT (l_flags ls));
               m = put_chars m (de + 8) (l_name ls);
               m = m(de + 8 + l_namelen ls := 0)
           in Some (DIRENT_ABORT OR DIRENT_CHANGED, m, ls\<lparr>l_done := l_done ls + 1\<rparr>))"

text \<open>A directory block with one entry that spans it, at offset \<open>a\<close> of the buffer.\<close>

definition ufs_init_dir_block :: "mem \<Rightarrow> int \<Rightarrow> int \<Rightarrow> int \<Rightarrow> int \<Rightarrow> string \<Rightarrow> mem" where
  "ufs_init_dir_block m a block_size ino flags name =
     (let m = memset m a 0 block_size;
          m = set_d_ino m a ino;
          m = set_d_reclen m a block_size;
          m = set_d_type m a (IFTODT flags);
          m = set_d_namlen m a (min MAXNAMLEN (int (length name)))
      in put_chars m (a + 8) (take 256 name))"

text \<open>The work of \<open>ufs_dir_append\<close> on the directory's inode: code, inode and handle.\<close>

definition dir_append_inode :: "int \<Rightarrow> int \<Rightarrow> string \<Rightarrow> inode \<Rightarrow> uufsd \<Rightarrow> (int \<times> inode \<times> uufsd) option" where
  "dir_append_inode fino fflags fname ip s =
     (let fs = d_fs s;
          dir_blksize = DIRBLKSIZ;
          old_size = i_size ip;
          new_size = old_size + dir_blksize;
          dir_blkno = lblkno fs old_size;
          old_bytes = blkoff fs old_size;
          new_bytes = blkoff fs (new_size - 1) + 1;
          old_fragsiz = fragroundup fs old_bytes;
          new_fragsiz = fragroundup fs new_bytes;
          dir_buf = env_junk s
      in if \<not> env_mem s then Some (- ENOMEM, ip, s)
         else do {
           (err, fs_blkno, dir_buf) \<leftarrow>
             (if old_bytes > 0 then do {
                (ret, fs_blkno) \<leftarrow> ufs_bmap ip (u32 dir_blkno) 0 s;
                if ret \<noteq> 0 then Some (- EIO, fs_blkno, dir_buf)
                else let (err, dir_buf) = blkread (fsbtodb fs fs_blkno) dir_buf old_bytes s
                     in Some (if err = -1 then - EIO else 0, fs_blkno, dir_buf)
              }
              else Some (0, 0, dir_buf));
           if err \<noteq> 0 then Some (err, ip, s)
           else do {
             let dir_buf = ufs_init_dir_block dir_buf old_bytes dir_blksize fino fflags fname;
             let old_fsblk = fs_blkno;
             (err, fs_blkno, ip, s) \<leftarrow>
               (if new_fragsiz > old_fragsiz then do {
                  (err, fs_blkno, s) \<leftarrow> ufs_block_alloc (i_number ip) new_fragsiz s;
                  if err \<noteq> 0 then Some (err, fs_blkno, ip, s)
                  else do {
                    (err, ip, s) \<leftarrow> ufs_set_block ip (u32 dir_blkno) fs_blkno s;
                    if err \<noteq> 0 then Some (err, fs_blkno, ip, s)
                    else do {
                      s \<leftarrow> (if old_fragsiz > 0 then ufs_block_free old_fsblk old_fragsiz s else Some s);
                      Some (0, fs_blkno, ip, s)
                    }
                  }
                }
                else Some (0, fs_blkno, ip, s));
             if err \<noteq> 0 then Some (err, ip, s)
             else let (err, s) = blkwrite (fsbtodb fs fs_blkno) dir_buf new_bytes s
                  in if err = -1 then Some (- EIO, ip, s)
                     else Some (0, ip\<lparr>i_size := new_size\<rparr>, s)
           }
         })"

definition ufs_dir_append :: "int \<Rightarrow> int \<Rightarrow> int \<Rightarrow> string \<Rightarrow> world \<Rightarrow> (int \<times> world) option" where
  "ufs_dir_append dino fino fflags fname w = do {
     (vp, w) \<leftarrow> vnode_get dino w;
     case vp of
       None \<Rightarrow> Some (- ENOMEM, w)
     | Some p \<Rightarrow> do {
         ip \<leftarrow> get_inode p w;
         (err, ip, s) \<leftarrow> dir_append_inode fino fflags fname ip (w_ufs w);
         w \<leftarrow> set_inode p ip (w\<lparr>w_ufs := s\<rparr>);
         (_, w) \<leftarrow> vnode_put p True w;
         Some (err, w)
       }
   }"

definition ufs_addnamedir :: "int \<Rightarrow> string \<Rightarrow> int \<Rightarrow> int \<Rightarrow> world \<Rightarrow> (int \<times> world) option" where
  "ufs_addnamedir dir name ino flags w =
     (if fs_ronly (d_fs (w_ufs w)) \<noteq> 0 then Some (EROFS, w)
      else do {
        (retval, ls, w) \<leftarrow> ufs_dir_iterate dir link_proc
           \<lparr>l_name = name, l_namelen = int (length name), l_inode = ino, l_flags = flags, l_done = 0,
            l_blocksize = DIRBLKSIZ\<rparr> w;
        if retval \<noteq> 0 then Some (retval, w)
        else if l_done ls \<noteq> 0 then Some (0, w)
        else do {
          (err, w) \<leftarrow> ufs_dir_append dir ino flags name w;
          Some (if err \<noteq> 0 then - ENOSPC else 0, w)
        }
      })"

text \<open>The link count is compared as an unsigned number.\<close>

definition ufs_link :: "int \<Rightarrow> string \<Rightarrow> int \<Rightarrow> int \<Rightarrow> world \<Rightarrow> (int \<times> world) option" where
  "ufs_link dir_ino r_dest vnode mode w = do {
     ip \<leftarrow> get_inode vnode w;
     if u64 (i_nlink ip) \<ge> LINK_MAX then Some (EMLINK, w)
     else do {
       w \<leftarrow> upd_inode vnode (\<lambda>ip. ip\<lparr>i_effnlink := i_effnlink ip + 1, i_nlink := i_nlink ip + 1\<rparr>) w;
       (err, w) \<leftarrow> ufs_addnamedir dir_ino r_dest (i_number ip) mode w;
       if err \<noteq> 0 then do {
         w \<leftarrow> upd_inode vnode (\<lambda>ip. ip\<lparr>i_effnlink := i_effnlink ip - 1, i_nlink := i_nlink ip - 1\<rparr>) w;
         Some (err, w)
       }
       else Some (0, w)
     }
   }"

subsection \<open>Removing an entry\<close>

text \<open>\<open>prev_dirent\<close> is the offset of the last used entry seen, if any, in the one buffer the
  iteration uses.\<close>

record unlink_struct =
  u_name :: string
  u_namelen :: int
  u_inode :: int
  u_prev_dirent :: "int option"
  u_done :: int

definition unlink_proc :: "unlink_struct dirfunc" where
  "unlink_proc ls m de off =
     (if d_ino m de = 0 then Some (0, m, ls)
      else
        let prev = u_prev_dirent ls; ls = ls\<lparr>u_prev_dirent := Some de\<rparr>
        in if d_namlen m de AND 0xFF \<noteq> u_namelen ls then Some (0, m, ls)
           else if \<not> same_chars (u_name ls) m (de + 8) then Some (0, m, ls)
           else if u_inode ls \<noteq> 0 \<and> d_ino m de \<noteq> u_inode ls then Some (0, m, ls)
           else do {
             m \<leftarrow> (if off \<noteq> 0
                    then map_option (\<lambda>q. set_d_reclen m q (d_reclen m q + d_reclen m de)) prev
                    else Some (set_d_ino m de 0));
             Some (DIRENT_ABORT OR DIRENT_CHANGED, m, ls\<lparr>u_done := u_done ls + 1\<rparr>)
           })"

text \<open>Every caller passes a name, so the first test of the code does not apply.\<close>

definition ufs_unlink :: "int \<Rightarrow> string \<Rightarrow> int \<Rightarrow> world \<Rightarrow> (int \<times> world) option" where
  "ufs_unlink dir_ino name file_ino w =
     (if fs_ronly (d_fs (w_ufs w)) \<noteq> 0 then Some (EROFS, w)
      else do {
        (retval, ls, w) \<leftarrow> ufs_dir_iterate dir_ino unlink_proc
           \<lparr>u_name = name, u_namelen = int (length name), u_inode = file_ino, u_prev_dirent = None,
            u_done = 0\<rparr> w;
        Some (retval, w)
      })"

subsection \<open>Emptiness and the parent entry\<close>

definition rmdir_proc :: "int dirfunc" where
  "rmdir_proc is_empty m de off =
     (if d_ino m de = 0 then Some (0, m, is_empty)
      else if d_namlen m de AND 0xFF = 1 \<and> m (de + 8) = of_char (CHR ''.'') \<or>
              d_namlen m de AND 0xFF = 2 \<and> m (de + 8) = of_char (CHR ''.'') \<and>
              m (de + 9) = of_char (CHR ''.'') then Some (0, m, is_empty)
      else Some (0, m, 0))"

definition do_check_empty_dir :: "int \<Rightarrow> world \<Rightarrow> (int \<times> world) option" where
  "do_check_empty_dir ino w = do {
     (rc, is_empty, w) \<leftarrow> ufs_dir_iterate ino rmdir_proc 1 w;
     if rc \<noteq> 0 then Some (- EIO, w)
     else if is_empty = 0 then Some (- ENOTEMPTY, w) else Some (0, w)
   }"

definition fix_dotdot_proc :: "int dirfunc" where
  "fix_dotdot_proc dotdot m de off =
     (if d_namlen m de AND 0xFF = 2 \<and> same_chars ''..'' m (de + 8)
      then Some (DIRENT_ABORT OR DIRENT_CHANGED, set_d_ino m de dotdot, dotdot)
      else Some (0, m, dotdot))"

definition do_fix_dotdot :: "int \<Rightarrow> int \<Rightarrow> world \<Rightarrow> (int \<times> world) option" where
  "do_fix_dotdot ino dotdot w = do {
     (rc, _, w) \<leftarrow> ufs_dir_iterate ino fix_dotdot_proc dotdot w;
     Some (if rc \<noteq> 0 then - EIO else 0, w)
   }"

end
