(* ===== verification/Ufs_Runs.thy ===== *)
theory Ufs_Runs
  imports Ufs_Prelude
begin

section \<open>Maximal runs of a predicate on an interval\<close>

text \<open>
  The allocator keeps two kinds of statistics: how many maximal runs of free fragments of each
  length the blocks of a group have, and how many maximal clusters of free blocks. Both are
  counts of maximal runs of a predicate on an interval of the integers. This theory says how
  the runs change when a prefix of a run is taken away and when a single element is added, and
  counts them.
\<close>

definition mrun :: "(int \<Rightarrow> bool) \<Rightarrow> int \<Rightarrow> int \<Rightarrow> int \<Rightarrow> int \<Rightarrow> bool" where
  "mrun F lo hi s i \<longleftrightarrow>
     lo \<le> i \<and> i + s \<le> hi \<and> (\<forall>j. i \<le> j \<longrightarrow> j < i + s \<longrightarrow> F j) \<and>
     (lo < i \<longrightarrow> \<not> F (i - 1)) \<and> (i + s < hi \<longrightarrow> \<not> F (i + s))"

lemma mrunD:
  assumes "mrun F lo hi s i"
  shows "lo \<le> i" "i + s \<le> hi" "\<And>j. i \<le> j \<Longrightarrow> j < i + s \<Longrightarrow> F j"
    "lo < i \<Longrightarrow> \<not> F (i - 1)" "i + s < hi \<Longrightarrow> \<not> F (i + s)"
  using assms by (simp_all add: mrun_def)

text \<open>Two maximal runs that meet are the same.\<close>

lemma mrun_unique:
  assumes "mrun F lo hi s p" "mrun F lo hi t i" "p < i + t" "i < p + s"
  shows "i = p \<and> t = s"
proof -
  note P = mrunD [OF assms(1)] and I = mrunD [OF assms(2)]
  have "\<not> i < p" using P(4) I(1) I(3) [of "p - 1"] assms(3) by auto
  moreover have "\<not> p < i" using I(4) P(1) P(3) [of "i - 1"] assms(4) by auto
  moreover have "\<not> i + t < p + s" using I(5) P(2) P(3) [of "i + t"] assms(3) by auto
  moreover have "\<not> p + s < i + t" using P(5) I(2) I(3) [of "p + s"] assms(4) by auto
  ultimately show ?thesis by linarith
qed

lemma mrun_start:
  assumes "mrun F lo hi s p" "mrun F lo hi t p" "1 \<le> s" "1 \<le> t"
  shows "t = s"
  using mrun_unique [OF assms(1,2)] assms(3,4) by simp

lemma mrun_cong:
  "(\<And>j. lo \<le> j \<Longrightarrow> j < hi \<Longrightarrow> F j = G j) \<Longrightarrow> 1 \<le> s \<Longrightarrow> mrun F lo hi s i = mrun G lo hi s i"
  by (auto simp: mrun_def)

text \<open>Taking the first \<open>k\<close> elements of a run leaves a shorter run or none; all others stay.\<close>

lemma mrun_take:
  assumes r: "mrun F lo hi s p" and k: "1 \<le> k" "k \<le> s" and t: "1 \<le> t"
    and F': "\<And>j. lo \<le> j \<Longrightarrow> j < hi \<Longrightarrow> F' j \<longleftrightarrow> F j \<and> \<not> (p \<le> j \<and> j < p + k)"
  shows "mrun F' lo hi t i \<longleftrightarrow> mrun F lo hi t i \<and> i \<noteq> p \<or> k < s \<and> t = s - k \<and> i = p + k"
    (is "?L \<longleftrightarrow> ?R")
proof
  note P = mrunD [OF r]
  assume L: ?L
  note I = mrunD [OF L]
  have out: "F j \<and> \<not> (p \<le> j \<and> j < p + k)" if "i \<le> j" "j < i + t" for j
    using I(3) [OF that] F' [of j] that I(1,2) by auto
  have nin: "\<not> (p \<le> i \<and> i < p + k)" using out [of i] t by auto
  have i_lt: "i < p \<Longrightarrow> i + t \<le> p" using out [of p] k by force
  consider "i = p + k" | "i < p" | "p + k < i" using nin by linarith
  then show ?R
  proof cases
    case 1
    have rest: "F' j" if "p + k \<le> j" "j < p + s" for j using P(1-3) F' [of j] that k by auto
    have "p + s \<le> i + t" using I(5) rest [of "i + t"] 1 t P(2) by force
    moreover have "i + t \<le> p + s" using I(3) [of "p + s"] I(2) P(5) F' [of "p + s"] P(1) 1 k by force
    ultimately show ?thesis using 1 t by auto
  next
    case 2
    have "i + t \<noteq> p" using P(4) out [of "p - 1"] I(1) t 2 by force
    then have lt: "i + t < p" using i_lt [OF 2] by simp
    have "\<not> F (i + t)" using I(5) F' [of "i + t"] lt P(2) I(1) t k by auto
    moreover have "\<not> F (i - 1)" if "lo < i" using I(4) [OF that] F' [of "i - 1"] that I(2) t 2 by auto
    ultimately have "mrun F lo hi t i" using I(1,2) out by (simp add: mrun_def)
    then show ?thesis using 2 by simp
  next
    case 3
    have "\<not> F (i + t)" if "i + t < hi" using I(5) [OF that] F' [of "i + t"] that 3 I(1) t by auto
    moreover have "\<not> F (i - 1)" using I(4) F' [of "i - 1"] I(2) t 3 P(1) k by auto
    ultimately have "mrun F lo hi t i" using I(1,2) out by (simp add: mrun_def)
    then show ?thesis using 3 k by simp
  qed
next
  note P = mrunD [OF r]
  assume ?R
  then show ?L
  proof
    assume R: "mrun F lo hi t i \<and> i \<noteq> p"
    then have I: "mrun F lo hi t i" "i \<noteq> p" by auto
    note J = mrunD [OF I(1)]
    have "\<not> (p < i + t \<and> i < p + s)" using mrun_unique [OF r I(1)] I(2) by blast
    then have dis: "i + t \<le> p \<or> p + s \<le> i" by linarith
    have "F' j" if "i \<le> j" "j < i + t" for j using F' [of j] that J(1-3) dis k by auto
    moreover have "\<not> F' (i + t)" if "i + t < hi" using J(5) [OF that] F' [of "i + t"] that J(1) t by auto
    moreover have "\<not> F' (i - 1)" if "lo < i" using J(4) [OF that] F' [of "i - 1"] that J(2) t by auto
    ultimately show ?thesis using J(1,2) by (simp add: mrun_def)
  next
    assume R: "k < s \<and> t = s - k \<and> i = p + k"
    have "F' j" if "i \<le> j" "j < i + t" for j using F' [of j] that P(1-3) R k by auto
    moreover have "\<not> F' (i + t)" if "i + t < hi" using P(5) F' [of "i + t"] that R P(1) k by auto
    moreover have "\<not> F' (i - 1)" using F' [of "i - 1"] R P(1,2) k by auto
    ultimately show ?thesis using P(1,2) R k by (simp add: mrun_def)
  qed
qed

text \<open>Adding the element \<open>h\<close> joins the run of \<open>b\<close> elements before it and that of \<open>w\<close> after it.\<close>

definition run_before :: "(int \<Rightarrow> bool) \<Rightarrow> int \<Rightarrow> int \<Rightarrow> int \<Rightarrow> bool" where
  "run_before F lo h b \<longleftrightarrow>
     0 \<le> b \<and> lo \<le> h - b \<and> (\<forall>j. h - b \<le> j \<longrightarrow> j < h \<longrightarrow> F j) \<and> (lo < h - b \<longrightarrow> \<not> F (h - b - 1))"

definition run_after :: "(int \<Rightarrow> bool) \<Rightarrow> int \<Rightarrow> int \<Rightarrow> int \<Rightarrow> bool" where
  "run_after F hi h w \<longleftrightarrow>
     0 \<le> w \<and> h + w < hi \<and> (\<forall>j. h < j \<longrightarrow> j \<le> h + w \<longrightarrow> F j) \<and> (h + w + 1 < hi \<longrightarrow> \<not> F (h + w + 1))"

lemma mrun_before:
  assumes "run_before F lo h b" "h < hi" "\<not> F h" "1 \<le> t"
  shows "mrun F lo hi t (h - b) \<longleftrightarrow> 0 < b \<and> t = b"
proof
  assume L: "mrun F lo hi t (h - b)"
  have "b \<noteq> 0" using mrunD(3) [OF L, of h] assms by auto
  then have "0 < b" using assms by (simp add: run_before_def)
  moreover have "mrun F lo hi b (h - b)" using assms by (auto simp: mrun_def run_before_def)
  ultimately show "0 < b \<and> t = b" using mrun_start [OF L] assms(4) by auto
qed (use assms in \<open>auto simp: mrun_def run_before_def\<close>)

lemma mrun_after:
  assumes "run_after F hi h w" "lo \<le> h" "\<not> F h" "1 \<le> t"
  shows "mrun F lo hi t (h + 1) \<longleftrightarrow> 0 < w \<and> t = w"
proof
  assume L: "mrun F lo hi t (h + 1)"
  have "0 < w" using mrunD(2) [OF L] mrunD(3) [OF L, of "h + 1"] assms
    by (cases "w = 0") (auto simp: run_after_def)
  moreover have "mrun F lo hi w (h + 1)" using assms by (auto simp: mrun_def run_after_def ac_simps)
  ultimately show "0 < w \<and> t = w" using mrun_start [OF L] assms(4) by auto
qed (use assms in \<open>auto simp: mrun_def run_after_def ac_simps\<close>)

lemma mrun_join:
  assumes b: "run_before F lo h b" and w: "run_after F hi h w" and h: "\<not> F h" and t: "1 \<le> t"
    and F': "\<And>j. lo \<le> j \<Longrightarrow> j < hi \<Longrightarrow> F' j \<longleftrightarrow> F j \<or> j = h"
  shows "mrun F' lo hi t i \<longleftrightarrow>
    mrun F lo hi t i \<and> i \<noteq> h - b \<and> i \<noteq> h + 1 \<or> t = b + w + 1 \<and> i = h - b"
proof -
  have B: "0 \<le> b" "lo \<le> h - b" "\<And>j. h - b \<le> j \<Longrightarrow> j < h \<Longrightarrow> F j" "lo < h - b \<Longrightarrow> \<not> F (h - b - 1)"
    using b by (simp_all add: run_before_def)
  have W: "0 \<le> w" "h + w < hi" "\<And>j. h < j \<Longrightarrow> j \<le> h + w \<Longrightarrow> F j" "h + w + 1 < hi \<Longrightarrow> \<not> F (h + w + 1)"
    using w by (simp_all add: run_after_def)
  have new: "mrun F' lo hi (b + w + 1) (h - b)"
    using B W F' [of "h - b - 1"] F' [of "h + w + 1"] F' by (auto simp: mrun_def) (smt (verit) F')+
  have keep: "mrun F' lo hi t i \<longleftrightarrow> mrun F lo hi t i" if "i + t < h \<or> h + 1 < i"
    using that F' [of "i - 1"] F' [of "i + t"] t by (auto simp: mrun_def) (smt (verit) F')+
  have near: "i = h - b \<and> t = b + w + 1" if "mrun F' lo hi t i" "\<not> (i + t < h \<or> h + 1 < i)"
  proof -
    note I = mrunD [OF that(1)]
    have "\<not> (i + t = h)" using I(5) F' [of h] B(1,2) W(1,2) by force
    moreover have "\<not> (i = h + 1)" using I(4) F' [of h] B(1,2) W(1,2) by force
    ultimately show ?thesis using mrun_unique [OF new that(1)] that(2) B(1) W(1) by linarith
  qed
  have far: "i + t < h \<or> h + 1 < i" if "mrun F lo hi t i" "i \<noteq> h - b" "i \<noteq> h + 1"
  proof (rule ccontr)
    note I = mrunD [OF that(1)] and ne = that(3)
    assume "\<not> (i + t < h \<or> h + 1 < i)"
    then consider "i + t = h" | "i \<le> h" "h < i + t" using ne by linarith
    then show False
    proof cases
      case 1
      have bp: "0 < b" using I(3) [of "h - 1"] B(1,2,4) I(1) t 1 by (cases "b = 0") auto
      have "mrun F lo hi b (h - b)" using mrun_before [OF b _ h, of hi b] W bp by auto
      then show False using mrun_unique [OF that(1)] that(2) 1 bp t by fastforce
    next
      case 2
      then show False using I(3) [of h] h by simp
    qed
  qed
  have apart: "i \<noteq> h - b \<and> i \<noteq> h + 1" if "mrun F lo hi t i" "i + t < h \<or> h + 1 < i"
    using mrun_before [OF b _ h t, of hi] that B(1) W(1,2) t by auto
  show ?thesis
    using new near keep far apart by metis
qed

subsection \<open>Counting\<close>

definition rcount :: "(int \<Rightarrow> bool) \<Rightarrow> int \<Rightarrow> int \<Rightarrow> int \<Rightarrow> int" where
  "rcount F lo hi s = int (card {i. mrun F lo hi s i})"

lemma mrun_finite [simp]: "1 \<le> s \<Longrightarrow> finite {i. mrun F lo hi s i}"
  by (rule finite_subset [of _ "{lo..<hi}"]) (auto simp: mrun_def)

lemma rcount_cong:
  "(\<And>j. lo \<le> j \<Longrightarrow> j < hi \<Longrightarrow> F j = G j) \<Longrightarrow> 1 \<le> s \<Longrightarrow> rcount F lo hi s = rcount G lo hi s"
  using mrun_cong [of lo hi F G s] by (simp add: rcount_def)

lemma rcount_take:
  assumes r: "mrun F lo hi s p" and k: "1 \<le> k" "k \<le> s" and t: "1 \<le> t"
    and F': "\<And>j. lo \<le> j \<Longrightarrow> j < hi \<Longrightarrow> F' j \<longleftrightarrow> F j \<and> \<not> (p \<le> j \<and> j < p + k)"
  shows "rcount F' lo hi t = rcount F lo hi t - of_bool (t = s) + of_bool (k < s \<and> t = s - k)"
proof -
  let ?A = "{i. mrun F lo hi t i}" and ?B = "{i. i = p + k \<and> k < s \<and> t = s - k}"
  have eq: "{i. mrun F' lo hi t i} = (?A - {p}) \<union> ?B"
    using mrun_take [OF r k t F'] by auto
  have pin: "p \<in> ?A \<longleftrightarrow> t = s" using r mrun_start [OF r, of t] k t by auto
  have nin: "p + k \<notin> ?A" if "k < s" using mrun_unique [OF r, of t "p + k"] that k t by auto
  then have dis: "(?A - {p}) \<inter> ?B = {}" by auto
  have "card ((?A - {p}) \<union> ?B) = card (?A - {p}) + card ?B"
    by (rule card_Un_disjoint) (use t dis in \<open>auto intro: finite_subset [of _ "{p + k}"]\<close>)
  moreover have "int (card (?A - {p})) = int (card ?A) - of_bool (t = s)"
  proof (cases "t = s")
    case True
    then have "card ?A > 0" using pin t by (intro card_gt_0_iff [THEN iffD2]) auto
    then show ?thesis using pin True t by (simp add: card_Diff_singleton)
  qed (use pin in simp)
  moreover have "int (card ?B) = of_bool (k < s \<and> t = s - k)"
    by (cases "k < s \<and> t = s - k") auto
  ultimately show ?thesis unfolding rcount_def eq by simp
qed

text \<open>
  \<open>ccount\<close> counts the maximal runs on \<open>{0..<hi}\<close> of length \<open>k\<close>, those of \<open>n\<close> or more elements
  together.
\<close>

definition ccount :: "(int \<Rightarrow> bool) \<Rightarrow> int \<Rightarrow> int \<Rightarrow> int \<Rightarrow> int" where
  "ccount F hi n k = int (card {i. \<exists>t. 1 \<le> t \<and> mrun F 0 hi t i \<and> min t n = k})"

lemma ccount_cong:
  assumes "\<And>j. 0 \<le> j \<Longrightarrow> j < hi \<Longrightarrow> F j = G j"
  shows "ccount F hi n k = ccount G hi n k"
proof -
  have "mrun F 0 hi t i = mrun G 0 hi t i" if "1 \<le> t" for t i using mrun_cong [of 0 hi F G t] assms that by blast
  then show ?thesis unfolding ccount_def by (metis (no_types, lifting))
qed

lemma ccount_finite: "finite {i. \<exists>t. 1 \<le> t \<and> mrun F 0 hi t i \<and> min t n = k}"
  by (rule finite_subset [of _ "{0..<hi}"]) (auto simp: mrun_def)

lemma card_remove_of_bool:
  "finite A \<Longrightarrow> int (card (A - {x})) = int (card A) - of_bool (x \<in> A)"
proof (cases "x \<in> A")
  case True
  assume "finite A"
  with True have "card A > 0" by (auto simp: card_gt_0_iff)
  then show ?thesis using True by (simp add: card_Diff_singleton)
qed simp

lemma ccount_join:
  assumes b: "run_before F 0 h b" and w: "run_after F hi h w" and h: "\<not> F h"
    and F': "\<And>j. 0 \<le> j \<Longrightarrow> j < hi \<Longrightarrow> F' j \<longleftrightarrow> F j \<or> j = h"
  shows "ccount F' hi n k = ccount F hi n k + of_bool (k = min (b + w + 1) n)
    - of_bool (0 < b \<and> k = min b n) - of_bool (0 < w \<and> k = min w n)"
proof -
  have bw: "0 \<le> b" "0 \<le> w" "h < hi" "0 \<le> h" using b w by (auto simp: run_before_def run_after_def)
  let ?C = "\<lambda>F. {i. \<exists>t. 1 \<le> t \<and> mrun F 0 hi t i \<and> min t n = k}"
  let ?N = "if k = min (b + w + 1) n then {h - b} else {}"
  have join: "mrun F' 0 hi t i \<longleftrightarrow>
      mrun F 0 hi t i \<and> i \<noteq> h - b \<and> i \<noteq> h + 1 \<or> t = b + w + 1 \<and> i = h - b" if "1 \<le> t" for t i
    by (rule mrun_join [OF b w h that]) (rule F')
  have eq: "?C F' = (?C F - {h - b} - {h + 1}) \<union> ?N"
  proof (rule set_eqI)
    fix i
    show "i \<in> ?C F' \<longleftrightarrow> i \<in> (?C F - {h - b} - {h + 1}) \<union> ?N"
    proof (cases "i = h - b")
      case True
      have j: "mrun F' 0 hi t i \<longleftrightarrow> t = b + w + 1" if "1 \<le> t" for t
        using join [OF that] True by simp
      then have "i \<in> ?C F' \<longleftrightarrow> k = min (b + w + 1) n"
        using bw j [of "b + w + 1"] by (auto intro!: exI [of _ "b + w + 1"])
      then show ?thesis using True by auto
    next
      case False
      have j: "mrun F' 0 hi t i \<longleftrightarrow> mrun F 0 hi t i \<and> i \<noteq> h + 1" if "1 \<le> t" for t
        using join [OF that] False by simp
      then have "i \<in> ?C F' \<longleftrightarrow> i \<in> ?C F \<and> i \<noteq> h + 1" by auto
      then show ?thesis using False by auto
    qed
  qed
  have inb: "h - b \<in> ?C F \<longleftrightarrow> 0 < b \<and> k = min b n"
    using mrun_before [OF b bw(3) h] mrun_before [OF b bw(3) h, of b] by (auto intro!: exI [of _ b])
  have inw: "h + 1 \<in> ?C F \<longleftrightarrow> 0 < w \<and> k = min w n"
    using mrun_after [OF w bw(4) h] mrun_after [OF w bw(4) h, of w] by (auto intro!: exI [of _ w])
  have "h + 1 \<in> ?C F - {h - b} \<longleftrightarrow> 0 < w \<and> k = min w n" using inw bw by auto
  then have "int (card (?C F - {h - b} - {h + 1})) =
      int (card (?C F)) - of_bool (0 < b \<and> k = min b n) - of_bool (0 < w \<and> k = min w n)"
    using card_remove_of_bool [of "?C F - {h - b}" "h + 1"] card_remove_of_bool [of "?C F" "h - b"]
      ccount_finite [of F hi n k] inb by simp
  moreover have "card ((?C F - {h - b} - {h + 1}) \<union> ?N) = card (?C F - {h - b} - {h + 1}) + card ?N"
    by (rule card_Un_disjoint) (use ccount_finite [of F hi n k] in auto)
  moreover have "int (card ?N) = of_bool (k = min (b + w + 1) n)" by simp
  ultimately show ?thesis unfolding ccount_def eq by simp
qed

lemma ccount_bounds: "0 \<le> ccount F hi n k" "0 \<le> hi \<Longrightarrow> ccount F hi n k \<le> hi"
proof -
  have "card {i. \<exists>t. 1 \<le> t \<and> mrun F 0 hi t i \<and> min t n = k} \<le> card {0..<hi}"
    by (rule card_mono) (auto simp: mrun_def)
  then show "0 \<le> hi \<Longrightarrow> ccount F hi n k \<le> hi" by (simp add: ccount_def)
qed (simp add: ccount_def)

subsection \<open>Scans along a run\<close>

lemma run_after_ex: "h < hi \<Longrightarrow> \<exists>w. run_after F hi h w"
proof (induction "nat (hi - h)" arbitrary: h)
  case (Suc x)
  show ?case
  proof (cases "h + 1 < hi \<and> F (h + 1)")
    case True
    then obtain w where w: "run_after F hi (h + 1) w" using Suc(1) [of "h + 1"] Suc(2) by fastforce
    have "F j" if "h < j" "j \<le> h + (w + 1)" for j
      using w True that by (cases "j = h + 1") (auto simp: run_after_def)
    then have "run_after F hi h (w + 1)" using w by (auto simp: run_after_def algebra_simps)
    then show ?thesis ..
  next
    case False
    then have "run_after F hi h 0" using Suc(3) by (auto simp: run_after_def)
    then show ?thesis ..
  qed
qed simp

lemma run_before_ex: "lo \<le> h \<Longrightarrow> \<exists>b. run_before F lo h b"
proof (induction "nat (h - lo)" arbitrary: h)
  case 0
  then have "run_before F lo h 0" by (auto simp: run_before_def)
  then show ?case ..
next
  case (Suc x)
  show ?case
  proof (cases "F (h - 1)")
    case True
    then obtain b where b: "run_before F lo (h - 1) b" using Suc(1) [of "h - 1"] Suc(2) by fastforce
    have "F j" if "h - (b + 1) \<le> j" "j < h" for j
      using b True that by (cases "j = h - 1") (auto simp: run_before_def)
    then have "run_before F lo h (b + 1)" using b by (auto simp: run_before_def algebra_simps)
    then show ?thesis ..
  next
    case False
    then have "run_before F lo h 0" using Suc(2,3) by (auto simp: run_before_def)
    then show ?thesis ..
  qed
qed

text \<open>A scan that stops at the first gap or after \<open>n\<close> elements sees \<open>n\<close> or the whole run.\<close>

lemma scan_after:
  assumes "run_after F hi h w" "0 \<le> n" "0 \<le> x" "x \<le> n" "h + x < hi" "\<And>j. h < j \<Longrightarrow> j \<le> h + x \<Longrightarrow> F j"
    "x < n \<Longrightarrow> h + x + 1 < hi \<Longrightarrow> \<not> F (h + x + 1)"
  shows "x = min w n"
proof -
  have "\<not> w < x" using assms(1,5) assms(6) [of "h + w + 1"] by (auto simp: run_after_def)
  moreover have "\<not> (x < w \<and> x < n)" using assms(1,3,7) by (auto simp: run_after_def)
  ultimately show ?thesis using assms(4) by linarith
qed

lemma scan_before:
  assumes "run_before F lo h b" "0 \<le> n" "0 \<le> x" "x \<le> n" "lo \<le> h - x" "\<And>j. h - x \<le> j \<Longrightarrow> j < h \<Longrightarrow> F j"
    "x < n \<Longrightarrow> lo < h - x \<Longrightarrow> \<not> F (h - x - 1)"
  shows "x = min b n"
proof -
  have "\<not> b < x" using assms(1,5) assms(6) [of "h - b - 1"] by (auto simp: run_before_def)
  moreover have "\<not> (x < b \<and> x < n)" using assms(1,3,7) by (auto simp: run_before_def)
  ultimately show ?thesis using assms(4) by linarith
qed

end
