(* ===== verification/Ufs_Cluster.thy ===== *)
theory Ufs_Cluster
  imports Ufs_Search Ufs_Runs
begin

section \<open>The cluster summary\<close>

text \<open>
  \<open>ffs_clusteracct\<close> keeps, for every cluster length up to \<open>fs_contigsumsize\<close>, the number of
  maximal clusters of free blocks of that length (the last counter takes all longer ones). The
  lemmas say that its two scans measure the clusters next to the block, clipped to that length,
  and that the three updates keep the counters equal to the number of clusters.
\<close>

lemma clus_forw_min:
  assumes "0 \<le> h" "h < hi" "0 < n" "run_after (isset m a) hi h w"
    "r = clus_forw m (a + (h + 1) sdiv NBBY + 1) (uint (m (a + (h + 1) sdiv NBBY)))
           (push_bit (nat ((h + 1) smod NBBY)) 1) (h + 1) (if h + 1 + n \<ge> hi then hi else h + 1 + n)"
  shows "r - (h + 1) = min w n"
proof (rule scan_after [OF assms(4)])
  let ?e = "if h + 1 + n \<ge> hi then hi else h + 1 + n"
  have *: "h + 1 \<le> r \<and> r \<le> ?e \<and> (\<forall>j \<in> {h + 1..<r}. isset m a j) \<and> (r < ?e \<longrightarrow> \<not> isset m a r)"
    by (rule clus_forw_spec [OF refl refl refl])
      (use assms in \<open>auto simp: sdiv_nonneg smod_nonneg\<close>)
  then show "0 \<le> r - (h + 1)" "r - (h + 1) \<le> n" "h + (r - (h + 1)) < hi"
    using assms(2,3) by (auto split: if_splits)
  show "isset m a j" if "h < j" "j \<le> h + (r - (h + 1))" for j using * that by auto
  show "\<not> isset m a (h + (r - (h + 1)) + 1)" if "r - (h + 1) < n" "h + (r - (h + 1)) + 1 < hi"
    using * that by auto
qed (use assms in simp)

lemma clus_back_min:
  assumes "0 \<le> h" "0 < n" "run_before (isset m a) 0 h b"
    "r = clus_back m (a + (h - 1) sdiv NBBY - 1) (uint (m (a + (h - 1) sdiv NBBY)))
           (push_bit (nat ((h - 1) smod NBBY)) 1) (h - 1) (if h - 1 - n < 0 then -1 else h - 1 - n)"
  shows "h - 1 - r = min b n"
proof (rule scan_before [OF assms(3)])
  let ?e = "if h - 1 - n < 0 then -1 else h - 1 - n"
  have *: "?e \<le> r \<and> r \<le> h - 1 \<and> (\<forall>j \<in> {r<..h - 1}. isset m a j) \<and> (?e < r \<longrightarrow> \<not> isset m a r)"
  proof (cases "h = 0")
    case True
    then show ?thesis using assms(2,4) by (simp add: clus_back.simps)
  next
    case False
    show ?thesis
      by (rule clus_back_spec [OF refl refl refl])
        (use assms False in \<open>auto simp: sdiv_nonneg smod_nonneg\<close>)
  qed
  then show "0 \<le> h - 1 - r" "h - 1 - r \<le> n" "0 \<le> h - (h - 1 - r)"
    using assms(1,2) by (auto split: if_splits)
  show "isset m a j" if "h - (h - 1 - r) \<le> j" "j < h" for j using * that by auto
  show "\<not> isset m a (h - (h - 1 - r) - 1)" if "h - 1 - r < n" "0 < h - (h - 1 - r)"
    using * that by auto
qed (use assms in simp)

text \<open>The cluster summary counts the maximal clusters of the cluster map.\<close>

definition clus_layout :: "fs \<Rightarrow> mem \<Rightarrow> bool" where
  "clus_layout fs c \<longleftrightarrow> 0 < fs_contigsumsize fs \<and> 164 \<le> cg_clustersumoff c \<and>
     cg_clustersumoff c + 4 * (fs_contigsumsize fs + 1) \<le> cg_clusteroff c"

definition clus_counts :: "fs \<Rightarrow> mem \<Rightarrow> bool" where
  "clus_counts fs c \<longleftrightarrow>
     (\<forall>k \<in> {1..fs_contigsumsize fs}. ld32 c (cg_clustersumoff c + 4 * k) =
        ccount (isset c (cg_clusteroff c)) (cg_nclusterblks c) (fs_contigsumsize fs) k)"

text \<open>The counters after the three updates, for the clipped lengths of the neighbouring clusters.\<close>

lemma clus_sums:
  assumes "0 \<le> b" "0 \<le> w" "0 < n" "1 \<le> k" "k \<le> n"
  shows "ld32 (if 0 < w then add32 (if 0 < b then add32 (add32 m (p + 4 * i) c) (p + 4 * b) (- c)
                              else add32 m (p + 4 * i) c) (p + 4 * w) (- c)
      else if 0 < b then add32 (add32 m (p + 4 * i) c) (p + 4 * b) (- c) else add32 m (p + 4 * i) c) (p + 4 * k)
   = s32 (ld32 m (p + 4 * k) + c * (of_bool (k = i) - of_bool (0 < b \<and> k = b) - of_bool (0 < w \<and> k = w)))"
  using assms by (auto simp: ld32_add32_idx s32_add_left) (simp add: mult.commute)

lemma ccount_s32: "s32 (ccount F (cg_nclusterblks c) n k) = ccount F (cg_nclusterblks c) n k"
proof (cases "0 \<le> cg_nclusterblks c")
  case True
  have "cg_nclusterblks c < 2 ^ 31"
    using signed_take_bit_int_less_exp [of 31 "ldn 4 c 112"] by (simp add: cg_nclusterblks_def ld32_def)
  then show ?thesis using ccount_bounds(1) [of F "cg_nclusterblks c" n k] ccount_bounds(2) [of "cg_nclusterblks c" F n k] True by (intro s32_id) linarith+
next
  case False
  then have "\<not> (1 \<le> t \<and> mrun F 0 (cg_nclusterblks c) t i)" for t i by (auto simp: mrun_def)
  then have "{i. \<exists>t. 1 \<le> t \<and> mrun F 0 (cg_nclusterblks c) t i \<and> min t n = k} = {}" by blast
  then have "ccount F (cg_nclusterblks c) n k = 0" unfolding ccount_def by (simp only: card.empty of_nat_0)
  then show ?thesis by simp
qed

lemma clusteracct_set:
  assumes lay: "clus_layout fs c" and h: "0 \<le> h" "h < cg_nclusterblks c"
    and cnt: "cnt = 1 \<and> \<not> isset c (cg_clusteroff c) h \<or> cnt = - 1 \<and> isset c (cg_clusteroff c) h"
    and counts: "clus_counts fs c"
    and eq: "ffs_clusteracct fs c h cnt = (fs', c')"
  shows "0 \<le> j \<Longrightarrow> isset c' (cg_clusteroff c) j = (if j = h then cnt = 1 else isset c (cg_clusteroff c) j)"
    and "k \<in> {1..fs_contigsumsize fs} \<Longrightarrow> ld32 c' (cg_clustersumoff c + 4 * k) =
        ccount (\<lambda>j. if j = h then cnt = 1 else isset c (cg_clusteroff c) j) (cg_nclusterblks c) (fs_contigsumsize fs) k"
    and "i < cg_clustersumoff c + 4 \<or> cg_clustersumoff c + 4 * (fs_contigsumsize fs + 1) \<le> i \<Longrightarrow>
        i \<noteq> cg_clusteroff c + h div 8 \<Longrightarrow> c' i = c i"
    and "fs' = fs\<lparr>fs_maxcluster := (fs_maxcluster fs)(cg_cgx c :=
        max_cluster c' (cg_clustersumoff c) (fs_contigsumsize fs))\<rparr>"
proof -
  define n p a N where "n = fs_contigsumsize fs" and "p = cg_clustersumoff c" and "a = cg_clusteroff c"
    and "N = cg_nclusterblks c"
  have L: "0 < n" "164 \<le> p" "p + 4 * (n + 1) \<le> a" using lay by (simp_all add: clus_layout_def n_def p_def a_def)
  define c1 where "c1 = (if 0 < cnt then setbit c a h else clrbit c a h)"
  have c1i: "isset c1 a j = (if j = h then cnt = 1 else isset c a j)" for j
    using cnt by (auto simp: c1_def bit_simps_ufs)
  have c1o: "i \<noteq> a + h div 8 \<Longrightarrow> c1 i = c i" for i by (auto simp: c1_def mem_simps)
  have ah: "a \<le> a + h div 8" using h(1) by simp
  have c1ld: "ld32 c1 x = ld32 c x" if "x + 4 \<le> a" for x
    by (rule ld_cong) (use c1o that ah in auto)
  have "168 \<le> a" using L by (simp add: algebra_simps)
  then have hd: "cg_nclusterblks c1 = N" "cg_cgx c1 = cg_cgx c"
    by (simp_all add: cg_defs c1ld N_def)
  obtain w where w: "run_after (isset c1 a) N h w" using run_after_ex [of h N] h N_def by blast
  obtain b where b: "run_before (isset c1 a) 0 h b" using run_before_ex [of 0 h] h by blast
  define fw bk where "fw = min w n" and "bk = min b n"
  have wb: "0 \<le> w" "0 \<le> b" using w b by (simp_all add: run_after_def run_before_def)
  note fb = clus_forw_min [OF h(1) _ L(1) w refl] clus_back_min [OF h(1) L(1) b refl]
  define ix where "ix = (if bk + fw + 1 > n then n else bk + fw + 1)"
  define m where "m = (if 0 < fw then add32 (if 0 < bk then add32 (add32 c1 (p + 4 * ix) cnt) (p + 4 * bk) (- cnt)
                              else add32 c1 (p + 4 * ix) cnt) (p + 4 * fw) (- cnt)
      else if 0 < bk then add32 (add32 c1 (p + 4 * ix) cnt) (p + 4 * bk) (- cnt) else add32 c1 (p + 4 * ix) cnt)"
  have idx: "1 \<le> ix" "ix \<le> n" "0 \<le> fw" "fw \<le> n" "0 \<le> bk" "bk \<le> n"
    using wb L(1) by (auto simp: ix_def fw_def bk_def)
  have mo: "m x = c1 x" if "x < p + 4 \<or> p + 4 * (n + 1) \<le> x" for x
    unfolding m_def using that idx by (auto simp: mem_simps)
  have "cg_cgx m = cg_cgx c1" unfolding cg_cgx_def using mo L(2) by (intro ld_cong) auto
  then have cgx: "cg_cgx m = cg_cgx c" using hd(2) by simp
  have "ffs_clusteracct fs c h cnt =
      (fs\<lparr>fs_maxcluster := (fs_maxcluster fs)(cg_cgx m := max_cluster m p n)\<rparr>, m)"
    using L(1) unfolding ffs_clusteracct_def Let_def n_def [symmetric] p_def [symmetric] a_def [symmetric]
      c1_def [symmetric] hd(1) fb(1) [unfolded N_def [symmetric], OF h(2) [folded N_def]] fb(2)
      fw_def [symmetric] bk_def [symmetric] ix_def [symmetric]
    by (simp add: m_def add32_def)
  then have fs': "fs' = fs\<lparr>fs_maxcluster := (fs_maxcluster fs)(cg_cgx c := max_cluster c' p n)\<rparr>"
    and c': "c' = m" using eq cgx by simp_all
  show "fs' = fs\<lparr>fs_maxcluster := (fs_maxcluster fs)(cg_cgx c :=
      max_cluster c' (cg_clustersumoff c) (fs_contigsumsize fs))\<rparr>" using fs' by (simp add: p_def n_def)
  have S: "isset m a j = isset c1 a j" if "0 \<le> j" for j
  proof (rule isset_cong)
    have "0 \<le> j div 8" using that by simp
    then show "m (a + j div 8) = c1 (a + j div 8)" using L by (intro mo) linarith
  qed
  show "isset c' (cg_clusteroff c) j = (if j = h then cnt = 1 else isset c (cg_clusteroff c) j)" if "0 \<le> j"
    using S [OF that] c1i by (simp add: c' a_def)
  show "c' i = c i" if "i < cg_clustersumoff c + 4 \<or> cg_clustersumoff c + 4 * (fs_contigsumsize fs + 1) \<le> i"
    "i \<noteq> cg_clusteroff c + h div 8" 
    using mo c1o that by (simp add: c' p_def n_def a_def)
  show "ld32 c' (cg_clustersumoff c + 4 * k) =
        ccount (\<lambda>j. if j = h then cnt = 1 else isset c (cg_clusteroff c) j) (cg_nclusterblks c) (fs_contigsumsize fs) k"
    if "k \<in> {1..fs_contigsumsize fs}"
  proof -
    have "ld32 c1 (p + 4 * k) = ld32 c (p + 4 * k)" using that L(3) by (intro c1ld) (simp add: n_def)
    also have "\<dots> = ccount (isset c a) N n k" using counts that by (simp add: clus_counts_def p_def n_def a_def N_def)
    finally have old: "ld32 c1 (p + 4 * k) = ccount (isset c a) N n k" .
    let ?G = "\<lambda>j. if j = h then cnt = 1 else isset c a j"
    let ?d = "of_bool (k = min (b + w + 1) n) - of_bool (0 < b \<and> k = min b n) - of_bool (0 < w \<and> k = min w n)"
    have new: "ccount ?G N n k = ccount (isset c a) N n k + cnt * ?d"
    proof (cases "cnt = 1")
      case True
      have "run_before (isset c a) 0 h b" "run_after (isset c a) N h w"
        using b w c1i by (auto simp: run_before_def run_after_def)
      from ccount_join [OF this, of ?G n k] show ?thesis using True cnt by (auto simp: a_def)
    next
      case False
      have "run_before ?G 0 h b" "run_after ?G N h w"
        using b w c1i by (auto simp: run_before_def run_after_def)
      from ccount_join [OF this, of "isset c a" n k] show ?thesis using False cnt by (auto simp: a_def)
    qed
    have "ld32 m (p + 4 * k) = s32 (ld32 c1 (p + 4 * k) + cnt * (of_bool (k = ix) - of_bool (0 < bk \<and> k = bk) - of_bool (0 < fw \<and> k = fw)))"
      unfolding m_def using that idx L(1) by (intro clus_sums [where n = n]) (simp_all add: n_def)
    also have "of_bool (k = ix) - of_bool (0 < bk \<and> k = bk) - of_bool (0 < fw \<and> k = fw) = ?d"
      using wb L(1) by (auto simp: ix_def fw_def bk_def min_def)
    finally show ?thesis unfolding old new [symmetric] using ccount_s32 [of ?G c n k]
      by (simp add: c' p_def n_def a_def N_def)
  qed
qed

end
