(* ===== verification/Ufs_Count.thy ===== *)
theory Ufs_Count
  imports Ufs_Runs
begin

section \<open>The free space counters of a cylinder group, abstractly\<close>

text \<open>
  A group of \<open>N\<close> blocks of \<open>f\<close> fragments with the set \<open>F\<close> of free fragments. \<open>counts\<close> says
  that \<open>nb\<close> is the number of free blocks, \<open>nf\<close> the number of free fragments in blocks that are
  partly used, and \<open>fr s\<close> the number of maximal runs of \<open>s\<close> free fragments. The lemmas are the
  steps of the allocator on this level: take a block, take the head of a run, break up a block,
  return a block, return fragments.
\<close>

definition blk_full :: "int \<Rightarrow> (int \<Rightarrow> bool) \<Rightarrow> int \<Rightarrow> bool" where
  "blk_full f F h \<longleftrightarrow> (\<forall>i \<in> {h * f..<h * f + f}. F i)"

definition blk_frags :: "int \<Rightarrow> (int \<Rightarrow> bool) \<Rightarrow> int \<Rightarrow> int" where
  "blk_frags f F h = int (card {i \<in> {h * f..<h * f + f}. F i})"

definition counts :: "int \<Rightarrow> int \<Rightarrow> (int \<Rightarrow> bool) \<Rightarrow> int \<Rightarrow> int \<Rightarrow> (int \<Rightarrow> int) \<Rightarrow> bool" where
  "counts f N F nb nf fr \<longleftrightarrow>
     nb = (\<Sum>h \<in> {0..<N}. of_bool (blk_full f F h)) \<and>
     nf = (\<Sum>h \<in> {0..<N}. if blk_full f F h then 0 else blk_frags f F h) \<and>
     (\<forall>s \<in> {1..<f}. fr s = (\<Sum>h \<in> {0..<N}. rcount F (h * f) (h * f + f) s))"

lemma sum_local:
  fixes g g' :: "int \<Rightarrow> int"
  assumes "h \<in> {0..<N}" "\<And>x. x \<in> {0..<N} \<Longrightarrow> x \<noteq> h \<Longrightarrow> g' x = g x"
  shows "(\<Sum>x \<in> {0..<N}. g' x) = (\<Sum>x \<in> {0..<N}. g x) - g h + g' h"
proof -
  have "(\<Sum>x \<in> {0..<N} - {h}. g' x) = (\<Sum>x \<in> {0..<N} - {h}. g x)"
    by (rule sum.cong) (use assms in auto)
  then show ?thesis
    using sum.remove [of "{0..<N}" h g] sum.remove [of "{0..<N}" h g'] assms(1) by simp
qed

text \<open>A change inside block \<open>h\<close> changes the counters by what the block contributes.\<close>

definition outside_eq :: "int \<Rightarrow> (int \<Rightarrow> bool) \<Rightarrow> (int \<Rightarrow> bool) \<Rightarrow> int \<Rightarrow> int \<Rightarrow> bool" where
  "outside_eq f F F' h N \<longleftrightarrow> (\<forall>i. 0 \<le> i \<longrightarrow> i < N * f \<longrightarrow> i \<notin> {h * f..<h * f + f} \<longrightarrow> F' i = F i)"

lemma block_apart:
  assumes "0 < f" "x \<noteq> h" "x * f \<le> i" "i < x * f + f"
  shows "i \<notin> {h * f..<h * f + (f :: int)}"
proof
  assume "i \<in> {h * f..<h * f + f}"
  then have "h * f < (x + 1) * f" "x * f < (h + 1) * f" using assms(3,4) by (auto simp: algebra_simps)
  then have "h < x + 1" "x < h + 1" using assms(1) by (simp_all only: mult_less_cancel_right_pos)
  then show False using assms(2) by simp
qed

lemma block_within:
  assumes "0 < (f :: int)" "x \<in> {0..<N}" "x * f \<le> i" "i < x * f + f"
  shows "0 \<le> i" "i < N * f"
proof -
  have "0 \<le> x * f" using assms by simp
  then show "0 \<le> i" using assms(3) by simp
  have "(x + 1) * f \<le> N * f" using assms by (intro mult_right_mono) auto
  then show "i < N * f" using assms(4) by (simp add: algebra_simps)
qed

lemma block_same:
  assumes "0 < f" "outside_eq f F F' h N" "x \<in> {0..<N}" "x \<noteq> h"
  shows "blk_full f F' x = blk_full f F x" "blk_frags f F' x = blk_frags f F x"
    "1 \<le> s \<Longrightarrow> rcount F' (x * f) (x * f + f) s = rcount F (x * f) (x * f + f) s"
proof -
  have *: "F' i = F i" if "x * f \<le> i" "i < x * f + f" for i
    using assms(2) block_apart [OF assms(1,4) that] block_within [OF assms(1,3) that]
    unfolding outside_eq_def by blast
  show "blk_full f F' x = blk_full f F x" using * by (auto simp: blk_full_def)
  have "{i \<in> {x * f..<x * f + f}. F' i} = {i \<in> {x * f..<x * f + f}. F i}" using * by auto
  then show "blk_frags f F' x = blk_frags f F x" unfolding blk_frags_def by simp
  show "rcount F' (x * f) (x * f + f) s = rcount F (x * f) (x * f + f) s" if "1 \<le> s"
    by (rule rcount_cong) (use * that in auto)
qed

lemma counts_local:
  assumes "0 < f" "0 \<le> h" "h < N" "outside_eq f F F' h N" "counts f N F nb nf fr"
    and "nb' = nb - of_bool (blk_full f F h) + of_bool (blk_full f F' h)"
    and "nf' = nf - (if blk_full f F h then 0 else blk_frags f F h) + (if blk_full f F' h then 0 else blk_frags f F' h)"
    and "\<And>s. s \<in> {1..<f} \<Longrightarrow>
      fr' s = fr s - rcount F (h * f) (h * f + f) s + rcount F' (h * f) (h * f + f) s"
  shows "counts f N F' nb' nf' fr'"
proof -
  have h: "h \<in> {0..<N}" using assms by simp
  note same = block_same [OF assms(1,4)]
  have 1: "(\<Sum>x \<in> {0..<N}. of_bool (blk_full f F' x)) = nb'"
    using sum_local [OF h, of "\<lambda>x. of_bool (blk_full f F' x)" "\<lambda>x. of_bool (blk_full f F x)"] same(1) assms(5,6)
    by (simp add: counts_def)
  have 2: "(\<Sum>x \<in> {0..<N}. if blk_full f F' x then 0 else blk_frags f F' x) = nf'"
    using sum_local [OF h, of "\<lambda>x. if blk_full f F' x then 0 else blk_frags f F' x"
        "\<lambda>x. if blk_full f F x then 0 else blk_frags f F x"] same(1,2) assms(5,7)
    by (simp add: counts_def)
  have 3: "(\<Sum>x \<in> {0..<N}. rcount F' (x * f) (x * f + f) s) = fr' s" if "s \<in> {1..<f}" for s
    using sum_local [OF h, of "\<lambda>x. rcount F' (x * f) (x * f + f) s" "\<lambda>x. rcount F (x * f) (x * f + f) s"]
      same(3) assms(5,8) that by (simp add: counts_def)
  show ?thesis unfolding counts_def using 1 2 3 by simp
qed

lemma rcount_full:
  assumes "blk_full f F h" "1 \<le> s" "s < f"
  shows "rcount F (h * f) (h * f + f) s = 0"
proof -
  have "\<not> mrun F (h * f) (h * f + f) s i" for i
  proof
    assume "mrun F (h * f) (h * f + f) s i"
    note m = mrunD [OF this]
    show False using m(1,2) m(4) m(5) assms by (cases "h * f < i") (auto simp: blk_full_def)
  qed
  then show ?thesis by (simp add: rcount_def)
qed

lemma rcount_none:
  assumes "\<And>i. i \<in> {h * f..<h * f + f} \<Longrightarrow> \<not> F i" "1 \<le> s"
  shows "rcount F (h * f) (h * f + f) s = 0"
proof -
  have "\<not> mrun F (h * f) (h * f + f) s i" for i
    using assms by (auto simp: mrun_def)
  then show ?thesis by (simp add: rcount_def)
qed

lemma blk_frags_none: "(\<And>i. i \<in> {h * f..<h * f + f} \<Longrightarrow> \<not> F i) \<Longrightarrow> blk_frags f F h = 0"
proof -
  assume "\<And>i. i \<in> {h * f..<h * f + f} \<Longrightarrow> \<not> F i"
  then have "{i \<in> {h * f..<h * f + f}. F i} = {}" by blast
  then show ?thesis unfolding blk_frags_def by (simp only: card.empty of_nat_0)
qed

lemma blk_frags_full: "0 \<le> f \<Longrightarrow> blk_full f F h \<Longrightarrow> blk_frags f F h = f"
proof -
  assume "0 \<le> f" "blk_full f F h"
  then have "{i \<in> {h * f..<h * f + f}. F i} = {h * f..<h * f + f}" by (auto simp: blk_full_def)
  then show ?thesis using \<open>0 \<le> f\<close> by (simp add: blk_frags_def)
qed

lemma blk_frags_diff:
  assumes "h * f \<le> p" "p + k \<le> h * f + f" "0 \<le> k" "\<And>j. p \<le> j \<Longrightarrow> j < p + k \<Longrightarrow> F j"
    "\<And>j. h * f \<le> j \<Longrightarrow> j < h * f + f \<Longrightarrow> F' j \<longleftrightarrow> F j \<and> \<not> (p \<le> j \<and> j < p + k)"
  shows "blk_frags f F' h = blk_frags f F h - k"
proof -
  have "{i \<in> {h * f..<h * f + f}. F i} = {i \<in> {h * f..<h * f + f}. F' i} \<union> {p..<p + k}"
    using assms by auto
  moreover have "{i \<in> {h * f..<h * f + f}. F' i} \<inter> {p..<p + k} = {}" using assms by auto
  moreover have "finite {i \<in> {h * f..<h * f + f}. F' i}"
    by (rule finite_subset [of _ "{h * f..<h * f + f}"]) auto
  ultimately have "card {i \<in> {h * f..<h * f + f}. F i} =
      card {i \<in> {h * f..<h * f + f}. F' i} + card {p..<p + k}"
    using card_Un_disjoint [of "{i \<in> {h * f..<h * f + f}. F' i}" "{p..<p + k}"]
    by (simp only: finite_atLeastLessThan_int)
  then show ?thesis using assms(3) by (simp only: blk_frags_def) simp
qed

text \<open>The steps.\<close>

lemma counts_take_block:
  assumes "0 < f" "0 \<le> h" "h < N" "counts f N F nb nf fr" "blk_full f F h"
    "\<And>i. 0 \<le> i \<Longrightarrow> i < N * f \<Longrightarrow> F' i \<longleftrightarrow> F i \<and> \<not> (h * f \<le> i \<and> i < h * f + f)"
  shows "counts f N F' (nb - 1) nf fr"
proof -
  have in': "\<not> F' i" if "i \<in> {h * f..<h * f + f}" for i
    using assms(6) [of i] block_within [of f h N i] assms(1-3) that by auto
  then have nf': "\<not> blk_full f F' h" using assms(1) by (auto simp: blk_full_def)
  show ?thesis
  proof (rule counts_local [OF assms(1-3) _ assms(4)])
    show "outside_eq f F F' h N" using assms(6) by (auto simp: outside_eq_def)
    show "nb - 1 = nb - of_bool (blk_full f F h) + of_bool (blk_full f F' h)" using assms(5) nf' by simp
    show "nf = nf - (if blk_full f F h then 0 else blk_frags f F h) + (if blk_full f F' h then 0 else blk_frags f F' h)"
      using assms(5) nf' blk_frags_none [OF in'] by simp
    show "fr s = fr s - rcount F (h * f) (h * f + f) s + rcount F' (h * f) (h * f + f) s" if "s \<in> {1..<f}" for s
      using that rcount_full [OF assms(5)] rcount_none [OF in'] by simp
  qed
qed

lemma counts_take_run:
  assumes "0 < f" "0 \<le> h" "h < N" "counts f N F nb nf fr"
    "mrun F (h * f) (h * f + f) s p" "s < f" "1 \<le> k" "k \<le> s"
    "\<And>i. 0 \<le> i \<Longrightarrow> i < N * f \<Longrightarrow> F' i \<longleftrightarrow> F i \<and> \<not> (p \<le> i \<and> i < p + k)"
  shows "counts f N F' nb (nf - k) (\<lambda>t. fr t - of_bool (t = s) + of_bool (k < s \<and> t = s - k))"
proof -
  note r = mrunD [OF assms(5)]
  have loc: "F' i \<longleftrightarrow> F i \<and> \<not> (p \<le> i \<and> i < p + k)" if "h * f \<le> i" "i < h * f + f" for i
    using assms(9) [of i] block_within [of f h N i] assms(1-3) that by auto
  have nfl: "\<not> blk_full f F h" using rcount_full [of f F h s] assms(5-8)
    by (auto simp: rcount_def)
  have nfl': "\<not> blk_full f F' h" using loc [of p] r(1,2) assms(6-8) by (auto simp: blk_full_def)
  show ?thesis
  proof (rule counts_local [OF assms(1-3) _ assms(4)])
    show "outside_eq f F F' h N" using assms(9) r(1,2) assms(8) by (auto simp: outside_eq_def)
    show "nb = nb - of_bool (blk_full f F h) + of_bool (blk_full f F' h)" using nfl nfl' by simp
    show "nf - k = nf - (if blk_full f F h then 0 else blk_frags f F h) + (if blk_full f F' h then 0 else blk_frags f F' h)"
      using nfl nfl' blk_frags_diff [of h f p k F F'] r(1-3) assms(7,8) loc by simp
    show "fr t - of_bool (t = s) + of_bool (k < s \<and> t = s - k) =
        fr t - rcount F (h * f) (h * f + f) t + rcount F' (h * f) (h * f + f) t" if "t \<in> {1..<f}" for t
      using rcount_take [OF assms(5,7,8) _ loc, of t] that by simp
  qed
qed

lemma counts_split_block:
  assumes "0 < f" "0 \<le> h" "h < N" "counts f N F nb nf fr" "blk_full f F h" "1 \<le> k" "k < f"
    "\<And>i. 0 \<le> i \<Longrightarrow> i < N * f \<Longrightarrow> F' i \<longleftrightarrow> F i \<and> \<not> (h * f \<le> i \<and> i < h * f + k)"
  shows "counts f N F' (nb - 1) (nf + (f - k)) (\<lambda>t. fr t + of_bool (t = f - k))"
proof -
  have loc: "F' i \<longleftrightarrow> F i \<and> \<not> (h * f \<le> i \<and> i < h * f + k)" if "h * f \<le> i" "i < h * f + f" for i
    using assms(8) [of i] block_within [of f h N i] assms(1-3) that by auto
  have nfl': "\<not> blk_full f F' h" using loc [of "h * f"] assms(1,6,7) by (auto simp: blk_full_def)
  have run: "mrun F (h * f) (h * f + f) f (h * f)" using assms(5) by (auto simp: mrun_def blk_full_def)
  show ?thesis
  proof (rule counts_local [OF assms(1-3) _ assms(4)])
    show "outside_eq f F F' h N" using assms by (auto simp: outside_eq_def)
    show "nb - 1 = nb - of_bool (blk_full f F h) + of_bool (blk_full f F' h)" using assms(5) nfl' by simp
    show "nf + (f - k) = nf - (if blk_full f F h then 0 else blk_frags f F h) + (if blk_full f F' h then 0 else blk_frags f F' h)"
      using assms(1,5,6,7) nfl' blk_frags_diff [of h f "h * f" k F F'] blk_frags_full [of f F h] loc
      by (auto simp: blk_full_def)
    show "fr t + of_bool (t = f - k) =
        fr t - rcount F (h * f) (h * f + f) t + rcount F' (h * f) (h * f + f) t" if "t \<in> {1..<f}" for t
      using rcount_take [OF run assms(6) _ _ loc, of t] rcount_full [OF assms(5), of t] assms(6,7) that by auto
  qed
qed

lemma counts_add_block:
  assumes "0 < f" "0 \<le> h" "h < N" "counts f N F nb nf fr" "\<And>i. i \<in> {h * f..<h * f + f} \<Longrightarrow> \<not> F i"
    "\<And>i. 0 \<le> i \<Longrightarrow> i < N * f \<Longrightarrow> F' i \<longleftrightarrow> F i \<or> h * f \<le> i \<and> i < h * f + f"
  shows "counts f N F' (nb + 1) nf fr"
proof -
  have full': "blk_full f F' h" using assms(6) block_within [of f h N] assms(1-3) by (auto simp: blk_full_def)
  have nfull: "\<not> blk_full f F h" using assms(1,5) by (auto simp: blk_full_def)
  show ?thesis
  proof (rule counts_local [OF assms(1-3) _ assms(4)])
    show "outside_eq f F F' h N" using assms(6) by (auto simp: outside_eq_def)
    show "nb + 1 = nb - of_bool (blk_full f F h) + of_bool (blk_full f F' h)" using nfull full' by simp
    show "nf = nf - (if blk_full f F h then 0 else blk_frags f F h) + (if blk_full f F' h then 0 else blk_frags f F' h)"
      using nfull full' blk_frags_none [OF assms(5)] by simp
    show "fr s = fr s - rcount F (h * f) (h * f + f) s + rcount F' (h * f) (h * f + f) s" if "s \<in> {1..<f}" for s
      using that rcount_full [OF full'] rcount_none [OF assms(5)] by simp
  qed
qed

lemma counts_add_frags:
  assumes "0 < f" "0 \<le> h" "h < N" "counts f N F nb nf fr" "h * f \<le> p" "p + k \<le> h * f + f" "1 \<le> k"
    "\<And>i. p \<le> i \<Longrightarrow> i < p + k \<Longrightarrow> \<not> F i"
    "\<And>i. 0 \<le> i \<Longrightarrow> i < N * f \<Longrightarrow> F' i \<longleftrightarrow> F i \<or> p \<le> i \<and> i < p + k"
    "\<And>s. s \<in> {1..<f} \<Longrightarrow>
       fr' s = fr s - rcount F (h * f) (h * f + f) s + rcount F' (h * f) (h * f + f) s"
  shows "counts f N F' (nb + of_bool (blk_full f F' h)) (nf + k - (if blk_full f F' h then f else 0)) fr'"
proof -
  have loc: "F' i \<longleftrightarrow> F i \<or> p \<le> i \<and> i < p + k" if "h * f \<le> i" "i < h * f + f" for i
    using assms(9) [of i] block_within [of f h N i] assms(1-3) that by auto
  have nfull: "\<not> blk_full f F h" using assms(5-8) by (force simp: blk_full_def)
  have k: "blk_frags f F h = blk_frags f F' h - k"
    by (rule blk_frags_diff) (use assms(5-8) loc in auto)
  show ?thesis
  proof (rule counts_local [OF assms(1-3) _ assms(4)])
    show "outside_eq f F F' h N" using assms(5,6,9) by (auto simp: outside_eq_def)
    show "nf + k - (if blk_full f F' h then f else 0) =
      nf - (if blk_full f F h then 0 else blk_frags f F h) + (if blk_full f F' h then 0 else blk_frags f F' h)"
      using nfull k blk_frags_full [of f F' h] assms(1) by auto
  qed (use nfull assms(10) in auto)
qed

lemma counts_bounds:
  assumes "counts f N F nb nf fr" "0 < f" "0 \<le> N"
  shows "0 \<le> nb" "nb \<le> N" "0 \<le> nf" "nf \<le> N * f"
proof -
  have "nb \<le> (\<Sum>h \<in> {0..<N}. 1)" unfolding counts_def using assms(1)
    by (simp only: counts_def) (rule sum_mono, simp)
  then show "nb \<le> N" using assms(3) by simp
  have "(if blk_full f F h then 0 else blk_frags f F h) \<le> f" for h
  proof -
    have "card {i \<in> {h * f..<h * f + f}. F i} \<le> card {h * f..<h * f + f}" by (rule card_mono) auto
    then have "blk_frags f F h \<le> f" using assms(2) unfolding blk_frags_def card_atLeastLessThan_int by linarith
    then show ?thesis using assms(2) by simp
  qed
  then have "nf \<le> (\<Sum>h \<in> {0..<N}. f)" using assms(1)
    by (simp only: counts_def) (rule sum_mono, simp)
  then show "nf \<le> N * f" using assms(3) by simp
qed (use assms(1) in \<open>auto simp: counts_def blk_frags_def intro!: sum_nonneg\<close>)

lemma blk_full_cong: "(\<And>i. h * f \<le> i \<Longrightarrow> i < h * f + f \<Longrightarrow> F i = G i) \<Longrightarrow> blk_full f F h = blk_full f G h"
  by (auto simp: blk_full_def)

lemma counts_cong:
  assumes "0 < f" "\<And>i. 0 \<le> i \<Longrightarrow> i < N * f \<Longrightarrow> F i = G i" "counts f N F nb nf fr" 
    "nb' = nb" "nf' = nf" "\<And>s. s \<in> {1..<f} \<Longrightarrow> fr' s = fr s"
  shows "counts f N G nb' nf' fr'"
proof -
  have *: "blk_full f G h = blk_full f F h \<and> blk_frags f G h = blk_frags f F h \<and>
      (\<forall>s \<in> {1..<f}. rcount G (h * f) (h * f + f) s = rcount F (h * f) (h * f + f) s)" if "h \<in> {0..<N}" for h
    using block_same [OF assms(1), of F G "-1" N h] that assms(2) by (simp add: outside_eq_def)
  have "(\<Sum>h \<in> {0..<N}. if blk_full f G h then 0 else blk_frags f G h) =
      (\<Sum>h \<in> {0..<N}. if blk_full f F h then 0 else blk_frags f F h)" by (rule sum.cong) (use * in auto)
  moreover have "(\<Sum>h \<in> {0..<N}. of_bool (blk_full f G h) :: int) = (\<Sum>h \<in> {0..<N}. of_bool (blk_full f F h))"
    by (rule sum.cong) (use * in auto)
  moreover have "(\<Sum>h \<in> {0..<N}. rcount G (h * f) (h * f + f) s) = (\<Sum>h \<in> {0..<N}. rcount F (h * f) (h * f + f) s)"
    if "s \<in> {1..<f}" for s by (rule sum.cong) (use * that in auto)
  ultimately show ?thesis using assms(3-6) by (simp only: counts_def) simp
qed

lemma ex_full_block:
  assumes "counts f N F nb nf fr" "0 < nb"
  shows "\<exists>h. 0 \<le> h \<and> h < N \<and> blk_full f F h"
proof (rule ccontr)
  assume "\<not> ?thesis"
  then have "(\<Sum>h \<in> {0..<N}. of_bool (blk_full f F h) :: int) = 0" by (intro sum.neutral) auto
  then show False using assms by (simp add: counts_def)
qed

lemma rcount_bounds: "0 \<le> rcount F lo hi s" "1 \<le> s \<Longrightarrow> lo \<le> hi \<Longrightarrow> rcount F lo hi s \<le> hi - lo"
proof -
  have "card {i. mrun F lo hi s i} \<le> card {lo..<hi}" if "1 \<le> s"
    by (rule card_mono) (use that in \<open>auto simp: mrun_def\<close>)
  then show "1 \<le> s \<Longrightarrow> lo \<le> hi \<Longrightarrow> rcount F lo hi s \<le> hi - lo" by (simp add: rcount_def)
qed (simp add: rcount_def)

lemma counts_fr_bounds:
  assumes "counts f N F nb nf fr" "s \<in> {1..<f}" "0 \<le> N"
  shows "0 \<le> fr s" "fr s \<le> N * f"
proof -
  have e: "fr s = (\<Sum>h \<in> {0..<N}. rcount F (h * f) (h * f + f) s)" using assms by (simp add: counts_def)
  show "0 \<le> fr s" unfolding e by (rule sum_nonneg) (simp add: rcount_bounds)
  have "fr s \<le> (\<Sum>h \<in> {0..<N}. f)" unfolding e
  proof (rule sum_mono)
    show "rcount F (h * f) (h * f + f) s \<le> f" for h
      using rcount_bounds(2) [of s "h * f" "h * f + f" F] assms(2) by simp
  qed
  then show "fr s \<le> N * f" using assms(3) by simp
qed

lemma ex_run:
  assumes "counts f N F nb nf fr" "s \<in> {1..<f}" "fr s \<noteq> 0"
  shows "\<exists>h i. 0 \<le> h \<and> h < N \<and> mrun F (h * f) (h * f + f) s i"
proof (rule ccontr)
  assume "\<not> ?thesis"
  then have "rcount F (h * f) (h * f + f) s = 0" if "h \<in> {0..<N}" for h
    using that by (auto simp: rcount_def)
  then have "(\<Sum>h \<in> {0..<N}. rcount F (h * f) (h * f + f) s) = 0" by (intro sum.neutral) auto
  then show False using assms by (simp add: counts_def)
qed

end
