(* ===== verification/Ufs_Group.thy ===== *)
theory Ufs_Group
  imports Ufs_Alloc Ufs_Cluster Ufs_Count
begin

section \<open>A consistent cylinder group\<close>

text \<open>
  \<open>group_ok fs c\<close> says that the buffer \<open>c\<close> holds a consistent cylinder group: its maps lie
  behind the header and do not overlap, the rotors are in range, the counters of the header
  count the free fragment map (\<open>counts\<close>), and the cluster map and summary describe the free
  blocks (\<open>group_clus\<close>). The lemmas of this theory: which bytes each of these looks at, what
  taking one block does (\<open>alloccgblk_gotit\<close>, \<open>ufs_alloccgblk\<close>), and the loops over single
  fragments.
\<close>

abbreviation frees :: "mem \<Rightarrow> int \<Rightarrow> bool" where
  "frees c \<equiv> isset c (cg_freeoff c)"

abbreviation nblocks :: "fs \<Rightarrow> int" where
  "nblocks fs \<equiv> fs_fpg fs div fs_frag fs"

definition group_clus :: "fs \<Rightarrow> mem \<Rightarrow> (int \<Rightarrow> bool) \<Rightarrow> bool" where
  "group_clus fs c F \<longleftrightarrow> (0 < fs_contigsumsize fs \<longrightarrow>
     clus_layout fs c \<and> clus_counts fs c \<and> cg_freeoff c + fs_fpg fs div 8 \<le> cg_clustersumoff c + 4 \<and>
     0 \<le> cg_nclusterblks c \<and> cg_nclusterblks c \<le> nblocks fs \<and>
     cg_clusteroff c + (cg_nclusterblks c + 7) div 8 \<le> fs_cgsize fs \<and>
     (\<forall>h \<in> {0..<nblocks fs}. blk_full (fs_frag fs) F h \<longleftrightarrow> h < cg_nclusterblks c \<and> isset c (cg_clusteroff c) h))"

definition group_ok :: "fs \<Rightarrow> mem \<Rightarrow> bool" where
  "group_ok fs c \<longleftrightarrow>
     168 \<le> cg_freeoff c \<and> cg_freeoff c + fs_fpg fs div 8 \<le> fs_cgsize fs \<and> fs_fpg fs < 2 ^ 31 \<and>
     0 \<le> cg_rotor c \<and> cg_rotor c < fs_fpg fs \<and> 0 \<le> cg_frotor c \<and> cg_frotor c < fs_fpg fs \<and>
     counts (fs_frag fs) (nblocks fs) (frees c) (cg_nbfree c) (cg_nffree c) (cg_frsum c) \<and>
     group_clus fs c (frees c)"

lemma cg_get_cong:
  assumes "\<forall>i \<in> {92..<124}. c' i = c i"
  shows "cg_iusedoff c' = cg_iusedoff c" "cg_freeoff c' = cg_freeoff c" "cg_clustersumoff c' = cg_clustersumoff c"
    "cg_clusteroff c' = cg_clusteroff c" "cg_nclusterblks c' = cg_nclusterblks c" "cg_niblk c' = cg_niblk c"
    "cg_initediblk c' = cg_initediblk c"
  unfolding cg_get_defs by (intro ld_cong; simp add: assms)+

lemma isset_cong_from:
  assumes "\<And>i. a \<le> i \<Longrightarrow> i < a + n div 8 \<Longrightarrow> c' i = c i" "0 \<le> i" "i < n" "n mod 8 = 0"
  shows "isset c' a i = isset c a i"
proof (rule isset_cong)
  have "0 \<le> i div 8" "i div 8 < n div 8" using assms(2-4) by auto
  then show "c' (a + i div 8) = c (a + i div 8)" by (intro assms(1)) auto
qed

text \<open>The cluster part looks at the offsets in the header and at what follows the fragment map.\<close>

lemma group_clus_cong:
  assumes "group_clus fs c F"
    "\<And>i. 92 \<le> i \<Longrightarrow> i < 124 \<Longrightarrow> c' i = c i" "\<And>i. cg_freeoff c + fs_fpg fs div 8 \<le> i \<Longrightarrow> c' i = c i"
  shows "group_clus fs c' F"
proof (cases "0 < fs_contigsumsize fs")
  case True
  define a where "a = cg_clusteroff c"
  have g: "clus_layout fs c" "clus_counts fs c" "cg_freeoff c + fs_fpg fs div 8 \<le> cg_clustersumoff c + 4"
    using assms(1) True by (simp_all add: group_clus_def)
  have "\<forall>i \<in> {92..<124}. c' i = c i" using assms(2) by simp
  note hd = cg_get_cong [OF this]
  have lay: "cg_clustersumoff c + 4 \<le> a" using g(1) by (simp add: clus_layout_def a_def)
  have bits: "isset c' a j = isset c a j" if "0 \<le> j" for j
  proof (rule isset_cong, rule assms(3))
    have "0 \<le> j div 8" using that by simp
    then show "cg_freeoff c + fs_fpg fs div 8 \<le> a + j div 8" using g(3) lay by linarith
  qed
  have sums: "ld32 c' (cg_clustersumoff c + 4 * k) = ld32 c (cg_clustersumoff c + 4 * k)" if "1 \<le> k" for k
    by (rule ld_cong) (use assms(3) g(3) that in auto)
  have cc: "ccount (isset c' a) x n k = ccount (isset c a) x n k" for x n k
    by (rule ccount_cong) (rule bits)
  show ?thesis
    using assms(1) True bits sums cc unfolding group_clus_def clus_layout_def clus_counts_def hd a_def by simp
qed (simp add: group_clus_def)

lemma frag_blocks:
  assumes "fs_ok fs"
  shows "0 < fs_frag fs" "nblocks fs * fs_frag fs = fs_fpg fs" "0 < nblocks fs" "nblocks fs \<le> fs_fpg fs" 
proof -
  show f: "0 < fs_frag fs" using fs_ok_pos(3) [OF assms] .
  show e: "nblocks fs * fs_frag fs = fs_fpg fs" using fs_okD(16) [OF assms] by (simp add: dvd_eq_mod_eq_0 [symmetric])
  have "0 < fs_fpg fs" using fs_okD(15) [OF assms] .
  then show p: "0 < nblocks fs" using e f by (metis zero_less_mult_pos2)
  show "nblocks fs \<le> fs_fpg fs" using mult_left_mono [of 1 "fs_frag fs" "nblocks fs"] e f p by simp
qed

text \<open>One step of the cluster accounting, when the fullness of one block changes.\<close>

lemma group_clus_step:
  assumes gc: "group_clus fs c F" and fo: "168 \<le> cg_freeoff c" "0 \<le> fs_fpg fs"
    and h: "0 \<le> h" "h < nblocks fs"
    and cnt: "cnt = - 1 \<and> blk_full (fs_frag fs) F h \<and> \<not> blk_full (fs_frag fs) F' h \<or>
      cnt = 1 \<and> \<not> blk_full (fs_frag fs) F h \<and> blk_full (fs_frag fs) F' h \<and>
      (0 < fs_contigsumsize fs \<longrightarrow> h < cg_nclusterblks c)"
    and same: "\<And>x. x \<in> {0..<nblocks fs} \<Longrightarrow> x \<noteq> h \<Longrightarrow> blk_full (fs_frag fs) F' x = blk_full (fs_frag fs) F x"
    and eq: "ffs_clusteracct fs c h cnt = (fs', c')"
  shows "group_clus fs c' F'" "\<And>i. i < cg_freeoff c + fs_fpg fs div 8 \<Longrightarrow> c' i = c i"
    "\<exists>mc. fs' = fs\<lparr>fs_maxcluster := mc\<rparr>"
proof -
  have "group_clus fs c' F' \<and> (\<forall>i. i < cg_freeoff c + fs_fpg fs div 8 \<longrightarrow> c' i = c i) \<and>
    (\<exists>mc. fs' = fs\<lparr>fs_maxcluster := mc\<rparr>)"
  proof (cases "0 < fs_contigsumsize fs")
    case False
    then have "fs' = fs\<lparr>fs_maxcluster := fs_maxcluster fs\<rparr> \<and> c' = c" using eq by (simp add: ffs_clusteracct_def)
    then show ?thesis using False by (auto simp: group_clus_def intro!: exI [of _ "fs_maxcluster fs"])
  next
    case True
    have g: "clus_layout fs c" "clus_counts fs c" "cg_freeoff c + fs_fpg fs div 8 \<le> cg_clustersumoff c + 4"
      "cg_nclusterblks c \<le> nblocks fs"
      "\<And>x. x \<in> {0..<nblocks fs} \<Longrightarrow> blk_full (fs_frag fs) F x \<longleftrightarrow> x < cg_nclusterblks c \<and> isset c (cg_clusteroff c) x"
      using gc True by (simp_all add: group_clus_def)
    have hn: "h < cg_nclusterblks c" and
      cb: "cnt = 1 \<and> \<not> isset c (cg_clusteroff c) h \<or> cnt = - 1 \<and> isset c (cg_clusteroff c) h"
      using cnt g(5) [of h] h True by auto
    note sp = clusteracct_set [OF g(1) h(1) hn cb g(2) eq]
    have lay: "cg_clustersumoff c + 4 \<le> cg_clusteroff c" using g(1) by (simp add: clus_layout_def)
    have fr: "c' i = c i" if "i < cg_freeoff c + fs_fpg fs div 8" for i
    proof (rule sp(3))
      have "0 \<le> h div 8" using h(1) by simp
      then show "i \<noteq> cg_clusteroff c + h div 8" using that g(3) lay by linarith
    qed (use that g(3) in linarith)
    have "0 \<le> fs_fpg fs div 8" using fo(2) by simp
    then have "\<forall>i \<in> {92..<124}. c' i = c i" using fr fo(1) by simp
    note hd' = cg_get_cong [OF this]
    have bits: "isset c' (cg_clusteroff c) x = (if x = h then cnt = 1 else isset c (cg_clusteroff c) x)" if "0 \<le> x" for x
      using sp(1) [OF that] .
    have cc: "ccount (isset c' (cg_clusteroff c)) (cg_nclusterblks c) (fs_contigsumsize fs) k =
      ccount (\<lambda>j. if j = h then cnt = 1 else isset c (cg_clusteroff c) j) (cg_nclusterblks c) (fs_contigsumsize fs) k" for k
      by (rule ccount_cong) (rule bits)
    have "blk_full (fs_frag fs) F' x \<longleftrightarrow> x < cg_nclusterblks c \<and> isset c' (cg_clusteroff c) x"
      if "x \<in> {0..<nblocks fs}" for x
      using that cnt same [OF that] g(5) [OF that] bits [of x] hn by (cases "x = h") auto
    then have "group_clus fs c' F'"
      using gc True sp(2) cc unfolding group_clus_def clus_layout_def clus_counts_def hd' by auto
    then show ?thesis using fr sp(4) by blast
  qed
  then show "group_clus fs c' F'" "\<And>i. i < cg_freeoff c + fs_fpg fs div 8 \<Longrightarrow> c' i = c i"
    "\<exists>mc. fs' = fs\<lparr>fs_maxcluster := mc\<rparr>" by blast+
qed

lemma map_byte:
  assumes "fs_ok fs" "0 \<le> i" "i < fs_fpg fs"
  shows "0 \<le> i div 8" "i div 8 < fs_fpg fs div 8"
  using assms fs_okD(17) [OF assms(1)] by auto

lemma group_okD:
  assumes "group_ok fs c"
  shows "168 \<le> cg_freeoff c" "cg_freeoff c + fs_fpg fs div 8 \<le> fs_cgsize fs" "fs_fpg fs < 2 ^ 31"
    "0 \<le> cg_rotor c" "cg_rotor c < fs_fpg fs" "0 \<le> cg_frotor c" "cg_frotor c < fs_fpg fs"
    "counts (fs_frag fs) (nblocks fs) (frees c) (cg_nbfree c) (cg_nffree c) (cg_frsum c)"
    "group_clus fs c (frees c)"
  using assms by (simp_all add: group_ok_def)

lemma group_clus_map:
  assumes "fs_ok fs" "group_clus fs c F" "\<And>i. 0 \<le> i \<Longrightarrow> i < fs_fpg fs \<Longrightarrow> F i = G i"
  shows "group_clus fs c G"
proof -
  have "blk_full (fs_frag fs) F h = blk_full (fs_frag fs) G h" if "h \<in> {0..<nblocks fs}" for h
    by (rule blk_full_cong, rule assms(3))
      (use block_within [OF frag_blocks(1) [OF assms(1)] that] frag_blocks(2) [OF assms(1)] in auto)
  then show ?thesis using assms(2) by (simp add: group_clus_def)
qed

lemma blk_range: "0 < f \<Longrightarrow> i div f = h \<longleftrightarrow> h * f \<le> i \<and> i < h * f + (f :: int)"
  using block_range [of f i h] by (simp add: mult.commute)

lemma block_start:
  assumes "fs_ok fs" "0 \<le> h" "h < nblocks fs"
  shows "0 \<le> h * fs_frag fs" "h * fs_frag fs + fs_frag fs \<le> fs_fpg fs" "h * fs_frag fs < fs_fpg fs"
proof -
  note f = frag_blocks [OF assms(1)]
  show "0 \<le> h * fs_frag fs" using f(1) assms(2) by simp
  have "(h + 1) * fs_frag fs \<le> nblocks fs * fs_frag fs" using f(1) assms(3) by (intro mult_right_mono) auto
  then show "h * fs_frag fs + fs_frag fs \<le> fs_fpg fs" unfolding f(2) by (simp add: algebra_simps)
  then show "h * fs_frag fs < fs_fpg fs" using f(1) by simp
qed

lemma clrblock_other:
  assumes "fs_ok fs" "0 \<le> h" "h < nblocks fs" "x < a \<or> a + fs_fpg fs div 8 \<le> x"
  shows "ffs_clrblock fs c a h x = c x"
proof -
  have "a \<le> a + fs_frag fs * h div 8" "a + fs_frag fs * h div 8 < a + fs_fpg fs div 8"
    using map_byte [OF assms(1) block_start(1,3) [OF assms(1-3)]] by (auto simp: mult.commute)
  then show ?thesis using assms(4) by (auto simp: ffs_clrblock_eq [OF frag_valid_ok [OF assms(1)]])
qed

lemma setblock_other:
  assumes "fs_ok fs" "0 \<le> h" "h < nblocks fs" "ffs_setblock fs c a h = Some c'" "x < a \<or> a + fs_fpg fs div 8 \<le> x"
  shows "c' x = c x"
proof -
  have "a \<le> a + fs_frag fs * h div 8" "a + fs_frag fs * h div 8 < a + fs_fpg fs div 8"
    using map_byte [OF assms(1) block_start(1,3) [OF assms(1-3)]] by (auto simp: mult.commute)
  then show ?thesis using assms(4,5) by (auto simp: ffs_setblock_eq [OF frag_valid_ok [OF assms(1)]])
qed

text \<open>A group stays consistent when the header words other than the counters stay and the counters match.\<close>

lemma group_okI:
  assumes "fs_ok fs" "group_ok fs c" "\<forall>i \<in> {92..<124}. c' i = c i"
    "\<And>i. 0 \<le> i \<Longrightarrow> i < fs_fpg fs \<Longrightarrow> frees c' i = F i"
    "counts (fs_frag fs) (nblocks fs) F (cg_nbfree c') (cg_nffree c') (cg_frsum c')"
    "group_clus fs c' F" "0 \<le> cg_rotor c'" "cg_rotor c' < fs_fpg fs" "0 \<le> cg_frotor c'" "cg_frotor c' < fs_fpg fs"
  shows "group_ok fs c'"
proof -
  have "counts (fs_frag fs) (nblocks fs) (frees c') (cg_nbfree c') (cg_nffree c') (cg_frsum c')"
    by (rule counts_cong [OF frag_blocks(1) [OF assms(1)] _ assms(5)])
      (use assms(4) frag_blocks(2) [OF assms(1)] in auto)
  moreover have "group_clus fs c' (frees c')"
    by (rule group_clus_map [OF assms(1,6)]) (use assms(4) in auto)
  ultimately show ?thesis
    using group_okD(1-3) [OF assms(2)] assms(7-10) cg_get_cong(2) [OF assms(3)] by (simp add: group_ok_def)
qed

lemma hdr_ld32:
  assumes "\<And>i. P i \<Longrightarrow> c' i = c i" "\<And>i. a \<le> i \<Longrightarrow> i < a + 4 \<Longrightarrow> P i"
  shows "ld32 c' a = ld32 c a"
  by (rule ld_cong) (use assms in blast)

lemma gotit_ok:
  assumes ok: "fs_ok fs" "group_ok fs c" and h: "0 \<le> h" "h < nblocks fs" "blk_full (fs_frag fs) (frees c) h"
    and eq: "alloccgblk_gotit fs c (h * fs_frag fs) = (r, fs', c')"
  shows "r = cgbase fs (cg_cgx c) + h * fs_frag fs"
    "\<exists>mc. fs' = (add_nbfree (cg_cgx c) (- 1) (fs\<lparr>fs_maxcluster := mc\<rparr>))\<lparr>fs_fmod := 1\<rparr>"
    "\<And>i. i < cg_freeoff c \<Longrightarrow> i < 28 \<or> 32 \<le> i \<Longrightarrow> c' i = c i"
    "\<And>i. 0 \<le> i \<Longrightarrow> i < fs_fpg fs \<Longrightarrow> frees c' i \<longleftrightarrow> frees c i \<and> i div fs_frag fs \<noteq> h"
    "cg_nbfree c' = cg_nbfree c - 1"
    "group_clus fs c' (\<lambda>i. frees c i \<and> i div fs_frag fs \<noteq> h)"
proof -
  define a where "a = cg_freeoff c"
  define F' where "F' = (\<lambda>i. frees c i \<and> i div fs_frag fs \<noteq> h)"
  note g = group_okD [OF ok(2)] and f = frag_blocks [OF ok(1)]
  have fb: "fragstoblks fs (h * fs_frag fs) = h" using f(1) by (simp add: macro_div_mod(3) [OF ok(1)])
  have fpg8: "0 \<le> fs_fpg fs div 8" using fs_okD(15) [OF ok(1)] by simp
  define c1 where "c1 = ffs_clrblock fs c a h"
  have c1o: "c1 x = c x" if "x < a \<or> a + fs_fpg fs div 8 \<le> x" for x
    unfolding c1_def by (rule clrblock_other [OF ok(1) h(1,2) that])
  have c1h: "\<forall>i \<in> {92..<124}. c1 i = c i" using g(1) by (auto intro!: c1o simp: a_def)
  have "isset c1 a i \<longleftrightarrow> F' i" for i
    unfolding c1_def F'_def a_def by (subst isset_clrblock [OF frag_valid_ok [OF ok(1)]]) auto
  note c1i = this
  have fo1: "cg_freeoff c1 = a" using cg_get_cong(2) [OF c1h] by (simp add: a_def)
  have gc1: "group_clus fs c1 (frees c)" by (rule group_clus_cong [OF g(9)]) (use c1h c1o a_def in auto)
  have bf: "blk_full (fs_frag fs) F' x = (x \<noteq> h \<and> blk_full (fs_frag fs) (frees c) x)" for x
    using f(1) block_apart [of "fs_frag fs" x h]
    by (auto simp: blk_full_def F'_def blk_range intro!: bexI [of _ "h * fs_frag fs"])
  obtain fs1 c2 where cl: "ffs_clusteracct fs c1 h (- 1) = (fs1, c2)" by (metis surj_pair)
  have st: "group_clus fs c2 F'" "\<And>i. i < a + fs_fpg fs div 8 \<Longrightarrow> c2 i = c1 i" "\<exists>mc. fs1 = fs\<lparr>fs_maxcluster := mc\<rparr>"
    using group_clus_step [OF gc1 _ _ h(1,2) _ _ cl, of F', unfolded fo1] g(1) bf h(3) fs_okD(15) [OF ok(1)]
    by (simp_all add: a_def)
  have cgx: "cg_cgx (set_nbfree c2 v) = cg_cgx c" for v
  proof -
    have "cg_cgx c2 = cg_cgx c1" unfolding cg_cgx_def using st(2) g(1) fpg8 by (intro ld_cong) (auto simp: a_def)
    also have "\<dots> = cg_cgx c" unfolding cg_cgx_def using c1o g(1) by (intro ld_cong) (auto simp: a_def)
    finally show ?thesis by (simp add: cg_defs mem_simps)
  qed
  obtain mc where mc: "fs1 = fs\<lparr>fs_maxcluster := mc\<rparr>" using st(3) by blast
  have res: "r = cgbase fs1 (cg_cgx c) + h * fs_frag fs" "c' = set_nbfree c2 (cg_nbfree c2 - 1)"
     "fs' = (add_nbfree (cg_cgx c) (- 1) fs1)\<lparr>fs_fmod := 1\<rparr>"
    using eq unfolding alloccgblk_gotit_def Let_def fb a_def [symmetric] c1_def [symmetric] cl
    by (auto simp: cgx cgbase_def add_nbfree_def)
  show "r = cgbase fs (cg_cgx c) + h * fs_frag fs" using res(1) mc by (simp add: cgbase_def)
  show "\<exists>mc. fs' = (add_nbfree (cg_cgx c) (- 1) (fs\<lparr>fs_maxcluster := mc\<rparr>))\<lparr>fs_fmod := 1\<rparr>"
    using res(3) mc by blast
  show fr: "c' i = c i" if "i < cg_freeoff c" "i < 28 \<or> 32 \<le> i" for i
    using st(2) [of i] c1o [of i] that fpg8 by (auto simp: res(2) set_nbfree_def mem_simps a_def)
  have hd: "\<forall>i \<in> {92..<124}. c' i = c i" using fr g(1) by auto
  have c2c: "c' i = c1 i" if "a \<le> i" "i < a + fs_fpg fs div 8" for i
    using st(2) [OF that(2)] that g(1) by (simp add: res(2) set_nbfree_def mem_simps a_def)
  show "frees c' i \<longleftrightarrow> frees c i \<and> i div fs_frag fs \<noteq> h" if "0 \<le> i" "i < fs_fpg fs" for i
    using isset_cong_from [of a "fs_fpg fs" c' c1 i, OF c2c that] c1i [of i] fs_okD(17) [OF ok(1)] cg_get_cong(2) [OF hd]
    by (simp add: F'_def a_def)
  have "cg_nbfree c2 = cg_nbfree c1" unfolding cg_nbfree_def using st(2) g(1) fpg8 by (intro ld_cong) (auto simp: a_def)
  also have "\<dots> = cg_nbfree c" unfolding cg_nbfree_def using c1o g(1) by (intro ld_cong) (auto simp: a_def)
  finally have "cg_nbfree c' = s32 (cg_nbfree c - 1)" by (simp add: res(2) cg_defs mem_simps)
  moreover have "counts (fs_frag fs) (nblocks fs) F' (cg_nbfree c - 1) (cg_nffree c) (cg_frsum c)"
    by (rule counts_take_block [OF f(1) h(1,2) g(8) h(3)]) (use f(1) in \<open>auto simp: F'_def blk_range\<close>)
  ultimately show "cg_nbfree c' = cg_nbfree c - 1"
    using counts_bounds(1,2) [of "fs_frag fs" "nblocks fs" F' "cg_nbfree c - 1" "cg_nffree c" "cg_frsum c"]
      s32_id [of "cg_nbfree c - 1"] f g(3) by linarith
  show "group_clus fs c' (\<lambda>i. frees c i \<and> i div fs_frag fs \<noteq> h)"
    unfolding F'_def [symmetric]
  proof (rule group_clus_cong [OF st(1)])
    have "cg_freeoff c2 = cg_freeoff c'" unfolding res(2) by (simp add: cg_defs mem_simps)
    then show "c' i = c2 i" if "cg_freeoff c2 + fs_fpg fs div 8 \<le> i" for i
      using that g(1) cg_get_cong(2) [OF hd] fpg8 by (simp add: res(2) set_nbfree_def mem_simps)
  qed (simp add: res(2) set_nbfree_def mem_simps)
qed

text \<open>Neither the time stamps nor the rotors matter for the counters.\<close>

definition misc_byte :: "int \<Rightarrow> bool" where
  "misc_byte i \<longleftrightarrow> 8 \<le> i \<and> i < 12 \<or> 40 \<le> i \<and> i < 48 \<or> 136 \<le> i \<and> i < 144"

lemma misc_same:
  assumes "\<forall>i. \<not> misc_byte i \<longrightarrow> c' i = c i"
  shows "cg_freeoff c' = cg_freeoff c" "cg_nbfree c' = cg_nbfree c" "cg_nffree c' = cg_nffree c"
    "cg_cgx c' = cg_cgx c" "cg_magic c' = cg_magic c" "-1 < s \<Longrightarrow> s < 9 \<Longrightarrow> cg_frsum c' s = cg_frsum c s"
    "\<forall>i \<in> {92..<124}. c' i = c i" "cg_iusedoff c' = cg_iusedoff c"
  unfolding cg_get_defs by ((intro ld_cong)?; (simp add: assms misc_byte_def)?)+

lemma group_ok_misc:
  assumes "fs_ok fs" "group_ok fs c" "\<forall>i. \<not> misc_byte i \<longrightarrow> c' i = c i"
    "0 \<le> cg_rotor c'" "cg_rotor c' < fs_fpg fs" "0 \<le> cg_frotor c'" "cg_frotor c' < fs_fpg fs"
  shows "group_ok fs c'" "\<And>i. 0 \<le> i \<Longrightarrow> frees c' i = frees c i"
proof -
  note g = group_okD [OF assms(2)] and m = misc_same [OF assms(3)]
  show fr: "frees c' i = frees c i" if "0 \<le> i" for i
  proof -
    have "0 \<le> i div 8" using that by simp
    then have "\<not> misc_byte (cg_freeoff c + i div 8)" using g(1) by (auto simp: misc_byte_def)
    then show ?thesis unfolding m(1) using assms(3) by (intro isset_cong) blast
  qed
  have s: "cg_frsum c' s = cg_frsum c s" if "s \<in> {1..<fs_frag fs}" for s
    using m(6) [of s] that fs_okD(5) [OF assms(1)] by auto
  have cn: "counts (fs_frag fs) (nblocks fs) (frees c) (cg_nbfree c') (cg_nffree c') (cg_frsum c')"
    by (rule counts_cong [OF frag_blocks(1) [OF assms(1)] _ g(8)]) (use m s in auto)
  have gc: "group_clus fs c' (frees c)"
  proof (rule group_clus_cong [OF g(9)])
    have "0 \<le> fs_fpg fs div 8" using fs_okD(15) [OF assms(1)] by simp
    then show "c' i = c i" if "cg_freeoff c + fs_fpg fs div 8 \<le> i" for i
      using that g(1) assms(3) by (auto simp: misc_byte_def)
  qed (use m(7) in auto)
  show "group_ok fs c'"
    by (rule group_okI [OF assms(1,2) m(7) _ cn gc]) (use fr assms in auto)
qed

lemma free_run_full:
  assumes "fs_ok fs" 
  shows "free_run fs m a (fs_frag fs) n \<longleftrightarrow> (\<exists>h. n = h * fs_frag fs \<and> blk_full (fs_frag fs) (isset m a) h)"
proof -
  have f: "0 < fs_frag fs" using frag_blocks(1) [OF assms] .
  show ?thesis
  proof
    assume L: "free_run fs m a (fs_frag fs) n"
    then have "n mod fs_frag fs = 0" using f pos_mod_sign [OF f, of n] unfolding free_run_def by linarith
    then obtain h where h: "n = h * fs_frag fs" by (metis mod_0_imp_dvd dvdE mult.commute)
    have "isset m a i" if "i \<in> {n..<n + fs_frag fs}" for i
    proof -
      have "i - n \<in> {0..<fs_frag fs}" using that by auto
      then have "isset m a (n + (i - n))" using L unfolding free_run_def by blast
      then show ?thesis by simp
    qed
    then show "\<exists>h. n = h * fs_frag fs \<and> blk_full (fs_frag fs) (isset m a) h" using h by (auto simp: blk_full_def)
  qed (auto simp: free_run_def blk_full_def)
qed

definition took_block :: "fs \<Rightarrow> mem \<Rightarrow> int \<Rightarrow> fs \<Rightarrow> mem \<Rightarrow> bool" where
  "took_block fs c h fs' c' \<longleftrightarrow>
     0 \<le> h \<and> h < nblocks fs \<and> blk_full (fs_frag fs) (frees c) h \<and>
     (\<exists>mc. fs' = (add_nbfree (cg_cgx c) (- 1) (fs\<lparr>fs_maxcluster := mc\<rparr>))\<lparr>fs_fmod := 1\<rparr>) \<and>
     (\<forall>i. i < cg_freeoff c \<longrightarrow> \<not> (28 \<le> i \<and> i < 32) \<longrightarrow> \<not> (40 \<le> i \<and> i < 48) \<longrightarrow> c' i = c i) \<and>
     (\<forall>i. 0 \<le> i \<longrightarrow> i < fs_fpg fs \<longrightarrow> frees c' i = (frees c i \<and> i div fs_frag fs \<noteq> h)) \<and>
     cg_nbfree c' = cg_nbfree c - 1 \<and>
     group_clus fs c' (\<lambda>i. frees c i \<and> i div fs_frag fs \<noteq> h) \<and>
     0 \<le> cg_rotor c' \<and> cg_rotor c' < fs_fpg fs \<and> 0 \<le> cg_frotor c' \<and> cg_frotor c' < fs_fpg fs"

lemma rotor_in_range:
  assumes "fs_ok fs" "0 \<le> x"
  shows "0 \<le> dtogd fs x" "dtogd fs x < fs_fpg fs" "0 \<le> dtogd fs x sdiv NBBY" "dtogd fs x sdiv NBBY < howmany (fs_fpg fs) NBBY"
proof -
  note d = fs_okD(15,17) [OF assms(1)]
  have e: "dtogd fs x = x mod fs_fpg fs" using assms(2) d(1) by (simp add: dtogd_def smod_nonneg)
  show r: "0 \<le> dtogd fs x" "dtogd fs x < fs_fpg fs" unfolding e using d(1) by simp_all
  have n: "howmany (fs_fpg fs) NBBY = fs_fpg fs div 8" using d by (simp add: howmany_def sdiv_nonneg) presburger
  show "0 \<le> dtogd fs x sdiv NBBY" "dtogd fs x sdiv NBBY < howmany (fs_fpg fs) NBBY"
    unfolding n using r d(2) by (auto simp: sdiv_nonneg)
qed

lemma search_start_range:
  assumes "fs_ok fs" "0 \<le> cg_frotor c" "cg_frotor c < fs_fpg fs" "0 \<le> bpref"
  shows "0 \<le> search_start fs c bpref" "search_start fs c bpref < howmany (fs_fpg fs) NBBY"
proof -
  have "dtogd fs (cg_frotor c) = cg_frotor c" using assms by (simp add: dtogd_def smod_nonneg)
  then show "0 \<le> search_start fs c bpref" "search_start fs c bpref < howmany (fs_fpg fs) NBBY"
    using rotor_in_range [OF assms(1,2)] rotor_in_range [OF assms(1,4)] by (auto simp: search_start_def)
qed

lemma block_idx:
  assumes "fs_ok fs" "0 \<le> h * fs_frag fs" "h * fs_frag fs < fs_fpg fs"
  shows "0 \<le> h" "h < nblocks fs"
  using assms(2,3) frag_blocks [OF assms(1)]
  by (auto simp: zero_le_mult_iff) (metis mult_less_cancel_right_pos)

lemma alloccgblk_ok:
  assumes ok: "fs_ok fs" "group_ok fs c" and bp: "0 \<le> bpref" and nb: "0 < cg_nbfree c"
  shows "\<exists>h fs' c'. ufs_alloccgblk fs c bpref = Some (cgbase fs (cg_cgx c) + h * fs_frag fs, fs', c') \<and>
    took_block fs c h fs' c'"
proof -
  note g = group_okD [OF ok(2)] and f = frag_blocks [OF ok(1)]
  define other where "other = (bpref = 0 \<or> dtog fs bpref \<noteq> cg_cgx c)"
  define pref where "pref = (if other then cg_rotor c else blknum fs bpref)"
  have pr: "0 \<le> pref" using g(4) bp f(1) by (simp add: pref_def macro_div_mod(8) [OF ok(1)] pos_imp_zdiv_nonneg_iff)
  show ?thesis
  proof (cases "\<not> other \<and> ffs_isblock fs c (cg_freeoff c) (fragstoblks fs (dtogd fs pref))")
    case True
    define h where "h = dtogd fs pref div fs_frag fs"
    have "pref mod fs_frag fs = 0" using True by (simp add: pref_def macro_div_mod(8) [OF ok(1)])
    then have "dtogd fs pref mod fs_frag fs = 0"
      using pr fs_okD(15,16) [OF ok(1)] by (simp add: dtogd_def smod_nonneg mod_mod_cancel dvd_eq_mod_eq_0)
    then have hb: "dtogd fs pref = h * fs_frag fs" using f(1) by (simp add: h_def dvd_eq_mod_eq_0)
    have hr: "0 \<le> h" "h < nblocks fs" using rotor_in_range(1,2) [OF ok(1) pr] block_idx [OF ok(1)]
      unfolding hb by blast+
    have full: "blk_full (fs_frag fs) (frees c) h"
      using True isblock_iff [OF frag_valid_ok [OF ok(1)], of c "cg_freeoff c" h] f(1)
      by (auto simp: macro_div_mod(3) [OF ok(1)] blk_full_def blk_range h_def)
    obtain r fs' c' where e: "alloccgblk_gotit fs c (h * fs_frag fs) = (r, fs', c')" by (metis surj_pair)
    note t = gotit_ok [OF ok hr full e]
    have "cg_rotor c' = cg_rotor c" "cg_frotor c' = cg_frotor c"
      unfolding cg_rotor_def cg_frotor_def using t(3) g(1) by (auto intro!: ld_cong)
    then have "took_block fs c h fs' c'" using t(2-6) hr full g(4-7) unfolding took_block_def by auto
    moreover have "ufs_alloccgblk fs c bpref = Some (r, fs', c')"
      using True e unfolding ufs_alloccgblk_def Let_def other_def [symmetric] pref_def [symmetric] hb by simp
    ultimately show ?thesis using t(1) by blast
  next
    case False
    obtain h0 where h0: "0 \<le> h0" "h0 < nblocks fs" "blk_full (fs_frag fs) (frees c) h0"
      using ex_full_block [OF g(8) nb] by blast
    have fr: "free_run fs c (cg_freeoff c) (fs_frag fs) (h0 * fs_frag fs)"
      using h0(3) by (auto simp: free_run_full [OF ok(1)])
    have s1: "1 \<le> fs_frag fs" "48 \<le> cg_freeoff c" using f(1) g(1) by auto
    obtain bno y where m: "ffs_mapsearch fs c pref (fs_frag fs) = Some (bno, set_frotor c (8 * y))"
      "0 \<le> y" "8 * y < fs_fpg fs" "0 \<le> bno" "bno + fs_frag fs \<le> fs_fpg fs"
      using mapsearch_complete [OF frag_valid_ok [OF ok(1)] s1(1) order.refl s1(2) fs_okD(15,17) [OF ok(1)]
          search_start_range [OF ok(1) g(6,7) pr] block_start(1,3) [OF ok(1) h0(1,2)] fr] by blast
    obtain h where h: "bno = h * fs_frag fs" "blk_full (fs_frag fs) (frees c) h"
      using mapsearch_found [OF frag_valid_ok [OF ok(1)] s1(1) order.refl s1(2) m(1,4)]
      by (auto simp: free_run_full [OF ok(1)])
    have hr: "0 \<le> h" "h < nblocks fs" using m(4,5) block_idx [OF ok(1), of h] f(1) unfolding h(1) by linarith+
    define c1 where "c1 = set_rotor (set_frotor c (8 * y)) bno"
    have ms: "\<forall>i. \<not> misc_byte i \<longrightarrow> c1 i = c i" by (auto simp: c1_def cg_defs misc_byte_def mem_simps)
    have rt: "cg_rotor c1 = bno" "cg_frotor c1 = 8 * y" 
      using m g(3) f(1) by (simp_all add: c1_def cg_defs mem_simps s32_id)
    have c1: "group_ok fs c1" "\<And>i. 0 \<le> i \<Longrightarrow> frees c1 i = frees c i"
      using group_ok_misc [OF ok ms] rt m f(1) by auto
    note same = misc_same [OF ms]
    have full: "blk_full (fs_frag fs) (frees c1) h"
      using h(2) block_start(1) [OF ok(1) hr] c1(2) by (auto simp: blk_full_def)
    obtain r fs' c' where e: "alloccgblk_gotit fs c1 (h * fs_frag fs) = (r, fs', c')" by (metis surj_pair)
    note t = gotit_ok [OF ok(1) c1(1) hr full e]
    have "cg_rotor c' = bno" "cg_frotor c' = 8 * y"
      unfolding rt [symmetric] cg_rotor_def cg_frotor_def using t(3) group_okD(1) [OF c1(1)] by (auto intro!: ld_cong)
    moreover have "group_clus fs c' (\<lambda>i. frees c i \<and> i div fs_frag fs \<noteq> h)"
      by (rule group_clus_map [OF ok(1) t(6)]) (use c1(2) in auto)
    moreover have "\<exists>mc. fs' = (add_nbfree (cg_cgx c) (- 1) (fs\<lparr>fs_maxcluster := mc\<rparr>))\<lparr>fs_fmod := 1\<rparr>"
      using t(2) unfolding same(4) .
    moreover have "c' i = c i" if "i < cg_freeoff c" "\<not> (28 \<le> i \<and> i < 32)" "\<not> (40 \<le> i \<and> i < 48)" for i
    proof -
      have "c' i = c1 i" using t(3) [of i] that unfolding same(1) by auto
      also have "\<dots> = c i" using that(3) by (auto simp: c1_def cg_set_defs mem_simps not_less not_le)
      finally show ?thesis .
    qed
    moreover have "frees c' i = (frees c i \<and> i div fs_frag fs \<noteq> h)" if "0 \<le> i" "i < fs_fpg fs" for i
      using t(4) [OF that] c1(2) [OF that(1)] by simp
    moreover have "cg_nbfree c' = cg_nbfree c - 1" using t(5) unfolding same(2) .
    ultimately have "took_block fs c h fs' c'"
      using hr h(2) m(2-5) f(1) unfolding took_block_def by auto
    moreover have "ufs_alloccgblk fs c bpref = Some (r, fs', c')"
      using False e m(1,4) unfolding ufs_alloccgblk_def Let_def other_def [symmetric] pref_def [symmetric] c1_def h(1)
      by (simp only: if_False) simp
    ultimately show ?thesis using t(1) same(4) by auto
  qed
qed

lemma isset_setbits: "isset (setbits m a b i e) a j \<longleftrightarrow> isset m a j \<or> b + i \<le> j \<and> j < b + e"
proof (induction m a b i e rule: setbits.induct)
  case (1 m a b i e)
  show ?case
  proof (cases "i < e")
    case True
    then show ?thesis using 1 by (subst setbits.simps) (auto simp: bit_simps_ufs)
  qed (subst setbits.simps, auto)
qed

lemma isset_clrbits: "isset (clrbits m a b i e) a j \<longleftrightarrow> isset m a j \<and> \<not> (b + i \<le> j \<and> j < b + e)"
proof (induction m a b i e rule: clrbits.induct)
  case (1 m a b i e)
  show ?case
  proof (cases "i < e")
    case True
    then show ?thesis using 1 by (subst clrbits.simps) (auto simp: bit_simps_ufs)
  qed (subst clrbits.simps, auto)
qed

lemma free_frags_setbits:
  "free_frags m a b i e = (if \<exists>j. i \<le> j \<and> j < e \<and> isset m a (b + j) then None else Some (setbits m a b i e))"
proof (induction m a b i e rule: free_frags.induct)
  case (1 m a b i e)
  show ?case
  proof (cases "i < e \<and> \<not> isset m a (b + i)")
    case True
    have "(\<exists>j. i + 1 \<le> j \<and> j < e \<and> isset (setbit m a (b + i)) a (b + j)) \<longleftrightarrow> (\<exists>j. i \<le> j \<and> j < e \<and> isset m a (b + j))"
    proof (intro iff_exI)
      fix j
      show "(i + 1 \<le> j \<and> j < e \<and> isset (setbit m a (b + i)) a (b + j)) \<longleftrightarrow> (i \<le> j \<and> j < e \<and> isset m a (b + j))"
        using True by (cases "j = i") (auto simp: bit_simps_ufs)
    qed
    moreover have "free_frags m a b i e = free_frags (setbit m a (b + i)) a b (i + 1) e"
      "setbits m a b i e = setbits (setbit m a (b + i)) a b (i + 1) e"
      using True free_frags.simps [of m a b i e] setbits.simps [of m a b i e] by simp_all
    ultimately show ?thesis using True 1 by (simp only: simp_thms)
  next
    case False
    then show ?thesis by (subst free_frags.simps, subst setbits.simps) auto
  qed
qed

lemma byte_outside:
  assumes "(n :: int) mod 8 = 0" "0 \<le> j" "j < n" "x < a \<or> a + n div 8 \<le> x"
  shows "x \<noteq> a + j div 8"
proof -
  have "0 \<le> j div 8" "j div 8 < n div 8" using assms(1-3) by auto
  then show ?thesis using assms(4) by linarith
qed

lemma setbits_other:
  assumes "n mod 8 = 0" "0 \<le> b + i" "b + e \<le> n" "x < a \<or> a + n div 8 \<le> x"
  shows "setbits m a b i e x = m x"
  using assms
proof (induction m a b i e rule: setbits.induct)
  case (1 m a b i e)
  show ?case
  proof (cases "i < e")
    case True
    then have "setbit m a (b + i) x = m x" using byte_outside [OF 1(2,3) _ 1(5)] 1(4) by (simp add: mem_simps)
    then show ?thesis using 1 True by (subst setbits.simps) simp
  qed (subst setbits.simps, simp)
qed

lemma clrbits_other:
  assumes "n mod 8 = 0" "0 \<le> b + i" "b + e \<le> n" "x < a \<or> a + n div 8 \<le> x"
  shows "clrbits m a b i e x = m x"
  using assms
proof (induction m a b i e rule: clrbits.induct)
  case (1 m a b i e)
  show ?case
  proof (cases "i < e")
    case True
    then have "clrbit m a (b + i) x = m x" using byte_outside [OF 1(2,3) _ 1(5)] 1(4) by (simp add: mem_simps)
    then show ?thesis using 1 True by (subst clrbits.simps) simp
  qed (subst clrbits.simps, simp)
qed

lemma alloc_size_spec:
  "frags \<le> frag \<Longrightarrow> let r = alloc_size c frags frag in
    frags \<le> r \<and> r \<le> frag \<and> (r < frag \<longrightarrow> cg_frsum c r \<noteq> 0) \<and> (\<forall>t. frags \<le> t \<longrightarrow> t < r \<longrightarrow> cg_frsum c t = 0)"
proof (induction c frags frag rule: alloc_size.induct)
  case (1 c frags frag)
  show ?case
  proof (cases "frags < frag \<and> cg_frsum c frags = 0")
    case True
    then have e: "alloc_size c frags frag = alloc_size c (frags + 1) frag" by (subst alloc_size.simps) simp
    have IH: "let r = alloc_size c (frags + 1) frag in
      frags + 1 \<le> r \<and> r \<le> frag \<and> (r < frag \<longrightarrow> cg_frsum c r \<noteq> 0) \<and> (\<forall>t. frags + 1 \<le> t \<longrightarrow> t < r \<longrightarrow> cg_frsum c t = 0)"
      using 1(1) True by simp
    have "cg_frsum c t = 0" if "frags \<le> t" "t < alloc_size c (frags + 1) frag" for t
      using IH that True by (cases "t = frags") (auto simp: Let_def)
    with IH show ?thesis unfolding e by (simp add: Let_def)
  next
    case False
    then have "alloc_size c frags frag = frags" using 1(2) by (subst alloc_size.simps) auto
    then show ?thesis using False 1(2) by auto
  qed
qed

lemma free_run_mrun:
  assumes "fs_ok fs"
  shows "free_run fs m a s n \<longleftrightarrow>
    mrun (isset m a) (n div fs_frag fs * fs_frag fs) (n div fs_frag fs * fs_frag fs + fs_frag fs) s n"
proof -
  define b where "b = n div fs_frag fs * fs_frag fs"
  have f: "0 < fs_frag fs" using frag_blocks(1) [OF assms] .
  have n: "n = b + n mod fs_frag fs" "0 \<le> n mod fs_frag fs" "n mod fs_frag fs < fs_frag fs"
    using f by (simp_all add: b_def)
  have all: "(\<forall>j \<in> {0..<s}. isset m a (n + j)) \<longleftrightarrow> (\<forall>j. n \<le> j \<longrightarrow> j < n + s \<longrightarrow> isset m a j)"
  proof
    assume A: "\<forall>j \<in> {0..<s}. isset m a (n + j)"
    show "\<forall>j. n \<le> j \<longrightarrow> j < n + s \<longrightarrow> isset m a j"
    proof (intro allI impI)
      fix j assume "n \<le> j" "j < n + s"
      then have "j - n \<in> {0..<s}" by auto
      with A have "isset m a (n + (j - n))" by blast
      then show "isset m a j" by simp
    qed
  qed auto
  show ?thesis
    unfolding free_run_def mrun_def all b_def [symmetric] using n by auto
qed

end
