(* ===== verification/Ufs_Group_Ops.thy ===== *)
theory Ufs_Group_Ops
  imports Ufs_Group
begin

section \<open>Operations on a cylinder group keep it consistent\<close>

text \<open>
  Taking a run of fragments, breaking up a block, returning a block and returning fragments:
  each step of \<open>ufs_alloccg\<close> and \<open>ufs_block_free\<close> on the buffer keeps \<open>group_ok\<close> and changes
  the set of free fragments and the two free counters by exactly what was taken or returned.
\<close>

lemma ld32_add32_other [mem_simps]: "a + 4 \<le> b \<or> b + 4 \<le> a \<Longrightarrow> ld32 (add32 m a k) b = ld32 m b"
  by (simp add: add32_def mem_simps)

lemma set_frsum_add32: "set_frsum c i (cg_frsum c i + v) = add32 c (52 + 4 * i) v"
  "set_frsum c i (cg_frsum c i - v) = add32 c (52 + 4 * i) (- v)"
  "set_nffree c (cg_nffree c + v) = add32 c 36 v" "set_nffree c (cg_nffree c - v) = add32 c 36 (- v)"
  "set_nbfree c (cg_nbfree c + v) = add32 c 28 v" "set_nbfree c (cg_nbfree c - v) = add32 c 28 (- v)"
  by (simp_all add: cg_defs add32_def)

text \<open>Changes of the counters only: everything but the words at 28, 36 and from 56 to 83.\<close>

definition count_byte :: "int \<Rightarrow> bool" where
  "count_byte i \<longleftrightarrow> 28 \<le> i \<and> i < 32 \<or> 36 \<le> i \<and> i < 40 \<or> 56 \<le> i \<and> i < 84"

lemma count_same:
  assumes "\<forall>i < cg_freeoff c. \<not> count_byte i \<longrightarrow> c' i = c i" "168 \<le> cg_freeoff c"
  shows "\<forall>i \<in> {92..<124}. c' i = c i" "cg_freeoff c' = cg_freeoff c" "cg_rotor c' = cg_rotor c"
    "cg_frotor c' = cg_frotor c" "cg_cgx c' = cg_cgx c" "cg_magic c' = cg_magic c" "cg_iusedoff c' = cg_iusedoff c"
proof -
  show hd: "\<forall>i \<in> {92..<124}. c' i = c i" using assms by (auto simp: count_byte_def)
  show "cg_freeoff c' = cg_freeoff c" "cg_iusedoff c' = cg_iusedoff c" using cg_get_cong [OF hd] by simp_all
  show "cg_rotor c' = cg_rotor c" "cg_frotor c' = cg_frotor c" "cg_cgx c' = cg_cgx c" "cg_magic c' = cg_magic c"
    unfolding cg_get_defs using assms by (auto intro!: ld_cong simp: count_byte_def)
qed

lemma counts_s32:
  assumes "fs_ok fs" "fs_fpg fs < 2 ^ 31" "counts (fs_frag fs) (nblocks fs) F nb nf fr"
  shows "s32 nb = nb" "s32 nf = nf" "t \<in> {1..<fs_frag fs} \<Longrightarrow> s32 (fr t) = fr t"
proof -
  note f = frag_blocks [OF assms(1)]
  note b = counts_bounds [OF assms(3) f(1) less_imp_le [OF f(3)]]
  show "s32 nb = nb" "s32 nf = nf" using b f(2,4) assms(2) by (auto intro!: s32_id)
  show "s32 (fr t) = fr t" if "t \<in> {1..<fs_frag fs}"
    using counts_fr_bounds [OF assms(3) that less_imp_le [OF f(3)]] f(2) assms(2) by (auto intro!: s32_id)
qed

lemma group_ok_counts:
  assumes ok: "fs_ok fs" "group_ok fs c" and hd: "\<forall>i \<in> {92..<124}. c' i = c i"
    and F: "\<And>i. 0 \<le> i \<Longrightarrow> i < fs_fpg fs \<Longrightarrow> frees c' i = F i"
    and cn: "counts (fs_frag fs) (nblocks fs) F nb nf fr"
    and nb: "cg_nbfree c' = s32 nb" "cg_nffree c' = s32 nf" "\<And>t. t \<in> {1..<fs_frag fs} \<Longrightarrow> cg_frsum c' t = s32 (fr t)"
    and gc: "group_clus fs c' F"
    and rot: "0 \<le> cg_rotor c'" "cg_rotor c' < fs_fpg fs" "0 \<le> cg_frotor c'" "cg_frotor c' < fs_fpg fs"
  shows "group_ok fs c'" "cg_nbfree c' = nb" "cg_nffree c' = nf"
proof -
  note s = counts_s32 [OF ok(1) group_okD(3) [OF ok(2)] cn]
  show n: "cg_nbfree c' = nb" "cg_nffree c' = nf" using nb s by simp_all
  have "counts (fs_frag fs) (nblocks fs) F (cg_nbfree c') (cg_nffree c') (cg_frsum c')"
    by (rule counts_cong [OF frag_blocks(1) [OF ok(1)] _ cn]) (use nb s in auto)
  from group_okI [OF ok hd F this gc rot] show "group_ok fs c'" by simp
qed

lemma block_of:
  assumes "fs_ok fs" "0 \<le> i" "i < fs_fpg fs"
  shows "0 \<le> i div fs_frag fs" "i div fs_frag fs < nblocks fs"
proof -
  note f = frag_blocks [OF assms(1)]
  show "0 \<le> i div fs_frag fs" using f(1) assms(2) by (simp add: pos_imp_zdiv_nonneg_iff)
  have "i div fs_frag fs * fs_frag fs < nblocks fs * fs_frag fs"
    using f(1,2) assms(3) pos_mod_sign [OF f(1), of i] div_mult_mod_eq [of i "fs_frag fs"] by linarith
  then show "i div fs_frag fs < nblocks fs" using f(1) by (simp only: mult_less_cancel_right_pos)
qed

lemma group_clus_full:
  assumes "group_clus fs c F" "\<And>x. x \<in> {0..<nblocks fs} \<Longrightarrow> blk_full (fs_frag fs) G x = blk_full (fs_frag fs) F x"
  shows "group_clus fs c G"
  using assms by (simp add: group_clus_def)

lemma alloccg_frags_ok:
  assumes ok: "fs_ok fs" "group_ok fs c" and run: "free_run fs c (cg_freeoff c) s bno"
    and b: "0 \<le> bno" "bno < fs_fpg fs" and k: "1 \<le> k" "k \<le> s" "s < fs_frag fs"
  defines "c' \<equiv> alloccg_frags c bno k s"
  shows "group_ok fs c'" "\<And>i. 0 \<le> i \<Longrightarrow> i < fs_fpg fs \<Longrightarrow> frees c' i = (frees c i \<and> \<not> (bno \<le> i \<and> i < bno + k))"
    "cg_nbfree c' = cg_nbfree c" "cg_nffree c' = cg_nffree c - k"
    "\<forall>i < cg_freeoff c. \<not> count_byte i \<longrightarrow> c' i = c i"
proof -
  note g = group_okD [OF ok(2)] and f = frag_blocks [OF ok(1)] and d = fs_okD(15,17) [OF ok(1)]
  define a where "a = cg_freeoff c"
  define h where "h = bno div fs_frag fs"
  have h: "0 \<le> h" "h < nblocks fs" using block_of [OF ok(1) b] by (simp_all add: h_def)
  have mr: "mrun (frees c) (h * fs_frag fs) (h * fs_frag fs + fs_frag fs) s bno"
    using run unfolding free_run_mrun [OF ok(1)] h_def .
  have bk: "bno + k \<le> fs_fpg fs" using mrunD(2) [OF mr] block_start(2) [OF ok(1) h] k by simp
  have c8: "fs_frag fs \<le> 8" using fs_okD(5) [OF ok(1)] by auto
  define c1 where "c1 = clrbits c a bno 0 k"
  have c1o: "c1 x = c x" if "x < a \<or> a + fs_fpg fs div 8 \<le> x" for x
    unfolding c1_def using clrbits_other [OF d(2) _ _ that, of bno 0 k c] b(1) bk by simp
  have c': "c' = (if k \<noteq> s then add32 (add32 (add32 c1 36 (- k)) (52 + 4 * s) (- 1)) (52 + 4 * (s - k)) 1
     else add32 (add32 c1 36 (- k)) (52 + 4 * s) (- 1))"
    unfolding c'_def alloccg_frags_def Let_def c1_def a_def set_frsum_add32 by simp
  have c'o: "c' x = c1 x" if "\<not> count_byte x" for x
    using that k c8 unfolding c' count_byte_def by (auto simp: mem_simps)
  show same: "\<forall>i < cg_freeoff c. \<not> count_byte i \<longrightarrow> c' i = c i" using c'o c1o by (auto simp: a_def)
  note cs = count_same [OF same g(1)]
  have "c' x = c1 x" if "a \<le> x" for x using that g(1) by (intro c'o) (auto simp: count_byte_def a_def)
  then have "isset c' a i = isset c1 a i" if "0 \<le> i" for i using that by (intro isset_cong) auto
  then show F: "frees c' i = (frees c i \<and> \<not> (bno \<le> i \<and> i < bno + k))" if "0 \<le> i" "i < fs_fpg fs" for i
    unfolding cs(2) using that by (simp add: c1_def isset_clrbits a_def)
  have ldc: "ld32 c1 x = ld32 c x" if "x + 4 \<le> 168" for x
    by (rule ld_cong) (use c1o that g(1) in \<open>auto simp: a_def\<close>)
  have cn: "counts (fs_frag fs) (nblocks fs) (\<lambda>i. frees c i \<and> \<not> (bno \<le> i \<and> i < bno + k)) (cg_nbfree c) (cg_nffree c - k)
      (\<lambda>t. cg_frsum c t - of_bool (t = s) + of_bool (k < s \<and> t = s - k))"
    by (rule counts_take_run [OF f(1) h g(8) mr k(3,1,2)]) simp
  have gc: "group_clus fs c' (\<lambda>i. frees c i \<and> \<not> (bno \<le> i \<and> i < bno + k))"
  proof (rule group_clus_full)
    show "group_clus fs c' (frees c)"
    proof (rule group_clus_cong [OF g(9)])
      have "0 \<le> fs_fpg fs div 8" using d(1) by simp
      then show "c' i = c i" if "cg_freeoff c + fs_fpg fs div 8 \<le> i" for i
        using c'o [of i] c1o [of i] that g(1) by (simp add: a_def count_byte_def)
    qed (use cs(1) in auto)
    fix x assume x: "x \<in> {0..<nblocks fs}"
    show "blk_full (fs_frag fs) (\<lambda>i. frees c i \<and> \<not> (bno \<le> i \<and> i < bno + k)) x = blk_full (fs_frag fs) (frees c) x"
    proof (cases "x = h")
      case True
      have "\<not> blk_full (fs_frag fs) (frees c) h" using rcount_full [of "fs_frag fs" "frees c" h s] mr k
        by (auto simp: rcount_def)
      then show ?thesis using True by (auto simp: blk_full_def)
    next
      case False
      have "outside_eq (fs_frag fs) (frees c) (\<lambda>i. frees c i \<and> \<not> (bno \<le> i \<and> i < bno + k)) h (nblocks fs)"
        using mrunD(1,2) [OF mr] k by (auto simp: outside_eq_def)
      then show ?thesis by (rule block_same(1) [OF f(1) _ x False])
    qed
  qed
  have n: "cg_nbfree c' = s32 (cg_nbfree c)" "cg_nffree c' = s32 (cg_nffree c - k)"
    using k by (simp_all add: c' cg_get_defs mem_simps ldc add32_def)
  have "cg_frsum c' t = s32 (cg_frsum c t - of_bool (t = s) + of_bool (k < s \<and> t = s - k))" if "t \<in> {1..<fs_frag fs}" for t
  proof -
    define j where "j = s - k"
    have "ld32 (add32 c1 36 (- k)) (52 + 4 * t) = ld32 c (52 + 4 * t)" using that c8 by (simp add: mem_simps ldc)
    then show ?thesis
      using k c8 that j_def unfolding c' cg_frsum_def j_def [symmetric] by (auto simp: ld32_add32_idx s32_add_left)
  qed
  from group_ok_counts [OF ok cs(1) F cn n this gc]
  show "group_ok fs c'" "cg_nbfree c' = cg_nbfree c" "cg_nffree c' = cg_nffree c - k"
    using g(4-7) by (simp_all add: cs)
qed

lemma took_blockD:
  assumes "took_block fs c h fs' c'"
  shows "0 \<le> h" "h < nblocks fs" "blk_full (fs_frag fs) (frees c) h"
    "\<exists>mc. fs' = (add_nbfree (cg_cgx c) (- 1) (fs\<lparr>fs_maxcluster := mc\<rparr>))\<lparr>fs_fmod := 1\<rparr>"
    "\<And>i. i < cg_freeoff c \<Longrightarrow> \<not> (28 \<le> i \<and> i < 32) \<Longrightarrow> \<not> (40 \<le> i \<and> i < 48) \<Longrightarrow> c' i = c i"
    "\<And>i. 0 \<le> i \<Longrightarrow> i < fs_fpg fs \<Longrightarrow> frees c' i = (frees c i \<and> i div fs_frag fs \<noteq> h)"
    "cg_nbfree c' = cg_nbfree c - 1" "group_clus fs c' (\<lambda>i. frees c i \<and> i div fs_frag fs \<noteq> h)"
    "0 \<le> cg_rotor c'" "cg_rotor c' < fs_fpg fs" "0 \<le> cg_frotor c'" "cg_frotor c' < fs_fpg fs"
  using assms unfolding took_block_def by simp_all

lemma took_block_header:
  assumes "group_ok fs c" "took_block fs c h fs' c'"
  shows "\<forall>i \<in> {92..<124}. c' i = c i" "cg_freeoff c' = cg_freeoff c" "cg_cgx c' = cg_cgx c" "cg_magic c' = cg_magic c"
    "cg_nffree c' = cg_nffree c" "0 \<le> t \<Longrightarrow> t < 9 \<Longrightarrow> cg_frsum c' t = cg_frsum c t"
proof -
  note g = group_okD(1) [OF assms(1)] and t = took_blockD(5) [OF assms(2)]
  show hd: "\<forall>i \<in> {92..<124}. c' i = c i" using t g by auto
  show "cg_freeoff c' = cg_freeoff c" using cg_get_cong(2) [OF hd] .
  show "cg_cgx c' = cg_cgx c" "cg_magic c' = cg_magic c" "cg_nffree c' = cg_nffree c"
    "0 \<le> t \<Longrightarrow> t < 9 \<Longrightarrow> cg_frsum c' t = cg_frsum c t"
    unfolding cg_get_defs using t g by (auto intro!: ld_cong)
qed

lemma took_block_ok:
  assumes ok: "fs_ok fs" "group_ok fs c" and t: "took_block fs c h fs' c'"
  shows "group_ok fs c'"
proof -
  note d = took_blockD [OF t] and g = group_okD [OF ok(2)] and f = frag_blocks [OF ok(1)]
  note hd = took_block_header [OF ok(2) t]
  have cn: "counts (fs_frag fs) (nblocks fs) (\<lambda>i. frees c i \<and> i div fs_frag fs \<noteq> h) (cg_nbfree c - 1) (cg_nffree c) (cg_frsum c)"
    by (rule counts_take_block [OF f(1) d(1,2) g(8) d(3)]) (use f(1) in \<open>auto simp: blk_range\<close>)
  note s = counts_s32 [OF ok(1) g(3) cn]
  have "fs_frag fs \<le> 8" using fs_okD(5) [OF ok(1)] by auto
  then have fr: "cg_frsum c' t = s32 (cg_frsum c t)" if "t \<in> {1..<fs_frag fs}" for t
    using s(3) [OF that] hd(6) [of t] that by simp
  show ?thesis
    by (rule group_ok_counts(1) [OF ok hd(1) d(6) cn _ _ fr d(8-12)]) (use s d(7) hd(5) in simp_all)
qed

lemma alloccg_split_ok:
  assumes ok: "fs_ok fs" "group_ok fs c" and t: "took_block fs c h fs' c1" and k: "1 \<le> k" "k < fs_frag fs"
  defines "c' \<equiv> alloccg_split fs' c1 (h * fs_frag fs) k"
  shows "group_ok fs c'"
    "\<And>i. 0 \<le> i \<Longrightarrow> i < fs_fpg fs \<Longrightarrow> frees c' i = (frees c i \<and> \<not> (h * fs_frag fs \<le> i \<and> i < h * fs_frag fs + k))"
    "cg_nbfree c' = cg_nbfree c - 1" "cg_nffree c' = cg_nffree c + (fs_frag fs - k)"
    "\<forall>i < cg_freeoff c. \<not> count_byte i \<longrightarrow> \<not> (40 \<le> i \<and> i < 48) \<longrightarrow> c' i = c i"
proof -
  note d = took_blockD [OF t] and g = group_okD [OF ok(2)] and f = frag_blocks [OF ok(1)]
  note hd = took_block_header [OF ok(2) t] and dd = fs_okD(15,17) [OF ok(1)]
  define a b where "a = cg_freeoff c" and "b = h * fs_frag fs"
  have ff: "fs_frag fs' = fs_frag fs" using d(4) by (auto simp: add_nbfree_def)
  have c8: "fs_frag fs \<le> 8" using fs_okD(5) [OF ok(1)] by auto
  define c2 where "c2 = setbits c1 a b k (fs_frag fs)"
  define j where "j = fs_frag fs - k"
  have bb: "0 \<le> b" "b + fs_frag fs \<le> fs_fpg fs" using block_start [OF ok(1) d(1,2)] by (simp_all add: b_def)
  have c2o: "c2 x = c1 x" if "x < a \<or> a + fs_fpg fs div 8 \<le> x" for x
    unfolding c2_def using setbits_other [OF dd(2) _ _ that, of b k "fs_frag fs" c1] bb k by simp
  have c': "c' = add32 (add32 c2 36 j) (52 + 4 * j) 1"
    unfolding c'_def alloccg_split_def Let_def c2_def a_def b_def ff hd(2) set_frsum_add32 j_def by simp
  have j: "1 \<le> j" "j < fs_frag fs" using k by (simp_all add: j_def)
  have c'o: "c' x = c2 x" if "\<not> count_byte x" for x
    using that j c8 unfolding c' count_byte_def by (auto simp: mem_simps)
  show same: "\<forall>i < cg_freeoff c. \<not> count_byte i \<longrightarrow> \<not> (40 \<le> i \<and> i < 48) \<longrightarrow> c' i = c i"
    using c'o c2o d(5) by (auto simp: a_def count_byte_def)
  have hd': "\<forall>i \<in> {92..<124}. c' i = c i" using same g(1) by (auto simp: count_byte_def)
  have "c' x = c2 x" if "a \<le> x" for x using that g(1) by (intro c'o) (auto simp: count_byte_def a_def)
  then have bits: "isset c' a i = isset c2 a i" if "0 \<le> i" for i using that by (intro isset_cong) auto
  show F: "frees c' i = (frees c i \<and> \<not> (h * fs_frag fs \<le> i \<and> i < h * fs_frag fs + k))" if "0 \<le> i" "i < fs_fpg fs" for i
    using bits [OF that(1)] d(6) [OF that] d(3) f(1) k unfolding cg_get_cong(2) [OF hd'] hd(2)
    by (auto simp: c2_def isset_setbits a_def b_def blk_range blk_full_def)
  have ldc: "ld32 c2 x = ld32 c1 x" if "x + 4 \<le> 168" for x
    by (rule ld_cong) (use c2o that g(1) in \<open>auto simp: a_def\<close>)
  have cn: "counts (fs_frag fs) (nblocks fs) (\<lambda>i. frees c i \<and> \<not> (h * fs_frag fs \<le> i \<and> i < h * fs_frag fs + k)) (cg_nbfree c - 1)
      (cg_nffree c + (fs_frag fs - k)) (\<lambda>t. cg_frsum c t + of_bool (t = fs_frag fs - k))"
    by (rule counts_split_block [OF f(1) d(1,2) g(8) d(3) k]) simp
  have gc: "group_clus fs c' (\<lambda>i. frees c i \<and> \<not> (h * fs_frag fs \<le> i \<and> i < h * fs_frag fs + k))"
  proof (rule group_clus_full)
    show "group_clus fs c' (\<lambda>i. frees c i \<and> i div fs_frag fs \<noteq> h)"
    proof (rule group_clus_cong [OF d(8)])
      have "0 \<le> fs_fpg fs div 8" using dd(1) by simp
      then show "c' i = c1 i" if "cg_freeoff c1 + fs_fpg fs div 8 \<le> i" for i
        using c'o [of i] c2o [of i] that g(1) hd(2) by (simp add: a_def count_byte_def)
    qed (use hd' hd(1) in auto)
    fix x assume x: "x \<in> {0..<nblocks fs}"
    show "blk_full (fs_frag fs) (\<lambda>i. frees c i \<and> \<not> (h * fs_frag fs \<le> i \<and> i < h * fs_frag fs + k)) x =
        blk_full (fs_frag fs) (\<lambda>i. frees c i \<and> i div fs_frag fs \<noteq> h) x"
    proof (cases "x = h")
      case True
      have "\<not> blk_full (fs_frag fs) (\<lambda>i. frees c i \<and> \<not> (h * fs_frag fs \<le> i \<and> i < h * fs_frag fs + k)) h"
        "\<not> blk_full (fs_frag fs) (\<lambda>i. frees c i \<and> i div fs_frag fs \<noteq> h) h"
        unfolding blk_full_def using f(1) k by (auto intro!: bexI [of _ "h * fs_frag fs"])
      then show ?thesis using True by simp
    next
      case False
      then show ?thesis using block_apart [OF f(1) False] k f(1) by (fastforce simp: blk_full_def blk_range)
    qed
  qed
  have n: "cg_nbfree c' = s32 (cg_nbfree c - 1)" "cg_nffree c' = s32 (cg_nffree c + (fs_frag fs - k))"
    using j d(7) hd(5) counts_s32(1) [OF ok(1) g(3) cn]
    by (simp_all add: c' cg_get_defs mem_simps ldc add32_def j_def [symmetric])
  have fr: "cg_frsum c' t = s32 (cg_frsum c t + of_bool (t = fs_frag fs - k))" if "t \<in> {1..<fs_frag fs}" for t
  proof -
    have "ld32 (add32 c2 36 j) (52 + 4 * t) = cg_frsum c t"
      using that c8 hd(6) [of t] by (simp add: mem_simps ldc cg_frsum_def)
    then show ?thesis using j unfolding c' cg_frsum_def j_def [symmetric] by (auto simp: ld32_add32_idx)
  qed
  have "cg_rotor c' = cg_rotor c1" "cg_frotor c' = cg_frotor c1"
    unfolding cg_get_defs using j by (simp_all add: c' mem_simps ldc)
  with group_ok_counts [OF ok hd' F cn n fr gc]
  show "group_ok fs c'" "cg_nbfree c' = cg_nbfree c - 1" "cg_nffree c' = cg_nffree c + (fs_frag fs - k)"
    using d(9-12) by simp_all
qed

lemma run_count_rcount:
  assumes ok: "fs_ok fs" and s: "1 \<le> s" "s \<le> fs_frag fs"
  shows "int (run_count (fs_frag fs) (blkmap fs m a (h * fs_frag fs)) s) =
    rcount (isset m a) (h * fs_frag fs) (h * fs_frag fs + fs_frag fs) s"
proof -
  define f b where "f = fs_frag fs" and "b = h * fs_frag fs"
  have f: "0 < f" using frag_blocks(1) [OF ok] by (simp add: f_def)
  have "f dvd b" by (simp add: f_def b_def)
  note fr = free_run_iff [OF frag_valid_ok [OF ok] this [unfolded f_def] _ _ s(1), of _ m a]
  have dv: "(b + p) div f = h" if "0 \<le> p" "p < f" for p using that f by (simp add: b_def f_def)
  have eq: "mrun (isset m a) b (b + f) s (b + p) \<longleftrightarrow> frag_run (blkmap fs m a b) s p" if "0 \<le> p" "p \<le> f - s" for p
    using fr [of p] free_run_mrun [OF ok, of m a s "b + p"] dv [of p] that s
    by (simp add: f_def b_def)
  have "{i. mrun (isset m a) b (b + f) s i} = (\<lambda>p. b + p) ` {p \<in> {0..f - s}. frag_run (blkmap fs m a b) s p}"
  proof (intro set_eqI iffI)
    fix i assume "i \<in> {i. mrun (isset m a) b (b + f) s i}"
    then have i: "mrun (isset m a) b (b + f) s i" by simp
    have "0 \<le> i - b" "i - b \<le> f - s" using mrunD(1,2) [OF i] by simp_all
    then show "i \<in> (\<lambda>p. b + p) ` {p \<in> {0..f - s}. frag_run (blkmap fs m a b) s p}"
      using eq [of "i - b"] i by (intro image_eqI [of _ _ "i - b"]) auto
  qed (use eq in auto)
  then have "card {i. mrun (isset m a) b (b + f) s i} = card {p \<in> {0..f - s}. frag_run (blkmap fs m a b) s p}"
    by (simp add: card_image)
  also have "\<dots> = run_count f (blkmap fs m a b) s"
    using distinct_card [of "filter (frag_run (blkmap fs m a b) s) [0..f - s]"] by (simp add: run_count_def)
  finally show ?thesis by (simp add: rcount_def f_def b_def)
qed

lemma blkmap_range:
  assumes "fs_ok fs"
  shows "0 \<le> blkmap fs m a x" "blkmap fs m a x < 2 ^ nat (fs_frag fs)"
proof -
  have e: "blkmap fs m a x = take_bit (nat (fs_frag fs)) (drop_bit (nat (x mod 8)) (uint (m (a + x div 8))))"
    by (simp add: blkmap_def frag_mask [OF frag_valid_ok [OF assms]] take_bit_eq_mask)
  show "0 \<le> blkmap fs m a x" "blkmap fs m a x < 2 ^ nat (fs_frag fs)"
    unfolding e by (simp_all add: take_bit_int_less_exp)
qed

text \<open>\<open>ffs_fragacct\<close> on the counters of a group, for the block \<open>h\<close> of its map.\<close>

lemma fragacct_group:
  assumes ok: "fs_ok fs" 
  shows "\<exists>c'. ffs_fragacct fs (blkmap fs c a (h * fs_frag fs)) m 52 cnt = Some c' \<and>
    (\<forall>t \<in> {1..<fs_frag fs}. cg_frsum c' t =
       s32 (cg_frsum m t + rcount (isset c a) (h * fs_frag fs) (h * fs_frag fs + fs_frag fs) t * cnt)) \<and>
    (\<forall>i. i < 56 \<or> 84 \<le> i \<longrightarrow> c' i = m i)"
proof -
  obtain c' where c': "ffs_fragacct fs (blkmap fs c a (h * fs_frag fs)) m 52 cnt = Some c'"
    "\<forall>t \<in> {1..<fs_frag fs}. ld32 c' (52 + 4 * t) =
       s32 (ld32 m (52 + 4 * t) + int (length (filter (frag_run (blkmap fs c a (h * fs_frag fs)) t) [0..fs_frag fs - t])) * cnt)"
    "\<forall>i. i < 52 + 4 \<or> 52 + 4 * fs_frag fs \<le> i \<longrightarrow> c' i = m i"
    using fragacct_runs [OF ok blkmap_range [OF ok], where m = m and fl = 52 and cnt = cnt] by blast
  have "fs_frag fs \<le> 8" using fs_okD(5) [OF ok] by auto
  with c' show ?thesis
    using run_count_rcount [OF ok, of _ c a h] by (auto simp: run_count_def cg_frsum_def intro!: exI [of _ c'])
qed


lemma blkfree_full_ok:
  assumes gc: "group_clus fs c F" and fo: "168 \<le> cg_freeoff c" "0 \<le> fs_fpg fs" and h: "0 \<le> h" "h < nblocks fs"
    and full: "\<not> blk_full (fs_frag fs) F h" "blk_full (fs_frag fs) F' h"
      "0 < fs_contigsumsize fs \<Longrightarrow> h < cg_nclusterblks c"
    and same: "\<And>x. x \<in> {0..<nblocks fs} \<Longrightarrow> x \<noteq> h \<Longrightarrow> blk_full (fs_frag fs) F' x = blk_full (fs_frag fs) F x"
    and eq: "blkfree_full fs cg c h = (fs', c')"
  shows "group_clus fs c' F'" "\<exists>mc. fs' = add_nbfree cg 1 (fs\<lparr>fs_maxcluster := mc\<rparr>)"
    "\<And>i. i < cg_freeoff c + fs_fpg fs div 8 \<Longrightarrow> i < 28 \<or> 32 \<le> i \<Longrightarrow> c' i = c i"
    "cg_nbfree c' = s32 (cg_nbfree c + 1)"
proof -
  obtain fs1 c1 where cl: "ffs_clusteracct fs c h 1 = (fs1, c1)" by (metis surj_pair)
  note st = group_clus_step [OF gc fo h _ same cl]
  have cnt: "(1 :: int) = - 1 \<and> blk_full (fs_frag fs) F h \<and> \<not> blk_full (fs_frag fs) F' h \<or>
      (1 :: int) = 1 \<and> \<not> blk_full (fs_frag fs) F h \<and> blk_full (fs_frag fs) F' h \<and>
      (0 < fs_contigsumsize fs \<longrightarrow> h < cg_nclusterblks c)" using full by simp
  have st: "group_clus fs c1 F'" "\<And>i. i < cg_freeoff c + fs_fpg fs div 8 \<Longrightarrow> c1 i = c i"
    "\<exists>mc. fs1 = fs\<lparr>fs_maxcluster := mc\<rparr>" using group_clus_step [OF gc fo h cnt same cl] by blast+
  have e: "c' = set_nbfree c1 (cg_nbfree c1 + 1)" "fs' = add_nbfree cg 1 fs1"
    using eq by (simp_all add: blkfree_full_def cl)
  have p: "0 \<le> fs_fpg fs div 8" using fo(2) by simp
  show "\<exists>mc. fs' = add_nbfree cg 1 (fs\<lparr>fs_maxcluster := mc\<rparr>)" using st(3) e(2) by blast
  show fr: "c' i = c i" if "i < cg_freeoff c + fs_fpg fs div 8" "i < 28 \<or> 32 \<le> i" for i
    using st(2) [OF that(1)] that(2) by (simp add: e(1) set_nbfree_def mem_simps)
  have "cg_nbfree c1 = cg_nbfree c" unfolding cg_nbfree_def using st(2) fo(1) p by (intro ld_cong) auto
  then show "cg_nbfree c' = s32 (cg_nbfree c + 1)" by (simp add: e(1) cg_defs mem_simps)
  have "cg_freeoff c1 = cg_freeoff c" unfolding cg_freeoff_def [of c1] cg_freeoff_def [of c]
    using st(2) fo(1) p by (intro ld_cong) (auto simp: cg_freeoff_def)
  then show "group_clus fs c' F'"
    using fo(1) p by (intro group_clus_cong [OF st(1)]) (auto simp: e(1) set_nbfree_def mem_simps)
qed

lemma blkfree_block_ok:
  assumes ok: "fs_ok fs" "group_ok fs c" and h: "0 \<le> h" "h < nblocks fs"
    and used: "\<And>i. h * fs_frag fs \<le> i \<Longrightarrow> i < h * fs_frag fs + fs_frag fs \<Longrightarrow> \<not> frees c i"
    and cl: "0 < fs_contigsumsize fs \<Longrightarrow> h < cg_nclusterblks c"
  shows "\<exists>fs' c'. blkfree_block fs cg c (h * fs_frag fs) = Some (fs', c') \<and>
    (\<exists>mc. fs' = add_nbfree cg 1 (fs\<lparr>fs_maxcluster := mc\<rparr>)) \<and> group_ok fs c' \<and>
    (\<forall>i. 0 \<le> i \<longrightarrow> i < fs_fpg fs \<longrightarrow> frees c' i = (frees c i \<or> h * fs_frag fs \<le> i \<and> i < h * fs_frag fs + fs_frag fs)) \<and>
    cg_nbfree c' = cg_nbfree c + 1 \<and> cg_nffree c' = cg_nffree c \<and>
    (\<forall>i < cg_freeoff c. \<not> count_byte i \<longrightarrow> c' i = c i)"
proof -
  note g = group_okD [OF ok(2)] and f = frag_blocks [OF ok(1)] and d = fs_okD(15,17) [OF ok(1)] and fv = frag_valid_ok [OF ok(1)]
  define a where "a = cg_freeoff c"
  let ?F = "\<lambda>i. frees c i \<or> h * fs_frag fs \<le> i \<and> i < h * fs_frag fs + fs_frag fs"
  have fb: "fragstoblks fs (h * fs_frag fs) = h" using f(1) by (simp add: macro_div_mod(3) [OF ok(1)])
  have free: "ffs_isfreeblock fs c a h = Some True"
    using isfreeblock_iff [OF fv, of c a h] used f(1) by (simp add: a_def blk_range)
  obtain c1 where c1: "ffs_setblock fs c a h = Some c1" using ffs_setblock_eq [OF fv] by blast
  have c1o: "c1 x = c x" if "x < a \<or> a + fs_fpg fs div 8 \<le> x" for x by (rule setblock_other [OF ok(1) h c1 that])
  have c1h: "\<forall>i \<in> {92..<124}. c1 i = c i" using c1o g(1) by (auto simp: a_def)
  note hd1 = cg_get_cong [OF c1h]
  have gc1: "group_clus fs c1 (frees c)" by (rule group_clus_cong [OF g(9)]) (use c1h c1o a_def in auto)
  have nfull: "\<not> blk_full (fs_frag fs) (frees c) h" using used f(1) by (auto simp: blk_full_def)
  have full: "blk_full (fs_frag fs) ?F h" by (auto simp: blk_full_def)
  have oth: "blk_full (fs_frag fs) ?F x = blk_full (fs_frag fs) (frees c) x" if "x \<in> {0..<nblocks fs}" "x \<noteq> h" for x
    by (rule block_same(1) [OF f(1) _ that]) (auto simp: outside_eq_def)
  obtain fs' c' where r: "blkfree_full fs cg c1 h = (fs', c')" by (metis surj_pair)
  have fo1: "168 \<le> cg_freeoff c1" "0 \<le> fs_fpg fs" using hd1(2) g(1) d(1) by simp_all
  have st: "group_clus fs c' ?F" "\<exists>mc. fs' = add_nbfree cg 1 (fs\<lparr>fs_maxcluster := mc\<rparr>)"
    "\<And>i. i < a + fs_fpg fs div 8 \<Longrightarrow> i < 28 \<or> 32 \<le> i \<Longrightarrow> c' i = c1 i" "cg_nbfree c' = s32 (cg_nbfree c1 + 1)"
    using blkfree_full_ok [OF gc1 fo1 h nfull full _ oth r] cl hd1(2,5) by (simp_all add: a_def)
  have p: "0 \<le> fs_fpg fs div 8" using d(1) by simp
  have same: "\<forall>i < cg_freeoff c. \<not> count_byte i \<longrightarrow> c' i = c i"
    using st(3) c1o p by (auto simp: a_def count_byte_def)
  note cs = count_same [OF same g(1)]
  have bits: "isset c' a i = isset c1 a i" if "0 \<le> i" "i < fs_fpg fs" for i
    by (rule isset_cong_from [OF _ that d(2)]) (use st(3) g(1) in \<open>auto simp: a_def\<close>)
  have F: "frees c' i = ?F i" if "0 \<le> i" "i < fs_fpg fs" for i
    using bits [OF that] isset_setblock [OF fv c1, of i] f(1) unfolding cs(2) by (auto simp: a_def blk_range)
  have ldc: "ld32 c' x = ld32 c x" if "x + 4 \<le> 168" "x + 4 \<le> 28 \<or> 32 \<le> x" for x
    by (rule ld_cong) (use st(3) c1o that g(1) p in \<open>auto simp: a_def\<close>)
  have nb1: "cg_nbfree c1 = cg_nbfree c" unfolding cg_nbfree_def using c1o g(1) by (intro ld_cong) (auto simp: a_def)
  have cn: "counts (fs_frag fs) (nblocks fs) ?F (cg_nbfree c + 1) (cg_nffree c) (cg_frsum c)"
    by (rule counts_add_block [OF f(1) h g(8)]) (use used in auto)
  have n: "cg_nbfree c' = s32 (cg_nbfree c + 1)" "cg_nffree c' = s32 (cg_nffree c)" "cg_frsum c' t = s32 (cg_frsum c t)"
    if "t \<in> {1..<fs_frag fs}" for t
    using st(4) nb1 ldc [of 36] ldc [of "52 + 4 * t"] that fs_okD(5) [OF ok(1)] by (auto simp: cg_get_defs)
  have n1: "cg_nbfree c' = s32 (cg_nbfree c + 1)" "cg_nffree c' = s32 (cg_nffree c)"
    using st(4) nb1 ldc [of 36] by (auto simp: cg_get_defs)
  note res = group_ok_counts [OF ok cs(1) F cn n1 n(3) st(1)]
  have "blkfree_block fs cg c (h * fs_frag fs) = Some (fs', c')"
    unfolding blkfree_block_def Let_def fb a_def [symmetric] free by (simp add: c1 r)
  then show ?thesis using res F st(2) same g(4-7) cs(3,4) by auto
qed

text \<open>The summaries and flags of the super block change; its geometry does not.\<close>

definition geom_eq :: "fs \<Rightarrow> fs \<Rightarrow> bool" where
  "geom_eq fs fs' \<longleftrightarrow>
     (\<exists>csp cst mc md. fs' = fs\<lparr>fs_csp := csp, fs_cstotal := cst, fs_maxcluster := mc, fs_fmod := md\<rparr>)"

lemma geom_eqI [intro]: "fs' = fs\<lparr>fs_csp := fs_csp fs', fs_cstotal := fs_cstotal fs', fs_maxcluster := fs_maxcluster fs', fs_fmod := fs_fmod fs'\<rparr> \<Longrightarrow> geom_eq fs fs'"
  unfolding geom_eq_def by blast

lemma geom_eq_trans: "geom_eq a b \<Longrightarrow> geom_eq b c \<Longrightarrow> geom_eq a c"
  unfolding geom_eq_def by (elim exE) (simp, blast)

lemma geom_eq_upd:
  "geom_eq fs fs" "geom_eq fs (add_nbfree cg k fs)" "geom_eq fs (add_nffree cg k fs)" "geom_eq fs (fs\<lparr>fs_maxcluster := mc\<rparr>)"
  "geom_eq fs (fs\<lparr>fs_fmod := d\<rparr>)"
  by (auto simp: add_nbfree_def add_nffree_def intro!: fs.equality)

lemma geom_eqD:
  assumes "geom_eq fs fs'"
  shows "fs_ok fs' = fs_ok fs" "group_clus fs' = group_clus fs" "group_ok fs' = group_ok fs" "fsbtodb fs' = fsbtodb fs"
    "cgtod fs' = cgtod fs" "cgbase fs' = cgbase fs" "dtog fs' = dtog fs" "dtogd fs' = dtogd fs" "ffs_isblock fs' = ffs_isblock fs"
    "blkmap fs' = blkmap fs" "ffs_fragacct fs' = ffs_fragacct fs" "fragstoblks fs' = fragstoblks fs"
    "numfrags fs' = numfrags fs" "fs_frag fs' = fs_frag fs" "fs_bsize fs' = fs_bsize fs" "fs_fsize fs' = fs_fsize fs" "fs_cgsize fs' = fs_cgsize fs"
    "fs_ncg fs' = fs_ncg fs" "fs_fpg fs' = fs_fpg fs" "fs_contigsumsize fs' = fs_contigsumsize fs" "fs_size fs' = fs_size fs"
    "fs_magic fs' = fs_magic fs" "fs_fsbtodb fs' = fs_fsbtodb fs" "fs_cblkno fs' = fs_cblkno fs" "nblocks fs' = nblocks fs"
    "fs_ipg fs' = fs_ipg fs"
proof -
  obtain csp cst mc md where e: "fs' = fs\<lparr>fs_csp := csp, fs_cstotal := cst, fs_maxcluster := mc, fs_fmod := md\<rparr>"
    using assms by (auto simp: geom_eq_def)
  show ok: "fs_ok fs' = fs_ok fs" and gc: "group_clus fs' = group_clus fs"
    by (simp_all add: e fs_ok_def group_clus_def clus_layout_def clus_counts_def fun_eq_iff)
  show "group_ok fs' = group_ok fs" by (simp add: fun_eq_iff group_ok_def gc) (simp add: e)
qed (use assms in \<open>auto simp: geom_eq_def fun_eq_iff fsbtodb_def cgtod_def cgstart_def cgbase_def dtog_def dtogd_def
  ffs_isblock_def blkmap_def ffs_fragacct_def fragstoblks_def numfrags_def\<close>)

lemma add_frags_clus:
  assumes "fs_ok fs" "group_clus fs c F" "0 \<le> h" "h < nblocks fs" "h * fs_frag fs \<le> p" "p + k \<le> h * fs_frag fs + fs_frag fs"
    "\<not> blk_full (fs_frag fs) F h" "\<not> blk_full (fs_frag fs) (\<lambda>i. F i \<or> p \<le> i \<and> i < p + k) h"
  shows "group_clus fs c (\<lambda>i. F i \<or> p \<le> i \<and> i < p + k)"
proof (rule group_clus_full [OF assms(2)])
  fix x assume x: "x \<in> {0..<nblocks fs}"
  have "outside_eq (fs_frag fs) F (\<lambda>i. F i \<or> p \<le> i \<and> i < p + k) h (nblocks fs)"
    using assms(5,6) by (auto simp: outside_eq_def)
  then show "blk_full (fs_frag fs) (\<lambda>i. F i \<or> p \<le> i \<and> i < p + k) x = blk_full (fs_frag fs) F x"
    using block_same(1) [OF frag_blocks(1) [OF assms(1)] _ x] assms(7,8) by (cases "x = h") simp_all
qed

text \<open>The group after the fragments are marked free and the run counters are redone.\<close>

lemma blkfree_marks:
  assumes ok: "fs_ok fs" "group_ok fs c" and h: "0 \<le> h" "h < nblocks fs"
    and p: "h * fs_frag fs \<le> p" "p + k \<le> h * fs_frag fs + fs_frag fs" "1 \<le> k"
    and used: "\<And>i. p \<le> i \<Longrightarrow> i < p + k \<Longrightarrow> \<not> frees c i"
  shows "\<exists>m1 m4. ffs_fragacct fs (blkmap fs c (cg_freeoff c) (h * fs_frag fs)) c 52 (- 1) = Some m1 \<and>
    free_frags m1 (cg_freeoff c) p 0 k = Some (setbits m1 (cg_freeoff c) p 0 k) \<and>
    ffs_fragacct fs (blkmap fs (add32 (setbits m1 (cg_freeoff c) p 0 k) 36 k) (cg_freeoff c) (h * fs_frag fs))
      (add32 (setbits m1 (cg_freeoff c) p 0 k) 36 k) 52 1 = Some m4 \<and>
    (\<forall>i < cg_freeoff c. \<not> count_byte i \<longrightarrow> m4 i = c i) \<and>
    (\<forall>i. cg_freeoff c + fs_fpg fs div 8 \<le> i \<longrightarrow> m4 i = c i) \<and>
    (\<forall>i. 0 \<le> i \<longrightarrow> i < fs_fpg fs \<longrightarrow> isset m4 (cg_freeoff c) i = (frees c i \<or> p \<le> i \<and> i < p + k)) \<and>
    cg_nbfree m4 = cg_nbfree c \<and> cg_nffree m4 = s32 (cg_nffree c + k) \<and>
    (\<forall>t \<in> {1..<fs_frag fs}. cg_frsum m4 t = s32 (cg_frsum c t -
       rcount (frees c) (h * fs_frag fs) (h * fs_frag fs + fs_frag fs) t +
       rcount (\<lambda>i. frees c i \<or> p \<le> i \<and> i < p + k) (h * fs_frag fs) (h * fs_frag fs + fs_frag fs) t))"
proof -
  note g = group_okD [OF ok(2)] and f = frag_blocks [OF ok(1)] and d = fs_okD(15,17) [OF ok(1)]
  define a b where "a = cg_freeoff c" and "b = h * fs_frag fs"
  let ?rc = "\<lambda>F t. rcount F b (b + fs_frag fs) t"
  have bs: "0 \<le> b" "b + fs_frag fs \<le> fs_fpg fs" using block_start [OF ok(1) h] by (simp_all add: b_def)
  obtain m1 where m1: "ffs_fragacct fs (blkmap fs c a b) c 52 (- 1) = Some m1"
    "\<forall>t \<in> {1..<fs_frag fs}. cg_frsum m1 t = s32 (cg_frsum c t + ?rc (isset c a) t * (- 1))"
    "\<forall>i. i < 56 \<or> 84 \<le> i \<longrightarrow> m1 i = c i"
    using fragacct_group [OF ok(1), of c a h c "- 1"] unfolding b_def by blast
  have b1: "isset m1 a i = isset c a i" if "0 \<le> i" for i
    by (rule isset_cong) (use m1(3) g(1) that in \<open>auto simp: a_def\<close>)
  have ff: "free_frags m1 a p 0 k = Some (setbits m1 a p 0 k)"
    unfolding free_frags_setbits using used b1 p(1) bs(1) by (auto simp: a_def b_def)
  define m2 m3 where "m2 = setbits m1 a p 0 k" and "m3 = add32 m2 36 k"
  have m2o: "m2 x = m1 x" if "x < a \<or> a + fs_fpg fs div 8 \<le> x" for x
    unfolding m2_def using setbits_other [OF d(2) _ _ that, of p 0 k m1] p bs by (simp add: b_def)
  have m3o: "m3 x = m2 x" if "x < 36 \<or> 40 \<le> x" for x using that by (simp add: m3_def mem_simps)
  have b3: "isset m3 a i = (frees c i \<or> p \<le> i \<and> i < p + k)" if "0 \<le> i" for i
  proof -
    have "isset m3 a i = isset m2 a i" by (rule isset_cong, rule m3o) (use g(1) that in \<open>auto simp: a_def\<close>)
    then show ?thesis using b1 [OF that] by (simp add: m2_def isset_setbits a_def)
  qed
  obtain m4 where m4: "ffs_fragacct fs (blkmap fs m3 a b) m3 52 1 = Some m4"
    "\<forall>t \<in> {1..<fs_frag fs}. cg_frsum m4 t = s32 (cg_frsum m3 t + ?rc (isset m3 a) t * 1)"
    "\<forall>i. i < 56 \<or> 84 \<le> i \<longrightarrow> m4 i = m3 i"
    using fragacct_group [OF ok(1), of m3 a h m3 1] unfolding b_def by blast
  have o1: "\<forall>i < cg_freeoff c. \<not> count_byte i \<longrightarrow> m4 i = c i"
    using m4(3) m3o m2o m1(3) by (auto simp: count_byte_def a_def)
  have "0 \<le> fs_fpg fs div 8" using d(1) by simp
  then have o2: "\<forall>i. cg_freeoff c + fs_fpg fs div 8 \<le> i \<longrightarrow> m4 i = c i"
    using m4(3) m3o m2o m1(3) g(1) by (auto simp: a_def)
  have o3: "isset m4 a i = (frees c i \<or> p \<le> i \<and> i < p + k)" if "0 \<le> i" for i
  proof -
    have "isset m4 a i = isset m3 a i" by (rule isset_cong) (use m4(3) g(1) that in \<open>auto simp: a_def\<close>)
    then show ?thesis using b3 [OF that] by simp
  qed
  have l2: "ld32 m2 x = ld32 m1 x" if "x + 4 \<le> 168" for x by (rule ld_cong) (use m2o that g(1) in \<open>auto simp: a_def\<close>)
  have l1: "ld32 m1 28 = ld32 c 28" "ld32 m1 36 = ld32 c 36" "ld32 m4 28 = ld32 m3 28" "ld32 m4 36 = ld32 m3 36"
    by (rule ld_cong; use m1(3) m4(3) in auto)+
  have "cg_nbfree m4 = cg_nbfree c" "cg_nffree m4 = s32 (cg_nffree c + k)"
    using l1 l2 [of 28] l2 [of 36] by (simp_all add: cg_get_defs m3_def add32_def mem_simps)
  moreover have "cg_frsum m4 t = s32 (cg_frsum c t - ?rc (frees c) t + ?rc (\<lambda>i. frees c i \<or> p \<le> i \<and> i < p + k) t)"
    if t: "t \<in> {1..<fs_frag fs}" for t
  proof -
    have "?rc (isset m3 a) t = ?rc (\<lambda>i. frees c i \<or> p \<le> i \<and> i < p + k) t"
      by (rule rcount_cong) (use b3 bs(1) t in auto)
    moreover have "cg_frsum m3 t = cg_frsum m1 t"
      using l2 [of "52 + 4 * t"] t fs_okD(5) [OF ok(1)] by (auto simp: cg_frsum_def m3_def mem_simps)
    ultimately show ?thesis using m1(2) m4(2) t by (simp add: s32_add_left a_def)
  qed
  ultimately show ?thesis using m1(1) ff m4(1) o1 o2 o3 unfolding a_def b_def m2_def m3_def by blast
qed

lemma blkfree_frags_ok:
  assumes ok: "fs_ok fs" "group_ok fs c" and h: "0 \<le> h" "h < nblocks fs"
    and p: "h * fs_frag fs \<le> p" "p + k \<le> h * fs_frag fs + fs_frag fs" "1 \<le> k"
    and used: "\<And>i. p \<le> i \<Longrightarrow> i < p + k \<Longrightarrow> \<not> frees c i"
    and cl: "0 < fs_contigsumsize fs \<Longrightarrow> blk_full (fs_frag fs) (\<lambda>i. frees c i \<or> p \<le> i \<and> i < p + k) h \<Longrightarrow> h < cg_nclusterblks c"
  defines "F' \<equiv> \<lambda>i. frees c i \<or> p \<le> i \<and> i < p + k"
  shows "\<exists>fs' c'. blkfree_frags fs cg c p k = Some (fs', c') \<and>
    (if blk_full (fs_frag fs) F' h
     then \<exists>mc. fs' = add_nbfree cg 1 ((add_nffree cg (- fs_frag fs) (add_nffree cg k fs))\<lparr>fs_maxcluster := mc\<rparr>)
     else fs' = add_nffree cg k fs) \<and> group_ok fs c' \<and>
    (\<forall>i. 0 \<le> i \<longrightarrow> i < fs_fpg fs \<longrightarrow> frees c' i = F' i) \<and>
    cg_nbfree c' = cg_nbfree c + of_bool (blk_full (fs_frag fs) F' h) \<and>
    cg_nffree c' = cg_nffree c + k - (if blk_full (fs_frag fs) F' h then fs_frag fs else 0) \<and>
    (\<forall>i < cg_freeoff c. \<not> count_byte i \<longrightarrow> c' i = c i)"
proof -
  note g = group_okD [OF ok(2)] and f = frag_blocks [OF ok(1)] and d = fs_okD(15,17) [OF ok(1)] and fv = frag_valid_ok [OF ok(1)]
  define a b where "a = cg_freeoff c" and "b = h * fs_frag fs"
  define fs1 where "fs1 = add_nffree cg k fs"
  have ge: "geom_eq fs fs1" unfolding fs1_def by (rule geom_eq_upd)
  note gd = geom_eqD [OF ge]
  have "p mod fs_frag fs = p - b" 
  proof -
    have "p = (p - b) + h * fs_frag fs" by (simp add: b_def)
    then have "p mod fs_frag fs = (p - b) mod fs_frag fs" by (metis mod_mult_self1)
    then show ?thesis using p f(1) by (simp add: b_def)
  qed
  then have bb: "p - fragnum fs p = b" by (simp add: macro_div_mod(7) [OF ok(1)])
  have fb: "fragstoblks fs b = h" using f(1) by (simp add: macro_div_mod(3) [OF ok(1)] b_def)
  obtain m1 m4 where m1: "ffs_fragacct fs (blkmap fs c a b) c 52 (- 1) = Some m1"
    "free_frags m1 a p 0 k = Some (setbits m1 a p 0 k)"
    "ffs_fragacct fs (blkmap fs (add32 (setbits m1 a p 0 k) 36 k) a b) (add32 (setbits m1 a p 0 k) 36 k) 52 1 = Some m4"
    and o1: "\<forall>i < cg_freeoff c. \<not> count_byte i \<longrightarrow> m4 i = c i" and o2: "\<And>i. a + fs_fpg fs div 8 \<le> i \<Longrightarrow> m4 i = c i"
    and o3: "\<And>i. 0 \<le> i \<Longrightarrow> i < fs_fpg fs \<Longrightarrow> isset m4 a i = F' i"
    and n4: "cg_nbfree m4 = cg_nbfree c" "cg_nffree m4 = s32 (cg_nffree c + k)"
      "\<And>t. t \<in> {1..<fs_frag fs} \<Longrightarrow> cg_frsum m4 t = s32 (cg_frsum c t - rcount (frees c) b (b + fs_frag fs) t + rcount F' b (b + fs_frag fs) t)"
    using blkfree_marks [OF ok h p used] unfolding a_def b_def F'_def by blast
  note cs4 = count_same [OF o1 g(1)]
  have cn: "counts (fs_frag fs) (nblocks fs) F' (cg_nbfree c + of_bool (blk_full (fs_frag fs) F' h))
      (cg_nffree c + k - (if blk_full (fs_frag fs) F' h then fs_frag fs else 0))
      (\<lambda>t. cg_frsum c t - rcount (frees c) b (b + fs_frag fs) t + rcount F' b (b + fs_frag fs) t)"
    unfolding b_def by (rule counts_add_frags [OF f(1) h g(8) p used]) (auto simp: F'_def)
  have gc4: "group_clus fs m4 (frees c)"
    by (rule group_clus_cong [OF g(9)]) (use cs4(1) o2 in \<open>auto simp: a_def\<close>)
  have nfull: "\<not> blk_full (fs_frag fs) (frees c) h" using used p by (force simp: blk_full_def)
  have isb: "ffs_isblock fs m4 a h = blk_full (fs_frag fs) F' h"
    using o3 block_start [OF ok(1) h] f(1) by (auto simp: isblock_iff [OF fv] blk_range blk_full_def)
  have run: "blkfree_frags fs cg c p k = (if blk_full (fs_frag fs) F' h
      then Some (blkfree_full (add_nffree cg (- fs_frag fs) fs1) cg (add32 m4 36 (- fs_frag fs)) h) else Some (fs1, m4))"
    unfolding blkfree_frags_def Let_def bb a_def [symmetric] using p(3)
    by (simp add: m1 set_frsum_add32 fs1_def [symmetric] gd isb fb)
  show ?thesis
  proof (cases "blk_full (fs_frag fs) F' h")
    case False
    have gc: "group_clus fs m4 F'" unfolding F'_def
      by (rule add_frags_clus [OF ok(1) gc4 h p(1,2) nfull]) (use False in \<open>simp add: F'_def\<close>)
    have "cg_nbfree m4 = s32 (cg_nbfree c + of_bool (blk_full (fs_frag fs) F' h))"
      "cg_nffree m4 = s32 (cg_nffree c + k - (if blk_full (fs_frag fs) F' h then fs_frag fs else 0))"
      using n4 False by (simp_all add: cg_get_defs)
    note res = group_ok_counts [OF ok cs4(1) _ cn this n4(3) gc]
    have fr: "frees m4 i = F' i" if "0 \<le> i" "i < fs_fpg fs" for i using o3 [OF that] cs4(2) by (simp add: a_def)
    show ?thesis using run False res fr g(4-7) cs4(3,4) o1 by (simp add: fs1_def)
  next
    case True
    define m5 where "m5 = add32 m4 36 (- fs_frag fs)"
    have m5o: "m5 x = m4 x" if "x < 36 \<or> 40 \<le> x" for x using that by (simp add: m5_def mem_simps)
    have h5: "\<forall>i \<in> {92..<124}. m5 i = m4 i" using m5o by simp
    note hd5 = cg_get_cong [OF h5]
    define fs2 where "fs2 = add_nffree cg (- fs_frag fs) fs1"
    have ge2: "geom_eq fs fs2" unfolding fs2_def using ge geom_eq_upd(3) by (rule geom_eq_trans)
    note gd2 = geom_eqD [OF ge2]
    have pp: "0 \<le> fs_fpg fs div 8" using d(1) by simp
    have gc5: "group_clus fs2 m5 (frees c)" unfolding gd2(2)
      by (rule group_clus_cong [OF gc4]) (use m5o g(1) cs4(2) pp in auto)
    have oth: "blk_full (fs_frag fs) F' x = blk_full (fs_frag fs) (frees c) x" if "x \<in> {0..<nblocks fs}" "x \<noteq> h" for x
      by (rule block_same(1) [OF f(1) _ that]) (use p in \<open>auto simp: outside_eq_def F'_def\<close>)
    obtain fs' c' where r: "blkfree_full fs2 cg m5 h = (fs', c')" by (metis surj_pair)
    have fo5: "cg_freeoff m5 = a" "cg_nclusterblks m5 = cg_nclusterblks c"
      using hd5 cs4(2) cg_get_cong(5) [OF cs4(1)] by (simp_all add: a_def)
    have st: "group_clus fs c' F'" "\<exists>mc. fs' = add_nbfree cg 1 (fs2\<lparr>fs_maxcluster := mc\<rparr>)"
      "\<And>i. i < a + fs_fpg fs div 8 \<Longrightarrow> i < 28 \<or> 32 \<le> i \<Longrightarrow> c' i = m5 i" "cg_nbfree c' = s32 (cg_nbfree m5 + 1)"
      using blkfree_full_ok [OF gc5, of h F' cg fs' c'] h nfull True cl [folded F'_def] oth r g(1) d(1)
      unfolding gd2 fo5 by (simp_all add: a_def)
    have same: "\<forall>i < cg_freeoff c. \<not> count_byte i \<longrightarrow> c' i = c i"
      using st(3) m5o o1 pp by (auto simp: a_def count_byte_def)
    note cs = count_same [OF same g(1)]
    have bits: "isset c' a i = isset m4 a i" if "0 \<le> i" "i < fs_fpg fs" for i
      by (rule isset_cong_from [OF _ that d(2)]) (use st(3) m5o g(1) in \<open>auto simp: a_def\<close>)
    have F: "frees c' i = F' i" if "0 \<le> i" "i < fs_fpg fs" for i
      using bits [OF that] o3 [OF that] unfolding cs(2) by (simp add: a_def)
    have ldc: "ld32 c' x = ld32 m5 x" if "x + 4 \<le> 168" "x + 4 \<le> 28 \<or> 32 \<le> x" for x
      by (rule ld_cong) (use st(3) that g(1) pp in \<open>auto simp: a_def\<close>)
    have n: "cg_nbfree c' = s32 (cg_nbfree c + of_bool (blk_full (fs_frag fs) F' h))"
      "cg_nffree c' = s32 (cg_nffree c + k - (if blk_full (fs_frag fs) F' h then fs_frag fs else 0))"
      using st(4) n4(1,2) ldc [of 36] True s32_add_left [of "cg_nffree c + k" "- fs_frag fs"] by (simp_all add: cg_get_defs m5_def mem_simps add32_def s32_add_left)
    have n3: "cg_frsum c' t = s32 (cg_frsum c t - rcount (frees c) b (b + fs_frag fs) t + rcount F' b (b + fs_frag fs) t)"
      if t: "t \<in> {1..<fs_frag fs}" for t
      using n4(3) [OF t] ldc [of "52 + 4 * t"] t fs_okD(5) [OF ok(1)] by (auto simp: cg_frsum_def m5_def mem_simps)
    note res = group_ok_counts [OF ok cs(1) F cn n n3 st(1)]
    show ?thesis using run True res F g(4-7) cs(3,4) same st(2) r unfolding m5_def fs2_def fs1_def by auto
  qed
qed

end
