(* ===== verification/Ufs_Space.thy ===== *)
theory Ufs_Space
  imports Ufs_Group_Ops
begin

section \<open>The free space of the file system\<close>

text \<open>
  The cylinder groups as they lie on the disk. \<open>space_ok s\<close> says that every group of the file
  system on the disk of \<open>s\<close> is consistent and that the summaries in the super block agree with
  the groups; \<open>free_frag s b\<close> reads the set of free fragments of the whole file system off the
  groups, and \<open>taken\<close> and \<open>given\<close> are the abstract specification of an allocation and of a
  release: what they do to that set. The lemmas show how writing one group back changes the
  state.
\<close>

subsection \<open>Groups on the disk\<close>

definition cg_addr :: "uufsd \<Rightarrow> int \<Rightarrow> int" where
  "cg_addr s cg = fsbtodb (d_fs s) (cgtod (d_fs s) cg) * d_bsize s"

text \<open>The buffer \<open>ufs_alloccg\<close> and \<open>ufs_block_free\<close> work on.\<close>

definition group_at :: "uufsd \<Rightarrow> int \<Rightarrow> mem" where
  "group_at s cg = memcpy (env_junk s) 0 (dev_data s) (cg_addr s cg) (fs_cgsize (d_fs s))"

definition disk_ok :: "uufsd \<Rightarrow> bool" where
  "disk_ok s \<longleftrightarrow> io_ok s \<and> fs_ok (d_fs s) \<and> fs_magic (d_fs s) = FS_UFS2_MAGIC \<and> 0 \<le> fs_cblkno (d_fs s) \<and>
     d_bsize s * 2 ^ nat (fs_fsbtodb (d_fs s)) = fs_fsize (d_fs s)"

definition group_sum :: "uufsd \<Rightarrow> int \<Rightarrow> bool" where
  "group_sum s cg \<longleftrightarrow> group_ok (d_fs s) (group_at s cg) \<and> cg_chkmagic (group_at s cg) \<and> cg_cgx (group_at s cg) = cg \<and>
     cs_nbfree (fs_csp (d_fs s) cg) = cg_nbfree (group_at s cg) \<and> cs_nffree (fs_csp (d_fs s) cg) = cg_nffree (group_at s cg)"

definition space_ok :: "uufsd \<Rightarrow> bool" where
  "space_ok s \<longleftrightarrow> disk_ok s \<and> (\<forall>cg \<in> {0..<fs_ncg (d_fs s)}. group_sum s cg) \<and>
     cs_nbfree (fs_cstotal (d_fs s)) = (\<Sum>cg \<in> {0..<fs_ncg (d_fs s)}. cs_nbfree (fs_csp (d_fs s) cg)) \<and>
     cs_nffree (fs_cstotal (d_fs s)) = (\<Sum>cg \<in> {0..<fs_ncg (d_fs s)}. cs_nffree (fs_csp (d_fs s) cg)) \<and>
     \<not> frees (group_at s 0) 0"

definition free_frag :: "uufsd \<Rightarrow> int \<Rightarrow> bool" where
  "free_frag s b \<longleftrightarrow> 0 \<le> b \<and> b < fs_ncg (d_fs s) * fs_fpg (d_fs s) \<and>
     frees (group_at s (b div fs_fpg (d_fs s))) (b mod fs_fpg (d_fs s))"

lemma disk_okD:
  assumes "disk_ok s"
  shows "io_ok s" "fs_ok (d_fs s)" "d_bsize s * 2 ^ nat (fs_fsbtodb (d_fs s)) = fs_fsize (d_fs s)"
    "\<And>cg. cgtod (d_fs s) cg = fs_fpg (d_fs s) * cg + fs_cblkno (d_fs s)" "0 \<le> fs_cblkno (d_fs s)"
  using assms by (simp_all add: disk_ok_def cgtod_def cgstart_def cgbase_def)

lemma cg_addr_eq:
  assumes "disk_ok s"
  shows "cg_addr s cg = (fs_fpg (d_fs s) * cg + fs_cblkno (d_fs s)) * fs_fsize (d_fs s)"
  unfolding cg_addr_def fsbtodb_eq disk_okD(3) [OF assms, symmetric] disk_okD(4) [OF assms]
  by (simp only: ac_simps)

lemma cg_block_nonneg:
  assumes "disk_ok s" "0 \<le> cg"
  shows "0 \<le> fsbtodb (d_fs s) (cgtod (d_fs s) cg)"
  using disk_okD(4,5) [OF assms(1)] assms(2) fs_okD(15) [OF disk_okD(2) [OF assms(1)]]
  by (simp add: fsbtodb_eq)

lemma cg_addr_apart:
  assumes "disk_ok s" "x < y"
  shows "cg_addr s x + fs_bsize (d_fs s) \<le> cg_addr s y"
proof -
  define fs where "fs = d_fs s"
  note ok = disk_okD(2) [OF assms(1), folded fs_def]
  note f = frag_blocks [OF ok] and p = fs_ok_pos [OF ok]
  have "fs_frag fs \<le> fs_fpg fs" using f(2,3) mult_right_mono [of 1 "nblocks fs" "fs_frag fs"] f(1) by simp
  also have "\<dots> \<le> fs_fpg fs * (y - x)" using assms(2) fs_okD(15) [OF ok] mult_left_mono [of 1 "y - x" "fs_fpg fs"] by simp
  finally have "fs_frag fs * fs_fsize fs \<le> fs_fpg fs * (y - x) * fs_fsize fs" using p(2) by (intro mult_right_mono) auto
  then show ?thesis using fs_okD(4) [OF ok] unfolding cg_addr_eq [OF assms(1)] fs_def [symmetric]
    by (simp add: algebra_simps)
qed

lemma frees_window:
  assumes "\<forall>i \<in> {0..<fs_cgsize fs}. c' i = c i" "fs_ok fs" "168 \<le> cg_freeoff c" "cg_freeoff c + fs_fpg fs div 8 \<le> fs_cgsize fs"
    "0 \<le> i" "i < fs_fpg fs"
  shows "frees c' i = frees c i"
proof -
  have p: "0 \<le> fs_fpg fs div 8" using fs_okD(15) [OF assms(2)] by simp
  have "\<forall>i \<in> {92..<124}. c' i = c i" using assms(1,3,4) p by auto
  then have e: "cg_freeoff c' = cg_freeoff c" by (rule cg_get_cong(2))
  show ?thesis unfolding e
    by (rule isset_cong_from [OF _ assms(5,6) fs_okD(17) [OF assms(2)]]) (use assms(1,3,4) in auto)
qed

text \<open>Only the first \<open>fs_cgsize\<close> bytes of the buffer matter.\<close>

lemma group_ok_window:
  assumes ok: "fs_ok fs" "group_ok fs c" and w: "\<forall>i \<in> {0..<fs_cgsize fs}. c' i = c i"
  shows "group_ok fs c'" "\<And>i. 0 \<le> i \<Longrightarrow> i < fs_fpg fs \<Longrightarrow> frees c' i = frees c i"
    "cg_nbfree c' = cg_nbfree c" "cg_nffree c' = cg_nffree c" "cg_cgx c' = cg_cgx c" "cg_chkmagic c' = cg_chkmagic c"
    "cg_nclusterblks c' = cg_nclusterblks c"
proof -
  note g = group_okD [OF ok(2)]
  have p: "0 \<le> fs_fpg fs div 8" using fs_okD(15) [OF ok(1)] by simp
  have sz: "168 \<le> fs_cgsize fs" using g(1,2) p by linarith
  have ld: "ld32 c' x = ld32 c x" if "0 \<le> x" "x + 4 \<le> fs_cgsize fs" for x
    by (rule ld_cong) (use w that in auto)
  have hd: "\<forall>i \<in> {92..<124}. c' i = c i" using w sz by auto
  note h = cg_get_cong [OF hd]
  show fr: "frees c' i = frees c i" if "0 \<le> i" "i < fs_fpg fs" for i
    by (rule frees_window [OF w ok(1) g(1,2) that])
  show n: "cg_nbfree c' = cg_nbfree c" "cg_nffree c' = cg_nffree c" "cg_cgx c' = cg_cgx c" "cg_chkmagic c' = cg_chkmagic c"
    "cg_nclusterblks c' = cg_nclusterblks c"
    using ld sz h by (simp_all add: cg_defs)
  have gc: "group_clus fs c' (frees c)"
  proof (cases "0 < fs_contigsumsize fs")
    case True
    have k: "clus_layout fs c" "cg_clusteroff c + (cg_nclusterblks c + 7) div 8 \<le> fs_cgsize fs" "0 \<le> cg_nclusterblks c"
      using g(9) True by (simp_all add: group_clus_def)
    have bits: "isset c' (cg_clusteroff c) i = isset c (cg_clusteroff c) i" if "0 \<le> i" "i < cg_nclusterblks c" for i
    proof (rule isset_cong, rule w [rule_format])
      have "0 \<le> i div 8" "i div 8 < (cg_nclusterblks c + 7) div 8" using that by auto
      then show "cg_clusteroff c + i div 8 \<in> {0..<fs_cgsize fs}"
        using k(1,2) by (auto simp: clus_layout_def)
    qed
    have "ld32 c' (cg_clustersumoff c + 4 * j) = ld32 c (cg_clustersumoff c + 4 * j)" if "j \<in> {1..fs_contigsumsize fs}" for j
    proof (rule ld)
      have "0 \<le> (cg_nclusterblks c + 7) div 8" using k(3) by simp
      then show "0 \<le> cg_clustersumoff c + 4 * j" "cg_clustersumoff c + 4 * j + 4 \<le> fs_cgsize fs"
        using k(1,2) that by (auto simp: clus_layout_def)
    qed
    moreover have "ccount (isset c' (cg_clusteroff c)) (cg_nclusterblks c) n j = ccount (isset c (cg_clusteroff c)) (cg_nclusterblks c) n j" for n j
      by (rule ccount_cong) (rule bits)
    ultimately show ?thesis using g(9) bits unfolding group_clus_def clus_layout_def clus_counts_def h by auto
  qed (simp add: group_clus_def)
  have s: "cg_frsum c' t = cg_frsum c t" if "t \<in> {1..<fs_frag fs}" for t
    using ld [of "52 + 4 * t"] that fs_okD(5) [OF ok(1)] sz by (auto simp: cg_frsum_def)
  have cn: "counts (fs_frag fs) (nblocks fs) (frees c) (cg_nbfree c') (cg_nffree c') (cg_frsum c')"
    by (rule counts_cong [OF frag_blocks(1) [OF ok(1)] _ g(8)]) (use n s in auto)
  have "cg_rotor c' = cg_rotor c" "cg_frotor c' = cg_frotor c" using ld sz by (simp_all add: cg_get_defs)
  then show "group_ok fs c'" using group_okI [OF ok hd fr cn gc] g(4-7) by simp
qed

lemma space_okD:
  assumes "space_ok s"
  shows "disk_ok s" "io_ok s" "fs_ok (d_fs s)"
    "\<And>cg. 0 \<le> cg \<Longrightarrow> cg < fs_ncg (d_fs s) \<Longrightarrow> group_sum s cg"
    "cs_nbfree (fs_cstotal (d_fs s)) = (\<Sum>cg \<in> {0..<fs_ncg (d_fs s)}. cs_nbfree (fs_csp (d_fs s) cg))"
    "cs_nffree (fs_cstotal (d_fs s)) = (\<Sum>cg \<in> {0..<fs_ncg (d_fs s)}. cs_nffree (fs_csp (d_fs s) cg))"
    "\<not> frees (group_at s 0) 0"
  using assms by (simp_all add: space_ok_def disk_ok_def)

lemma group_sumD:
  assumes "group_sum s cg"
  shows "group_ok (d_fs s) (group_at s cg)" "cg_chkmagic (group_at s cg)" "cg_cgx (group_at s cg) = cg"
    "cs_nbfree (fs_csp (d_fs s) cg) = cg_nbfree (group_at s cg)" "cs_nffree (fs_csp (d_fs s) cg) = cg_nffree (group_at s cg)"
  using assms by (simp_all add: group_sum_def)

text \<open>The state after the group \<open>cg\<close> is written back.\<close>

definition put_group :: "uufsd \<Rightarrow> int \<Rightarrow> fs \<Rightarrow> mem \<Rightarrow> int \<Rightarrow> uufsd" where
  "put_group s cg fs' c' n = s\<lparr>d_fs := fs', dev_data := memcpy (dev_data s) (cg_addr s cg) c' 0 n\<rparr>"

lemma put_group_at:
  assumes d: "disk_ok s" and ge: "geom_eq (d_fs s) fs'" and n: "fs_cgsize (d_fs s) \<le> n" "n \<le> fs_bsize (d_fs s)"
  shows "0 \<le> i \<Longrightarrow> i < fs_cgsize (d_fs s) \<Longrightarrow> group_at (put_group s cg fs' c' n) cg i = c' i"
    "x \<noteq> cg \<Longrightarrow> group_at (put_group s cg fs' c' n) x = group_at s x"
    "disk_ok (put_group s cg fs' c' n)"
proof -
  define s' where "s' = put_group s cg fs' c' n"
  have ad: "cg_addr s' x = cg_addr s x" for x
    using geom_eqD(4,5) [OF ge] by (simp add: s'_def put_group_def cg_addr_def)
  have sz: "fs_cgsize (d_fs s') = fs_cgsize (d_fs s)" using geom_eqD(17) [OF ge] by (simp add: s'_def put_group_def)
  have dd: "dev_data s' = memcpy (dev_data s) (cg_addr s cg) c' 0 n" "env_junk s' = env_junk s"
    by (simp_all add: s'_def put_group_def)
  show "group_at (put_group s cg fs' c' n) cg i = c' i" if "0 \<le> i" "i < fs_cgsize (d_fs s)"
    unfolding s'_def [symmetric] group_at_def ad sz dd using that n by (simp add: memcpy_def)
  show "group_at (put_group s cg fs' c' n) x = group_at s x" if "x \<noteq> cg"
  proof (rule ext)
    fix i
    have "cg_addr s cg + n \<le> cg_addr s x \<or> cg_addr s x + fs_cgsize (d_fs s) \<le> cg_addr s cg"
      using cg_addr_apart [OF d, of cg x] cg_addr_apart [OF d, of x cg] that n by linarith
    then show "group_at (put_group s cg fs' c' n) x i = group_at s x i"
      unfolding s'_def [symmetric] group_at_def ad sz dd by (auto simp: memcpy_def)
  qed
  show "disk_ok (put_group s cg fs' c' n)"
    using d geom_eqD [OF ge] by (simp add: disk_ok_def put_group_def)
qed

lemma put_group_ok:
  assumes sp: "space_ok s" and cg: "0 \<le> cg" "cg < fs_ncg (d_fs s)" and ge: "geom_eq (d_fs s) fs'"
    and n: "fs_cgsize (d_fs s) \<le> n" "n \<le> fs_bsize (d_fs s)"
    and c': "group_ok (d_fs s) c'" "cg_chkmagic c'" "cg_cgx c' = cg" "cg = 0 \<Longrightarrow> \<not> frees c' 0"
    and cs: "cs_nbfree (fs_csp fs' cg) = cg_nbfree c'" "cs_nffree (fs_csp fs' cg) = cg_nffree c'"
      "\<And>x. x \<noteq> cg \<Longrightarrow> fs_csp fs' x = fs_csp (d_fs s) x"
      "cs_nbfree (fs_cstotal fs') = cs_nbfree (fs_cstotal (d_fs s)) + (cg_nbfree c' - cg_nbfree (group_at s cg))"
      "cs_nffree (fs_cstotal fs') = cs_nffree (fs_cstotal (d_fs s)) + (cg_nffree c' - cg_nffree (group_at s cg))"
  shows "space_ok (put_group s cg fs' c' n)"
    "free_frag (put_group s cg fs' c' n) b = (0 \<le> b \<and> b < fs_ncg (d_fs s) * fs_fpg (d_fs s) \<and>
       (if b div fs_fpg (d_fs s) = cg then frees c' (b mod fs_fpg (d_fs s)) else free_frag s b))"
    "\<And>i. 0 \<le> i \<Longrightarrow> i < fs_fpg (d_fs s) \<Longrightarrow> frees (group_at (put_group s cg fs' c' n) cg) i = frees c' i"
proof -
  define s' where "s' = put_group s cg fs' c' n"
  note o = space_okD [OF sp]
  have fs': "d_fs s' = fs'" by (simp add: s'_def put_group_def)
  note gd = geom_eqD [OF ge]
  note pg = put_group_at [OF o(1) ge n, where cg = cg and c' = c', folded s'_def]
  have w: "\<forall>i \<in> {0..<fs_cgsize (d_fs s)}. group_at s' cg i = c' i" using pg(1) by simp
  note gw = group_ok_window [OF o(3) c'(1) w]
  show fr: "frees (group_at (put_group s cg fs' c' n) cg) i = frees c' i" if "0 \<le> i" "i < fs_fpg (d_fs s)" for i
    using gw(2) [OF that] by (simp add: s'_def)
  have gs: "group_sum s' x" if "0 \<le> x" "x < fs_ncg (d_fs s)" for x
  proof (cases "x = cg")
    case True
    then show ?thesis using gw c'(2,3) cs(1,2) by (simp add: group_sum_def fs' gd(3))
  next
    case False
    then show ?thesis using o(4) [OF that] pg(2) [OF False] cs(3) [OF False] by (simp add: group_sum_def fs' gd(3))
  qed
  note old = group_sumD [OF o(4) [OF cg]]
  have in': "cg \<in> {0..<fs_ncg (d_fs s)}" using cg by simp
  have t1: "cs_nbfree (fs_cstotal fs') = (\<Sum>x \<in> {0..<fs_ncg (d_fs s)}. cs_nbfree (fs_csp fs' x))"
    using sum_local [OF in', of "\<lambda>x. cs_nbfree (fs_csp fs' x)" "\<lambda>x. cs_nbfree (fs_csp (d_fs s) x)"] cs o(5) old(4) by simp
  have t2: "cs_nffree (fs_cstotal fs') = (\<Sum>x \<in> {0..<fs_ncg (d_fs s)}. cs_nffree (fs_csp fs' x))"
    using sum_local [OF in', of "\<lambda>x. cs_nffree (fs_csp fs' x)" "\<lambda>x. cs_nffree (fs_csp (d_fs s) x)"] cs o(6) old(5) by simp
  have z: "\<not> frees (group_at s' 0) 0"
    using o(7) pg(2) [of 0] gw(2) [of 0] c'(4) fs_okD(15) [OF o(3)] by (cases "cg = 0") auto
  show "space_ok (put_group s cg fs' c' n)" unfolding s'_def [symmetric] space_ok_def fs' gd(18)
    using pg(3) gs t1 t2 z by simp
  show "free_frag (put_group s cg fs' c' n) b = (0 \<le> b \<and> b < fs_ncg (d_fs s) * fs_fpg (d_fs s) \<and>
       (if b div fs_fpg (d_fs s) = cg then frees c' (b mod fs_fpg (d_fs s)) else free_frag s b))"
    unfolding s'_def [symmetric] free_frag_def fs' gd(18,19)
    using gw(2) [of "b mod fs_fpg (d_fs s)"] pg(2) [of "b div fs_fpg (d_fs s)"] fs_okD(15) [OF o(3)] by auto
qed

text \<open>The read that starts \<open>ufs_alloccg\<close> and \<open>ufs_block_free\<close>, and the write that ends them.\<close>

lemma read_group:
  assumes "space_ok s" "0 \<le> cg"
  shows "blkread (fsbtodb (d_fs s) (cgtod (d_fs s) cg)) (env_junk s) (fs_cgsize (d_fs s)) s =
    (fs_cgsize (d_fs s), group_at s cg)"
  using blkread_ok [OF space_okD(2) [OF assms(1)] cg_block_nonneg [OF space_okD(1) [OF assms(1)] assms(2)]
      fs_okD(18) [OF space_okD(3) [OF assms(1)]]]
  by (simp add: group_at_def cg_addr_def)

lemma write_group:
  assumes "space_ok s" "0 \<le> cg" "0 < n"
  shows "snd (blkwrite (fsbtodb (d_fs s) (cgtod (d_fs s) cg)) c' n (s\<lparr>d_fs := fs'\<rparr>)) = put_group s cg fs' c' n"
proof -
  have "io_ok (s\<lparr>d_fs := fs'\<rparr>)" using space_okD(2) [OF assms(1)] by simp
  from blkwrite_ok [OF this cg_block_nonneg [OF space_okD(1) [OF assms(1)] assms(2)] assms(3)]
  show ?thesis by (simp add: put_group_def cg_addr_def)
qed

text \<open>\<open>k\<close> consecutive free fragments inside one block.\<close>

definition fits :: "fs \<Rightarrow> (int \<Rightarrow> bool) \<Rightarrow> int \<Rightarrow> bool" where
  "fits fs F k \<longleftrightarrow> (\<exists>p. 0 \<le> p \<and> p < fs_fpg fs \<and> p mod fs_frag fs + k \<le> fs_frag fs \<and> (\<forall>j. p \<le> j \<longrightarrow> j < p + k \<longrightarrow> F j))"

definition taken :: "uufsd \<Rightarrow> int \<Rightarrow> int \<Rightarrow> uufsd \<Rightarrow> bool" where
  "taken s r k s' \<longleftrightarrow> space_ok s' \<and> geom_eq (d_fs s) (d_fs s') \<and> s' = s\<lparr>d_fs := d_fs s', dev_data := dev_data s'\<rparr> \<and>
     (\<forall>cg. cg_nclusterblks (group_at s' cg) = cg_nclusterblks (group_at s cg)) \<and>
     0 < r \<and> r mod fs_frag (d_fs s) + k \<le> fs_frag (d_fs s) \<and>
     (\<forall>b. r \<le> b \<longrightarrow> b < r + k \<longrightarrow> free_frag s b) \<and>
     (\<forall>b. free_frag s' b \<longleftrightarrow> free_frag s b \<and> \<not> (r \<le> b \<and> b < r + k))"

definition given :: "uufsd \<Rightarrow> int \<Rightarrow> int \<Rightarrow> uufsd \<Rightarrow> bool" where
  "given s r k s' \<longleftrightarrow> space_ok s' \<and> geom_eq (d_fs s) (d_fs s') \<and> s' = s\<lparr>d_fs := d_fs s', dev_data := dev_data s'\<rparr> \<and>
     (\<forall>cg. cg_nclusterblks (group_at s' cg) = cg_nclusterblks (group_at s cg)) \<and>
     (\<forall>b. free_frag s' b \<longleftrightarrow> free_frag s b \<or> r \<le> b \<and> b < r + k)"

lemma mrun_around:
  assumes "run_before F lo p b" "run_after F hi p w" "F p"
  shows "mrun F lo hi (b + w + 1) (p - b)"
proof -
  have "F j" if "p - b \<le> j" "j < p - b + (b + w + 1)" for j
    using that assms by (cases j p rule: linorder_cases) (auto simp: run_before_def run_after_def)
  moreover have e: "p - b + (b + w + 1) = p + w + 1" by simp
  ultimately show ?thesis using assms unfolding mrun_def e by (simp add: run_before_def run_after_def)
qed

lemma fits_run:
  assumes ok: "fs_ok fs" and k: "1 \<le> k" and "fits fs F k"
  shows "\<exists>h t i. 0 \<le> h \<and> h < nblocks fs \<and> k \<le> t \<and> t \<le> fs_frag fs \<and>
    mrun F (h * fs_frag fs) (h * fs_frag fs + fs_frag fs) t i"
proof -
  note f = frag_blocks [OF ok]
  obtain p where p: "0 \<le> p" "p < fs_fpg fs" "p mod fs_frag fs + k \<le> fs_frag fs" "\<And>j. p \<le> j \<Longrightarrow> j < p + k \<Longrightarrow> F j"
    using assms(3) by (auto simp: fits_def)
  define h where "h = p div fs_frag fs"
  let ?lo = "h * fs_frag fs" and ?hi = "h * fs_frag fs + fs_frag fs"
  have pm: "p = ?lo + p mod fs_frag fs" "0 \<le> p mod fs_frag fs" using f(1) by (simp_all add: h_def)
  obtain b where b: "run_before F ?lo p b" using run_before_ex [of ?lo p F] pm by auto
  obtain w where w: "run_after F ?hi p w" using run_after_ex [of p ?hi F] pm p(3) k by auto
  have kw: "k \<le> w + 1" using w p(3) p(4) [of "p + w + 1"] pm(1) by (force simp: run_after_def)
  have "mrun F ?lo ?hi (b + w + 1) (p - b)"
    using mrun_around [OF b w] p(4) [of p] k by simp
  moreover have "k \<le> b + w + 1" "b + w + 1 \<le> fs_frag fs" using kw b mrunD(1,2) [OF calculation] by (auto simp: run_before_def)
  ultimately show ?thesis using block_of [OF ok p(1,2)] unfolding h_def by blast
qed

lemma fits_counts:
  assumes ok: "fs_ok fs" and k: "1 \<le> k" and cn: "counts (fs_frag fs) (nblocks fs) F nb nf fr"
    and z: "nb = 0" "\<And>t. k \<le> t \<Longrightarrow> t < fs_frag fs \<Longrightarrow> fr t = 0"
  shows "\<not> fits fs F k"
proof
  assume "fits fs F k"
  from fits_run [OF ok k this] obtain h t i where h: "0 \<le> h" "h < nblocks fs" "k \<le> t" "t \<le> fs_frag fs"
    and m: "mrun F (h * fs_frag fs) (h * fs_frag fs + fs_frag fs) t i" by blast
  have hin: "h \<in> {0..<nblocks fs}" using h by simp
  show False
  proof (cases "t = fs_frag fs")
    case True
    then have full: "blk_full (fs_frag fs) F h" using mrunD [OF m] by (auto simp: blk_full_def)
    have "(\<Sum>h \<in> {0..<nblocks fs}. of_bool (blk_full (fs_frag fs) F h) :: int) \<ge> of_bool (blk_full (fs_frag fs) F h)"
      by (rule member_le_sum [OF hin]) auto
    then show False using cn z(1) full by (simp add: counts_def)
  next
    case False
    have "rcount F (h * fs_frag fs) (h * fs_frag fs + fs_frag fs) t > 0"
      using m mrun_finite [of t F "h * fs_frag fs" "h * fs_frag fs + fs_frag fs"] h(3) k by (auto simp: rcount_def card_gt_0_iff)
    moreover have "rcount F (h * fs_frag fs) (h * fs_frag fs + fs_frag fs) t \<le>
        (\<Sum>h \<in> {0..<nblocks fs}. rcount F (h * fs_frag fs) (h * fs_frag fs + fs_frag fs) t)"
      by (rule member_le_sum [OF hin, of "\<lambda>h. rcount F (h * fs_frag fs) (h * fs_frag fs + fs_frag fs) t"])
        (simp_all add: rcount_bounds)
    ultimately show False using cn z(2) [of t] h(3,4) k False by (simp add: counts_def)
  qed
qed

lemma abs_frag:
  assumes "0 \<le> p" "p + k \<le> (n :: int)"
  shows "n * cg + p \<le> b \<and> b < n * cg + p + k \<longleftrightarrow> b div n = cg \<and> p \<le> b mod n \<and> b mod n < p + k"
proof (cases "0 < n")
  case True
  show ?thesis
  proof
    assume L: "n * cg + p \<le> b \<and> b < n * cg + p + k"
    then have "b div n = cg" using assms block_range [OF True, of b cg] by linarith
    then show "b div n = cg \<and> p \<le> b mod n \<and> b mod n < p + k"
      using L div_mult_mod_eq [of b n] by (auto simp: mult.commute)
  next
    assume "b div n = cg \<and> p \<le> b mod n \<and> b mod n < p + k"
    then show "n * cg + p \<le> b \<and> b < n * cg + p + k" using div_mult_mod_eq [of b n] by (auto simp: mult.commute)
  qed
next
  case False
  then show ?thesis using assms by auto
qed

lemma abs_range:
  assumes "0 < (n :: int)" "0 \<le> cg" "cg < m" "0 \<le> p" "p < n"
  shows "0 \<le> n * cg + p" "n * cg + p < m * n"
proof -
  show "0 \<le> n * cg + p" using assms by simp
  have "n * (cg + 1) \<le> n * m" using assms by (intro mult_left_mono) auto
  then show "n * cg + p < m * n" using assms by (simp add: algebra_simps)
qed

text \<open>Writing back a group that lost the fragments \<open>p ..< p + k\<close>.\<close>

lemma put_clus:
  assumes sp: "space_ok s" and cg: "0 \<le> cg" "cg < fs_ncg (d_fs s)" and ge: "geom_eq (d_fs s) fs'"
    and n: "fs_cgsize (d_fs s) \<le> n" "n \<le> fs_bsize (d_fs s)"
    and c': "group_ok (d_fs s) c'" "cg_nclusterblks c' = cg_nclusterblks (group_at s cg)"
  shows "cg_nclusterblks (group_at (put_group s cg fs' c' n) x) = cg_nclusterblks (group_at s x)"
proof (cases "x = cg")
  case True
  note o = space_okD [OF sp] and pg = put_group_at [OF space_okD(1) [OF sp] ge n, where cg = cg and c' = c']
  have "\<forall>i \<in> {0..<fs_cgsize (d_fs s)}. group_at (put_group s cg fs' c' n) cg i = c' i" using pg(1) by simp
  from group_ok_window(7) [OF o(3) c'(1) this] show ?thesis using c'(2) True by simp
next
  case False
  then show ?thesis using put_group_at(2) [OF space_okD(1) [OF sp] ge n] by simp
qed

lemma taken_put:
  assumes sp: "space_ok s" and cg: "0 \<le> cg" "cg < fs_ncg (d_fs s)" and ge: "geom_eq (d_fs s) fs'"
    and c': "group_ok (d_fs s) c'" "cg_chkmagic c'" "cg_cgx c' = cg"
    and p: "0 \<le> p" "p mod fs_frag (d_fs s) + k \<le> fs_frag (d_fs s)" "p + k \<le> fs_fpg (d_fs s)" "1 \<le> k"
    and F: "\<And>i. p \<le> i \<Longrightarrow> i < p + k \<Longrightarrow> frees (group_at s cg) i"
      "\<And>i. 0 \<le> i \<Longrightarrow> i < fs_fpg (d_fs s) \<Longrightarrow> frees c' i = (frees (group_at s cg) i \<and> \<not> (p \<le> i \<and> i < p + k))"
    and cs: "cs_nbfree (fs_csp fs' cg) = cg_nbfree c'" "cs_nffree (fs_csp fs' cg) = cg_nffree c'"
      "\<And>x. x \<noteq> cg \<Longrightarrow> fs_csp fs' x = fs_csp (d_fs s) x"
      "cs_nbfree (fs_cstotal fs') = cs_nbfree (fs_cstotal (d_fs s)) + (cg_nbfree c' - cg_nbfree (group_at s cg))"
      "cs_nffree (fs_cstotal fs') = cs_nffree (fs_cstotal (d_fs s)) + (cg_nffree c' - cg_nffree (group_at s cg))"
    and nc: "cg_nclusterblks c' = cg_nclusterblks (group_at s cg)"
  shows "taken s (cgbase (d_fs s) cg + p) k (put_group s cg fs' c' (fs_cgsize (d_fs s)))"
proof -
  note o = space_okD [OF sp]
  define n s' where "n = fs_fpg (d_fs s)" and "s' = put_group s cg fs' c' (fs_cgsize (d_fs s))"
  have n: "0 < n" "n mod fs_frag (d_fs s) = 0" using fs_okD(15,16) [OF o(3)] by (simp_all add: n_def)
  have z: "\<not> frees c' 0" if "cg = 0" using F(2) [of 0] o(7) that n(1) by (auto simp: n_def)
  note put = put_group_ok [OF sp cg ge order.refl fs_okD(19) [OF o(3)] c' z cs, folded s'_def n_def]
  have base: "cgbase (d_fs s) cg + p = n * cg + p" by (simp add: cgbase_def n_def)
  have old: "free_frag s b \<longleftrightarrow> frees (group_at s cg) (b mod n)" if "b div n = cg" "0 \<le> b" "b < fs_ncg (d_fs s) * n" for b
    using that by (simp add: free_frag_def n_def)
  note abs = abs_frag [OF p(1,3) [folded n_def], of cg]
  have inr: "0 \<le> b \<and> b < fs_ncg (d_fs s) * n" if "b div n = cg" for b
    using abs_range [OF n(1) cg, of "b mod n"] n(1) div_mult_mod_eq [of b n] that by (auto simp: mult.commute)
  have "free_frag s b" if "n * cg + p \<le> b" "b < n * cg + p + k" for b
    using abs [of b] that inr [of b] old [of b] F(1) by auto
  moreover have "free_frag s' b \<longleftrightarrow> free_frag s b \<and> \<not> (n * cg + p \<le> b \<and> b < n * cg + p + k)" for b
  proof (cases "b div n = cg")
    case True
    then show ?thesis using put(2) [of b] abs [of b] inr [of b] old [of b] F(2) [of "b mod n"] n(1) by (auto simp: n_def)
  next
    case False
    then show ?thesis using put(2) [of b] abs [of b] by (auto simp: free_frag_def n_def)
  qed
  moreover have "(n * cg + p) mod fs_frag (d_fs s) = p mod fs_frag (d_fs s)"
    using n(2) by (metis mod_add_left_eq mod_mult_left_eq mult_zero_left add_0 mod_0)
  moreover have "0 < n * cg + p"
  proof (rule ccontr)
    assume "\<not> 0 < n * cg + p"
    moreover have "0 < n * cg" if "cg \<noteq> 0" using n(1) cg(1) that by (intro mult_pos_pos) auto
    ultimately have "cg = 0 \<and> p = 0" using p(1) by (cases "cg = 0") auto
    then show False using F(1) [of 0] o(7) p(4) by auto
  qed
  moreover have "cg_nclusterblks (group_at s' x) = cg_nclusterblks (group_at s x)" for x
    unfolding s'_def by (rule put_clus [where c' = c', OF sp cg ge order.refl fs_okD(19) [OF o(3)] c'(1) nc])
  ultimately show ?thesis unfolding base s'_def [symmetric] taken_def
    using put(1) ge p(2) by (simp add: s'_def put_group_def)
qed

text \<open>Writing back a group that got the fragments \<open>p ..< p + k\<close>.\<close>

lemma given_put:
  assumes sp: "space_ok s" and cg: "0 \<le> cg" "cg < fs_ncg (d_fs s)" and ge: "geom_eq (d_fs s) fs'"
    and sz: "fs_cgsize (d_fs s) \<le> m" "m \<le> fs_bsize (d_fs s)"
    and c': "group_ok (d_fs s) c'" "cg_chkmagic c'" "cg_cgx c' = cg"
    and p: "0 \<le> p" "p + k \<le> fs_fpg (d_fs s)" "cg = 0 \<Longrightarrow> 0 < p"
    and F: "\<And>i. 0 \<le> i \<Longrightarrow> i < fs_fpg (d_fs s) \<Longrightarrow> frees c' i = (frees (group_at s cg) i \<or> p \<le> i \<and> i < p + k)"
    and cs: "cs_nbfree (fs_csp fs' cg) = cg_nbfree c'" "cs_nffree (fs_csp fs' cg) = cg_nffree c'"
      "\<And>x. x \<noteq> cg \<Longrightarrow> fs_csp fs' x = fs_csp (d_fs s) x"
      "cs_nbfree (fs_cstotal fs') = cs_nbfree (fs_cstotal (d_fs s)) + (cg_nbfree c' - cg_nbfree (group_at s cg))"
      "cs_nffree (fs_cstotal fs') = cs_nffree (fs_cstotal (d_fs s)) + (cg_nffree c' - cg_nffree (group_at s cg))"
    and nc: "cg_nclusterblks c' = cg_nclusterblks (group_at s cg)"
  shows "given s (cgbase (d_fs s) cg + p) k (put_group s cg fs' c' m)"
proof -
  note o = space_okD [OF sp]
  define n s' where "n = fs_fpg (d_fs s)" and "s' = put_group s cg fs' c' m"
  have n: "0 < n" using fs_okD(15) [OF o(3)] by (simp add: n_def)
  have z: "\<not> frees c' 0" if "cg = 0" using F [of 0] o(7) p(3) that n by (auto simp: n_def)
  note put = put_group_ok [OF sp cg ge sz c' z cs, folded s'_def n_def]
  have base: "cgbase (d_fs s) cg + p = n * cg + p" by (simp add: cgbase_def n_def)
  note abs = abs_frag [OF p(1,2) [folded n_def], of cg]
  have "free_frag s' b \<longleftrightarrow> free_frag s b \<or> n * cg + p \<le> b \<and> b < n * cg + p + k" for b
  proof (cases "b div n = cg")
    case True
    then have "0 \<le> b \<and> b < fs_ncg (d_fs s) * n"
      using abs_range [OF n cg, of "b mod n"] n div_mult_mod_eq [of b n] by (auto simp: mult.commute)
    then show ?thesis using put(2) [of b] abs [of b] True F [of "b mod n"] n by (auto simp: free_frag_def n_def)
  next
    case False
    then show ?thesis using put(2) [of b] abs [of b] by (auto simp: free_frag_def n_def)
  qed
  moreover have "cg_nclusterblks (group_at s' x) = cg_nclusterblks (group_at s x)" for x
    unfolding s'_def by (rule put_clus [where c' = c', OF sp cg ge sz c'(1) nc])
  ultimately show ?thesis unfolding base s'_def [symmetric] given_def
    using put(1) ge by (simp add: s'_def put_group_def)
qed

end
