(* ===== verification/Ufs_Space_Alloc.thy ===== *)
theory Ufs_Space_Alloc
  imports Ufs_Space
begin

section \<open>The allocator implements its specification\<close>

text \<open>
  \<open>ufs_alloccg\<close> on a consistent file system: it takes the fragments it returns and nothing
  else, keeps the file system consistent, and gives up only when its group has no room. The
  locale \<open>group_alloc\<close> is the interface through which \<open>ufs_hashalloc\<close> sees the allocator it
  is given.
\<close>

lemma frag_count:
  assumes "fs_ok fs" "0 < sz" "sz \<le> fs_bsize fs" "sz mod fs_fsize fs = 0"
  shows "1 \<le> numfrags fs sz" "numfrags fs sz \<le> fs_frag fs" "numfrags fs sz = fs_frag fs \<longleftrightarrow> sz = fs_bsize fs"
proof -
  note p = fs_ok_pos [OF assms(1)] and b = fs_okD(4) [OF assms(1)]
  have e: "numfrags fs sz * fs_fsize fs = sz" using assms(4) by (simp add: macro_div_mod(2) [OF assms(1)] dvd_eq_mod_eq_0 [symmetric])
  show "1 \<le> numfrags fs sz" using e assms(2) p(2) by (metis int_one_le_iff_zero_less zero_less_mult_pos2)
  have "numfrags fs sz * fs_fsize fs \<le> fs_frag fs * fs_fsize fs" using e b assms(3) by simp
  then show "numfrags fs sz \<le> fs_frag fs" using p(2) by (simp only: mult_le_cancel_right_pos)
  show "numfrags fs sz = fs_frag fs \<longleftrightarrow> sz = fs_bsize fs" using e b p(2) by auto
qed

lemma set_cg_time_misc: "\<forall>i. \<not> misc_byte i \<longrightarrow> set_cg_time c t i = c i"
  by (auto simp: misc_byte_def set_cg_time_def mem_simps)

lemma set_cg_time_rotors: "cg_rotor (set_cg_time c t) = cg_rotor c" "cg_frotor (set_cg_time c t) = cg_frotor c"
  "cg_chkmagic (set_cg_time c t) = cg_chkmagic c" "cg_nclusterblks (set_cg_time c t) = cg_nclusterblks c"
  by (simp_all add: cg_defs mem_simps)

lemma group_time:
  assumes "fs_ok fs" "group_ok fs c"
  shows "group_ok fs (set_cg_time c t)" "\<And>i. 0 \<le> i \<Longrightarrow> frees (set_cg_time c t) i = frees c i"
  using group_ok_misc [OF assms set_cg_time_misc] group_okD(4-7) [OF assms(2)] by (simp_all add: set_cg_time_rotors)

lemma fits_cong: "(\<And>i. 0 \<le> i \<Longrightarrow> F i = G i) \<Longrightarrow> fits fs F k = fits fs G k"
  by (auto simp: fits_def)

text \<open>A whole block.\<close>

lemma alloccg_block_ok:
  assumes sp: "space_ok s" and cg: "0 \<le> cg" "cg < fs_ncg (d_fs s)" and bp: "0 \<le> bpref" and nb: "0 < cg_nbfree (group_at s cg)"
    and e: "ufs_alloccgblk (d_fs s) (set_cg_time (group_at s cg) t) bpref = Some (r, fs', c')"
  shows "taken s r (fs_frag (d_fs s)) (put_group s cg fs' c' (fs_cgsize (d_fs s)))"
proof -
  define fs c where "fs = d_fs s" and "c = set_cg_time (group_at s cg) t"
  note o = space_okD [OF sp] and g = group_sumD [OF space_okD(4) [OF sp cg]]
  note ms = misc_same [OF set_cg_time_misc [of "group_at s cg" t], folded c_def]
  note tm = group_time [OF o(3) g(1), where t = t, folded c_def]
  obtain h where h: "r = cgbase fs (cg_cgx c) + h * fs_frag fs" and t: "took_block fs c h fs' c'"
    using alloccgblk_ok [OF o(3) tm(1) bp] nb e ms(2) unfolding fs_def c_def by auto
  note d = took_blockD [OF t] and hd = took_block_header [OF tm(1) [folded fs_def] t]
  note bs = block_start [OF o(3) [folded fs_def] d(1,2)] and f = frag_blocks [OF o(3), folded fs_def]
  obtain mc where mc: "fs' = (add_nbfree cg (- 1) (fs\<lparr>fs_maxcluster := mc\<rparr>))\<lparr>fs_fmod := 1\<rparr>" using d(4) ms(4) g(3) by auto
  have ge: "geom_eq fs fs'" unfolding mc
    by (rule geom_eq_trans [OF geom_eq_upd(4) geom_eq_trans [OF geom_eq_upd(2) geom_eq_upd(5)]])
  have cm: "cg_chkmagic c'" using g(2) ms(5) hd(4) by (simp add: cg_chkmagic_def)
  have ck: "cg_cgx c' = cg" using ms(4) hd(3) g(3) by simp
  have al: "h * fs_frag fs mod fs_frag fs + fs_frag fs \<le> fs_frag fs" by simp
  have F1: "frees (group_at s cg) i" if "h * fs_frag fs \<le> i" "i < h * fs_frag fs + fs_frag fs" for i
    using d(3) tm(2) [of i] that bs(1) by (auto simp: blk_full_def)
  have F2: "frees c' i = (frees (group_at s cg) i \<and> \<not> (h * fs_frag fs \<le> i \<and> i < h * fs_frag fs + fs_frag fs))"
    if "0 \<le> i" "i < fs_fpg fs" for i
    using d(6) [OF that] tm(2) [OF that(1)] f(1) by (auto simp: blk_range)
  have f1: "1 \<le> fs_frag fs" using f(1) by simp
  have nc: "cg_nclusterblks c' = cg_nclusterblks (group_at s cg)"
    using cg_get_cong(5) [OF hd(1)] cg_get_cong(5) [OF ms(7)] by simp
  note rule = taken_put [OF sp cg, folded fs_def, OF ge took_block_ok [OF o(3) [folded fs_def] tm(1) [folded fs_def] t] cm ck bs(1) al bs(2) f1 F1 F2]
  show ?thesis
    unfolding h ms(4) g(3) fs_def [symmetric]
    by (rule rule) (use nc hd(5) d(7) ms(2,3) g(4,5) in \<open>simp_all add: mc add_nbfree_def fs_def\<close>)
qed

text \<open>Fragments, from a block that is broken up.\<close>

lemma alloccg_split_taken:
  assumes sp: "space_ok s" and cg: "0 \<le> cg" "cg < fs_ncg (d_fs s)" and bp: "0 \<le> bpref" and nb: "0 < cg_nbfree (group_at s cg)"
    and k: "1 \<le> k" "k < fs_frag (d_fs s)"
    and e: "ufs_alloccgblk (d_fs s) (set_cg_time (group_at s cg) t) bpref = Some (r, fs', c')"
  shows "taken s r k (put_group s cg ((add_nffree cg (fs_frag fs' - k) fs')\<lparr>fs_fmod := 1\<rparr>)
     (alloccg_split fs' c' (dtogd fs' r) k) (fs_cgsize (d_fs s)))"
proof -
  define fs c where "fs = d_fs s" and "c = set_cg_time (group_at s cg) t"
  note o = space_okD [OF sp] and g = group_sumD [OF space_okD(4) [OF sp cg]]
  note ms = misc_same [OF set_cg_time_misc [of "group_at s cg" t], folded c_def]
  note tm = group_time [OF o(3) g(1), where t = t, folded c_def]
  obtain h where h: "r = cgbase fs (cg_cgx c) + h * fs_frag fs" and t: "took_block fs c h fs' c'"
    using alloccgblk_ok [OF o(3) tm(1) bp] nb e ms(2) unfolding fs_def c_def by auto
  note d = took_blockD [OF t]
  note bs = block_start [OF o(3) [folded fs_def] d(1,2)] and f = frag_blocks [OF o(3), folded fs_def]
  note sp' = alloccg_split_ok [OF o(3) [folded fs_def] tm(1) [folded fs_def] t k [folded fs_def]]
  obtain mc where mc: "fs' = (add_nbfree cg (- 1) (fs\<lparr>fs_maxcluster := mc\<rparr>))\<lparr>fs_fmod := 1\<rparr>" using d(4) ms(4) g(3) by auto
  have ge1: "geom_eq fs fs'" unfolding mc
    by (rule geom_eq_trans [OF geom_eq_upd(4) geom_eq_trans [OF geom_eq_upd(2) geom_eq_upd(5)]])
  note gd = geom_eqD [OF ge1]
  have "dtogd fs r = h * fs_frag fs"
    using bs cg(1) fs_okD(15) [OF o(3)] by (simp add: dtogd_def h cgbase_def ms(4) g(3) smod_nonneg fs_def)
  then have dt: "dtogd fs' r = h * fs_frag fs" by (simp add: gd)
  define c'' where "c'' = alloccg_split fs' c' (h * fs_frag fs) k"
  have ge: "geom_eq fs ((add_nffree cg (fs_frag fs' - k) fs')\<lparr>fs_fmod := 1\<rparr>)" 
    by (rule geom_eq_trans [OF ge1 geom_eq_trans [OF geom_eq_upd(3) geom_eq_upd(5)]])
  have hd: "ld32 c'' 12 = ld32 c 12" "ld32 c'' 4 = ld32 c 4" "ld32 c'' 112 = ld32 c 112"
    by (rule ld_cong; use sp'(5) group_okD(1) [OF tm(1)] in \<open>auto simp: count_byte_def c''_def\<close>)+
  have cm: "cg_chkmagic c''" "cg_cgx c'' = cg" using g(2,3) ms(4,5) hd by (simp_all add: cg_defs)
  have al: "h * fs_frag fs mod fs_frag fs + k \<le> fs_frag fs" "h * fs_frag fs + k \<le> fs_fpg fs" using k bs(2) by (simp_all add: fs_def)
  have F1: "frees (group_at s cg) i" if "h * fs_frag fs \<le> i" "i < h * fs_frag fs + k" for i
    using d(3) tm(2) [of i] that bs(1) k by (auto simp: blk_full_def fs_def)
  have F2: "frees c'' i = (frees (group_at s cg) i \<and> \<not> (h * fs_frag fs \<le> i \<and> i < h * fs_frag fs + k))"
    if "0 \<le> i" "i < fs_fpg fs" for i
    using sp'(2) [OF that] tm(2) [OF that(1)] by (simp add: c''_def)
  have nc: "cg_nclusterblks c'' = cg_nclusterblks (group_at s cg)"
    using hd(3) cg_get_cong(5) [OF ms(7)] by (simp add: cg_get_defs)
  note rule = taken_put [OF sp cg, folded fs_def, OF ge sp'(1) [folded c''_def] cm bs(1) al k(1) F1 F2]
  show ?thesis
    unfolding h ms(4) g(3) dt [unfolded h ms(4) g(3)] fs_def [symmetric] c''_def [symmetric]
    by (rule rule) (use nc sp'(3,4) [folded c''_def] ms(2,3) g(4,5) in \<open>simp_all add: mc add_nbfree_def add_nffree_def fs_def\<close>)
qed

text \<open>Fragments, from a run.\<close>

lemma alloccg_run_taken:
  assumes sp: "space_ok s" and cg: "0 \<le> cg" "cg < fs_ncg (d_fs s)" and bp: "0 \<le> bpref"
    and k: "1 \<le> k" "k \<le> t" "t < fs_frag (d_fs s)" and fr: "cg_frsum (set_cg_time (group_at s cg) ti) t \<noteq> 0"
  shows "\<exists>bno c'. ffs_mapsearch (d_fs s) (set_cg_time (group_at s cg) ti) bpref t = Some (bno, c') \<and> 0 \<le> bno \<and>
     taken s (cgbase (d_fs s) cg + bno) k
       (put_group s cg ((add_nffree cg (- k) (d_fs s))\<lparr>fs_fmod := 1\<rparr>) (alloccg_frags c' bno k t) (fs_cgsize (d_fs s)))"
proof -
  define fs c where "fs = d_fs s" and "c = set_cg_time (group_at s cg) ti"
  note o = space_okD [OF sp] and g = group_sumD [OF space_okD(4) [OF sp cg]]
  note ok = o(3) [folded fs_def]
  note ms = misc_same [OF set_cg_time_misc [of "group_at s cg" ti], folded c_def]
  note tm = group_time [OF o(3) g(1), where t = ti, folded c_def fs_def]
  note gg = group_okD [OF tm(1)] and f = frag_blocks [OF ok]
  note k' = k [folded fs_def]
  have t1: "t \<in> {1..<fs_frag fs}" "1 \<le> t" "t \<le> fs_frag fs" using k' by auto
  obtain h i where hi: "0 \<le> h" "h < nblocks fs" "mrun (frees c) (h * fs_frag fs) (h * fs_frag fs + fs_frag fs) t i"
    using ex_run [OF gg(8) t1(1)] fr unfolding c_def by blast
  have ir: "h * fs_frag fs \<le> i" "i < h * fs_frag fs + fs_frag fs" "i div fs_frag fs = h" "0 \<le> i" "i < fs_fpg fs"
    using mrunD(1,2) [OF hi(3)] t1(2) f(1) block_start [OF ok hi(1,2)] by (auto simp: blk_range)
  have run: "free_run fs c (cg_freeoff c) t i" using hi(3) ir(3) by (simp add: free_run_mrun [OF ok])
  have a48: "48 \<le> cg_freeoff c" using gg(1) by simp
  obtain bno y where m: "ffs_mapsearch fs c bpref t = Some (bno, set_frotor c (8 * y))"
    "0 \<le> y" "8 * y < fs_fpg fs" "0 \<le> bno" "bno + t \<le> fs_fpg fs"
    using mapsearch_complete [OF frag_valid_ok [OF ok] t1(2,3) a48 fs_okD(15,17) [OF ok]
        search_start_range [OF ok gg(6,7) bp] ir(4,5) run] by blast
  note found = mapsearch_found [OF frag_valid_ok [OF ok] t1(2,3) a48 m(1,4)]
  define c1 where "c1 = set_frotor c (8 * y)"
  have ms1: "\<forall>i. \<not> misc_byte i \<longrightarrow> c1 i = c i" by (auto simp: c1_def cg_set_defs misc_byte_def mem_simps)
  have rt: "cg_rotor c1 = cg_rotor c" "cg_frotor c1 = 8 * y"
    using m(2,3) gg(3) by (simp_all add: c1_def cg_defs mem_simps s32_id)
  have c1: "group_ok fs c1" "\<And>i. 0 \<le> i \<Longrightarrow> frees c1 i = frees c i"
    using group_ok_misc [OF ok tm(1) ms1] rt m(2,3) gg(4,5) by auto
  note sm = misc_same [OF ms1]
  have found1: "free_run fs c1 (cg_freeoff c1) t bno"
  proof -
    have bm: "0 \<le> bno mod fs_frag fs" "bno = bno div fs_frag fs * fs_frag fs + bno mod fs_frag fs" using f(1) by simp_all
    have "0 \<le> bno div fs_frag fs" using m(4) f(1) by (simp add: pos_imp_zdiv_nonneg_iff)
    then have b0: "0 \<le> bno div fs_frag fs * fs_frag fs" using f(1) by simp
    show ?thesis using found c1(2) mrun_cong [of "bno div fs_frag fs * fs_frag fs" _ "frees c1" "frees c" t] b0 t1(2)
      unfolding free_run_mrun [OF ok] by (metis order.trans)
  qed
  have bno: "bno < fs_fpg fs" using m(5) t1(2) by simp
  note af = alloccg_frags_ok [OF ok c1(1) found1 m(4) bno k']
  define c' where "c' = alloccg_frags c1 bno k t"
  have hd: "ld32 c' 12 = ld32 c1 12" "ld32 c' 4 = ld32 c1 4" "ld32 c' 112 = ld32 c1 112"
    by (rule ld_cong; use af(5) group_okD(1) [OF c1(1)] in \<open>auto simp: count_byte_def c'_def\<close>)+
  have ge: "geom_eq fs ((add_nffree cg (- k) fs)\<lparr>fs_fmod := 1\<rparr>)"
    by (rule geom_eq_trans [OF geom_eq_upd(3) geom_eq_upd(5)])
  have cm: "cg_chkmagic c'" "cg_cgx c' = cg" using g(2,3) ms(4,5) sm(4,5) hd by (simp_all add: cg_defs)
  have al: "bno mod fs_frag fs + k \<le> fs_frag fs" "bno + k \<le> fs_fpg fs" using found k' m(5) by (simp_all add: free_run_def)
  have F1: "frees (group_at s cg) i" if "bno \<le> i" "i < bno + k" for i
    using mrunD(3) [OF found [unfolded free_run_mrun [OF ok]]] that k' tm(2) [of i] m(4) by auto
  have F2: "frees c' i = (frees (group_at s cg) i \<and> \<not> (bno \<le> i \<and> i < bno + k))" if "0 \<le> i" "i < fs_fpg fs" for i
    using af(2) [OF that] c1(2) [OF that(1)] tm(2) [OF that(1)] by (simp add: c'_def)
  have nc: "cg_nclusterblks c' = cg_nclusterblks (group_at s cg)"
    using hd(3) cg_get_cong(5) [OF ms(7)] cg_get_cong(5) [OF sm(7)] by (simp add: cg_get_defs)
  note rule = taken_put [OF sp cg, folded fs_def, OF ge af(1) [folded c'_def] cm m(4) al k(1) F1 F2]
  have "taken s (cgbase fs cg + bno) k (put_group s cg ((add_nffree cg (- k) fs)\<lparr>fs_fmod := 1\<rparr>) c' (fs_cgsize fs))"
    by (rule rule) (use nc af(3,4) [folded c'_def] ms(2,3) sm(2,3) g(4,5) in \<open>simp_all add: add_nffree_def fs_def\<close>)
  then show ?thesis using m(1,4) unfolding c'_def c1_def fs_def c_def by blast
qed

lemma clusteracct_geom: "ffs_clusteracct fs c h k = (fs', c') \<Longrightarrow> geom_eq fs fs'"
  by (auto simp: ffs_clusteracct_def Let_def geom_eq_upd split: if_splits)

lemma gotit_geom: "alloccgblk_gotit fs c b = (r, fs', c') \<Longrightarrow> geom_eq fs fs'"
  unfolding alloccgblk_gotit_def Let_def
  by (auto split: prod.splits dest!: clusteracct_geom intro: geom_eq_trans [OF _ geom_eq_trans [OF geom_eq_upd(2) geom_eq_upd(5)]])

lemma alloccgblk_geom: "ufs_alloccgblk fs c b = Some (r, fs', c') \<Longrightarrow> geom_eq fs fs'"
  unfolding ufs_alloccgblk_def Let_def
  by (auto split: if_splits option.splits bind_splits dest: gotit_geom simp: geom_eq_upd)

text \<open>\<open>ufs_alloccg\<close> on a consistent disk: the group is read, and the early returns are those for
  want of space.\<close>

lemma alloccg_unfold:
  assumes sp: "space_ok s" and cg: "0 \<le> cg" "cg < fs_ncg (d_fs s)"
  defines "fs \<equiv> d_fs s" and "c \<equiv> set_cg_time (group_at s cg) (env_time s)"
  shows "ufs_alloccg cg bpref sz s =
    (if sz = fs_bsize fs then
       if cg_nbfree (group_at s cg) = 0 then Some (0, s)
       else do {
         (blkno, fs', cgp) \<leftarrow> ufs_alloccgblk fs c bpref;
         Some (blkno, put_group s cg fs' cgp (fs_cgsize fs'))
       }
     else
       let frags = numfrags fs sz; allocsiz = alloc_size c frags (fs_frag fs)
       in if allocsiz = fs_frag fs then
            if cg_nbfree (group_at s cg) = 0 then Some (0, s)
            else do {
              (blkno, fs', cgp) \<leftarrow> ufs_alloccgblk fs c bpref;
              Some (blkno, put_group s cg ((add_nffree cg (fs_frag fs' - frags) fs')\<lparr>fs_fmod := 1\<rparr>)
                (alloccg_split fs' cgp (dtogd fs' blkno) frags) (fs_cgsize fs'))
            }
          else do {
            (bno, cgp) \<leftarrow> ffs_mapsearch fs c bpref allocsiz;
            if bno < 0 then Some (0, s)
            else Some (cgbase fs cg + bno, put_group s cg ((add_nffree cg (- frags) fs)\<lparr>fs_fmod := 1\<rparr>)
                   (alloccg_frags cgp bno frags allocsiz) (fs_cgsize fs))
          })"
proof -
  note o = space_okD [OF sp] and g = group_sumD [OF space_okD(4) [OF sp cg]]
  note rd = read_group [OF sp cg(1), folded fs_def]
  have wr: "snd (blkwrite (fsbtodb fs (cgtod fs cg)) c' n (s\<lparr>d_fs := fs'\<rparr>)) = put_group s cg fs' c' n" if "0 < n" for c' n fs'
    using write_group [OF sp cg(1) that] by (simp add: fs_def)
  have sz: "fs_cgsize fs \<noteq> - 1" "0 < fs_cgsize fs" using fs_okD(18) [OF o(3)] by (auto simp: fs_def)
  have cz: "fs_cgsize fs' = fs_cgsize fs" if "ufs_alloccgblk fs c bpref = Some (r, fs', c')" for r fs' c'
    using alloccgblk_geom [OF that] by (rule geom_eqD)
  have blk: "(do {
         (blkno, fs', cgp) \<leftarrow> ufs_alloccgblk fs c bpref;
         Some (f blkno fs' cgp, snd (blkwrite (fsbtodb fs (cgtod fs cg)) (h blkno fs' cgp) (fs_cgsize (e fs')) (s\<lparr>d_fs := e fs'\<rparr>)))
       }) = (do {
         (blkno, fs', cgp) \<leftarrow> ufs_alloccgblk fs c bpref;
         Some (f blkno fs' cgp, put_group s cg (e fs') (h blkno fs' cgp) (fs_cgsize fs'))
       })" if "\<And>x. fs_cgsize (e x) = fs_cgsize x" for f :: "int \<Rightarrow> fs \<Rightarrow> mem \<Rightarrow> int" and h e
    by (cases "ufs_alloccgblk fs c bpref") (use cz sz that wr in \<open>auto\<close>)
  have e1: "fs_cgsize ((add_nffree cg k fs')\<lparr>fs_fmod := 1\<rparr>) = fs_cgsize fs'" for k fs' by (simp add: add_nffree_def)
  have cb: "cgbase ((add_nffree cg k fs')\<lparr>fs_fmod := 1\<rparr>) = cgbase fs'" for k fs'
    by (simp add: add_nffree_def cgbase_def fun_eq_iff)
  have nb: "cg_nbfree c = cg_nbfree (group_at s cg)" unfolding c_def by (rule misc_same(2) [OF set_cg_time_misc])
  show ?thesis
    unfolding ufs_alloccg_def Let_def fs_def [symmetric] rd prod.case c_def [symmetric]
      blk [of "\<lambda>x. x" "\<lambda>r f c. r" "\<lambda>r f c. c", simplified]
    using g(2,4) sz io_ok_mem [OF o(2)] 
    by (simp add: fs_def [symmetric] nb e1 cb wr)
      (auto simp: e1 cb wr cz intro!: Option.bind_cong split: prod.splits)
qed

text \<open>What a call of the group allocator achieves: nothing when the group has no room, and then the
  state is unchanged; otherwise the fragments are taken.\<close>

definition alloc_result :: "uufsd \<Rightarrow> int \<Rightarrow> int \<Rightarrow> (int \<times> uufsd) option \<Rightarrow> bool" where
  "alloc_result s cg k res \<longleftrightarrow> (case res of None \<Rightarrow> False
     | Some (r, s') \<Rightarrow> if r = 0 then s' = s \<and> \<not> fits (d_fs s) (frees (group_at s cg)) k else taken s r k s')"

lemma alloc_resultI:
  "taken s r k s' \<Longrightarrow> res = Some (r, s') \<Longrightarrow> alloc_result s cg k res"
  "\<not> fits (d_fs s) (frees (group_at s cg)) k \<Longrightarrow> res = Some (0, s) \<Longrightarrow> alloc_result s cg k res"
  by (auto simp: alloc_result_def taken_def)

lemma alloc_resultD:
  "alloc_result s cg k res \<Longrightarrow> \<exists>r s'. res = Some (r, s') \<and>
     (r = 0 \<longrightarrow> s' = s \<and> \<not> fits (d_fs s) (frees (group_at s cg)) k) \<and> (r \<noteq> 0 \<longrightarrow> taken s r k s')"
  unfolding alloc_result_def by (cases res) (auto split: if_splits)

lemma group_room:
  assumes "space_ok s" "0 \<le> cg" "cg < fs_ncg (d_fs s)"
  shows "0 \<le> cg_nbfree (group_at s cg)"
    "1 \<le> k \<Longrightarrow> cg_nbfree (group_at s cg) = 0 \<Longrightarrow>
     (\<And>t. k \<le> t \<Longrightarrow> t < fs_frag (d_fs s) \<Longrightarrow> cg_frsum (group_at s cg) t = 0) \<Longrightarrow>
     \<not> fits (d_fs s) (frees (group_at s cg)) k"
proof -
  note o = space_okD [OF assms(1)] and g = group_sumD [OF space_okD(4) [OF assms]]
  note c = group_okD(8) [OF g(1)]
  show "0 \<le> cg_nbfree (group_at s cg)" using counts_bounds(1) [OF c] frag_blocks [OF o(3)] by simp
  show "\<not> fits (d_fs s) (frees (group_at s cg)) k" if "1 \<le> k" "cg_nbfree (group_at s cg) = 0"
    "\<And>t. k \<le> t \<Longrightarrow> t < fs_frag (d_fs s) \<Longrightarrow> cg_frsum (group_at s cg) t = 0"
    using fits_counts [OF o(3) that(1) c that(2)] that(3) by blast
qed

lemma alloccgblk_some:
  assumes "space_ok s" "0 \<le> cg" "cg < fs_ncg (d_fs s)" "0 \<le> bpref" "cg_nbfree (group_at s cg) \<noteq> 0"
  obtains r fs' c' where "ufs_alloccgblk (d_fs s) (set_cg_time (group_at s cg) t) bpref = Some (r, fs', c')"
    "fs_cgsize fs' = fs_cgsize (d_fs s)"
proof -
  note o = space_okD [OF assms(1)] and g = group_sumD [OF space_okD(4) [OF assms(1-3)]]
  have "0 < cg_nbfree (set_cg_time (group_at s cg) t)"
    using group_room(1) [OF assms(1-3)] assms(5) misc_same(2) [OF set_cg_time_misc] by simp
  from alloccgblk_ok [OF o(3) group_time(1) [OF o(3) g(1)] assms(4) this]
  show thesis using that geom_eqD(17) [OF alloccgblk_geom] by blast
qed

lemma alloccg_full:
  assumes sp: "space_ok s" and cg: "0 \<le> cg" "cg < fs_ncg (d_fs s)" and bp: "0 \<le> bpref"
  shows "alloc_result s cg (fs_frag (d_fs s)) (ufs_alloccg cg bpref (fs_bsize (d_fs s)) s)"
proof (cases "cg_nbfree (group_at s cg) = 0")
  case True
  have "1 \<le> fs_frag (d_fs s)" using frag_blocks(1) [OF space_okD(3) [OF sp]] by simp
  then show ?thesis
    using True by (intro alloc_resultI(2) group_room(2) [OF sp cg]) (simp_all add: alloccg_unfold [OF sp cg])
next
  case False
  then have nb: "0 < cg_nbfree (group_at s cg)" using group_room(1) [OF sp cg] by simp
  obtain r fs' c' where e: "ufs_alloccgblk (d_fs s) (set_cg_time (group_at s cg) (env_time s)) bpref = Some (r, fs', c')"
    "fs_cgsize fs' = fs_cgsize (d_fs s)" by (rule alloccgblk_some [OF sp cg bp False])
  show ?thesis
    by (rule alloc_resultI(1) [OF alloccg_block_ok [OF sp cg bp nb e(1)]])
      (use e False in \<open>simp add: alloccg_unfold [OF sp cg]\<close>)
qed

lemma alloccg_part:
  assumes sp: "space_ok s" and cg: "0 \<le> cg" "cg < fs_ncg (d_fs s)" and bp: "0 \<le> bpref"
    and k: "1 \<le> numfrags (d_fs s) sz" "numfrags (d_fs s) sz < fs_frag (d_fs s)" and sz: "sz \<noteq> fs_bsize (d_fs s)"
  shows "alloc_result s cg (numfrags (d_fs s) sz) (ufs_alloccg cg bpref sz s)"
proof -
  define fs k where "fs = d_fs s" and "k = numfrags fs sz"
  define c where "c = set_cg_time (group_at s cg) (env_time s)"
  note kk = k [folded fs_def, folded k_def]
  define a where "a = alloc_size c k (fs_frag fs)"
  have as: "k \<le> a" "a \<le> fs_frag fs" "a < fs_frag fs \<Longrightarrow> cg_frsum c a \<noteq> 0" "\<And>t. k \<le> t \<Longrightarrow> t < a \<Longrightarrow> cg_frsum c t = 0"
    using alloc_size_spec [OF less_imp_le [OF kk(2)], of c] by (simp_all add: Let_def a_def)
  have fe: "cg_frsum c t = cg_frsum (group_at s cg) t" if "k \<le> t" "t < fs_frag fs" for t
    using misc_same(6) [OF set_cg_time_misc [of "group_at s cg" "env_time s"], of t] that kk(1)
      fs_okD(5) [OF space_okD(3) [OF sp]] by (auto simp: fs_def c_def)
  note unf = alloccg_unfold [OF sp cg, of bpref sz, folded fs_def, folded k_def c_def, unfolded Let_def, folded a_def, folded k_def, folded a_def]
  show ?thesis unfolding fs_def [symmetric] k_def [symmetric]
  proof (cases "a = fs_frag fs")
    case True
    show "alloc_result s cg k (ufs_alloccg cg bpref sz s)"
    proof (cases "cg_nbfree (group_at s cg) = 0")
      case nb: True
      show ?thesis
        by (rule alloc_resultI(2) [OF group_room(2) [OF sp cg kk(1) nb]])
          (use as(4) fe True nb sz in \<open>simp_all add: unf fs_def\<close>)
    next
      case nb: False
      then have np: "0 < cg_nbfree (group_at s cg)" using group_room(1) [OF sp cg] by simp
      obtain r fs' c' where e: "ufs_alloccgblk fs c bpref = Some (r, fs', c')" "fs_cgsize fs' = fs_cgsize fs"
        unfolding fs_def c_def by (rule alloccgblk_some [OF sp cg bp nb])
      show ?thesis
        by (rule alloc_resultI(1) [OF alloccg_split_taken [OF sp cg bp np kk [unfolded fs_def] e(1) [unfolded fs_def c_def]]])
          (use e nb True sz in \<open>simp add: unf fs_def\<close>)
    qed
  next
    case False
    then have al: "a < fs_frag fs" using as(2) by simp
    obtain bno c' where m: "ffs_mapsearch fs c bpref a = Some (bno, c')" "0 \<le> bno"
      and tk: "taken s (cgbase fs cg + bno) k
        (put_group s cg ((add_nffree cg (- k) fs)\<lparr>fs_fmod := 1\<rparr>) (alloccg_frags c' bno k a) (fs_cgsize fs))"
      using alloccg_run_taken [OF sp cg bp kk(1) as(1) al [unfolded fs_def], of "env_time s"] as(3) [OF al]
      unfolding fs_def c_def by blast
    show "alloc_result s cg k (ufs_alloccg cg bpref sz s)"
      by (rule alloc_resultI(1) [OF tk]) (use m False sz in \<open>simp add: unf fs_def\<close>)
  qed
qed

lemma alloccg_step:
  assumes "space_ok s" "0 \<le> cg" "cg < fs_ncg (d_fs s)" "0 \<le> bpref"
    "0 < sz" "sz \<le> fs_bsize (d_fs s)" "sz mod fs_fsize (d_fs s) = 0"
  shows "alloc_result s cg (numfrags (d_fs s) sz) (ufs_alloccg cg bpref sz s)"
  using alloccg_full [OF assms(1-4)] alloccg_part [OF assms(1-4), of sz]
    frag_count [OF space_okD(3) [OF assms(1)] assms(5-7)]
  by (cases "sz = fs_bsize (d_fs s)") auto

subsection \<open>Trying the groups\<close>

lemma all_groups:
  assumes cg: "0 \<le> cg" "cg < ncg" and "\<not> P cg"
    and nxt: "1 < ncg \<longrightarrow> \<not> P (if cg + 1 \<ge> ncg then cg + 1 - ncg else cg + 1)"
    and rest: "\<forall>j. 0 \<le> j \<longrightarrow> j < ncg - 2 \<longrightarrow> \<not> P (((cg + 2) mod ncg + j) mod ncg)"
    and x: "0 \<le> x" "x < (ncg :: int)"
  shows "\<not> P x"
proof -
  define j where "j = (x - cg) mod ncg"
  have j: "0 \<le> j" "j < ncg" using x by (simp_all add: j_def)
  have xj: "x = (cg + j) mod ncg" unfolding j_def mod_add_right_eq using x by simp
  consider "j = 0" | "j = 1" | "2 \<le> j" using j by linarith
  then show ?thesis
  proof cases
    case 1
    then show ?thesis using assms(3) xj cg by simp
  next
    case 2
    have "x = (cg + 1) mod ncg" using xj 2 by simp
    also have "\<dots> = (if cg + 1 \<ge> ncg then cg + 1 - ncg else cg + 1)"
    proof (cases "cg + 1 = ncg")
      case False
      then have "cg + 1 < ncg" using cg by simp
      then show ?thesis using cg by simp
    qed simp
    finally show ?thesis using nxt 2 j by simp
  next
    case 3
    have "((cg + 2) mod ncg + (j - 2)) mod ncg = x" unfolding xj by (simp add: mod_add_left_eq)
    then show ?thesis using rest [rule_format, of "j - 2"] 3 j by simp
  qed
qed

text \<open>
  The interface between \<open>ufs_hashalloc\<close> and the allocator of one group it is given: the
  allocator always returns; a result of zero means the group has no room and leaves the state as
  it was, any other result achieves \<open>post\<close>. Under it \<open>ufs_hashalloc\<close> returns, and it reports
  failure only when no group of the file system has room.
\<close>

locale group_alloc =
  fixes alloc :: allocfunc and sz :: int and inv :: "uufsd \<Rightarrow> bool"
    and room :: "uufsd \<Rightarrow> int \<Rightarrow> bool" and post :: "uufsd \<Rightarrow> int \<Rightarrow> uufsd \<Rightarrow> bool"
  assumes step: "inv s \<Longrightarrow> 0 \<le> cg \<Longrightarrow> cg < fs_ncg (d_fs s) \<Longrightarrow> 0 \<le> pref \<Longrightarrow>
    \<exists>r s'. alloc cg pref sz s = Some (r, s') \<and> (r = 0 \<longrightarrow> s' = s \<and> \<not> room s cg) \<and> (r \<noteq> 0 \<longrightarrow> post s r s')"
begin

lemma step_cases:
  assumes "inv s" "0 \<le> cg" "cg < fs_ncg (d_fs s)" "0 \<le> pref"
  obtains "alloc cg pref sz s = Some (0, s)" "\<not> room s cg"
  | r s' where "alloc cg pref sz s = Some (r, s')" "r \<noteq> 0" "post s r s'"
  using step [OF assms] by blast

lemma rehash:
  assumes "inv s" "ncg = fs_ncg (d_fs s)" "0 \<le> cg" "cg < ncg"
  shows "\<exists>r s'. hash_rehash alloc ncg sz cg i s = Some (r, s') \<and>
    (r = 0 \<longrightarrow> s' = s \<and> (0 < i \<longrightarrow> i < ncg \<longrightarrow> \<not> room s (if cg + i \<ge> ncg then cg + i - ncg else cg + i))) \<and>
    (r \<noteq> 0 \<longrightarrow> post s r s')"
  using assms(3,4)
proof (induction "nat (ncg - i)" arbitrary: cg i rule: less_induct)
  case less
  show ?case
  proof (cases "i < ncg \<and> 0 < i")
    case True
    define c where "c = (if cg + i \<ge> ncg then cg + i - ncg else cg + i)"
    have c: "0 \<le> c" "c < ncg" using less(2,3) True by (auto simp: c_def)
    have unf: "hash_rehash alloc ncg sz cg i s = (case alloc c 0 sz s of None \<Rightarrow> None
        | Some (result, s) \<Rightarrow> if result \<noteq> 0 then Some (result, s) else hash_rehash alloc ncg sz c (i * 2) s)"
      using True hash_rehash.simps [of alloc ncg sz cg i s] by (simp only: c_def [symmetric] Let_def if_True simp_thms)
    show ?thesis
    proof (cases rule: step_cases [OF assms(1) c(1) c(2) [unfolded assms(2)] order.refl])
      case 1
      obtain r s' where "hash_rehash alloc ncg sz c (i * 2) s = Some (r, s')" "r = 0 \<longrightarrow> s' = s" "r \<noteq> 0 \<longrightarrow> post s r s'"
        using less(1) [of "i * 2" c] True c by auto
      then show ?thesis using unf 1 by (auto simp: c_def)
    next
      case (2 r s')
      then show ?thesis using unf by auto
    qed
  next
    case False
    then show ?thesis by (subst hash_rehash.simps) auto
  qed
qed

lemma brute:
  assumes "inv s" "ncg = fs_ncg (d_fs s)" "0 \<le> cg" "cg < ncg"
  shows "\<exists>r s'. hash_brute alloc ncg sz cg i s = Some (r, s') \<and>
    (r = 0 \<longrightarrow> s' = s \<and> (\<forall>j. 0 \<le> j \<longrightarrow> j < ncg - i \<longrightarrow> \<not> room s ((cg + j) mod ncg))) \<and>
    (r \<noteq> 0 \<longrightarrow> post s r s')"
  using assms(3,4)
proof (induction "nat (ncg - i)" arbitrary: cg i rule: less_induct)
  case less
  show ?case
  proof (cases "i < ncg")
    case True
    define c where "c = (if cg + 1 = ncg then 0 else cg + 1)"
    have c: "0 \<le> c" "c < ncg" "c = (cg + 1) mod ncg" using less(2,3) by (auto simp: c_def)
    have unf: "hash_brute alloc ncg sz cg i s = (case alloc cg 0 sz s of None \<Rightarrow> None
        | Some (result, s) \<Rightarrow> if result \<noteq> 0 then Some (result, s) else hash_brute alloc ncg sz c (i + 1) s)"
      using True hash_brute.simps [of alloc ncg sz cg i s] by (simp only: c_def [symmetric] if_True simp_thms)
    show ?thesis
    proof (cases rule: step_cases [OF assms(1) less(2) less(3) [unfolded assms(2)] order.refl])
      case 1
      obtain r s' where IH: "hash_brute alloc ncg sz c (i + 1) s = Some (r, s')" "r \<noteq> 0 \<longrightarrow> post s r s'"
        "r = 0 \<longrightarrow> s' = s \<and> (\<forall>j. 0 \<le> j \<longrightarrow> j < ncg - (i + 1) \<longrightarrow> \<not> room s ((c + j) mod ncg))"
        using less(1) [of "i + 1" c] True c by auto
      have "\<not> room s ((cg + j) mod ncg)" if "r = 0" "0 \<le> j" "j < ncg - i" for j
      proof (cases "j = 0")
        case False
        then have "\<not> room s ((c + (j - 1)) mod ncg)" using IH(3) that by auto
        moreover have "(c + (j - 1)) mod ncg = (cg + j) mod ncg" unfolding c(3) by (simp add: mod_add_left_eq)
        ultimately show ?thesis by simp
      qed (use 1 less(2,3) in simp)
      then show ?thesis using unf 1 IH by auto
    next
      case (2 r s')
      then show ?thesis using unf by auto
    qed
  next
    case False
    then show ?thesis by (subst hash_brute.simps) auto
  qed
qed

lemma hashalloc:
  assumes "inv s" "0 \<le> cg" "cg < fs_ncg (d_fs s)" "0 \<le> pref"
  shows "\<exists>r s'. ufs_hashalloc cg pref sz alloc s = Some (r, s') \<and>
    (r = 0 \<longrightarrow> s' = s \<and> (\<forall>c. 0 \<le> c \<longrightarrow> c < fs_ncg (d_fs s) \<longrightarrow> \<not> room s c)) \<and> (r \<noteq> 0 \<longrightarrow> post s r s')"
proof -
  define ncg where "ncg = fs_ncg (d_fs s)"
  have c: "0 < ncg" "0 \<le> (cg + 2) mod ncg" "(cg + 2) mod ncg < ncg" "cg < ncg" using assms(2,3) by (auto simp: ncg_def)
  have sm: "(cg + 2) smod ncg = (cg + 2) mod ncg" using assms(2) c(1) by (simp add: smod_nonneg)
  note unf = ufs_hashalloc_def [of cg pref sz alloc s, unfolded Let_def, folded ncg_def, unfolded sm]
  show ?thesis
  proof (cases rule: step_cases [OF assms])
    case 1
    obtain r s' where r: "hash_rehash alloc ncg sz cg 1 s = Some (r, s')" "r \<noteq> 0 \<longrightarrow> post s r s'"
      "r = 0 \<longrightarrow> s' = s \<and> (1 < ncg \<longrightarrow> \<not> room s (if cg + 1 \<ge> ncg then cg + 1 - ncg else cg + 1))"
      using rehash [OF assms(1) ncg_def assms(2) c(4), of 1] by auto
    show ?thesis
    proof (cases "r = 0")
      case True
      obtain r2 s2 where b: "hash_brute alloc ncg sz ((cg + 2) mod ncg) 2 s = Some (r2, s2)" "r2 \<noteq> 0 \<longrightarrow> post s r2 s2"
        "r2 = 0 \<longrightarrow> s2 = s \<and> (\<forall>j. 0 \<le> j \<longrightarrow> j < ncg - 2 \<longrightarrow> \<not> room s (((cg + 2) mod ncg + j) mod ncg))"
        using brute [OF assms(1) ncg_def c(2,3), of 2] by auto
      have e: "ufs_hashalloc cg pref sz alloc s = Some (r2, s2)" using 1 r True b by (simp add: unf)
      have "\<not> room s x" if "r2 = 0" "0 \<le> x" "x < ncg" for x
        by (rule all_groups [where P = "room s", OF assms(2) c(4) 1(2)]) (use r True b that in auto)
      then show ?thesis using e b unfolding ncg_def by blast
    next
      case False
      then have "ufs_hashalloc cg pref sz alloc s = Some (r, s')" using 1 r by (simp add: unf)
      then show ?thesis using r False by blast
    qed
  next
    case (2 r s')
    then have "ufs_hashalloc cg pref sz alloc s = Some (r, s')" by (simp add: unf)
    then show ?thesis using 2 by blast
  qed
qed

end

interpretation blk: group_alloc ufs_alloccg sz
  "\<lambda>s. space_ok s \<and> 0 < sz \<and> sz \<le> fs_bsize (d_fs s) \<and> sz mod fs_fsize (d_fs s) = 0"
  "\<lambda>s cg. fits (d_fs s) (frees (group_at s cg)) (numfrags (d_fs s) sz)"
  "\<lambda>s r s'. taken s r (numfrags (d_fs s) sz) s'" for sz
proof
  fix s and cg pref :: int
  assume "space_ok s \<and> 0 < sz \<and> sz \<le> fs_bsize (d_fs s) \<and> sz mod fs_fsize (d_fs s) = 0" "0 \<le> cg" "cg < fs_ncg (d_fs s)" "0 \<le> pref"
  then have "alloc_result s cg (numfrags (d_fs s) sz) (ufs_alloccg cg pref sz s)"
    by (intro alloccg_step) simp_all
  then show "\<exists>r s'. ufs_alloccg cg pref sz s = Some (r, s') \<and>
      (r = 0 \<longrightarrow> s' = s \<and> \<not> fits (d_fs s) (frees (group_at s cg)) (numfrags (d_fs s) sz)) \<and>
      (r \<noteq> 0 \<longrightarrow> taken s r (numfrags (d_fs s) sz) s')"
    by (rule alloc_resultD)
qed

end
