(* ===== verification/Ufs_Space_Free.thy ===== *)
theory Ufs_Space_Free
  imports Ufs_Space_Alloc
begin

section \<open>Releasing blocks, and the properties of the allocator\<close>

text \<open>
  \<open>ufs_block_free\<close> against \<open>given\<close>, the abstract specification of \<open>ufs_block_alloc\<close>, and a
  sample file system on which the properties are applied.
\<close>

subsection \<open>Releasing\<close>

text \<open>A block that becomes entirely free when the fragments \<open>r ..< r + k\<close> are returned belongs to
  the cluster map of its group.\<close>

definition reclaim_ok :: "uufsd \<Rightarrow> int \<Rightarrow> int \<Rightarrow> bool" where
  "reclaim_ok s r k \<longleftrightarrow>
     (let n = fs_fpg (d_fs s); f = fs_frag (d_fs s); c = group_at s (r div n); p = r mod n
      in 0 < fs_contigsumsize (d_fs s) \<longrightarrow>
         blk_full f (\<lambda>i. frees c i \<or> p \<le> i \<and> i < p + k) (p div f) \<longrightarrow> p div f < cg_nclusterblks c)"

lemma free_frag_group:
  assumes "space_ok s" "0 \<le> cg" "cg < fs_ncg (d_fs s)" "0 \<le> i" "i < fs_fpg (d_fs s)"
  shows "free_frag s (fs_fpg (d_fs s) * cg + i) = frees (group_at s cg) i"
  using abs_range [of "fs_fpg (d_fs s)" cg "fs_ncg (d_fs s)" i] assms by (simp add: free_frag_def)

lemma mod_frag:
  assumes "fs_ok fs"
  shows "r mod fs_fpg fs mod fs_frag fs = r mod fs_frag fs"
proof -
  have "fs_frag fs dvd fs_fpg fs" using fs_okD(16) [OF assms] by (simp add: dvd_eq_mod_eq_0)
  then show ?thesis by (rule mod_mod_cancel)
qed

lemma group_range:
  assumes "fs_ok fs" "0 \<le> r" "r < fs_ncg fs * fs_fpg fs" "r mod fs_frag fs + k \<le> fs_frag fs"
  defines "cg \<equiv> r div fs_fpg fs" and "p \<equiv> r mod fs_fpg fs"
  shows "0 \<le> cg" "cg < fs_ncg fs" "0 \<le> p" "p < fs_fpg fs" "r = cgbase fs cg + p" "dtog fs r = cg" "dtogd fs r = p"
    "p div fs_frag fs * fs_frag fs \<le> p" "p + k \<le> p div fs_frag fs * fs_frag fs + fs_frag fs" "p + k \<le> fs_fpg fs"
proof -
  have n: "0 < fs_fpg fs" using fs_okD(15) [OF assms(1)] .
  show "0 \<le> cg" using assms(2) n by (simp add: cg_def pos_imp_zdiv_nonneg_iff)
  show "cg < fs_ncg fs" 
    using assms(3) n pos_mod_sign [OF n, of r] div_mult_mod_eq [of r "fs_fpg fs"]
    by (metis cg_def add_increasing2 linorder_not_le mult_right_mono less_imp_le order.strict_trans2 order.refl)
  show pr: "0 \<le> p" "p < fs_fpg fs" using n by (simp_all add: p_def)
  show "r = cgbase fs cg + p" by (simp add: cgbase_def cg_def p_def)
  show "dtog fs r = cg" "dtogd fs r = p" using assms(2) n by (simp_all add: dtog_def dtogd_def sdiv_nonneg smod_nonneg cg_def p_def)
  have f: "0 < fs_frag fs" using fs_ok_pos(3) [OF assms(1)] .
  have "p mod fs_frag fs = r mod fs_frag fs" unfolding p_def by (rule mod_frag [OF assms(1)])
  then show "p div fs_frag fs * fs_frag fs \<le> p" and pk: "p + k \<le> p div fs_frag fs * fs_frag fs + fs_frag fs"
    using assms(4) div_mult_mod_eq [of p "fs_frag fs"] pos_mod_sign [OF f, of p] by linarith+
  have "p div fs_frag fs * fs_frag fs + fs_frag fs \<le> fs_fpg fs"
    using block_start(2) [OF assms(1) block_of [OF assms(1) pr]] .
  then show "p + k \<le> fs_fpg fs" using pk by simp
qed

text \<open>What the two branches have in common: the updated group and super block.\<close>

definition freed :: "fs \<Rightarrow> int \<Rightarrow> mem \<Rightarrow> int \<Rightarrow> int \<Rightarrow> fs \<Rightarrow> mem \<Rightarrow> bool" where
  "freed fs cg c p k fs' c' \<longleftrightarrow> geom_eq fs fs' \<and> group_ok fs c' \<and>
     (\<forall>i. 0 \<le> i \<longrightarrow> i < fs_fpg fs \<longrightarrow> frees c' i = (frees c i \<or> p \<le> i \<and> i < p + k)) \<and>
     (\<forall>i < cg_freeoff c. \<not> count_byte i \<longrightarrow> c' i = c i) \<and>
     cs_nbfree (fs_csp fs' cg) = cs_nbfree (fs_csp fs cg) + (cg_nbfree c' - cg_nbfree c) \<and>
     cs_nffree (fs_csp fs' cg) = cs_nffree (fs_csp fs cg) + (cg_nffree c' - cg_nffree c) \<and>
     (\<forall>x. x \<noteq> cg \<longrightarrow> fs_csp fs' x = fs_csp fs x) \<and>
     cs_nbfree (fs_cstotal fs') = cs_nbfree (fs_cstotal fs) + (cg_nbfree c' - cg_nbfree c) \<and>
     cs_nffree (fs_cstotal fs') = cs_nffree (fs_cstotal fs) + (cg_nffree c' - cg_nffree c)"

lemma blkfree_freed:
  assumes ok: "fs_ok fs" "group_ok fs c" and p: "0 \<le> p" "p < fs_fpg fs" "1 \<le> k" "p mod fs_frag fs + k \<le> fs_frag fs"
    and used: "\<And>i. p \<le> i \<Longrightarrow> i < p + k \<Longrightarrow> \<not> frees c i"
    and cl: "0 < fs_contigsumsize fs \<Longrightarrow> blk_full (fs_frag fs) (\<lambda>i. frees c i \<or> p \<le> i \<and> i < p + k) (p div fs_frag fs) \<Longrightarrow>
       p div fs_frag fs < cg_nclusterblks c"
  shows "k = fs_frag fs \<Longrightarrow> \<exists>fs' c'. blkfree_block fs cg c p = Some (fs', c') \<and> freed fs cg c p k fs' c'"
    "\<exists>fs' c'. blkfree_frags fs cg c p k = Some (fs', c') \<and> freed fs cg c p k fs' c'"
proof -
  define h where "h = p div fs_frag fs"
  note hb = block_of [OF ok(1) p(1,2), folded h_def] and f = frag_blocks(1) [OF ok(1)]
  have pr: "h * fs_frag fs \<le> p" "p + k \<le> h * fs_frag fs + fs_frag fs"
    using p(4) div_mult_mod_eq [of p "fs_frag fs"] pos_mod_sign [OF f, of p] unfolding h_def by linarith+
  show "\<exists>fs' c'. blkfree_block fs cg c p = Some (fs', c') \<and> freed fs cg c p k fs' c'" if kf: "k = fs_frag fs"
  proof -
    have ph: "p = h * fs_frag fs" using pr kf by simp
    have ncl: "h < cg_nclusterblks c" if "0 < fs_contigsumsize fs"
      by (rule cl [OF that, folded h_def]) (simp add: blk_full_def kf ph)
    have used': "\<not> frees c i" if "h * fs_frag fs \<le> i" "i < h * fs_frag fs + fs_frag fs" for i
      using used that by (simp add: ph kf)
    obtain fs' c' mc where r: "blkfree_block fs cg c (h * fs_frag fs) = Some (fs', c')"
      "fs' = add_nbfree cg 1 (fs\<lparr>fs_maxcluster := mc\<rparr>)" "group_ok fs c'"
      "\<forall>i. 0 \<le> i \<longrightarrow> i < fs_fpg fs \<longrightarrow> frees c' i = (frees c i \<or> h * fs_frag fs \<le> i \<and> i < h * fs_frag fs + fs_frag fs)"
      "cg_nbfree c' = cg_nbfree c + 1" "cg_nffree c' = cg_nffree c" "\<forall>i < cg_freeoff c. \<not> count_byte i \<longrightarrow> c' i = c i"
      using blkfree_block_ok [OF ok hb used' ncl, of cg] by blast
    have "geom_eq fs fs'" unfolding r(2) by (rule geom_eq_trans [OF geom_eq_upd(4) geom_eq_upd(2)])
    then show ?thesis using r unfolding ph kf freed_def by (auto simp: add_nbfree_def)
  qed
  show "\<exists>fs' c'. blkfree_frags fs cg c p k = Some (fs', c') \<and> freed fs cg c p k fs' c'"
  proof -
    obtain fs' c' where r: "blkfree_frags fs cg c p k = Some (fs', c')" "group_ok fs c'"
      "\<forall>i. 0 \<le> i \<longrightarrow> i < fs_fpg fs \<longrightarrow> frees c' i = (frees c i \<or> p \<le> i \<and> i < p + k)"
      "\<forall>i < cg_freeoff c. \<not> count_byte i \<longrightarrow> c' i = c i"
      and q: "if blk_full (fs_frag fs) (\<lambda>i. frees c i \<or> p \<le> i \<and> i < p + k) h
       then \<exists>mc. fs' = add_nbfree cg 1 ((add_nffree cg (- fs_frag fs) (add_nffree cg k fs))\<lparr>fs_maxcluster := mc\<rparr>)
       else fs' = add_nffree cg k fs"
      "cg_nbfree c' = cg_nbfree c + of_bool (blk_full (fs_frag fs) (\<lambda>i. frees c i \<or> p \<le> i \<and> i < p + k) h)"
      "cg_nffree c' = cg_nffree c + k - (if blk_full (fs_frag fs) (\<lambda>i. frees c i \<or> p \<le> i \<and> i < p + k) h then fs_frag fs else 0)"
      using blkfree_frags_ok [OF ok hb pr p(3) used cl [folded h_def], of cg] by blast
    have "geom_eq fs fs'" using q(1) by (auto simp: add_nbfree_def add_nffree_def geom_eqI split: if_splits)
    then show ?thesis using r q unfolding freed_def
      by (auto simp: add_nbfree_def add_nffree_def split: if_splits)
  qed
qed

lemma freed_given:
  assumes sp: "space_ok s" and cg: "0 \<le> cg" "cg < fs_ncg (d_fs s)" and p: "0 \<le> p" "p + k \<le> fs_fpg (d_fs s)" "cg = 0 \<Longrightarrow> 0 < p"
    and fr: "freed (d_fs s) cg (set_cg_time (group_at s cg) t) p k fs' c'"
  shows "given s (cgbase (d_fs s) cg + p) k (put_group s cg (fs'\<lparr>fs_fmod := 1\<rparr>) c' (fs_bsize (d_fs s)))"
proof -
  define c where "c = set_cg_time (group_at s cg) t"
  note o = space_okD [OF sp] and g = group_sumD [OF space_okD(4) [OF sp cg]]
  note ms = misc_same [OF set_cg_time_misc [of "group_at s cg" t], folded c_def]
  note tm = group_time [OF o(3) g(1), where t = t, folded c_def]
  have f: "geom_eq (d_fs s) fs'" "group_ok (d_fs s) c'"
    "\<And>i. 0 \<le> i \<Longrightarrow> i < fs_fpg (d_fs s) \<Longrightarrow> frees c' i = (frees c i \<or> p \<le> i \<and> i < p + k)"
    "\<forall>i < cg_freeoff c. \<not> count_byte i \<longrightarrow> c' i = c i"
    "cs_nbfree (fs_csp fs' cg) = cs_nbfree (fs_csp (d_fs s) cg) + (cg_nbfree c' - cg_nbfree c)"
    "cs_nffree (fs_csp fs' cg) = cs_nffree (fs_csp (d_fs s) cg) + (cg_nffree c' - cg_nffree c)"
    "\<And>x. x \<noteq> cg \<Longrightarrow> fs_csp fs' x = fs_csp (d_fs s) x"
    "cs_nbfree (fs_cstotal fs') = cs_nbfree (fs_cstotal (d_fs s)) + (cg_nbfree c' - cg_nbfree c)"
    "cs_nffree (fs_cstotal fs') = cs_nffree (fs_cstotal (d_fs s)) + (cg_nffree c' - cg_nffree c)"
    using fr unfolding freed_def c_def by blast+
  have ge: "geom_eq (d_fs s) (fs'\<lparr>fs_fmod := 1\<rparr>)" by (rule geom_eq_trans [OF f(1) geom_eq_upd(5)])
  have hd: "ld32 c' 12 = ld32 c 12" "ld32 c' 4 = ld32 c 4" "ld32 c' 112 = ld32 c 112"
    by (rule ld_cong; use f(4) group_okD(1) [OF tm(1)] in \<open>auto simp: count_byte_def\<close>)+
  have cm: "cg_chkmagic c'" "cg_cgx c' = cg" using g(2,3) ms(4,5) hd by (simp_all add: cg_defs)
  have nc: "cg_nclusterblks c' = cg_nclusterblks (group_at s cg)"
    using hd(3) cg_get_cong(5) [OF ms(7)] by (simp add: cg_get_defs)
  have F: "frees c' i = (frees (group_at s cg) i \<or> p \<le> i \<and> i < p + k)" if "0 \<le> i" "i < fs_fpg (d_fs s)" for i
    using f(3) [OF that] tm(2) [OF that(1)] by simp
  show ?thesis
    by (rule given_put [OF sp cg ge fs_okD(19) [OF o(3)] order.refl f(2) cm p F]) (use f(5-9) ms(2,3) g(4,5) nc in simp_all)
qed

lemma block_free_unfold:
  assumes sp: "space_ok s" and r: "0 \<le> r" "r < fs_ncg (d_fs s) * fs_fpg (d_fs s)" "r < fs_size (d_fs s)"
    and sz: "0 < sz" "sz \<le> fs_bsize (d_fs s)" "sz mod fs_fsize (d_fs s) = 0"
    and k: "r mod fs_frag (d_fs s) + numfrags (d_fs s) sz \<le> fs_frag (d_fs s)"
  shows "ufs_block_free_run r sz s =
    (let cg = r div fs_fpg (d_fs s); c = set_cg_time (group_at s cg) (env_time s); p = r mod fs_fpg (d_fs s)
     in case (if sz = fs_bsize (d_fs s) then blkfree_block (d_fs s) cg c p
              else blkfree_frags (d_fs s) cg c p (numfrags (d_fs s) sz)) of
          None \<Rightarrow> Inl s
        | Some (fs, c) \<Rightarrow> Inr (snd (blkwrite (fsbtodb (d_fs s) (cgtod (d_fs s) cg)) c (fs_bsize fs) (s\<lparr>d_fs := fs\<lparr>fs_fmod := 1\<rparr>\<rparr>))))"
proof -
  note o = space_okD [OF sp]
  note gr = group_range [OF o(3) r(1,2) k]
  have u: "u32 x \<le> x" if "0 \<le> x" for x :: int using that by (simp add: take_bit_int_less_eq_self_iff)
  have g1: "\<not> (u32 sz > fs_bsize (d_fs s) \<or> fragoff (d_fs s) sz \<noteq> 0 \<or> fragnum (d_fs s) r + numfrags (d_fs s) sz > fs_frag (d_fs s))"
    using u [of sz] sz k by (simp add: macro_div_mod(6,7) [OF o(3)])
  have g2: "\<not> u32 r \<ge> fs_size (d_fs s)" using u [of r] r by simp
  have "fs_cgsize (d_fs s) \<noteq> -1" using fs_okD(18) [OF o(3)] by simp
  note gs = group_sumD [OF o(4) [OF gr(1,2)]]
  show ?thesis unfolding ufs_block_free_run_def Let_def gr(6,7) read_group [OF sp gr(1)]
    using g1 g2 gs(2) io_ok_mem [OF o(2)] \<open>fs_cgsize (d_fs s) \<noteq> -1\<close>
    by (auto split: option.split)
qed

lemma block_free_given:
  assumes sp: "space_ok s" and r: "0 < r" "r < fs_ncg (d_fs s) * fs_fpg (d_fs s)" "r < fs_size (d_fs s)"
    and sz: "0 < sz" "sz \<le> fs_bsize (d_fs s)" "sz mod fs_fsize (d_fs s) = 0"
    and k: "r mod fs_frag (d_fs s) + numfrags (d_fs s) sz \<le> fs_frag (d_fs s)"
    and used: "\<forall>b. r \<le> b \<longrightarrow> b < r + numfrags (d_fs s) sz \<longrightarrow> \<not> free_frag s b"
    and rc: "reclaim_ok s r (numfrags (d_fs s) sz)"
  shows "\<exists>s'. ufs_block_free r sz s = Some s' \<and> given s r (numfrags (d_fs s) sz) s'"
proof -
  define fs n where "fs = d_fs s" and "n = numfrags (d_fs s) sz"
  define cg p where "cg = r div fs_fpg fs" and "p = r mod fs_fpg fs"
  define c where "c = set_cg_time (group_at s cg) (env_time s)"
  note o = space_okD [OF sp]
  have r0: "0 \<le> r" using r(1) by simp
  note gr = group_range [OF o(3) r0 r(2) k, folded n_def fs_def, folded cg_def p_def]
  note cgr = gr(1) gr(2) [unfolded fs_def]
  note g = group_sumD [OF o(4) [OF cgr]]
  note ms = misc_same [OF set_cg_time_misc [of "group_at s cg" "env_time s"], folded c_def]
  note tm = group_time [OF o(3) g(1), where t = "env_time s", folded c_def fs_def]
  note fc = frag_count [OF o(3) sz, folded n_def fs_def]
  have pm: "p mod fs_frag fs + n \<le> fs_frag fs" using k mod_frag [OF o(3), of r] by (simp add: fs_def n_def p_def)
  have used': "\<not> frees c i" if "p \<le> i" "i < p + n" for i
  proof -
    have i: "0 \<le> i" "i < fs_fpg fs" using that gr(3,10) by linarith+
    have "\<not> free_frag s (fs_fpg (d_fs s) * cg + i)" using used that gr(5) by (simp add: n_def cgbase_def fs_def)
    then show ?thesis using free_frag_group [OF sp cgr i [unfolded fs_def]] tm(2) [OF i(1)] by simp
  qed
  have ncl: "cg_nclusterblks c = cg_nclusterblks (group_at s cg)" using cg_get_cong(5) [OF ms(7)] .
  have cl: "p div fs_frag fs < cg_nclusterblks c" if ct: "0 < fs_contigsumsize fs"
    and full: "blk_full (fs_frag fs) (\<lambda>i. frees c i \<or> p \<le> i \<and> i < p + n) (p div fs_frag fs)"
  proof -
    have "blk_full (fs_frag fs) (\<lambda>i. frees (group_at s cg) i \<or> p \<le> i \<and> i < p + n) (p div fs_frag fs)"
      using full tm(2) block_start(1) [OF o(3) [folded fs_def] block_of [OF o(3) [folded fs_def] gr(3,4)]]
      by (auto simp: blk_full_def)
    then show ?thesis using rc ct unfolding reclaim_ok_def Let_def ncl by (simp add: fs_def n_def cg_def p_def)
  qed
  note bf = blkfree_freed [OF o(3) [folded fs_def] tm(1) gr(3,4) fc(1) pm used' cl, of cg]
  obtain fs' c' where b: "(if sz = fs_bsize fs then blkfree_block fs cg c p else blkfree_frags fs cg c p n) = Some (fs', c')"
    "freed fs cg c p n fs' c'"
    using bf fc(3) by (cases "sz = fs_bsize fs") auto
  have bs: "fs_bsize fs' = fs_bsize fs" using b(2) geom_eqD(15) unfolding freed_def by blast
  have z: "0 < p" if "cg = 0" using that r(1) gr(5) by (simp add: cgbase_def)
  have "ufs_block_free r sz s = Some (put_group s cg (fs'\<lparr>fs_fmod := 1\<rparr>) c' (fs_bsize fs))"
    using block_free_unfold [OF sp r0 r(2,3) sz k] b(1) write_group [OF sp gr(1) fs_ok_pos(1) [OF o(3)]] bs
    unfolding Let_def fs_def [symmetric] cg_def [symmetric] p_def [symmetric] c_def [symmetric] n_def [symmetric] n_def [folded fs_def, symmetric]
    by (simp add: fs_def ufs_block_free_def)
  then show ?thesis
    using freed_given [OF sp cgr gr(3) gr(10) [unfolded fs_def] z b(2) [unfolded fs_def c_def]] gr(5)
    unfolding n_def [symmetric] fs_def by auto
qed

subsection \<open>The specification of the allocator\<close>

text \<open>
  The abstract allocator only knows the set of free fragments. There is room for \<open>k\<close> fragments when
  \<open>k\<close> consecutive ones inside one block are free. A request larger than a block is invalid; a request
  for which there is no room fails and changes nothing; any other request takes such a run.
\<close>

definition room :: "uufsd \<Rightarrow> int \<Rightarrow> bool" where
  "room s k \<longleftrightarrow> (\<exists>r. r mod fs_frag (d_fs s) + k \<le> fs_frag (d_fs s) \<and> (\<forall>b. r \<le> b \<longrightarrow> b < r + k \<longrightarrow> free_frag s b))"

definition alloc_spec :: "uufsd \<Rightarrow> int \<Rightarrow> int \<Rightarrow> int \<Rightarrow> uufsd \<Rightarrow> bool" where
  "alloc_spec s sz err b s' \<longleftrightarrow>
     (if sz > fs_bsize (d_fs s) then err = - EINVAL \<and> s' = s
      else if \<not> room s (numfrags (d_fs s) sz) then err = - ENOSPC \<and> s' = s
      else err = 0 \<and> taken s b (numfrags (d_fs s) sz) s')"

lemma room_fits:
  assumes sp: "space_ok s" and k: "1 \<le> k"
  shows "room s k \<longleftrightarrow> (\<exists>cg. 0 \<le> cg \<and> cg < fs_ncg (d_fs s) \<and> fits (d_fs s) (frees (group_at s cg)) k)"
proof
  note ok = space_okD(3) [OF sp]
  assume "room s k"
  then obtain r where r: "r mod fs_frag (d_fs s) + k \<le> fs_frag (d_fs s)" "\<And>b. r \<le> b \<Longrightarrow> b < r + k \<Longrightarrow> free_frag s b"
    by (auto simp: room_def)
  have rr: "0 \<le> r" "r < fs_ncg (d_fs s) * fs_fpg (d_fs s)" using r(2) [of r] k by (simp_all add: free_frag_def)
  define cg p where "cg = r div fs_fpg (d_fs s)" and "p = r mod fs_fpg (d_fs s)"
  note gr = group_range [OF ok rr r(1), folded cg_def p_def]
  have "frees (group_at s cg) i" if "p \<le> i" "i < p + k" for i
  proof -
    have i: "0 \<le> i" "i < fs_fpg (d_fs s)" using that gr(3,10) by linarith+
    show ?thesis using r(2) [of "fs_fpg (d_fs s) * cg + i"] that gr(5) free_frag_group [OF sp gr(1,2) i] by (simp add: cgbase_def)
  qed
  then have "fits (d_fs s) (frees (group_at s cg)) k" unfolding fits_def
    using gr(3,4) r(1) mod_frag [OF ok, of r] by (intro exI [of _ p]) (simp add: p_def)
  then show "\<exists>cg. 0 \<le> cg \<and> cg < fs_ncg (d_fs s) \<and> fits (d_fs s) (frees (group_at s cg)) k" using gr(1,2) by blast
next
  note ok = space_okD(3) [OF sp]
  assume "\<exists>cg. 0 \<le> cg \<and> cg < fs_ncg (d_fs s) \<and> fits (d_fs s) (frees (group_at s cg)) k"
  then obtain cg p where c: "0 \<le> cg" "cg < fs_ncg (d_fs s)" "0 \<le> p" "p < fs_fpg (d_fs s)"
    "p mod fs_frag (d_fs s) + k \<le> fs_frag (d_fs s)" "\<And>j. p \<le> j \<Longrightarrow> j < p + k \<Longrightarrow> frees (group_at s cg) j"
    by (auto simp: fits_def)
  define r where "r = fs_fpg (d_fs s) * cg + p"
  have e: "r div fs_fpg (d_fs s) = cg" "r mod fs_fpg (d_fs s) = p" using c(3,4) by (simp_all add: r_def)
  note ar = abs_range [OF fs_okD(15) [OF ok] c(1-4), folded r_def]
  have rm: "r mod fs_frag (d_fs s) + k \<le> fs_frag (d_fs s)" using c(5) mod_frag [OF ok, of r] by (simp add: e)
  note gr = group_range [OF ok ar rm, unfolded e]
  have "free_frag s b" if "r \<le> b" "b < r + k" for b
  proof -
    have i: "0 \<le> b - fs_fpg (d_fs s) * cg" "b - fs_fpg (d_fs s) * cg < fs_fpg (d_fs s)" using that c(3) gr(10) by (simp_all add: r_def)
    show ?thesis using free_frag_group [OF sp c(1,2) i] c(6) that by (simp add: r_def)
  qed
  then show "room s k" using rm by (auto simp: room_def)
qed

lemma full_room:
  assumes sp: "space_ok s" and z: "cs_nbfree (fs_cstotal (d_fs s)) = 0"
  shows "\<not> room s (fs_frag (d_fs s))"
proof
  note o = space_okD [OF sp] and f = frag_blocks [OF space_okD(3) [OF sp]]
  assume "room s (fs_frag (d_fs s))"
  then obtain cg where cg: "0 \<le> cg" "cg < fs_ncg (d_fs s)" and ft: "fits (d_fs s) (frees (group_at s cg)) (fs_frag (d_fs s))"
    using room_fits [OF sp, of "fs_frag (d_fs s)"] f(1) by auto
  have nn: "0 \<le> cs_nbfree (fs_csp (d_fs s) x)" if "x \<in> {0..<fs_ncg (d_fs s)}" for x
    using group_room(1) [OF sp] group_sumD(4) [OF o(4)] that by simp
  have "cs_nbfree (fs_csp (d_fs s) cg) = 0"
    using z nn cg unfolding o(5) by (subst (asm) sum_nonneg_eq_0_iff) auto
  then have "cg_nbfree (group_at s cg) = 0" using group_sumD(4) [OF o(4) [OF cg]] by simp
  then show False using ft group_room(2) [OF sp cg, of "fs_frag (d_fs s)"] f(1) by auto
qed

lemma block_alloc_cases:
  assumes sp: "space_ok s" and sz: "0 < sz" "sz mod fs_fsize (d_fs s) = 0"
    and ino: "0 \<le> ino" "ino_to_cg (d_fs s) ino < fs_ncg (d_fs s)"
  shows "\<exists>err b s'. ufs_block_alloc ino sz s = Some (err, b, s') \<and> alloc_spec s sz err b s'"
proof (cases "sz > fs_bsize (d_fs s)")
  case True
  then show ?thesis by (simp add: ufs_block_alloc_def alloc_spec_def Let_def)
next
  case False
  note o = space_okD [OF sp]
  define k where "k = numfrags (d_fs s) sz"
  have fc: "1 \<le> k" "k = fs_frag (d_fs s) \<longleftrightarrow> sz = fs_bsize (d_fs s)"
    using frag_count [OF o(3) sz(1) _ sz(2)] False by (simp_all add: k_def)
  have cg0: "0 \<le> ino_to_cg (d_fs s) ino" using ino fs_okD(13) [OF o(3)] by (simp add: ino_to_cg_def sdiv_nonneg pos_imp_zdiv_nonneg_iff)
  show ?thesis
  proof (cases "sz = fs_bsize (d_fs s) \<and> cs_nbfree (fs_cstotal (d_fs s)) = 0")
    case True
    then show ?thesis using full_room [OF sp] fc(2) by (simp add: ufs_block_alloc_def alloc_spec_def Let_def k_def)
  next
    case nz: False
    have pre: "space_ok s \<and> 0 < sz \<and> sz \<le> fs_bsize (d_fs s) \<and> sz mod fs_fsize (d_fs s) = 0" using sp sz False by simp
    obtain r s' where h: "ufs_hashalloc (ino_to_cg (d_fs s) ino) 0 sz ufs_alloccg s = Some (r, s')"
      "r = 0 \<longrightarrow> s' = s \<and> (\<forall>c. 0 \<le> c \<longrightarrow> c < fs_ncg (d_fs s) \<longrightarrow> \<not> fits (d_fs s) (frees (group_at s c)) k)"
      "r \<noteq> 0 \<longrightarrow> taken s r k s'"
      using blk.hashalloc [OF pre cg0 ino(2) order.refl] unfolding k_def by blast
    have e: "ufs_block_alloc ino sz s = Some (if r = 0 then (- ENOSPC, r, s') else (0, r, s'))"
      using h(1) False nz by (auto simp: ufs_block_alloc_def Let_def)
    have rm: "room s k" if "r \<noteq> 0" using h(3) that by (auto simp: taken_def room_def)
    show ?thesis using e h(2,3) rm room_fits [OF sp fc(1)] False
      unfolding alloc_spec_def k_def [symmetric] by (cases "r = 0") auto
  qed
qed


lemma taken_reclaim:
  assumes sp: "space_ok s" and t: "taken s r k s'" and k: "1 \<le> k"
  shows "reclaim_ok s' r k"
  unfolding reclaim_ok_def Let_def
proof (intro impI)
  note ok = space_okD(3) [OF sp]
  have tk: "space_ok s'" "geom_eq (d_fs s) (d_fs s')" "\<And>cg. cg_nclusterblks (group_at s' cg) = cg_nclusterblks (group_at s cg)"
    "0 < r" "r mod fs_frag (d_fs s) + k \<le> fs_frag (d_fs s)" "\<And>b. r \<le> b \<Longrightarrow> b < r + k \<Longrightarrow> free_frag s b"
    "\<And>b. free_frag s' b \<longleftrightarrow> free_frag s b \<and> \<not> (r \<le> b \<and> b < r + k)"
    using t unfolding taken_def by blast+
  note gd = geom_eqD [OF tk(2)]
  have rr: "0 \<le> r" "r < fs_ncg (d_fs s) * fs_fpg (d_fs s)" using tk(6) [of r] k by (simp_all add: free_frag_def)
  define n f cg p where "n = fs_fpg (d_fs s)" and "f = fs_frag (d_fs s)" and "cg = r div n" and "p = r mod n"
  note gr = group_range [OF ok rr tk(5), folded n_def f_def, folded cg_def p_def]
  have cg': "cg < fs_ncg (d_fs s')" using gr(2) by (simp add: gd)
  assume ct: "0 < fs_contigsumsize (d_fs s')"
  assume "blk_full (fs_frag (d_fs s')) (\<lambda>i. frees (group_at s' (r div fs_fpg (d_fs s'))) i \<or>
      r mod fs_fpg (d_fs s') \<le> i \<and> i < r mod fs_fpg (d_fs s') + k) (r mod fs_fpg (d_fs s') div fs_frag (d_fs s'))"
  then have full: "blk_full f (\<lambda>i. frees (group_at s' cg) i \<or> p \<le> i \<and> i < p + k) (p div f)"
    by (simp add: gd n_def f_def cg_def p_def)
  have hb: "0 \<le> p div f" "p div f < nblocks (d_fs s)" using block_of [OF ok gr(3,4) [unfolded n_def]] by (simp_all add: f_def)
  note bs = block_start [OF ok hb, folded n_def f_def]
  have "frees (group_at s cg) i" if i: "p div f * f \<le> i" "i < p div f * f + f" for i
  proof -
    have ir: "0 \<le> i" "i < n" using i bs by linarith+
    note e = free_frag_group [OF sp gr(1,2) ir [unfolded n_def]] free_frag_group [OF tk(1) gr(1) cg', of i]
    have "frees (group_at s' cg) i \<or> p \<le> i \<and> i < p + k" using full i by (simp add: blk_full_def)
    then show ?thesis
      using e ir tk(6) [of "n * cg + i"] tk(7) [of "n * cg + i"] gr(5) by (auto simp: gd cgbase_def n_def)
  qed
  then have "blk_full f (frees (group_at s cg)) (p div f)" by (simp add: blk_full_def)
  then have "p div f < cg_nclusterblks (group_at s cg)"
    using group_okD(9) [OF group_sumD(1) [OF space_okD(4) [OF sp gr(1,2)]]] ct hb
    by (auto simp: group_clus_def gd f_def)
  then show "r mod fs_fpg (d_fs s') div fs_frag (d_fs s') < cg_nclusterblks (group_at s' (r div fs_fpg (d_fs s')))"
    by (simp add: gd tk(3) n_def f_def cg_def p_def)
qed

subsection \<open>A sample file system\<close>

text \<open>
  One cylinder group of eight blocks of eight fragments: fragments 44 to 47 and the last two
  blocks are free, and so are all of its 64 inodes but the first three.
\<close>

definition grp_ex :: mem where
  "grp_ex = fold (\<lambda>(a, v) m. st32 m a v)
     [(4, CG_MAGIC), (28, 2), (32, 61), (36, 4), (52 + 4 * 4, 1), (92, 168), (96, 176), (116, 64), (120, 64), (168, 7), (180, 0xFFFFF000)] (\<lambda>_. 0)"

definition fs_one :: fs where
  "fs_one = fs_ex\<lparr>fs_ncg := 1, fs_fpg := 64, fs_size := 64, fs_contigsumsize := 0, fs_cstotal := \<lparr>cs_ndir = 0, cs_nbfree = 2, cs_nifree = 61, cs_nffree = 4\<rparr>,
     fs_csp := (\<lambda>_. \<lparr>cs_ndir = 0, cs_nbfree = 2, cs_nifree = 61, cs_nffree = 4\<rparr>)\<rparr>"

definition disk_ex :: uufsd where
  "disk_ex = \<lparr>d_ufs = 2, d_fd = 3, d_bsize = 512, d_sblock = 128, d_inoblock = None, d_inomin = 0, d_inomax = 0,
     d_fs = fs_one, d_sb = (\<lambda>_. 0), d_buf = (\<lambda>_. 0), d_ccg = 0, d_lcg = 0, d_mine = 2, d_now = 0,
     dev_data = (\<lambda>i. grp_ex (i - 12288)), dev_pread = (\<lambda>off n. n), dev_pwrite = (\<lambda>off n. n), dev_open_rw = 3,
     env_time = 1000, env_rand = (\<lambda>_. 0), env_nrand = 0, env_mem = True, env_junk = grp_ex\<rparr>"

lemma grp_ex_fields:
  "cg_freeoff grp_ex = 176" "cg_nbfree grp_ex = 2" "cg_nffree grp_ex = 4" "cg_rotor grp_ex = 0" "cg_frotor grp_ex = 0"
  "cg_chkmagic grp_ex" "cg_cgx grp_ex = 0"
  by code_simp+

lemma grp_ex_frsum: "cg_frsum grp_ex s = (if s = 4 then 1 else 0)" if "s \<in> set [1..7]"
proof -
  have "\<forall>s \<in> set [1..7]. cg_frsum grp_ex s = (if s = 4 then 1 else 0)" by code_simp
  then show ?thesis using that by blast
qed

lemma grp_ex_counts:
  "(\<Sum>h \<in> {0..<8}. of_bool (blk_full 8 (isset grp_ex 176) h)) = (2 :: int)"
  "(\<Sum>h \<in> {0..<8}. if blk_full 8 (isset grp_ex 176) h then 0 else blk_frags 8 (isset grp_ex 176) h) = 4"
  "\<forall>s \<in> set [1..7]. (\<Sum>h \<in> {0..<8}. int (run_count 8 (blkmap fs_one grp_ex 176 (h * 8)) s)) = (if s = 4 then 1 else 0)"
  by code_simp+

lemma fs_one_ok: "fs_ok fs_one" and fs_one_simps: "fs_frag fs_one = 8" "fs_fpg fs_one = 64" "fs_ncg fs_one = 1" "fs_contigsumsize fs_one = 0"
    "fs_cgsize fs_one = 1024" "fs_bsize fs_one = 4096" "fs_fsize fs_one = 512" "fs_size fs_one = 64" "fs_ipg fs_one = 64"
  by (simp_all add: fs_ok_def fs_one_def fs_ex_def)

lemma group_ok_ex: "group_ok fs_one grp_ex"
proof -
  have "cg_frsum grp_ex s = (\<Sum>h \<in> {0..<8}. rcount (isset grp_ex 176) (h * 8) (h * 8 + 8) s)" if "s \<in> {1..<8}" for s
  proof -
    have s: "s \<in> set [1..7]" "1 \<le> s" "s \<le> fs_frag fs_one" using that by (auto simp: fs_one_simps)
    have "(\<Sum>h \<in> {0..<8}. rcount (isset grp_ex 176) (h * 8) (h * 8 + 8) s) =
        (\<Sum>h \<in> {0..<8}. int (run_count 8 (blkmap fs_one grp_ex 176 (h * 8)) s))"
      using run_count_rcount [OF fs_one_ok s(2,3), of grp_ex 176] by (simp add: fs_one_simps grp_ex_fields)
    then show ?thesis using grp_ex_counts(3) grp_ex_frsum [OF s(1)] s(1) by simp
  qed
  then have "counts 8 8 (frees grp_ex) 2 4 (cg_frsum grp_ex)"
    unfolding counts_def grp_ex_fields(1) using grp_ex_counts(1,2) by simp
  then show ?thesis by (simp add: group_ok_def group_clus_def fs_one_simps grp_ex_fields)
qed

lemma group_at_ex: "group_at disk_ex 0 = grp_ex"
proof
  show "group_at disk_ex 0 i = grp_ex i" for i
    by (simp add: group_at_def cg_addr_def memcpy_def disk_ex_def fsbtodb_eq cgtod_def cgstart_def cgbase_def fs_one_def fs_ex_def)
qed

lemma disk_ex_fs [simp]: "d_fs disk_ex = fs_one" "env_time disk_ex = 1000" by (simp_all add: disk_ex_def)

lemma io_ok_ex: "io_ok disk_ex" by (simp add: io_ok_def disk_ex_def)

lemma space_ok_ex: "space_ok disk_ex"
proof -
  have "disk_ok disk_ex" using io_ok_ex fs_one_ok by (simp add: disk_ok_def) (simp add: fs_one_def fs_ex_def disk_ex_def)
  moreover have "group_sum disk_ex 0"
    by (simp add: group_sum_def group_at_ex group_ok_ex grp_ex_fields) (simp add: fs_one_def)
  moreover have "{0..<fs_ncg fs_one} = {0}" by (auto simp: fs_one_simps)
  moreover have "\<not> frees grp_ex 0" by code_simp
  ultimately show ?thesis by (simp add: space_ok_def group_at_ex) (simp add: fs_one_def)
qed

lemma frees_ex: "isset grp_ex 176 i = (44 \<le> i)" if "0 \<le> i" "i < 64"
proof -
  have "\<forall>i \<in> set [0..63]. isset grp_ex 176 i = (44 \<le> i)" by code_simp
  moreover have "i \<in> set [0..63]" using that by simp
  ultimately show ?thesis by blast
qed

lemma free_frag_ex: "free_frag disk_ex b \<longleftrightarrow> 44 \<le> b \<and> b < 64"
proof (cases "0 \<le> b \<and> b < 64")
  case True
  then have "b div 64 = 0" "b mod 64 = b" by auto
  then show ?thesis using True frees_ex [of b] by (simp add: free_frag_def fs_one_simps group_at_ex grp_ex_fields)
qed (auto simp: free_frag_def fs_one_simps)

lemma sizes_ex: "numfrags fs_one 4096 = 8" "numfrags fs_one 1024 = 2" "ino_to_cg fs_one 5 = 0"
  by (simp_all add: macro_div_mod(2) [OF fs_one_ok] fs_one_simps ino_to_cg_def sdiv_nonneg)

subsection \<open>Properties\<close>

text \<open>C1. On a consistent file system \<open>ufs_block_alloc\<close> implements the abstract allocator: it
  always returns; a request larger than a block gives -EINVAL; when no block anywhere has a
  free run of the requested length it gives -ENOSPC; both leave the state as it was. Otherwise
  it returns the first of a run of fragments inside one block that were all free, the free
  fragments afterwards are the ones before without that run, and the maps, counters and
  cluster summaries of every group and the summaries of the super block are consistent again.\<close>

theorem block_alloc_refines:
  assumes "space_ok s" "0 < sz" "sz mod fs_fsize (d_fs s) = 0" "0 \<le> ino" "ino_to_cg (d_fs s) ino < fs_ncg (d_fs s)"
  shows "\<exists>err b s'. ufs_block_alloc ino sz s = Some (err, b, s') \<and> alloc_spec s sz err b s'"
  by (rule block_alloc_cases [OF assms])

lemma room_ex: "room disk_ex 8" "room disk_ex 2"
  unfolding room_def free_frag_ex by (rule exI [of _ 48], simp add: fs_one_simps)+

theorem block_alloc_refines_witness:
  "\<exists>b s'. ufs_block_alloc 5 4096 disk_ex = Some (0, b, s') \<and> taken disk_ex b 8 s'"
  using block_alloc_refines [OF space_ok_ex, of 4096 5] room_ex
  by (auto simp: alloc_spec_def fs_one_simps sizes_ex)

text \<open>C2. On a consistent file system \<open>ufs_block_free\<close> of fragments of one block that are in use
  returns, adds exactly these fragments to the free ones and leaves a consistent file system:
  fragment counts, cluster summaries and totals agree with the maps, also when the fragments
  complete a free block.\<close>

theorem block_free_refines:
  assumes "space_ok s" "0 < r" "r < fs_ncg (d_fs s) * fs_fpg (d_fs s)" "r < fs_size (d_fs s)"
    and "0 < sz" "sz \<le> fs_bsize (d_fs s)" "sz mod fs_fsize (d_fs s) = 0"
    and "r mod fs_frag (d_fs s) + numfrags (d_fs s) sz \<le> fs_frag (d_fs s)"
    and "\<forall>b. r \<le> b \<longrightarrow> b < r + numfrags (d_fs s) sz \<longrightarrow> \<not> free_frag s b"
    and "reclaim_ok s r (numfrags (d_fs s) sz)"
  shows "\<exists>s'. ufs_block_free r sz s = Some s' \<and> given s r (numfrags (d_fs s) sz) s'"
  by (rule block_free_given [OF assms])

theorem block_free_refines_witness:
  "\<exists>s'. ufs_block_free 32 4096 disk_ex = Some s' \<and> given disk_ex 32 8 s'"
  using block_free_refines [OF space_ok_ex, of 32 4096]
  by (auto simp: sizes_ex fs_one_simps free_frag_ex reclaim_ok_def)



text \<open>C5. Allocating and then freeing is a round trip: the fragments a successful
  \<open>ufs_block_alloc\<close> returned can be given back with \<open>ufs_block_free\<close>, which succeeds, and the file
  system is consistent with the same free fragments as before the allocation.\<close>

theorem alloc_free_roundtrip:
  assumes "space_ok s" "0 < sz" "sz mod fs_fsize (d_fs s) = 0" "0 \<le> ino" "ino_to_cg (d_fs s) ino < fs_ncg (d_fs s)"
    and "\<forall>b. free_frag s b \<longrightarrow> b < fs_size (d_fs s)"
    and "ufs_block_alloc ino sz s = Some (0, b, s')"
  shows "\<exists>s''. ufs_block_free b sz s' = Some s'' \<and> space_ok s'' \<and> free_frag s'' = free_frag s"
proof -
  note o = space_okD [OF assms(1)]
  define k where "k = numfrags (d_fs s) sz"
  have szb: "sz \<le> fs_bsize (d_fs s)" and tk: "taken s b k s'"
    using block_alloc_cases [OF assms(1-5)] assms(7) by (auto simp: alloc_spec_def k_def split: if_splits)
  have k: "1 \<le> k" using frag_count(1) [OF o(3) assms(2) szb assms(3)] by (simp add: k_def)
  have t: "space_ok s'" "geom_eq (d_fs s) (d_fs s')" "0 < b" "b mod fs_frag (d_fs s) + k \<le> fs_frag (d_fs s)"
    "\<And>x. b \<le> x \<Longrightarrow> x < b + k \<Longrightarrow> free_frag s x" "\<And>x. free_frag s' x \<longleftrightarrow> free_frag s x \<and> \<not> (b \<le> x \<and> x < b + k)"
    using tk unfolding taken_def by blast+
  note gd = geom_eqD [OF t(2)]
  have fb: "free_frag s b" using t(5) [of b] k by simp
  have br: "b < fs_ncg (d_fs s) * fs_fpg (d_fs s)" "b < fs_size (d_fs s)" using fb assms(6) by (auto simp: free_frag_def)
  have "\<exists>s''. ufs_block_free b sz s' = Some s'' \<and> given s' b k s''"
    using block_free_given [OF t(1,3), of sz] br szb assms(2,3) t(4,6) taken_reclaim [OF assms(1) tk k]
    by (simp add: gd k_def)
  then show ?thesis using t(5,6) by (auto simp: given_def fun_eq_iff)
qed

theorem alloc_free_roundtrip_witness:
  "\<exists>b s' s''. ufs_block_alloc 5 1024 disk_ex = Some (0, b, s') \<and> ufs_block_free b 1024 s' = Some s'' \<and>
     free_frag s'' = free_frag disk_ex"
proof -
  obtain b s' where b: "ufs_block_alloc 5 1024 disk_ex = Some (0, b, s')"
    using block_alloc_cases [OF space_ok_ex, of 1024 5] room_ex by (auto simp: alloc_spec_def fs_one_simps sizes_ex)
  show ?thesis using alloc_free_roundtrip [OF space_ok_ex _ _ _ _ _ b] b by (auto simp: fs_one_simps sizes_ex free_frag_ex)
qed

end
