(* ===== verification/Ufs_Inode_Table.thy ===== *)
theory Ufs_Inode_Table
  imports Ufs_Inode Ufs_Space_Free
begin

section \<open>The table of on-disk inodes\<close>

text \<open>
  The conversion between the in-core and the on-disk form of an inode loses nothing
  (\<open>same_file\<close>); \<open>getino\<close> is a transparent cache of inode blocks (\<open>ino_cache_ok\<close>) in front of
  the table \<open>dinode_at\<close> of the inodes on the device, which \<open>ufs_write_inode\<close> updates at one
  number.
\<close>

subsection \<open>In-core and on-disk form\<close>

text \<open>The fields of the in-core inode lie in the ranges of their C types.\<close>

definition inode_ok :: "inode \<Rightarrow> bool" where
  "inode_ok ip \<longleftrightarrow> u16 (i_mode ip) = i_mode ip \<and> s16 (i_nlink ip) = i_nlink ip \<and> u64 (i_size ip) = i_size ip \<and>
     u32 (i_flags ip) = i_flags ip \<and> s32 (i_gen ip) = i_gen ip \<and> u32 (i_uid ip) = i_uid ip \<and> u32 (i_gid ip) = i_gid ip \<and>
     s64 (i_atime ip) = i_atime ip \<and> s64 (i_mtime ip) = i_mtime ip \<and> s64 (i_ctime ip) = i_ctime ip"

text \<open>What a file consists of: two inodes that agree on it describe the same file.\<close>

definition same_file :: "inode \<Rightarrow> inode \<Rightarrow> bool" where
  "same_file a b \<longleftrightarrow> i_mode a = i_mode b \<and> i_nlink a = i_nlink b \<and> i_size a = i_size b \<and> i_flags a = i_flags b \<and>
     i_gen a = i_gen b \<and> i_uid a = i_uid b \<and> i_gid a = i_gid b \<and> i_blocks a = i_blocks b \<and>
     i_atime a = i_atime b \<and> i_mtime a = i_mtime b \<and> i_ctime a = i_ctime b \<and>
     (\<forall>k \<in> {0..<12}. di_db (i_din2 a) k = di_db (i_din2 b) k) \<and> (\<forall>k \<in> {0..<3}. di_ib (i_din2 a) k = di_ib (i_din2 b) k)"

lemma memcpy_ld [mem_simps]:
  assumes "0 \<le> a"
  shows "a + 2 \<le> n \<Longrightarrow> ld16 (memcpy m 0 b off n) a = ld16 b (off + a)"
    "a + 4 \<le> n \<Longrightarrow> ld32 (memcpy m 0 b off n) a = ld32 b (off + a)"
    "a + 4 \<le> n \<Longrightarrow> ld32u (memcpy m 0 b off n) a = ld32u b (off + a)"
    "a + 8 \<le> n \<Longrightarrow> ld64 (memcpy m 0 b off n) a = ld64 b (off + a)"
    "a + 8 \<le> n \<Longrightarrow> ld64u (memcpy m 0 b off n) a = ld64u b (off + a)"
proof -
  have "ldn k (memcpy m 0 b off n) a = ldn k b (off + a)" if "a + int k \<le> n" for k
    using that assms
  proof (induction k arbitrary: a)
    case (Suc k)
    have e: "off + a + 1 = off + (a + 1)" by simp
    show ?case using Suc.IH [of "a + 1"] Suc.prems unfolding ldn.simps e by (simp add: memcpy_in)
  qed simp
  from this [of 2] this [of 4] this [of 8] show
    "a + 2 \<le> n \<Longrightarrow> ld16 (memcpy m 0 b off n) a = ld16 b (off + a)"
    "a + 4 \<le> n \<Longrightarrow> ld32 (memcpy m 0 b off n) a = ld32 b (off + a)"
    "a + 4 \<le> n \<Longrightarrow> ld32u (memcpy m 0 b off n) a = ld32u b (off + a)"
    "a + 8 \<le> n \<Longrightarrow> ld64 (memcpy m 0 b off n) a = ld64 b (off + a)"
    "a + 8 \<le> n \<Longrightarrow> ld64u (memcpy m 0 b off n) a = ld64u b (off + a)"
    by (simp_all add: ld_defs)
qed

lemma incore_ondisk:
  fixes fs ip
  assumes "inode_ok ip"
  defines "ip' \<equiv> copy_incore_to_ondisk fs ip"
  shows "di_mode (i_din2 ip') = i_mode ip" "di_nlink (i_din2 ip') = i_nlink ip" "di_size (i_din2 ip') = i_size ip"
    "di_flags (i_din2 ip') = i_flags ip" "di_gen (i_din2 ip') = i_gen ip" "di_uid (i_din2 ip') = i_uid ip" "di_gid (i_din2 ip') = i_gid ip"
    "di_blocks (i_din2 ip') = i_blocks ip'" "di_atime (i_din2 ip') = i_atime ip" "di_mtime (i_din2 ip') = i_mtime ip"
    "di_ctime (i_din2 ip') = i_ctime ip" "i_din2 (ip'\<lparr>i_din2 := m\<rparr>) = m"
    "ip' = ip\<lparr>i_blocks := i_blocks ip', i_din2 := i_din2 ip'\<rparr>"
    "112 \<le> i \<Longrightarrow> i_din2 ip' i = i_din2 ip i"
proof -
  show "di_nlink (i_din2 ip') = i_nlink ip"
    using assms(1) by (simp add: ip'_def copy_incore_to_ondisk_def Let_def di_defs mem_simps inode_ok_def signed_take_bit_take_bit)
qed (use assms(1) in \<open>simp_all add: ip'_def copy_incore_to_ondisk_def Let_def di_defs mem_simps inode_ok_def\<close>)

lemma ondisk_incore:
  assumes ok: "inode_ok ip" and b: "\<forall>i \<in> {0..<256}. b (off + i) = i_din2 (copy_incore_to_ondisk fs ip) i"
  shows "same_file (copy_ondisk_to_incore ip0 b off ino) (copy_incore_to_ondisk fs ip)"
proof -
  define d where "d = memcpy (i_din2 ip0) 0 b off 256"
  have e: "d i = i_din2 (copy_incore_to_ondisk fs ip) i" if "0 \<le> i" "i < 256" for i
    using b that by (simp add: d_def memcpy_in)
  have l: "ld16 d a = ld16 (i_din2 (copy_incore_to_ondisk fs ip)) a" "ld32 d a = ld32 (i_din2 (copy_incore_to_ondisk fs ip)) a"
    "ld32u d a = ld32u (i_din2 (copy_incore_to_ondisk fs ip)) a" "ld64 d a = ld64 (i_din2 (copy_incore_to_ondisk fs ip)) a"
    "ld64u d a = ld64u (i_din2 (copy_incore_to_ondisk fs ip)) a" if "0 \<le> a" "a \<le> 248" for a
    by (rule ld_cong, rule e; use that in simp)+
  have c: "i_mode (copy_incore_to_ondisk fs ip) = i_mode ip" "i_nlink (copy_incore_to_ondisk fs ip) = i_nlink ip"
    "i_size (copy_incore_to_ondisk fs ip) = i_size ip" "i_flags (copy_incore_to_ondisk fs ip) = i_flags ip"
    "i_gen (copy_incore_to_ondisk fs ip) = i_gen ip" "i_uid (copy_incore_to_ondisk fs ip) = i_uid ip"
    "i_gid (copy_incore_to_ondisk fs ip) = i_gid ip" "i_atime (copy_incore_to_ondisk fs ip) = i_atime ip"
    "i_mtime (copy_incore_to_ondisk fs ip) = i_mtime ip" "i_ctime (copy_incore_to_ondisk fs ip) = i_ctime ip"
    by (simp_all add: copy_incore_to_ondisk_def Let_def)
  show ?thesis
    unfolding same_file_def copy_ondisk_to_incore_def Let_def SIZEOF_DINODE2_def d_def [symmetric]
    using incore_ondisk [OF ok, where fs = fs] by (simp add: di_defs l c)
qed

text \<open>
  What a stored inode is, as a relation between the inode given and the one read back: every field
  the operations use and all block pointers are those given, and the number of sectors is
  not: it is computed from the size, as the sectors of the fragments of a file with fewer than 12
  blocks, and otherwise as those of all data blocks and of the indirect blocks that hold their addresses.
\<close>

definition ceil_div :: "int \<Rightarrow> int \<Rightarrow> int" where "ceil_div x y = (x + y - 1) div y"

definition sectors_of :: "fs \<Rightarrow> int \<Rightarrow> int \<Rightarrow> int" where
  "sectors_of fs mode sz =
     (let b = ceil_div sz (fs_bsize fs); n = fs_bsize fs div 8;
          l1 = ceil_div (b - 12) n; l2 = ceil_div (l1 - 1) n; l3 = (if l2 = 0 then 0 else ceil_div (l2 - 1) n)
      in if S_ISLNK mode \<and> sz < fs_maxsymlinklen fs then 0
         else (if b < 12 then ceil_div sz (fs_fsize fs) else (b + l1 + l2 + l3) * fs_frag fs) * (fs_fsize fs div 512))"

definition stored_as :: "fs \<Rightarrow> inode \<Rightarrow> inode \<Rightarrow> bool" where
  "stored_as fs ip d \<longleftrightarrow> i_mode d = i_mode ip \<and> i_nlink d = i_nlink ip \<and> i_size d = i_size ip \<and> i_flags d = i_flags ip \<and>
     i_gen d = i_gen ip \<and> i_uid d = i_uid ip \<and> i_gid d = i_gid ip \<and>
     i_atime d = i_atime ip \<and> i_mtime d = i_mtime ip \<and> i_ctime d = i_ctime ip \<and>
     (\<forall>k \<in> {0..<12}. di_db (i_din2 d) k = di_db (i_din2 ip) k) \<and> (\<forall>k \<in> {0..<3}. di_ib (i_din2 d) k = di_ib (i_din2 ip) k) \<and>
     (i_size ip < 2 ^ 38 \<longrightarrow> i_blocks d = u64 (sectors_of fs (i_mode ip) (i_size ip)))"

lemma howmany_ceil_div: "0 \<le> x + y - 1 \<Longrightarrow> 0 < y \<Longrightarrow> howmany x y = ceil_div x y"
  by (simp add: howmany_def ceil_div_def sdiv_nonneg add_diff_eq)

lemma ceil_div_nonneg: "0 < y \<Longrightarrow> 1 - y \<le> x \<Longrightarrow> 0 \<le> ceil_div x y"
  by (simp add: ceil_div_def pos_imp_zdiv_nonneg_iff)

lemma div_less_mult:
  fixes a y k :: int
  assumes "0 < y"
  shows "a div y < k \<longleftrightarrow> a < k * y"
proof -
  have "k \<le> a div y \<longleftrightarrow> k * y \<le> a"
  proof
    assume "k \<le> a div y"
    then have "k * y \<le> a div y * y" using assms by (simp add: mult_right_mono)
    also have "\<dots> \<le> a" using div_mult_mod_eq [of a y] pos_mod_sign [OF assms, of a] by linarith
    finally show "k * y \<le> a" .
  next
    assume "k * y \<le> a"
    then have "k * y div y \<le> a div y" using assms by (rule zdiv_mono1)
    then show "k \<le> a div y" using assms by simp
  qed
  then show ?thesis by linarith
qed

lemma ceil_div_bound:
  assumes "0 \<le> x" "x < 2 ^ 38" "256 \<le> y"
  shows "ceil_div x y < 2 ^ 31"
proof -
  have "2 ^ 30 * 256 \<le> 2 ^ 30 * y" using assms(3) by (intro mult_left_mono) auto
  then have "x + y - 1 < 2 ^ 31 * y" using assms by simp
  then show ?thesis using assms(3) div_less_mult [of y "x + y - 1" "2 ^ 31"] by (simp add: ceil_div_def)
qed

lemma calc_num_blocks_sectors:
  assumes ok: "fs_ok fs" and bs: "256 \<le> fs_bsize fs" and sz: "0 \<le> i_size ip" "i_size ip < 2 ^ 38"
  shows "calc_num_blocks fs ip = sectors_of fs (i_mode ip) (i_size ip)"
proof -
  define n b where "n = fs_nindir fs" and "b = ceil_div (i_size ip) (fs_bsize fs)"
  define l1 where "l1 = ceil_div (b - 12) n"
  define l2 where "l2 = ceil_div (l1 - 1) n"
  note pos = fs_ok_pos [OF ok]
  have n: "n = fs_bsize fs div 8" "32 \<le> n" using fs_okD(10) [OF ok] bs by (simp_all add: n_def)
  have b: "0 \<le> b" "b < 2 ^ 31" using ceil_div_nonneg ceil_div_bound [OF sz bs] sz pos by (auto simp: b_def)
  have hb: "s32 (howmany (i_size ip) (fs_bsize fs)) = b" using howmany_ceil_div sz pos b by (simp add: b_def s32_id)
  have fr: "numfrags fs (fragroundup fs (i_size ip)) = ceil_div (i_size ip) (fs_fsize fs)"
    using pos by (simp add: macro_div_mod(2,9) [OF ok] ceil_div_def add_diff_eq)
  have fb: "0 \<le> ceil_div (i_size ip) (fs_fsize fs)" "ceil_div (i_size ip) (fs_fsize fs) < 2 ^ 31" if "b < 12"
  proof -
    have "(i_size ip + fs_bsize fs - 1) div fs_bsize fs < 12" using that by (simp add: b_def ceil_div_def)
    then have "i_size ip < 12 * fs_bsize fs" using pos(1) by (simp add: div_less_mult)
    moreover have "fs_frag fs * fs_fsize fs \<le> 8 * fs_fsize fs" using fs_okD(5) [OF ok] pos(2) by (intro mult_right_mono) auto
    ultimately have "i_size ip + fs_fsize fs - 1 < 97 * fs_fsize fs" using fs_okD(4) [OF ok] by linarith
    then have "ceil_div (i_size ip) (fs_fsize fs) < 97" using pos(2) by (simp add: ceil_div_def div_less_mult)
    then show "ceil_div (i_size ip) (fs_fsize fs) < 2 ^ 31" by simp
    show "0 \<le> ceil_div (i_size ip) (fs_fsize fs)" using ceil_div_nonneg pos(2) sz by simp
  qed
  have l: "howmany (b - 12) n = l1" "0 \<le> l1" "howmany (l1 - 1) n = l2" "0 \<le> l2" "l2 \<noteq> 0 \<Longrightarrow> howmany (l2 - 1) n = ceil_div (l2 - 1) n" if "12 \<le> b"
  proof -
    show "howmany (b - 12) n = l1" "0 \<le> l1" using howmany_ceil_div ceil_div_nonneg that n(2) by (simp_all add: l1_def)
    then show "howmany (l1 - 1) n = l2" "0 \<le> l2" using howmany_ceil_div ceil_div_nonneg n(2) by (simp_all add: l2_def)
    then show "howmany (l2 - 1) n = ceil_div (l2 - 1) n" using howmany_ceil_div n(2) by simp
  qed
  have sh: "drop_bit DEV_BSHIFT (fs_fsize fs) = fs_fsize fs div 512" by (simp add: drop_bit_eq_div)
  show ?thesis
    unfolding calc_num_blocks_def sectors_of_def Let_def hb n_def [symmetric] n(1) [symmetric] b_def [symmetric] fr sh max_symlinklen_def
    using l fb by (auto simp: l1_def [symmetric] l2_def [symmetric] s32_id algebra_simps)
qed

lemma inode_size_nonneg: "inode_ok ip \<Longrightarrow> 0 \<le> i_size ip"
  unfolding inode_ok_def by (metis take_bit_nonnegative)

lemma same_stored:
  assumes ok: "fs_ok fs" "256 \<le> fs_bsize fs" and ip: "inode_ok ip" and sf: "same_file d (copy_incore_to_ondisk fs ip)"
  shows "stored_as fs ip d"
proof -
  have "di_db (i_din2 (copy_incore_to_ondisk fs ip)) k = di_db (i_din2 ip) k"
    "di_ib (i_din2 (copy_incore_to_ondisk fs ip)) k = di_ib (i_din2 ip) k" if "0 \<le> k" for k
    unfolding di_db_def di_ib_def by (rule ld_cong, use incore_ondisk(14) [OF ip] that in simp)+
  moreover have "i_size ip < 2 ^ 38 \<Longrightarrow> i_blocks (copy_incore_to_ondisk fs ip) = u64 (sectors_of fs (i_mode ip) (i_size ip))"
    using calc_num_blocks_sectors [OF ok, of ip] inode_size_nonneg [OF ip] by (simp add: copy_incore_to_ondisk_def Let_def)
  ultimately show ?thesis using sf unfolding stored_as_def same_file_def by (simp add: copy_incore_to_ondisk_def Let_def)
qed

subsection \<open>The inode block cache\<close>

definition ino_addr :: "uufsd \<Rightarrow> int \<Rightarrow> int" where
  "ino_addr s ino = fsbtodb (d_fs s) (ino_to_fsba (d_fs s) ino) * d_bsize s"

text \<open>The address of the on-disk inode on the device.\<close>

definition ino_slot :: "uufsd \<Rightarrow> int \<Rightarrow> int" where
  "ino_slot s ino = ino_addr s ino + 256 * (ino mod INOPB (d_fs s))"

text \<open>A working device with a UFS2 file system whose inode area lies inside its group.\<close>

definition ino_geom :: "uufsd \<Rightarrow> bool" where
  "ino_geom s \<longleftrightarrow> disk_ok s \<and> d_ufs s = 2 \<and> fs_bsize (d_fs s) = 256 * fs_inopb (d_fs s) \<and>
     fs_ipg (d_fs s) mod fs_inopb (d_fs s) = 0 \<and> 0 \<le> fs_iblkno (d_fs s) \<and>
     256 * fs_ipg (d_fs s) \<le> fs_fpg (d_fs s) * fs_fsize (d_fs s)"

definition ino_cache_ok :: "uufsd \<Rightarrow> bool" where
  "ino_cache_ok s \<longleftrightarrow> (d_inomin s < d_inomax s \<longrightarrow>
     0 \<le> d_inomin s \<and> d_inomax s = d_inomin s + INOPB (d_fs s) \<and> d_inomin s mod INOPB (d_fs s) = 0 \<and>
     (\<exists>b. d_inoblock s = Some b \<and> (\<forall>i \<in> {0..<fs_bsize (d_fs s)}. b i = dev_data s (ino_addr s (d_inomin s) + i))))"

lemma ino_geomD:
  assumes "ino_geom s"
  shows "disk_ok s" "io_ok s" "fs_ok (d_fs s)" "d_ufs s = 2" "fs_bsize (d_fs s) = 256 * fs_inopb (d_fs s)"
    "fs_ipg (d_fs s) mod fs_inopb (d_fs s) = 0" "0 \<le> fs_iblkno (d_fs s)"
    "256 * fs_ipg (d_fs s) \<le> fs_fpg (d_fs s) * fs_fsize (d_fs s)" "0 < fs_inopb (d_fs s)" "0 < fs_ipg (d_fs s)"
  using assms by (auto simp: ino_geom_def disk_ok_def fs_okD)

lemma mod_div_block:
  assumes "0 < (b :: int)" "n mod b = 0"
  shows "x mod n div b * b + x mod b = x mod n"
proof -
  have "b dvd n" using assms(2) by (simp add: dvd_eq_mod_eq_0)
  then have "x mod n mod b = x mod b" by (rule mod_mod_cancel)
  then show ?thesis using div_mult_mod_eq [of "x mod n" b] by simp
qed

lemma mod_in_block:
  assumes "0 < (n :: int)" "n mod f = 0" "0 < f"
  shows "b mod n div f = b div f - (b div n) * (n div f)"
proof -
  have "f dvd n" using assms(2) by (simp add: dvd_eq_mod_eq_0)
  then have "b = (b div n) * (n div f) * f + b mod n" using div_mult_mod_eq [of b n] by (metis dvd_div_mult_self mult.assoc)
  then have "b div f = ((b mod n) + ((b div n) * (n div f)) * f) div f" by (metis add.commute)
  also have "\<dots> = b div n * (n div f) + b mod n div f" using assms(3) by simp
  finally show ?thesis by simp
qed

lemma ino_addr_eq:
  assumes g: "ino_geom s" and "0 \<le> ino"
  shows "ino_addr s ino = (fs_fpg (d_fs s) * (ino div fs_ipg (d_fs s)) + fs_iblkno (d_fs s)) * fs_fsize (d_fs s) +
      fs_bsize (d_fs s) * (ino mod fs_ipg (d_fs s) div fs_inopb (d_fs s))"
    "0 \<le> fsbtodb (d_fs s) (ino_to_fsba (d_fs s) ino)"
proof -
  define fs where "fs = d_fs s"
  note d = ino_geomD [OF g, folded fs_def]
  have m: "fs_magic fs = FS_UFS2_MAGIC" using d(1) by (simp add: disk_ok_def fs_def)
  have fb: "ino_to_fsba fs ino = fs_fpg fs * (ino div fs_ipg fs) + fs_iblkno fs + ino mod fs_ipg fs div fs_inopb fs * fs_frag fs"
    using assms(2) d(9,10) m
    by (simp add: ino_to_fsba_def ino_to_cg_def sdiv_nonneg smod_nonneg cgimin_def cgstart_def cgbase_def INOPB_def macro_div_mod(4) [OF d(3)])
  show "ino_addr s ino = (fs_fpg (d_fs s) * (ino div fs_ipg (d_fs s)) + fs_iblkno (d_fs s)) * fs_fsize (d_fs s) +
      fs_bsize (d_fs s) * (ino mod fs_ipg (d_fs s) div fs_inopb (d_fs s))"
    unfolding ino_addr_def fs_def [symmetric] fb fsbtodb_eq fs_okD(4) [OF d(3)] disk_okD(3) [OF d(1), folded fs_def, symmetric]
    by (simp add: algebra_simps)
  have "0 \<le> ino div fs_ipg fs" "0 \<le> ino mod fs_ipg fs div fs_inopb fs"
    using assms(2) d(9,10) by (simp_all add: pos_imp_zdiv_nonneg_iff)
  then show "0 \<le> fsbtodb (d_fs s) (ino_to_fsba (d_fs s) ino)"
    using d(7) fs_okD(15) [OF d(3)] fs_ok_pos(3) [OF d(3)] by (simp add: fs_def [symmetric] fb fsbtodb_eq)
qed

lemma ino_slot_eq:
  assumes g: "ino_geom s" and "0 \<le> ino"
  shows "ino_slot s ino = (fs_fpg (d_fs s) * (ino div fs_ipg (d_fs s)) + fs_iblkno (d_fs s)) * fs_fsize (d_fs s) +
      256 * (ino mod fs_ipg (d_fs s))"
proof -
  note d = ino_geomD [OF g]
  show ?thesis using mod_div_block [OF d(9,6), of ino]
    unfolding ino_slot_def ino_addr_eq(1) [OF assms] INOPB_def d(5) by (simp add: algebra_simps)
qed

lemma ino_slot_apart:
  assumes g: "ino_geom s" and "0 \<le> i" "0 \<le> j" "i \<noteq> j"
  shows "ino_slot s i + 256 \<le> ino_slot s j \<or> ino_slot s j + 256 \<le> ino_slot s i"
proof -
  note d = ino_geomD [OF g]
  have less: "ino_slot s x + 256 \<le> ino_slot s y" if x: "0 \<le> x" and y: "0 \<le> y" "x < y" for x y
  proof -
    define n where "n = fs_ipg (d_fs s)"
    have n: "0 < n" "0 \<le> y mod n" "x mod n < n" using d(10) by (simp_all add: n_def)
    consider "x div n = y div n" | "x div n < y div n" using zdiv_mono1 [of x y n] n(1) y(2) by linarith
    then show ?thesis
    proof cases
      case 1
      then have "x mod n < y mod n" using y(2) div_mult_mod_eq [of x n] div_mult_mod_eq [of y n] by (metis add_less_cancel_left)
      then show ?thesis unfolding ino_slot_eq [OF g x] ino_slot_eq [OF g y(1)] n_def [symmetric] 1 by simp
    next
      case 2
      define A where "A = fs_fpg (d_fs s) * fs_fsize (d_fs s)"
      have A: "256 * n \<le> A" using d(8) by (simp add: A_def n_def)
      have "A * (x div n + 1) \<le> A * (y div n)" using 2 A n(1) by (intro mult_left_mono) auto
      then have "A * (x div n) + 256 * n \<le> A * (y div n)" using A by (simp add: algebra_simps)
      then have "A * (x div n) + 256 * (x mod n) + 256 \<le> A * (y div n) + 256 * (y mod n)" using n(2,3) by simp
      then show ?thesis unfolding ino_slot_eq [OF g x] ino_slot_eq [OF g y(1)] n_def [symmetric]
        by (simp add: A_def algebra_simps)
    qed
  qed
  show ?thesis using less [of i j] less [of j i] assms(2-4) by (cases "i < j") auto
qed

lemma ino_base_addr:
  assumes g: "ino_geom s" and "0 \<le> ino"
  shows "ino_addr s (ino - ino mod INOPB (d_fs s)) = ino_addr s ino" "0 \<le> ino - ino mod INOPB (d_fs s)"
    "(ino - ino mod INOPB (d_fs s)) mod INOPB (d_fs s) = 0"
proof -
  note d = ino_geomD [OF g]
  define b n where "b = fs_inopb (d_fs s)" and "n = fs_ipg (d_fs s)"
  have b: "0 < b" "n mod b = 0" "0 < n" using d by (simp_all add: b_def n_def)
  have dv: "b dvd n" using b(2) by (simp add: dvd_eq_mod_eq_0)
  define y where "y = ino div b * b"
  have e: "ino - ino mod INOPB (d_fs s) = y" by (simp add: y_def b_def INOPB_def minus_mod_eq_div_mult)
  show p: "0 \<le> ino - ino mod INOPB (d_fs s)" unfolding e using assms(2) b(1) by (simp add: y_def pos_imp_zdiv_nonneg_iff)
  show "(ino - ino mod INOPB (d_fs s)) mod INOPB (d_fs s) = 0" unfolding e by (simp add: y_def INOPB_def b_def)
  have n: "n = b * (n div b)" using dv by simp
  have nb: "0 \<le> n div b" using b by (simp add: pos_imp_zdiv_nonneg_iff)
  have dd: "x div n = x div b div (n div b)" for x by (subst n) (rule zdiv_zmult2_eq [OF nb])
  have yb: "y div b = ino div b" using b(1) by (simp add: y_def)
  have q: "y div n = ino div n" unfolding dd yb ..
  have mm: "x mod n div b = x div b - (x div n) * (n div b)" for x using mod_in_block [OF b(3,2,1)] .
  have "y mod n div b = ino mod n div b" unfolding mm yb q ..
  with q show "ino_addr s (ino - ino mod INOPB (d_fs s)) = ino_addr s ino"
    unfolding e ino_addr_eq(1) [OF g p [unfolded e]] ino_addr_eq(1) [OF g assms(2)] b_def n_def by simp
qed

lemma getino_ok:
  assumes g: "ino_geom s" and c: "ino_cache_ok s" and ino: "0 \<le> ino"
  shows "\<exists>b. getino ino s = (0, 256 * (ino mod INOPB (d_fs s)), s\<lparr>d_inoblock := Some b, d_inomin := ino - ino mod INOPB (d_fs s),
      d_inomax := ino - ino mod INOPB (d_fs s) + INOPB (d_fs s)\<rparr>) \<and>
    (\<forall>i \<in> {0..<fs_bsize (d_fs s)}. b i = dev_data s (ino_addr s ino + i))"
proof -
  note d = ino_geomD [OF g]
  define P where "P = INOPB (d_fs s)"
  have P: "0 < P" using d(9) by (simp add: P_def INOPB_def)
  show ?thesis
  proof (cases "d_inomin s \<le> ino \<and> ino < d_inomax s")
    case True
    then have cc: "0 \<le> d_inomin s" "d_inomax s = d_inomin s + P" "d_inomin s mod P = 0"
      using c by (auto simp: ino_cache_ok_def P_def)
    obtain b where b: "d_inoblock s = Some b" "\<forall>i \<in> {0..<fs_bsize (d_fs s)}. b i = dev_data s (ino_addr s (d_inomin s) + i)"
      using c True by (auto simp: ino_cache_ok_def)
    have "ino div P = d_inomin s div P"
    proof -
      have "d_inomin s = P * (d_inomin s div P)" using cc(3) div_mult_mod_eq [of "d_inomin s" P] by (simp add: mult.commute)
      then show ?thesis using block_range [OF P, of ino "d_inomin s div P"] True cc(2) by simp
    qed
    then have mn: "d_inomin s = ino - ino mod P"
      using cc(3) div_mult_mod_eq [of "d_inomin s" P] div_mult_mod_eq [of ino P] by simp
    have "getino ino s = (0, 256 * (ino - d_inomin s), s\<lparr>d_inoblock := Some b\<rparr>)"
      using True b(1) d(4) by (simp add: getino_def Let_def)
    moreover have "s\<lparr>d_inoblock := Some b\<rparr> = s\<lparr>d_inoblock := Some b, d_inomin := ino - ino mod P, d_inomax := ino - ino mod P + P\<rparr>"
      using mn cc(2) by simp
    ultimately show ?thesis unfolding P_def [symmetric]
      using b(2) ino_base_addr(1) [OF g ino] mn by (auto simp: P_def)
  next
    case False
    obtain b0 where b0: "(case d_inoblock s of None \<Rightarrow> if env_mem s then Some (env_junk s) else None | Some b \<Rightarrow> Some b) = Some b0"
      using io_ok_mem [OF d(2)] by (cases "d_inoblock s") auto
    note rd = bread_ok [OF d(2) ino_addr_eq(2) [OF g ino] fs_ok_pos(1) [OF d(3)], of b0]
    define b where "b = memcpy b0 0 (dev_data s) (ino_addr s ino) (fs_bsize (d_fs s))"
    have "getino ino s = (0, 256 * (ino mod P), s\<lparr>d_inoblock := Some b, d_inomin := ino - ino mod P, d_inomax := ino - ino mod P + P\<rparr>)"
      using False d(4) by (auto simp: getino_def Let_def b0 rd P_def b_def ino_addr_def)
    then show ?thesis unfolding P_def [symmetric] by (auto simp: b_def mem_simps)
  qed
qed

lemma ino_geom_update:
  "ino_geom (s\<lparr>d_inoblock := b\<rparr>) = ino_geom s" "ino_geom (s\<lparr>d_inomin := x\<rparr>) = ino_geom s" "ino_geom (s\<lparr>d_inomax := x\<rparr>) = ino_geom s"
  "ino_geom (s\<lparr>dev_data := m\<rparr>) = ino_geom s" "ino_addr (s\<lparr>d_inoblock := b\<rparr>) = ino_addr s" "ino_addr (s\<lparr>d_inomin := x\<rparr>) = ino_addr s"
  "ino_addr (s\<lparr>d_inomax := x\<rparr>) = ino_addr s" "ino_addr (s\<lparr>dev_data := m\<rparr>) = ino_addr s"
  "ino_slot (s\<lparr>d_inoblock := b\<rparr>) = ino_slot s" "ino_slot (s\<lparr>d_inomin := x\<rparr>) = ino_slot s"
  "ino_slot (s\<lparr>d_inomax := x\<rparr>) = ino_slot s" "ino_slot (s\<lparr>dev_data := m\<rparr>) = ino_slot s"
  by (simp_all add: ino_geom_def disk_ok_def ino_addr_def ino_slot_def fun_eq_iff)

lemma slot_in_block:
  assumes g: "ino_geom s" and ino: "0 \<le> ino"
  shows "0 \<le> 256 * (ino mod INOPB (d_fs s))" "256 * (ino mod INOPB (d_fs s)) + 256 \<le> fs_bsize (d_fs s)"
proof -
  note d = ino_geomD [OF g]
  have "0 \<le> ino mod fs_inopb (d_fs s)" "ino mod fs_inopb (d_fs s) < fs_inopb (d_fs s)" using d(9) by simp_all
  then show "0 \<le> 256 * (ino mod INOPB (d_fs s))" "256 * (ino mod INOPB (d_fs s)) + 256 \<le> fs_bsize (d_fs s)"
    unfolding INOPB_def d(5) by linarith+
qed

text \<open>Writing an inode changes its 256 bytes on the device and nothing else, and the cache stays
  coherent.\<close>

lemma write_inode_ok:
  assumes g: "ino_geom s" and c: "ino_cache_ok s" and ino: "0 \<le> ino"
  shows "\<exists>s'. ufs_write_inode ino ip s = (0, copy_incore_to_ondisk (d_fs s) ip, s') \<and> ino_geom s' \<and> ino_cache_ok s' \<and>
    d_fs s' = d_fs s \<and> ino_slot s' = ino_slot s \<and>
    dev_data s' = memcpy (dev_data s) (ino_slot s ino) (i_din2 (copy_incore_to_ondisk (d_fs s) ip)) 0 256"
proof -
  note d = ino_geomD [OF g]
  define P mn off ip' where "P = INOPB (d_fs s)" and "mn = ino - ino mod P" and "off = 256 * (ino mod P)"
    and "ip' = copy_incore_to_ondisk (d_fs s) ip"
  note sb = slot_in_block [OF g ino, folded P_def, folded off_def]
  obtain b where b: "getino ino s = (0, off, s\<lparr>d_inoblock := Some b, d_inomin := mn, d_inomax := mn + P\<rparr>)"
    "\<forall>i \<in> {0..<fs_bsize (d_fs s)}. b i = dev_data s (ino_addr s ino + i)"
    using getino_ok [OF assms] by (auto simp: P_def mn_def off_def)
  define b' where "b' = memcpy b off (i_din2 ip') 0 256"
  define t where "t = s\<lparr>d_inoblock := Some b', d_inomin := mn, d_inomax := mn + P\<rparr>"
  define s' where "s' = t\<lparr>dev_data := memcpy (dev_data s) (ino_addr s ino) b' 0 (fs_bsize (d_fs s))\<rparr>"
  have io: "io_ok t" using d(2) by (simp add: t_def)
  have w: "blkwrite (fsbtodb (d_fs s) (ino_to_fsba (d_fs s) ino)) b' (fs_bsize (d_fs s)) t = (fs_bsize (d_fs s), s')"
    using blkwrite_ok [OF io ino_addr_eq(2) [OF g ino] fs_ok_pos(1) [OF d(3)], of b'] by (simp add: s'_def t_def ino_addr_def)
  have t: "s\<lparr>d_inomin := mn, d_inomax := mn + P, d_inoblock := Some b'\<rparr> = t" by (simp add: t_def)
  have "ufs_write_inode ino ip s = (0, ip', s')"
    using w fs_ok_pos(1) [OF d(3)] by (simp add: ufs_write_inode_def b(1) Let_def ip'_def [symmetric] b'_def [symmetric] t)
  moreover have "ino_geom s'" using g by (simp add: s'_def t_def ino_geom_update)
  moreover have "ino_cache_ok s'"
    using ino_base_addr [OF g ino] by (auto simp: ino_cache_ok_def s'_def t_def ino_geom_update P_def mn_def mem_simps)
  moreover have "dev_data s' = memcpy (dev_data s) (ino_slot s ino) (i_din2 ip') 0 256"
  proof
    fix x
    define y where "y = x - ino_addr s ino"
    have x: "x = ino_addr s ino + y" by (simp add: y_def)
    show "dev_data s' x = memcpy (dev_data s) (ino_slot s ino) (i_din2 ip') 0 256 x"
      using sb b(2) by (auto simp: s'_def t_def memcpy_def x ino_slot_def P_def [symmetric] off_def [symmetric] b'_def)
  qed
  ultimately show ?thesis by (auto simp: ip'_def s'_def t_def ino_geom_update)
qed

text \<open>Reading any inode through the cache gives what is on the device.\<close>

lemma read_inode_ok:
  assumes g: "ino_geom s" and c: "ino_cache_ok s" and ino: "0 \<le> ino"
  shows "\<exists>off s'. getino ino s = (0, off, s') \<and> ino_geom s' \<and> ino_cache_ok s' \<and> dev_data s' = dev_data s \<and>
    (\<exists>b. d_inoblock s' = Some b \<and> (\<forall>i \<in> {0..<256}. b (off + i) = dev_data s (ino_slot s ino + i)))"
proof -
  define P mn off where "P = INOPB (d_fs s)" and "mn = ino - ino mod P" and "off = 256 * (ino mod P)"
  note sb = slot_in_block [OF g ino, folded P_def, folded off_def]
  obtain b where b: "getino ino s = (0, off, s\<lparr>d_inoblock := Some b, d_inomin := mn, d_inomax := mn + P\<rparr>)"
    "\<forall>i \<in> {0..<fs_bsize (d_fs s)}. b i = dev_data s (ino_addr s ino + i)"
    using getino_ok [OF assms] by (auto simp: P_def mn_def off_def)
  define s' where "s' = s\<lparr>d_inoblock := Some b, d_inomin := mn, d_inomax := mn + P\<rparr>"
  have "ino_cache_ok s'"
    using b(2) ino_base_addr [OF g ino] by (auto simp: ino_cache_ok_def s'_def ino_geom_update P_def mn_def)
  moreover have "\<forall>i \<in> {0..<256}. b (off + i) = dev_data s (ino_slot s ino + i)"
    using b(2) sb by (auto simp: ino_slot_def P_def [symmetric] off_def [symmetric] add.assoc)
  ultimately show ?thesis using b(1) g by (auto simp: s'_def [symmetric]) (simp_all add: s'_def ino_geom_update)
qed

subsection \<open>The table of inodes\<close>

text \<open>The abstract state behind the cache: the on-disk inode of each number.\<close>

definition dinode_at :: "uufsd \<Rightarrow> int \<Rightarrow> mem" where
  "dinode_at s ino = memcpy (\<lambda>_. 0) 0 (dev_data s) (ino_slot s ino) 256"

lemma incore_of_block:
  assumes "\<forall>i \<in> {0..<256}. b (off + i) = dev_data s (ino_slot s ino + i)"
  shows "copy_ondisk_to_incore ip0 b off ino = copy_ondisk_to_incore ip0 (dinode_at s ino) 0 ino"
proof -
  have "memcpy (i_din2 ip0) 0 b off 256 = memcpy (i_din2 ip0) 0 (dinode_at s ino) 0 256"
    using assms by (auto simp: fun_eq_iff memcpy_def dinode_at_def)
  then show ?thesis by (simp add: copy_ondisk_to_incore_def)
qed

lemma dinode_write:
  assumes g: "ino_geom s" and ino: "0 \<le> ino" and sl: "ino_slot s' = ino_slot s"
    and d: "dev_data s' = memcpy (dev_data s) (ino_slot s ino) m 0 256"
  shows "\<forall>i \<in> {0..<256}. dinode_at s' ino (0 + i) = m i" "0 \<le> j \<Longrightarrow> j \<noteq> ino \<Longrightarrow> dinode_at s' j = dinode_at s j"
proof -
  show "\<forall>i \<in> {0..<256}. dinode_at s' ino (0 + i) = m i" by (simp add: dinode_at_def memcpy_def d sl)
  show "dinode_at s' j = dinode_at s j" if "0 \<le> j" "j \<noteq> ino"
  proof
    fix i
    show "dinode_at s' j i = dinode_at s j i"
      using ino_slot_apart [OF g ino that(1)] that(2) by (auto simp: dinode_at_def memcpy_def d sl)
  qed
qed

lemma ino_geom_bsize: "ino_geom s \<Longrightarrow> 256 \<le> fs_bsize (d_fs s)"
  using ino_geomD(5,9) [of s] by simp

text \<open>C8. \<open>ufs_write_inode\<close> on a working UFS2 device stores an inode so that reading it back from
  the device gives the mode, link count, size, flags, generation, owner, times and all 15 block
  pointers of the inode that was given; the number of sectors read back is the one its size
  requires (stated for files below 256 GB), whatever number was given. The on-disk inode of every
  other number is left as it was, and the cached inode block stays equal to what is on the device.\<close>

theorem write_inode_roundtrip:
  assumes "ino_geom s" "ino_cache_ok s" "0 \<le> ino" "inode_ok ip"
  shows "\<exists>ip' s'. ufs_write_inode ino ip s = (0, ip', s') \<and> ino_geom s' \<and> ino_cache_ok s' \<and>
    stored_as (d_fs s) ip (copy_ondisk_to_incore ip0 (dinode_at s' ino) 0 ino) \<and> stored_as (d_fs s) ip ip' \<and>
    (\<forall>j. 0 \<le> j \<longrightarrow> j \<noteq> ino \<longrightarrow> dinode_at s' j = dinode_at s j)"
proof -
  obtain s' where s': "ufs_write_inode ino ip s = (0, copy_incore_to_ondisk (d_fs s) ip, s')" "ino_geom s'" "ino_cache_ok s'"
    "ino_slot s' = ino_slot s" "dev_data s' = memcpy (dev_data s) (ino_slot s ino) (i_din2 (copy_incore_to_ondisk (d_fs s) ip)) 0 256"
    using write_inode_ok [OF assms(1-3)] by blast
  note dw = dinode_write [OF assms(1,3) s'(4,5)]
  note st = same_stored [OF ino_geomD(3) [OF assms(1)] ino_geom_bsize [OF assms(1)] assms(4)]
  have "same_file (copy_incore_to_ondisk (d_fs s) ip) (copy_incore_to_ondisk (d_fs s) ip)" by (simp add: same_file_def)
  then show ?thesis using s'(1-3) st [OF ondisk_incore [OF assms(4) dw(1)]] st dw(2) by blast
qed

text \<open>C12. \<open>getino\<close> is a transparent cache: whatever block was cached before, on a working UFS2 device
  the in-core inode made from what it returns is the one on the device, and the call changes
  neither the device nor the coherence of the cache.\<close>

theorem getino_transparent:
  assumes "ino_geom s" "ino_cache_ok s" "0 \<le> ino"
  shows "\<exists>off s'. getino ino s = (0, off, s') \<and> ino_geom s' \<and> ino_cache_ok s' \<and> dev_data s' = dev_data s \<and>
    copy_ondisk_to_incore ip0 (the (d_inoblock s')) off ino = copy_ondisk_to_incore ip0 (dinode_at s ino) 0 ino"
  using read_inode_ok [OF assms] incore_of_block by fastforce

lemma ino_geom_ex: "ino_geom disk_ex" "ino_cache_ok disk_ex"
proof -
  have "disk_ok disk_ex" using space_okD(1) [OF space_ok_ex] .
  then show "ino_geom disk_ex" by (simp add: ino_geom_def) (simp add: fs_one_def fs_ex_def disk_ex_def)
  show "ino_cache_ok disk_ex" by (simp add: ino_cache_ok_def disk_ex_def)
qed

definition inode_ex :: inode where
  "inode_ex = \<lparr>i_flag = 0, i_number = 5, i_effnlink = 1, i_count = 0, i_endoff = 0, i_diroff = 0, i_offset = 0, i_ino = 5,
     i_reclen = 0, i_mode = 33188, i_nlink = 1, i_size = 5000, i_flags = 0, i_gen = 77, i_uid = 1000, i_gid = 1000,
     i_blocks = 16, i_atime = 11, i_mtime = 12, i_ctime = 13, i_din2 = st64 (\<lambda>_. 0) 112 48\<rparr>"

lemma inode_ok_ex: "inode_ok inode_ex" by code_simp

theorem write_inode_roundtrip_witness:
  "\<exists>ip' s' d. ufs_write_inode 5 inode_ex disk_ex = (0, ip', s') \<and> d = copy_ondisk_to_incore inode_ex (dinode_at s' 5) 0 5 \<and>
     i_size d = 5000 \<and> i_uid d = 1000 \<and> i_mtime d = 12 \<and> di_db (i_din2 d) 0 = 48 \<and> di_db (i_din2 d) 1 = 0 \<and> i_blocks d = 10"
proof -
  obtain ip' s' where w: "ufs_write_inode 5 inode_ex disk_ex = (0, ip', s')"
    "stored_as (d_fs disk_ex) inode_ex (copy_ondisk_to_incore inode_ex (dinode_at s' 5) 0 5)"
    using write_inode_roundtrip [OF ino_geom_ex _ inode_ok_ex, of 5 inode_ex] by auto
  have "di_db (i_din2 inode_ex) 0 = 48" "di_db (i_din2 inode_ex) 1 = 0" "sectors_of fs_one (i_mode inode_ex) (i_size inode_ex) = 10"
    by code_simp+
  then show ?thesis using w by (auto simp: stored_as_def inode_ex_def)
qed

theorem getino_transparent_witness:
  "\<exists>off s'. getino 5 disk_ex = (0, off, s') \<and>
     copy_ondisk_to_incore inode_ex (the (d_inoblock s')) off 5 = copy_ondisk_to_incore inode_ex (dinode_at disk_ex 5) 0 5"
  using getino_transparent [OF ino_geom_ex, of 5 inode_ex] by auto

end
