(* ===== verification/Ufs_Inode_Alloc.thy ===== *)
theory Ufs_Inode_Alloc
  imports Ufs_Inode_Table
begin

section \<open>The inode allocator implements its specification\<close>

text \<open>
  \<open>inos_ok s\<close> extends \<open>space_ok s\<close> by the inode maps and their counters; \<open>used_ino s\<close> is the set
  of inode numbers in use. \<open>ufs_inode_alloc\<close> is the second instance of the interface
  \<open>group_alloc\<close>, so that \<open>ufs_hashalloc\<close> takes a free number whenever there is one. The last
  part is about the initialisation of inode blocks, which goes to the wrong block.
\<close>

subsection \<open>Searching the inode map\<close>

lemma byte_find_spec:
  "case byte_find p m a i len of
     Some j \<Rightarrow> i \<le> j \<and> j < len \<and> p (m (a + j)) \<and> (\<forall>k. i \<le> k \<longrightarrow> k < j \<longrightarrow> \<not> p (m (a + k)))
   | None \<Rightarrow> \<forall>k. i \<le> k \<longrightarrow> k < len \<longrightarrow> \<not> p (m (a + k))"
proof (induction p m a i len rule: byte_find.induct)
  case (1 p m a i len)
  show ?case
  proof (cases "i < len \<and> \<not> p (m (a + i))")
    case True
    then have e: "byte_find p m a i len = byte_find p m a (i + 1) len" by (simp add: byte_find.simps [of p m a i])
    have k: "k = i \<or> i + 1 \<le> k" if "i \<le> k" for k using that by linarith
    show ?thesis using 1 True k unfolding e by (auto split: option.splits)
  next
    case False
    then show ?thesis by (subst byte_find.simps) auto
  qed
qed

lemma first_clear_step:
  assumes "k < 8"
  shows "first_clear mp (2 ^ k) b = (if bit mp k then first_clear mp (2 ^ Suc k) (b + 1) else Some b)"
proof -
  have "(2 :: int) ^ k < 2 ^ 8" using assms by (intro power_strict_increasing) auto
  then show ?thesis
    by (subst first_clear.simps) (simp add: and_exp_eq_0_iff_not_bit push_bit_eq_mult mult.commute)
qed

lemma first_clear_spec:
  assumes "\<exists>k < 8. \<not> bit mp k"
  shows "\<exists>k < 8. first_clear mp 1 b = Some (b + int k) \<and> \<not> bit mp k"
proof -
  have st: "\<exists>k < 8. first_clear mp (2 ^ n) c = Some (c + int (k - n)) \<and> n \<le> k \<and> \<not> bit mp k"
    if "\<exists>k < 8. n \<le> k \<and> \<not> bit mp k" for n c
    using that
  proof (induction "8 - n" arbitrary: n c)
    case 0
    then show ?case by auto
  next
    case (Suc x)
    then have n: "n < 8" and xe: "x = 8 - Suc n" by simp_all
    show ?case
    proof (cases "bit mp n")
      case True
      then have "\<exists>k < 8. Suc n \<le> k \<and> \<not> bit mp k" using Suc.prems by (metis Suc_leI le_neq_implies_less)
      then obtain k where k: "k < 8" "first_clear mp (2 ^ Suc n) (c + 1) = Some (c + 1 + int (k - Suc n))" "Suc n \<le> k" "\<not> bit mp k"
        using Suc.hyps(1) [OF xe, of "c + 1"] by blast
      then have "first_clear mp (2 ^ n) c = Some (c + int (k - n))"
        using first_clear_step [OF n, of mp c] True by (simp add: of_nat_diff)
      then show ?thesis using k by (metis Suc_leD)
    next
      case False
      then show ?thesis using first_clear_step [OF n, of mp c] n by (intro exI [of _ n]) simp
    qed
  qed
  show ?thesis using st [of 0 b] assms by auto
qed

text \<open>A group with a consistent inode map whose inodes are all initialised.\<close>

abbreviation iused :: "mem \<Rightarrow> int \<Rightarrow> bool" where
  "iused c \<equiv> isset c (cg_iusedoff c)"

definition group_ino :: "fs \<Rightarrow> mem \<Rightarrow> bool" where
  "group_ino fs c \<longleftrightarrow> 168 \<le> cg_iusedoff c \<and> cg_iusedoff c + fs_ipg fs div 8 \<le> cg_freeoff c \<and>
     fs_ipg fs mod 8 = 0 \<and> 0 < fs_ipg fs \<and> fs_ipg fs < 2 ^ 31 \<and> 0 \<le> cg_irotor c \<and> cg_irotor c < fs_ipg fs \<and>
     cg_nifree c = int (card {i \<in> {0..<fs_ipg fs}. \<not> iused c i}) \<and> cg_niblk c \<le> cg_initediblk c"

lemma inode_search_ok:
  assumes n: "0 < fs_ipg fs" "fs_ipg fs mod 8 = 0" and ro: "0 \<le> cg_irotor c" "cg_irotor c < fs_ipg fs" and pref: "0 \<le> ipref"
    and free: "0 \<le> x" "x < fs_ipg fs" "\<not> iused c x"
  shows "\<exists>i c'. inode_search fs c ipref = Some (i, c') \<and> 0 \<le> i \<and> i < fs_ipg fs \<and> \<not> iused c i \<and> (c' = c \<or> c' = set_irotor c i)"
proof (cases "ipref \<noteq> 0 \<and> \<not> iused c (ipref mod fs_ipg fs)")
  case True
  then show ?thesis using n(1) pref by (simp add: inode_search_def smod_nonneg)
next
  case False
  define a N st len where "a = cg_iusedoff c" and "N = fs_ipg fs div 8" and "st = cg_irotor c div 8" and "len = howmany (fs_ipg fs - cg_irotor c) 8"
  have N: "fs_ipg fs = 8 * N" using n(2) by (simp add: N_def dvd_eq_mod_eq_0 [symmetric])
  have lens: "howmany (fs_ipg fs) 8 = N" using N n(1) by (simp add: howmany_def sdiv_nonneg)
  have st: "0 \<le> st" "st + len \<le> N"
  proof -
    show "0 \<le> st" using ro(1) by (simp add: st_def)
    have "len = (fs_ipg fs - cg_irotor c + 7) div 8" using ro by (simp add: len_def howmany_def sdiv_nonneg)
    then have "8 * len \<le> 8 * N - cg_irotor c + 7" unfolding N by simp
    moreover have "cg_irotor c \<le> 8 * st + 7" by (simp add: st_def)
    moreover have "8 * len mod 8 = 0" by simp
    ultimately show "st + len \<le> N"
      using \<open>len = (fs_ipg fs - cg_irotor c + 7) div 8\<close> unfolding N st_def by presburger
  qed
  define idx where "idx = (case byte_find (\<lambda>b. b = 0) c (a + st) 0 len of Some loc \<Rightarrow> Some (st + loc)
      | None \<Rightarrow> byte_find (\<lambda>b. b \<noteq> 0xff) c a 0 N)"
  have xb: "c (a + x div 8) \<noteq> 0xff"
  proof
    assume e: "c (a + x div 8) = 0xff"
    have "bit (0xff :: byte) (nat (x mod 8))"
      using nat_mod8_less [of x] unfolding byte_ff by simp
    then show False using free(3) e by (simp add: isset_bit a_def)
  qed
  have "\<exists>i. idx = Some i \<and> 0 \<le> i \<and> i < N \<and> c (a + i) \<noteq> 0xff"
  proof (cases "byte_find (\<lambda>b. b = 0) c (a + st) 0 len")
    case None
    have xr: "0 \<le> x div 8" "x div 8 < N" using free(1,2) N by auto
    then obtain j where j: "byte_find (\<lambda>b. b \<noteq> 0xff) c a 0 N = Some j"
      using byte_find_spec [where p = "\<lambda>b. b \<noteq> 0xff" and m = c and a = a and i = 0 and len = N] xb
      by (cases "byte_find (\<lambda>b. b \<noteq> 0xff) c a 0 N") auto
    then show ?thesis
      using byte_find_spec [where p = "\<lambda>b. b \<noteq> 0xff" and m = c and a = a and i = 0 and len = N] None by (simp add: idx_def)
  next
    case (Some loc)
    then have "0 \<le> loc" "loc < len" "c (a + st + loc) = 0" using byte_find_spec [where p = "\<lambda>b. b = 0" and m = c and a = "a + st" and i = 0 and len = len] by auto
    then show ?thesis using Some st by (auto simp: idx_def add.assoc)
  qed
  then obtain i where i: "idx = Some i" "0 \<le> i" "i < N" "c (a + i) \<noteq> 0xff" by blast
  have "\<exists>k < 8. \<not> bit (uint (c (a + i))) k"
  proof (rule ccontr)
    assume "\<not> ?thesis"
    then have "c (a + i) = 0xff" unfolding byte_ff by (intro bit_eqI) (auto simp: bit_uint_iff)
    then show False using i(4) by simp
  qed
  then obtain k where k: "k < 8" "first_clear (uint (c (a + i))) 1 (i * 8) = Some (i * 8 + int k)" "\<not> bit (uint (c (a + i))) k"
    using first_clear_spec by blast
  have e: "(i * 8 + int k) div 8 = i" "nat ((i * 8 + int k) mod 8) = k" using k(1) by auto
  have "\<not> iused c (i * 8 + int k)" using k(1,3) unfolding isset_bit e by (simp add: a_def bit_uint_iff)
  moreover have "inode_search fs c ipref = Some (i * 8 + int k, set_irotor c (i * 8 + int k))"
  proof -
    have "cg_irotor c sdiv 8 = st" using ro(1) by (simp add: st_def sdiv_nonneg)
    then show ?thesis
      using False pref n(1) i(1) k(2)
      unfolding inode_search_def Let_def NBBY_def lens a_def [symmetric] len_def [symmetric] idx_def
      by (auto simp: smod_nonneg)
  qed
  ultimately show ?thesis using i(2,3) k(1) N by (intro exI [of _ "i * 8 + int k"]) auto
qed

subsection \<open>Consistent inode maps\<close>

definition inos_ok :: "uufsd \<Rightarrow> bool" where
  "inos_ok s \<longleftrightarrow> space_ok s \<and> (\<forall>cg \<in> {0..<fs_ncg (d_fs s)}. group_ino (d_fs s) (group_at s cg) \<and>
       cs_nifree (fs_csp (d_fs s) cg) = cg_nifree (group_at s cg)) \<and>
     cs_nifree (fs_cstotal (d_fs s)) = (\<Sum>cg \<in> {0..<fs_ncg (d_fs s)}. cs_nifree (fs_csp (d_fs s) cg)) \<and>
     iused (group_at s 0) 0"

definition used_ino :: "uufsd \<Rightarrow> int \<Rightarrow> bool" where
  "used_ino s ino \<longleftrightarrow> 0 \<le> ino \<and> ino < fs_ncg (d_fs s) * fs_ipg (d_fs s) \<and>
     iused (group_at s (ino div fs_ipg (d_fs s))) (ino mod fs_ipg (d_fs s))"

lemma inos_okD:
  assumes "inos_ok s"
  shows "space_ok s" "\<And>cg. 0 \<le> cg \<Longrightarrow> cg < fs_ncg (d_fs s) \<Longrightarrow> group_ino (d_fs s) (group_at s cg)"
    "\<And>cg. 0 \<le> cg \<Longrightarrow> cg < fs_ncg (d_fs s) \<Longrightarrow> cs_nifree (fs_csp (d_fs s) cg) = cg_nifree (group_at s cg)"
    "cs_nifree (fs_cstotal (d_fs s)) = (\<Sum>cg \<in> {0..<fs_ncg (d_fs s)}. cs_nifree (fs_csp (d_fs s) cg))"
    "iused (group_at s 0) 0"
  using assms by (simp_all add: inos_ok_def)

lemma group_inoD:
  assumes "group_ino fs c"
  shows "168 \<le> cg_iusedoff c" "cg_iusedoff c + fs_ipg fs div 8 \<le> cg_freeoff c" "fs_ipg fs mod 8 = 0" "0 < fs_ipg fs"
    "fs_ipg fs < 2 ^ 31" "0 \<le> cg_irotor c" "cg_irotor c < fs_ipg fs"
    "cg_nifree c = int (card {i \<in> {0..<fs_ipg fs}. \<not> iused c i})" "cg_niblk c \<le> cg_initediblk c"
  using assms by (simp_all add: group_ino_def)

text \<open>The bytes of a group the inode operations write: time, directory and inode counts, the inode
  rotor, and the inode map.\<close>

definition ino_byte :: "fs \<Rightarrow> mem \<Rightarrow> int \<Rightarrow> bool" where
  "ino_byte fs c i \<longleftrightarrow> 8 \<le> i \<and> i < 12 \<or> 24 \<le> i \<and> i < 28 \<or> 32 \<le> i \<and> i < 36 \<or> 48 \<le> i \<and> i < 52 \<or> 136 \<le> i \<and> i < 144 \<or>
     cg_iusedoff c \<le> i \<and> i < cg_iusedoff c + fs_ipg fs div 8"

lemma group_ok_ino:
  assumes ok: "fs_ok fs" "group_ok fs c" and gi: "group_ino fs c" and same: "\<forall>i. \<not> ino_byte fs c i \<longrightarrow> c' i = c i"
  shows "group_ok fs c'" "\<And>i. 0 \<le> i \<Longrightarrow> frees c' i = frees c i" "cg_nbfree c' = cg_nbfree c" "cg_nffree c' = cg_nffree c"
    "cg_cgx c' = cg_cgx c" "cg_magic c' = cg_magic c" "cg_nclusterblks c' = cg_nclusterblks c" "cg_iusedoff c' = cg_iusedoff c"
    "cg_freeoff c' = cg_freeoff c" "cg_niblk c' = cg_niblk c" "cg_initediblk c' = cg_initediblk c"
proof -
  note g = group_okD [OF ok(2)] and a = group_inoD [OF gi]
  have hd: "\<forall>i \<in> {92..<124}. c' i = c i" using same a(1) by (auto simp: ino_byte_def)
  show h: "cg_nclusterblks c' = cg_nclusterblks c" "cg_iusedoff c' = cg_iusedoff c" "cg_freeoff c' = cg_freeoff c"
    "cg_niblk c' = cg_niblk c" "cg_initediblk c' = cg_initediblk c"
    using cg_get_cong [OF hd] by simp_all
  have ld: "ld32 c' x = ld32 c x" if "x \<in> {4, 12, 28, 36, 40, 44} \<or> 52 \<le> x \<and> x \<le> 88" for x
    by (rule ld_cong) (use same that a(1) in \<open>auto simp: ino_byte_def\<close>)
  show n: "cg_nbfree c' = cg_nbfree c" "cg_nffree c' = cg_nffree c" "cg_cgx c' = cg_cgx c" "cg_magic c' = cg_magic c"
    using ld by (simp_all add: cg_get_defs)
  show fr: "frees c' i = frees c i" if "0 \<le> i" for i
  proof -
    have "0 \<le> i div 8" using that by simp
    then have "\<not> ino_byte fs c (cg_freeoff c + i div 8)" using g(1) a(2) by (auto simp: ino_byte_def)
    then show ?thesis unfolding h(3) using same by (intro isset_cong) blast
  qed
  have s: "cg_frsum c' s = cg_frsum c s" if "s \<in> {1..<fs_frag fs}" for s
    using ld [of "52 + 4 * s"] that fs_okD(5) [OF ok(1)] by (auto simp: cg_frsum_def)
  have cn: "counts (fs_frag fs) (nblocks fs) (frees c) (cg_nbfree c') (cg_nffree c') (cg_frsum c')"
    by (rule counts_cong [OF frag_blocks(1) [OF ok(1)] _ g(8)]) (use n s in auto)
  have gc: "group_clus fs c' (frees c)"
  proof (rule group_clus_cong [OF g(9)])
    have "0 \<le> fs_fpg fs div 8" using fs_okD(15) [OF ok(1)] by simp
    then show "c' i = c i" if "cg_freeoff c + fs_fpg fs div 8 \<le> i" for i
      using that g(1) a(2) same by (auto simp: ino_byte_def)
  qed (use hd in auto)
  have "cg_rotor c' = cg_rotor c" "cg_frotor c' = cg_frotor c" using ld by (simp_all add: cg_get_defs)
  then show "group_ok fs c'"
    using group_okI [OF ok hd fr cn gc] g(4-7) by simp
qed

lemma ino_range:
  assumes "0 \<le> ino" "ino < m * (n :: int)" "0 < n"
  shows "0 \<le> ino div n" "ino div n < m" "0 \<le> ino mod n" "ino mod n < n" "ino = ino div n * n + ino mod n"
proof -
  show "0 \<le> ino div n" using assms by (simp add: pos_imp_zdiv_nonneg_iff)
  show r: "0 \<le> ino mod n" "ino mod n < n" "ino = ino div n * n + ino mod n" using assms(3) by simp_all
  have "ino div n * n < m * n" using r assms(2) by linarith
  then show "ino div n < m" using assms(3) by (simp only: mult_less_cancel_right_pos)
qed

lemma group_ino_window:
  assumes ok: "fs_ok fs" "group_ok fs c" and gi: "group_ino fs c" and w: "\<forall>i \<in> {0..<fs_cgsize fs}. c' i = c i"
  shows "group_ino fs c'" "\<And>i. 0 \<le> i \<Longrightarrow> i < fs_ipg fs \<Longrightarrow> iused c' i = iused c i" "cg_nifree c' = cg_nifree c"
proof -
  note g = group_okD [OF ok(2)] and a = group_inoD [OF gi]
  have p: "0 \<le> fs_fpg fs div 8" using fs_okD(15) [OF ok(1)] by simp
  have sz: "168 \<le> fs_cgsize fs" using g(1,2) p by linarith
  have hd: "\<forall>i \<in> {92..<124}. c' i = c i" using w sz by auto
  note h = cg_get_cong [OF hd]
  have ld: "ld32 c' x = ld32 c x" if "0 \<le> x" "x + 4 \<le> 168" for x
    by (rule ld_cong) (use w that sz in auto)
  show us: "iused c' i = iused c i" if "0 \<le> i" "i < fs_ipg fs" for i
  proof (unfold h, rule isset_cong, rule w [rule_format])
    have "0 \<le> i div 8" "i div 8 < fs_ipg fs div 8" using that a(3) by auto
    then show "cg_iusedoff c + i div 8 \<in> {0..<fs_cgsize fs}" using a(1,2) g(2) p by auto
  qed
  show n: "cg_nifree c' = cg_nifree c" using ld by (simp add: cg_get_defs)
  have "{i \<in> {0..<fs_ipg fs}. \<not> iused c' i} = {i \<in> {0..<fs_ipg fs}. \<not> iused c i}" using us by auto
  then show "group_ino fs c'" using gi n ld [of 48] unfolding group_ino_def h by (simp add: cg_get_defs)
qed

text \<open>Writing back a group whose inode map changed.\<close>

lemma put_ino:
  assumes io: "inos_ok s" and cg: "0 \<le> cg" "cg < fs_ncg (d_fs s)" and ge: "geom_eq (d_fs s) fs'"
    and same: "\<forall>i. \<not> ino_byte (d_fs s) (group_at s cg) i \<longrightarrow> c' i = group_at s cg i" and gi: "group_ino (d_fs s) c'"
    and z: "cg = 0 \<Longrightarrow> iused c' 0"
    and cs: "fs_csp fs' cg = (fs_csp (d_fs s) cg)\<lparr>cs_nifree := cg_nifree c', cs_ndir := nd\<rparr>"
      "\<And>x. x \<noteq> cg \<Longrightarrow> fs_csp fs' x = fs_csp (d_fs s) x"
      "fs_cstotal fs' = (fs_cstotal (d_fs s))\<lparr>cs_nifree := cs_nifree (fs_cstotal (d_fs s)) + (cg_nifree c' - cg_nifree (group_at s cg)), cs_ndir := nt\<rparr>"
  defines "s' \<equiv> put_group s cg fs' c' (fs_cgsize (d_fs s))"
  shows "inos_ok s'" "free_frag s' = free_frag s"
    "\<And>i. used_ino s' i = (if 0 \<le> i \<and> i < fs_ncg (d_fs s) * fs_ipg (d_fs s) \<and> i div fs_ipg (d_fs s) = cg
        then iused c' (i mod fs_ipg (d_fs s)) else used_ino s i)"
proof -
  note o = inos_okD [OF io] and sp = space_okD [OF inos_okD(1) [OF io]]
  note gs = group_sumD [OF sp(4) [OF cg]] and gd = geom_eqD [OF ge]
  note gok = group_ok_ino [OF sp(3) gs(1) o(2) [OF cg] same]
  have fs': "d_fs s' = fs'" by (simp add: s'_def put_group_def)
  have sz: "fs_cgsize (d_fs s) \<le> fs_bsize (d_fs s)" using fs_okD(19) [OF sp(3)] .
  note pa = put_group_at [OF sp(1) ge order.refl sz, where cg = cg and c' = c', folded s'_def]
  have w: "\<forall>i \<in> {0..<fs_cgsize (d_fs s)}. group_at s' cg i = c' i" using pa(1) by simp
  note gw = group_ino_window [OF sp(3) gok(1) gi w]
  have cm: "cg_chkmagic c'" "cg_cgx c' = cg" using gs(2,3) gok(5,6) by (simp_all add: cg_chkmagic_def)
  have f0: "\<not> frees c' 0" if "cg = 0" using gok(2) [of 0] sp(7) that by simp
  have "space_ok s' \<and> (\<forall>b. free_frag s' b = (0 \<le> b \<and> b < fs_ncg (d_fs s) * fs_fpg (d_fs s) \<and>
       (if b div fs_fpg (d_fs s) = cg then frees c' (b mod fs_fpg (d_fs s)) else free_frag s b)))"
    unfolding s'_def using put_group_ok(1,2) [OF inos_okD(1) [OF io] cg ge order.refl sz gok(1) cm f0] cs gs(4,5) gok(3,4) by simp
  then have so: "space_ok s'" "\<And>b. free_frag s' b = (0 \<le> b \<and> b < fs_ncg (d_fs s) * fs_fpg (d_fs s) \<and>
       (if b div fs_fpg (d_fs s) = cg then frees c' (b mod fs_fpg (d_fs s)) else free_frag s b))" by blast+
  show "free_frag s' = free_frag s"
    using so(2) gok(2) fs_okD(15) [OF sp(3)] by (auto simp: fun_eq_iff free_frag_def)
  have in': "cg \<in> {0..<fs_ncg (d_fs s)}" using cg by simp
  have tot: "cs_nifree (fs_cstotal fs') = (\<Sum>x \<in> {0..<fs_ncg (d_fs s)}. cs_nifree (fs_csp fs' x))"
    using sum_local [OF in', of "\<lambda>x. cs_nifree (fs_csp fs' x)" "\<lambda>x. cs_nifree (fs_csp (d_fs s) x)"] cs o(3) [OF cg] o(4) by simp
  have gi': "group_ino fs' = group_ino (d_fs s)" using gd(26) by (simp add: fun_eq_iff group_ino_def)
  have each: "group_ino fs' (group_at s' x) \<and> cs_nifree (fs_csp fs' x) = cg_nifree (group_at s' x)"
    if "0 \<le> x" "x < fs_ncg (d_fs s)" for x
    using gw(1,3) cs(1,2) o(2,3) [OF that] pa(2) unfolding gi' by (cases "x = cg") auto
  have z': "iused (group_at s' 0) 0"
    using z gw(2) [of 0] o(5) pa(2) group_inoD(4) [OF gi] by (cases "cg = 0") auto
  show "inos_ok s'" using so(1) each tot z' unfolding inos_ok_def fs' gd(18) by simp
  show "used_ino s' i = (if 0 \<le> i \<and> i < fs_ncg (d_fs s) * fs_ipg (d_fs s) \<and> i div fs_ipg (d_fs s) = cg
        then iused c' (i mod fs_ipg (d_fs s)) else used_ino s i)" for i
    using gw(2) [of "i mod fs_ipg (d_fs s)"] pa(2) [of "i div fs_ipg (d_fs s)"] group_inoD(4) [OF gi]
    unfolding used_ino_def fs' gd(18,26) by auto
qed

subsection \<open>Taking and returning an inode number\<close>

lemma finite_free: "finite {i. 0 \<le> i \<and> i < (n :: int) \<and> P i}"
  by (rule finite_subset [of _ "{0..<n}"]) auto

lemma nifree_bounds:
  assumes "group_ino fs c"
  shows "0 \<le> cg_nifree c" "cg_nifree c < 2 ^ 31" "cg_nifree c \<le> fs_ipg fs"
    "0 < cg_nifree c \<longleftrightarrow> (\<exists>i. 0 \<le> i \<and> i < fs_ipg fs \<and> \<not> iused c i)"
proof -
  note a = group_inoD [OF assms]
  have fin: "finite {i \<in> {0..<fs_ipg fs}. \<not> iused c i}" by (simp add: finite_free)
  have "card {i \<in> {0..<fs_ipg fs}. \<not> iused c i} \<le> card {0..<fs_ipg fs}" by (rule card_mono) auto
  then show l: "cg_nifree c \<le> fs_ipg fs" using a(4,8) by simp
  then show "cg_nifree c < 2 ^ 31" using a(5) by simp
  show "0 \<le> cg_nifree c" using a(8) by simp
  show "0 < cg_nifree c \<longleftrightarrow> (\<exists>i. 0 \<le> i \<and> i < fs_ipg fs \<and> \<not> iused c i)"
    using a(8) fin by (auto simp: card_gt_0_iff)
qed

lemma ld32_s32: "s32 (ld32 m a) = ld32 m a"
  by (simp add: ld32_def)

lemma group_ino_upd:
  assumes gi: "group_ino fs c" and i: "0 \<le> i" "i < fs_ipg fs" and d: "v = (if b then -1 else 1)" "iused c i \<longleftrightarrow> \<not> b"
    and same: "\<forall>x. \<not> ino_byte fs c x \<longrightarrow> c' x = c x" and off: "cg_iusedoff c' = cg_iusedoff c" "cg_freeoff c' = cg_freeoff c"
      "cg_niblk c' = cg_niblk c" "cg_initediblk c' = cg_initediblk c"
    and map: "\<And>j. 0 \<le> j \<Longrightarrow> j < fs_ipg fs \<Longrightarrow> iused c' j = (if j = i then b else iused c j)"
    and n: "cg_nifree c' = s32 (cg_nifree c + v)" and r: "0 \<le> cg_irotor c'" "cg_irotor c' < fs_ipg fs"
  shows "group_ino fs c'" "cg_nifree c' = cg_nifree c + v"
proof -
  note a = group_inoD [OF gi] and nb = nifree_bounds [OF gi]
  let ?A = "{j \<in> {0..<fs_ipg fs}. \<not> iused c j}" and ?B = "{j \<in> {0..<fs_ipg fs}. \<not> iused c' j}"
  have card: "int (card ?B) = int (card ?A) + v"
  proof (cases b)
    case True
    then have "?B = ?A - {i}" "i \<in> ?A" using map i d(2) by (auto split: if_splits)
    then show ?thesis using True d(1) card_Suc_Diff1 [of ?A i] card_gt_0_iff [of ?A] by (auto simp: finite_free)
  next
    case False
    then have "?B = insert i ?A" "i \<notin> ?A" using map i d(2) by (auto split: if_splits)
    then show ?thesis using False d(1) by (simp add: finite_free)
  qed
  have "card ?B \<le> card {0..<fs_ipg fs}" by (rule card_mono) auto
  then have "int (card ?B) \<le> fs_ipg fs" using a(4) by simp
  then have "s32 (cg_nifree c + v) = cg_nifree c + v" using card a(5,8) by (intro s32_id) auto
  then show nf: "cg_nifree c' = cg_nifree c + v" using n by simp
  show "group_ino fs c'" using a(1-5,9) r nf card a(8) unfolding group_ino_def off by simp
qed

definition dir_upd :: "bool \<Rightarrow> int \<Rightarrow> mem \<Rightarrow> mem" where
  "dir_upd dir k c = (if dir then set_ndir c (cg_ndir c + k) else c)"

lemma take_ino:
  fixes dir k
  assumes gi: "group_ino fs c" and i: "0 \<le> i" "i < fs_ipg fs" "\<not> iused c i"
    and c1: "c1 = set_cg_time c t \<or> c1 = set_irotor (set_cg_time c t) i"
  defines "c' \<equiv> dir_upd dir k (set_nifree (setbit c1 (cg_iusedoff c) i) (cg_nifree c - 1))"
  shows "\<forall>x. \<not> ino_byte fs c x \<longrightarrow> c' x = c x" "group_ino fs c'" "cg_nifree c' = cg_nifree c - 1"
    "\<And>j. 0 \<le> j \<Longrightarrow> j < fs_ipg fs \<Longrightarrow> iused c' j = (j = i \<or> iused c j)"
    "cg_ndir c' = s32 (cg_ndir c + (if dir then k else 0))"
proof -
  note a = group_inoD [OF gi]
  have ib: "0 \<le> i div 8" "i div 8 < fs_ipg fs div 8" using i a(3) by auto
  have c1o: "c1 x = c x" if "\<not> (8 \<le> x \<and> x < 12)" "\<not> (136 \<le> x \<and> x < 144)" "\<not> (48 \<le> x \<and> x < 52)" for x
    using c1 that by (auto simp: cg_set_defs mem_simps)
  have c'o: "c' x = setbit c1 (cg_iusedoff c) i x" if "\<not> (24 \<le> x \<and> x < 28)" "\<not> (32 \<le> x \<and> x < 36)" for x
    using that by (auto simp: c'_def dir_upd_def cg_set_defs mem_simps)
  show same: "\<forall>x. \<not> ino_byte fs c x \<longrightarrow> c' x = c x"
  proof (intro allI impI)
    fix x assume x: "\<not> ino_byte fs c x"
    then have "x \<noteq> cg_iusedoff c + i div 8" using ib by (auto simp: ino_byte_def)
    then show "c' x = c x" using x c'o [of x] c1o [of x] by (auto simp: ino_byte_def setbit_other)
  qed
  have hd: "\<forall>x \<in> {92..<124}. c' x = c x" using same a(1) by (auto simp: ino_byte_def)
  note h = cg_get_cong [OF hd]
  show map: "iused c' j = (j = i \<or> iused c j)" if "0 \<le> j" "j < fs_ipg fs" for j
  proof -
    have "0 \<le> j div 8" using that by simp
    then have "isset c' (cg_iusedoff c) j = isset (setbit c1 (cg_iusedoff c) i) (cg_iusedoff c) j"
      "isset c1 (cg_iusedoff c) j = isset c (cg_iusedoff c) j"
      using a(1) by (intro isset_cong c'o c1o; auto)+
    then show ?thesis unfolding h by (auto simp: isset_setbit)
  qed
  have "cg_ndir (setbit c1 (cg_iusedoff c) i) = cg_ndir c"
    unfolding cg_ndir_def by (rule ld_cong) (use c1o a(1) ib in \<open>auto simp: setbit_other\<close>)
  then show "cg_ndir c' = s32 (cg_ndir c + (if dir then k else 0))"
    using ld32_s32 [of c 24] by (simp add: c'_def dir_upd_def cg_defs mem_simps)
  have n: "cg_nifree c' = s32 (cg_nifree c + - 1)"
    by (simp add: c'_def dir_upd_def cg_defs mem_simps)
  have "cg_irotor c' = cg_irotor c1"
    unfolding cg_irotor_def by (rule ld_cong) (use c'o a(1) ib in \<open>auto simp: setbit_other\<close>)
  moreover have "cg_irotor c1 = cg_irotor c \<or> cg_irotor c1 = i"
    using c1 i a(5) by (auto simp: cg_defs mem_simps s32_id)
  ultimately have r: "0 \<le> cg_irotor c'" "cg_irotor c' < fs_ipg fs" using a(6,7) i(1,2) by auto
  have map': "iused c' j = (if j = i then True else iused c j)" if "0 \<le> j" "j < fs_ipg fs" for j using map [OF that] by auto
  have ui: "iused c i \<longleftrightarrow> \<not> True" using i(3) by simp
  have v: "(- 1 :: int) = (if True then - 1 else 1)" by simp
  show "group_ino fs c'" "cg_nifree c' = cg_nifree c - 1"
    using group_ino_upd [OF gi i(1,2) v ui same h(1,2,6,7) map' n r] by simp_all
qed

lemma put_ino_ino:
  fixes dir k t
  assumes gi: "group_ino fs c" and i: "0 \<le> i" "i < fs_ipg fs" "iused c i"
  defines "m \<equiv> clrbit (set_cg_time c t) (cg_iusedoff c) i"
  defines "c' \<equiv> dir_upd dir k (set_nifree (if i < cg_irotor m then set_irotor m i else m) (cg_nifree c + 1))"
  shows "\<forall>x. \<not> ino_byte fs c x \<longrightarrow> c' x = c x" "group_ino fs c'" "cg_nifree c' = cg_nifree c + 1"
    "\<And>j. 0 \<le> j \<Longrightarrow> j < fs_ipg fs \<Longrightarrow> iused c' j = (j \<noteq> i \<and> iused c j)"
    "cg_ndir c' = s32 (cg_ndir c + (if dir then k else 0))"
proof -
  note a = group_inoD [OF gi]
  have ib: "0 \<le> i div 8" "i div 8 < fs_ipg fs div 8" using i a(3) by auto
  have to: "set_cg_time c t x = c x" if "\<not> (8 \<le> x \<and> x < 12)" "\<not> (136 \<le> x \<and> x < 144)" for x
    using that by (auto simp: cg_set_defs mem_simps)
  have c'o: "c' x = m x" if "\<not> (24 \<le> x \<and> x < 28)" "\<not> (32 \<le> x \<and> x < 36)" "\<not> (48 \<le> x \<and> x < 52)" for x
    using that by (auto simp: c'_def dir_upd_def cg_set_defs mem_simps)
  show same: "\<forall>x. \<not> ino_byte fs c x \<longrightarrow> c' x = c x"
  proof (intro allI impI)
    fix x assume x: "\<not> ino_byte fs c x"
    then have "x \<noteq> cg_iusedoff c + i div 8" using ib by (auto simp: ino_byte_def)
    then show "c' x = c x" using x c'o [of x] to [of x] by (auto simp: ino_byte_def clrbit_other m_def)
  qed
  have hd: "\<forall>x \<in> {92..<124}. c' x = c x" using same a(1) by (auto simp: ino_byte_def)
  note h = cg_get_cong [OF hd]
  show map: "iused c' j = (j \<noteq> i \<and> iused c j)" if "0 \<le> j" "j < fs_ipg fs" for j
  proof -
    have "0 \<le> j div 8" using that by simp
    then have "isset c' (cg_iusedoff c) j = isset m (cg_iusedoff c) j"
      "isset (set_cg_time c t) (cg_iusedoff c) j = isset c (cg_iusedoff c) j"
      using a(1) by (intro isset_cong c'o to; auto)+
    then show ?thesis unfolding h by (auto simp: isset_clrbit m_def)
  qed
  have "cg_ndir m = cg_ndir (set_cg_time c t)"
    unfolding cg_ndir_def by (rule ld_cong) (use a(1) ib in \<open>auto simp: clrbit_other m_def\<close>)
  then have "cg_ndir m = cg_ndir c" by (simp add: cg_defs mem_simps)
  then show "cg_ndir c' = s32 (cg_ndir c + (if dir then k else 0))"
    using ld32_s32 [of c 24] by (simp add: c'_def dir_upd_def cg_defs mem_simps)
  have n: "cg_nifree c' = s32 (cg_nifree c + 1)"
    by (simp add: c'_def dir_upd_def cg_defs mem_simps)
  have "cg_irotor m = cg_irotor (set_cg_time c t)"
    unfolding cg_irotor_def by (rule ld_cong) (use a(1) ib in \<open>auto simp: clrbit_other m_def\<close>)
  then have rm: "cg_irotor m = cg_irotor c" by (simp add: cg_defs mem_simps)
  have "cg_irotor c' = (if i < cg_irotor c then i else cg_irotor c)"
    using rm i a(5) by (auto simp: c'_def dir_upd_def cg_defs mem_simps s32_id)
  then have r: "0 \<le> cg_irotor c'" "cg_irotor c' < fs_ipg fs" using a(6,7) i(1,2) by auto
  have map': "iused c' j = (if j = i then False else iused c j)" if "0 \<le> j" "j < fs_ipg fs" for j using map [OF that] by auto
  have ui: "iused c i \<longleftrightarrow> \<not> False" using i(3) by simp
  have v: "(1 :: int) = (if False then - 1 else 1)" by simp
  show "group_ino fs c'" "cg_nifree c' = cg_nifree c + 1"
    using group_ino_upd [OF gi i(1,2) v ui same h(1,2,6,7) map' n r] by simp_all
qed

subsection \<open>The inode allocator\<close>

text \<open>The specification of taking and of returning the inode number \<open>r\<close>.\<close>

definition ino_taken :: "uufsd \<Rightarrow> int \<Rightarrow> uufsd \<Rightarrow> bool" where
  "ino_taken s r s' \<longleftrightarrow> inos_ok s' \<and> free_frag s' = free_frag s \<and> s' = s\<lparr>d_fs := d_fs s', dev_data := dev_data s'\<rparr> \<and>
     0 < r \<and> r < fs_ncg (d_fs s) * fs_ipg (d_fs s) \<and> \<not> used_ino s r \<and> (\<forall>i. used_ino s' i \<longleftrightarrow> used_ino s i \<or> i = r)"

definition ino_given :: "uufsd \<Rightarrow> int \<Rightarrow> uufsd \<Rightarrow> bool" where
  "ino_given s r s' \<longleftrightarrow> inos_ok s' \<and> free_frag s' = free_frag s \<and> s' = s\<lparr>d_fs := d_fs s', dev_data := dev_data s'\<rparr> \<and>
     (\<forall>i. used_ino s' i \<longleftrightarrow> used_ino s i \<and> i \<noteq> r)"

text \<open>
  The counts of directories, in the summary of the file system, in the summary of each group and in
  each group on the device, after \<open>d\<close> directories were added to group \<open>cg\<close>.
\<close>

definition ndir_added :: "int \<Rightarrow> int \<Rightarrow> uufsd \<Rightarrow> uufsd \<Rightarrow> bool" where
  "ndir_added cg d s s' \<longleftrightarrow> cs_ndir (fs_cstotal (d_fs s')) = cs_ndir (fs_cstotal (d_fs s)) + d \<and>
     (\<forall>x. cs_ndir (fs_csp (d_fs s') x) = cs_ndir (fs_csp (d_fs s) x) + (if x = cg then d else 0)) \<and>
     (\<forall>x. 0 \<le> x \<longrightarrow> x < fs_ncg (d_fs s) \<longrightarrow>
        cg_ndir (group_at s' x) = s32 (cg_ndir (group_at s x) + (if x = cg then d else 0)))"

lemma set_time_ino:
  "cg_iusedoff (set_cg_time c t) = cg_iusedoff c" "cg_irotor (set_cg_time c t) = cg_irotor c" "cg_nifree (set_cg_time c t) = cg_nifree c"
  "cg_niblk (set_cg_time c t) = cg_niblk c" "cg_initediblk (set_cg_time c t) = cg_initediblk c"
  "168 \<le> cg_iusedoff c \<Longrightarrow> 0 \<le> i \<Longrightarrow> isset (set_cg_time c t) (cg_iusedoff c) i = iused c i"
proof -
  show "isset (set_cg_time c t) (cg_iusedoff c) i = iused c i" if "168 \<le> cg_iusedoff c" "0 \<le> i"
  proof (rule isset_cong)
    have "0 \<le> i div 8" using that by simp
    then show "set_cg_time c t (cg_iusedoff c + i div 8) = c (cg_iusedoff c + i div 8)" using that(1) by (auto simp: cg_set_defs mem_simps)
  qed
qed (simp_all add: cg_defs mem_simps)

lemma geom_eq_ino: "geom_eq fs (add_nifree cg k fs)" "geom_eq fs (add_ndir cg k fs)"
  by (auto simp: add_nifree_def add_ndir_def intro!: fs.equality)

lemma ino_number:
  assumes "0 \<le> cg" "cg < m" "0 \<le> i" "i < (n :: int)"
  shows "0 \<le> cg * n + i" "cg * n + i < m * n" "(cg * n + i) div n = cg" "(cg * n + i) mod n = i"
proof -
  show "0 \<le> cg * n + i" using assms by simp
  have "(cg + 1) * n \<le> m * n" using assms by (intro mult_right_mono) auto
  then show "cg * n + i < m * n" using assms(4) by (simp add: algebra_simps)
  show "(cg * n + i) div n = cg" "(cg * n + i) mod n = i" using assms(3,4) by simp_all
qed

text \<open>The state after the bit of inode \<open>i\<close> of group \<open>cg\<close> was changed to \<open>b\<close>.\<close>

lemma put_ino_bit:
  assumes io: "inos_ok s" and cg: "0 \<le> cg" "cg < fs_ncg (d_fs s)" and i: "0 \<le> i" "i < fs_ipg (d_fs s)" and r: "r = cg * fs_ipg (d_fs s) + i"
    and same: "\<forall>x. \<not> ino_byte (d_fs s) (group_at s cg) x \<longrightarrow> c' x = group_at s cg x" and gi: "group_ino (d_fs s) c'"
    and nf: "cg_nifree c' = cg_nifree (group_at s cg) + v"
    and map: "\<And>j. 0 \<le> j \<Longrightarrow> j < fs_ipg (d_fs s) \<Longrightarrow> iused c' j = (if j = i then b else iused (group_at s cg) j)"
    and z: "r = 0 \<Longrightarrow> b" and ge: "geom_eq (d_fs s) fs'"
    and cs: "fs_csp fs' cg = (fs_csp (d_fs s) cg)\<lparr>cs_nifree := cs_nifree (fs_csp (d_fs s) cg) + v, cs_ndir := nd\<rparr>"
      "\<And>x. x \<noteq> cg \<Longrightarrow> fs_csp fs' x = fs_csp (d_fs s) x"
      "fs_cstotal fs' = (fs_cstotal (d_fs s))\<lparr>cs_nifree := cs_nifree (fs_cstotal (d_fs s)) + v, cs_ndir := nt\<rparr>"
  defines "s' \<equiv> put_group s cg fs' c' (fs_cgsize (d_fs s))"
  shows "inos_ok s'" "free_frag s' = free_frag s" "\<And>y. used_ino s' y \<longleftrightarrow> (if y = r then b else used_ino s y)"
    "s' = s\<lparr>d_fs := d_fs s', dev_data := dev_data s'\<rparr>"
proof -
  note o = inos_okD [OF io]
  have z0: "iused c' 0" if "cg = 0" using map [of 0] z o(5) that i r by (auto split: if_splits)
  have cs1: "fs_csp fs' cg = (fs_csp (d_fs s) cg)\<lparr>cs_nifree := cg_nifree c', cs_ndir := nd\<rparr>" using cs(1) nf o(3) [OF cg] by simp
  have ct: "fs_cstotal fs' = (fs_cstotal (d_fs s))\<lparr>cs_nifree := cs_nifree (fs_cstotal (d_fs s)) + (cg_nifree c' - cg_nifree (group_at s cg)), cs_ndir := nt\<rparr>"
    using cs(3) nf by simp
  note pi = put_ino [OF io cg ge same gi z0 cs1 cs(2) ct, folded s'_def]
  show "inos_ok s'" "free_frag s' = free_frag s" using pi by auto
  show "s' = s\<lparr>d_fs := d_fs s', dev_data := dev_data s'\<rparr>" by (simp add: s'_def put_group_def)
  note dm = ino_number [OF cg i, folded r]
  show "used_ino s' y \<longleftrightarrow> (if y = r then b else used_ino s y)" for y
  proof (cases "0 \<le> y \<and> y < fs_ncg (d_fs s) * fs_ipg (d_fs s) \<and> y div fs_ipg (d_fs s) = cg")
    case True
    then have "y = r \<longleftrightarrow> y mod fs_ipg (d_fs s) = i" using div_mult_mod_eq [of y "fs_ipg (d_fs s)"] dm(4) r by metis
    then show ?thesis using True pi(3) [of y] map [of "y mod fs_ipg (d_fs s)"] i by (auto simp: used_ino_def)
  next
    case False
    then have "y \<noteq> r" using dm by auto
    then show ?thesis using False pi(3) [of y] by auto
  qed
qed

lemma read_cg_pair:
  assumes io: "inos_ok s" and cg: "0 \<le> cg" and ge: "geom_eq (d_fs s) fs'"
  shows "blkread (fsbtodb (d_fs s) (cgtod (d_fs s) cg)) (env_junk s) (fs_cgsize (d_fs s)) s = (fs_cgsize (d_fs s), group_at s cg)"
    "blkwrite (fsbtodb (d_fs s) (cgtod (d_fs s) cg)) c' (fs_cgsize (d_fs s)) (s\<lparr>d_fs := fs'\<rparr>) =
      (fs_cgsize (d_fs s), put_group s cg fs' c' (fs_cgsize (d_fs s)))"
    "0 < fs_cgsize (d_fs s)" "fs_ipg fs' = fs_ipg (d_fs s)" "fs_cgsize fs' = fs_cgsize (d_fs s)" "env_mem s"
proof -
  note o = inos_okD [OF io] and sp = space_okD [OF inos_okD(1) [OF io]]
  show sz: "0 < fs_cgsize (d_fs s)" using fs_okD(18) [OF sp(3)] .
  show "blkread (fsbtodb (d_fs s) (cgtod (d_fs s) cg)) (env_junk s) (fs_cgsize (d_fs s)) s = (fs_cgsize (d_fs s), group_at s cg)"
    by (rule read_group [OF o(1) cg(1)])
  have "io_ok (s\<lparr>d_fs := fs'\<rparr>)" using sp(2) by simp
  from blkwrite_ok [OF this cg_block_nonneg [OF sp(1) cg(1)] sz, of c'] write_group [OF o(1) cg(1) sz, of c' fs']
  show "blkwrite (fsbtodb (d_fs s) (cgtod (d_fs s) cg)) c' (fs_cgsize (d_fs s)) (s\<lparr>d_fs := fs'\<rparr>) =
      (fs_cgsize (d_fs s), put_group s cg fs' c' (fs_cgsize (d_fs s)))" by simp
  show "fs_ipg fs' = fs_ipg (d_fs s)" "fs_cgsize fs' = fs_cgsize (d_fs s)" using geom_eqD(26,17) [OF ge] .
  show "env_mem s" by (rule io_ok_mem [OF sp(2)])
qed

text \<open>The super block after an inode was taken or returned.\<close>

definition ino_fs :: "bool \<Rightarrow> int \<Rightarrow> int \<Rightarrow> int \<Rightarrow> fs \<Rightarrow> fs" where
  "ino_fs dir cg v k fs = (let f = add_nifree cg v fs in (if dir then add_ndir cg k f else f)\<lparr>fs_fmod := 1\<rparr>)"

lemma ino_fs_geom: "geom_eq fs (ino_fs dir cg v k fs)"
  unfolding ino_fs_def Let_def
  using geom_eq_trans [OF geom_eq_trans [OF geom_eq_ino(1) geom_eq_ino(2)] geom_eq_upd(5)] geom_eq_trans [OF geom_eq_ino(1) geom_eq_upd(5)]
  by auto

lemma ino_fs_cs:
  "fs_csp (ino_fs dir cg v k fs) cg = (fs_csp fs cg)\<lparr>cs_nifree := cs_nifree (fs_csp fs cg) + v, cs_ndir := cs_ndir (fs_csp (ino_fs dir cg v k fs) cg)\<rparr>"
  "x \<noteq> cg \<Longrightarrow> fs_csp (ino_fs dir cg v k fs) x = fs_csp fs x"
  "fs_cstotal (ino_fs dir cg v k fs) = (fs_cstotal fs)\<lparr>cs_nifree := cs_nifree (fs_cstotal fs) + v, cs_ndir := cs_ndir (fs_cstotal (ino_fs dir cg v k fs))\<rparr>"
  by (simp_all add: ino_fs_def Let_def add_nifree_def add_ndir_def)

lemma ino_fs_ndir:
  "cs_ndir (fs_csp (ino_fs dir cg v k fs) x) = cs_ndir (fs_csp fs x) + (if dir \<and> x = cg then k else 0)"
  "cs_ndir (fs_cstotal (ino_fs dir cg v k fs)) = cs_ndir (fs_cstotal fs) + (if dir then k else 0)"
  by (simp_all add: ino_fs_def Let_def add_nifree_def add_ndir_def)

lemma put_group_ndir:
  assumes io: "inos_ok s" and cg: "0 \<le> cg" "cg < fs_ncg (d_fs s)"
    and c': "cg_ndir c' = s32 (cg_ndir (group_at s cg) + (if dir then k else 0))"
  shows "ndir_added cg (if dir then k else 0) s (put_group s cg (ino_fs dir cg v k (d_fs s)) c' (fs_cgsize (d_fs s)))"
proof -
  note sp = space_okD [OF inos_okD(1) [OF io]]
  define s' where "s' = put_group s cg (ino_fs dir cg v k (d_fs s)) c' (fs_cgsize (d_fs s))"
  have fs: "d_fs s' = ino_fs dir cg v k (d_fs s)" by (simp add: s'_def put_group_def)
  note pa = put_group_at [OF sp(1) ino_fs_geom [where dir = dir and cg = cg and v = v and k = k] order.refl fs_okD(19) [OF sp(3)],
      where cg = cg and c' = c', folded s'_def]
  have "36 \<le> fs_cgsize (d_fs s)"
    using group_inoD(1,2,4) [OF inos_okD(2) [OF io cg]] group_okD(2) [OF group_sumD(1) [OF sp(4) [OF cg]]] fs_okD(15) [OF sp(3)] by auto
  then have "cg_ndir (group_at s' cg) = cg_ndir c'" unfolding cg_ndir_def by (intro ld_cong pa(1)) auto
  then have "cg_ndir (group_at s' x) = s32 (cg_ndir (group_at s x) + (if x = cg then if dir then k else 0 else 0))" for x
    using pa(2) [of x] c' by (cases "x = cg") (simp_all add: cg_ndir_def ld32_s32)
  then show ?thesis unfolding s'_def [symmetric] ndir_added_def fs by (auto simp: ino_fs_ndir)
qed

text \<open>The inode allocator also counts the directories, by the type of the mode.\<close>

definition ino_made :: "int \<Rightarrow> uufsd \<Rightarrow> int \<Rightarrow> uufsd \<Rightarrow> bool" where
  "ino_made mode s r s' \<longleftrightarrow> ino_taken s r s' \<and>
     ndir_added (r div fs_ipg (d_fs s)) (if IFTODT mode = DT_DIR then 1 else 0) s s'"

lemma inode_alloc_run:
  fixes mode
  assumes io: "inos_ok s" and cg: "0 \<le> cg" "cg < fs_ncg (d_fs s)" and nf: "cg_nifree (group_at s cg) \<noteq> 0"
    and i: "inode_search (d_fs s) (set_cg_time (group_at s cg) (env_time s)) pref = Some (i, c1)" "0 \<le> i"
    and c1: "c1 = set_cg_time (group_at s cg) (env_time s) \<or> c1 = set_irotor (set_cg_time (group_at s cg) (env_time s)) i"
  defines "dir \<equiv> IFTODT mode = DT_DIR"
  shows "ufs_inode_alloc cg pref mode s = Some (cg * fs_ipg (d_fs s) + i,
    put_group s cg (ino_fs dir cg (- 1) 1 (d_fs s))
      (dir_upd dir 1 (set_nifree (setbit c1 (cg_iusedoff (group_at s cg)) i) (cg_nifree (group_at s cg) - 1))) (fs_cgsize (d_fs s)))"
proof -
  define fs c X where "fs = d_fs s" and "c = group_at s cg" and "X = set_nifree (setbit c1 (cg_iusedoff c) i) (cg_nifree c - 1)"
  define fs' where "fs' = ino_fs dir cg (- 1) 1 fs"
  note o = inos_okD [OF io] and a = group_inoD [OF inos_okD(2) [OF io cg], folded c_def]
  have csp: "cs_nifree (fs_csp fs cg) = cg_nifree c" using o(3) [OF cg] by (simp add: fs_def c_def)
  note rw = read_cg_pair [OF io cg(1) ino_fs_geom [where fs = "d_fs s" and dir = dir and cg = cg and v = "- 1" and k = 1], folded fs_def c_def, folded fs'_def]
  have h1: "cg_iusedoff c1 = cg_iusedoff c" "cg_nifree c1 = cg_nifree c" "cg_niblk c1 = cg_niblk c" "cg_initediblk c1 = cg_initediblk c"
    using c1 by (auto simp: cg_defs mem_simps c_def)
  have ib: "0 \<le> i div 8" using i(2) by simp
  have "cg_nifree (setbit c1 (cg_iusedoff c) i) = cg_nifree c1"
    unfolding cg_nifree_def by (rule ld_cong) (use a(1) ib in \<open>auto simp: setbit_other\<close>)
  then have h2: "cg_nifree (setbit c1 (cg_iusedoff c) i) = cg_nifree c" using h1(2) by simp
  have ini: "(cg_initediblk c1 < cg_niblk c1) = False" using a(9) h1(3,4) by simp
  have pd: "dir \<Longrightarrow> add_ndir cg 1 ((add_nifree cg (- 1) fs)\<lparr>fs_fmod := 1\<rparr>) = fs'" "\<not> dir \<Longrightarrow> (add_nifree cg (- 1) fs)\<lparr>fs_fmod := 1\<rparr> = fs'"
    by (simp_all add: fs'_def ino_fs_def fs_def add_nifree_def add_ndir_def)
  have mg: "cg_chkmagic c" using group_sumD(2) [OF space_okD(4) [OF o(1) cg]] by (simp add: c_def)
  show ?thesis
    unfolding ufs_inode_alloc_def Let_def fs_def [symmetric] rw(1) c_def [symmetric] fs'_def [symmetric] X_def [symmetric]
    using nf [folded c_def] csp mg rw(3,6) i(1) [folded fs_def c_def] rw(2)
    by (cases dir) (simp_all add: ini h1(1,2) h2 dir_def [symmetric] pd rw(4,5) X_def [symmetric] dir_upd_def)
qed

lemma inode_alloc_step:
  assumes io: "inos_ok s" and cg: "0 \<le> cg" "cg < fs_ncg (d_fs s)" and pref: "0 \<le> pref"
  shows "\<exists>r s'. ufs_inode_alloc cg pref mode s = Some (r, s') \<and>
    (r = 0 \<longrightarrow> s' = s \<and> \<not> (\<exists>i. 0 \<le> i \<and> i < fs_ipg (d_fs s) \<and> \<not> iused (group_at s cg) i)) \<and> (r \<noteq> 0 \<longrightarrow> ino_made mode s r s')"
proof (cases "cg_nifree (group_at s cg) = 0")
  case True
  then have "ufs_inode_alloc cg pref mode s = Some (0, s)" using inos_okD(3) [OF io cg] by (simp add: ufs_inode_alloc_def Let_def)
  then show ?thesis using True nifree_bounds(4) [OF inos_okD(2) [OF io cg]] by auto
next
  case False
  define c t where "c = group_at s cg" and "t = env_time s"
  note o = inos_okD [OF io] and gi = inos_okD(2) [OF io cg, folded c_def]
  note a = group_inoD [OF gi] and ti = set_time_ino [where c = c and t = t]
  obtain x where x: "0 \<le> x" "x < fs_ipg (d_fs s)" "\<not> iused c x" using nifree_bounds [OF gi] False by (force simp: c_def)
  then have "\<not> iused (set_cg_time c t) x" using ti(1,6) a(1) by simp
  then obtain i c1 where i: "inode_search (d_fs s) (set_cg_time c t) pref = Some (i, c1)" "0 \<le> i" "i < fs_ipg (d_fs s)" "\<not> iused (set_cg_time c t) i"
    and c1: "c1 = set_cg_time c t \<or> c1 = set_irotor (set_cg_time c t) i"
    using inode_search_ok [of "d_fs s" "set_cg_time c t" pref x] a(3,4,6,7) ti(2) pref x by auto
  have iu: "\<not> iused c i" using i(2,4) ti(1,6) a(1) by simp
  define dir r where "dir = (IFTODT mode = DT_DIR)" and "r = cg * fs_ipg (d_fs s) + i"
  define c' fs' where "c' = dir_upd dir 1 (set_nifree (setbit c1 (cg_iusedoff c) i) (cg_nifree c - 1))" and "fs' = ino_fs dir cg (- 1) 1 (d_fs s)"
  define s' where "s' = put_group s cg fs' c' (fs_cgsize (d_fs s))"
  note tk = take_ino [OF gi i(2,3) iu c1, where dir = dir and k = 1, folded c'_def]
  have run: "ufs_inode_alloc cg pref mode s = Some (r, s')"
    using inode_alloc_run [OF io cg False i(1,2) [unfolded c_def t_def] c1 [unfolded c_def t_def]]
    by (simp add: r_def s'_def fs'_def c'_def dir_def c_def)
  note dm = ino_number [OF cg i(2,3), folded r_def]
  have r0: "r \<noteq> 0" using iu o(5) dm(3,4) by (auto simp: c_def)
  have nf: "cg_nifree c' = cg_nifree (group_at s cg) + - 1" using tk(3) by (simp add: c_def)
  have map: "iused c' j = (if j = i then True else iused (group_at s cg) j)" if "0 \<le> j" "j < fs_ipg (d_fs s)" for j
    using tk(4) [OF that] by (simp add: c_def)
  note pb = put_ino_bit [OF io cg i(2,3) r_def tk(1) [unfolded c_def] tk(2) nf map TrueI ino_fs_geom [where fs = "d_fs s" and dir = dir and cg = cg and v = "- 1" and k = 1]
      ino_fs_cs [where fs = "d_fs s" and dir = dir and cg = cg and v = "- 1" and k = 1], folded fs'_def, folded s'_def]
  have "\<not> used_ino s r" using iu dm by (simp add: used_ino_def c_def)
  then have "ino_taken s r s'" using pb r0 dm unfolding ino_taken_def by auto
  moreover have "ndir_added cg (if dir then 1 else 0) s s'"
    using put_group_ndir [OF io cg tk(5) [unfolded c_def]] by (simp add: s'_def fs'_def)
  ultimately have "ino_made mode s r s'" using dm(3) by (simp add: ino_made_def dir_def)
  then show ?thesis using run r0 by auto
qed

interpretation ino: group_alloc ufs_inode_alloc mode inos_ok
  "\<lambda>s cg. \<exists>i. 0 \<le> i \<and> i < fs_ipg (d_fs s) \<and> \<not> iused (group_at s cg) i" "ino_made mode" for mode
  by unfold_locales (rule inode_alloc_step)

subsection \<open>Returning an inode number\<close>

text \<open>\<open>IFTODT\<close> gives a four-bit type, which is never one of the \<open>IF\<close> constants.\<close>

lemma IFTODT_bounds: "0 \<le> IFTODT m" "IFTODT m < 16"
proof -
  define x where "x = m AND 0xF000"
  have "x \<le> 0xF000" "0 \<le> x" unfolding x_def by (rule AND_upper2, simp) simp
  moreover have "IFTODT m = x div 4096" by (simp add: IFTODT_def drop_bit_eq_div x_def)
  ultimately show "0 \<le> IFTODT m" "IFTODT m < 16" by simp_all
qed

lemma free_inode_run:
  assumes io: "inos_ok s" and r: "0 \<le> r" "r < fs_ncg (d_fs s) * fs_ipg (d_fs s)" "fs_ncg (d_fs s) * fs_ipg (d_fs s) < 2 ^ 32"
    and used: "used_ino s r \<or> fs_ronly (d_fs s) \<noteq> 0"
  defines "cg \<equiv> r div fs_ipg (d_fs s)" and "i \<equiv> r mod fs_ipg (d_fs s)"
  defines "m \<equiv> clrbit (set_cg_time (group_at s cg) (env_time s)) (cg_iusedoff (group_at s cg)) i"
  shows "ufs_free_inode_run r mode s = Inr (0,
    put_group s cg (ino_fs False cg 1 k (d_fs s))
      (set_nifree (if i < cg_irotor m then set_irotor m i else m) (cg_nifree (group_at s cg) + 1)) (fs_cgsize (d_fs s)))"
proof -
  define fs c where "fs = d_fs s" and "c = group_at s cg"
  note o = inos_okD [OF io]
  have "0 < fs_ipg (d_fs s)" using fs_okD(13) [OF space_okD(3) [OF o(1)]] .
  note rr = ino_range [OF r(1,2) this, folded cg_def i_def]
  note a = group_inoD [OF inos_okD(2) [OF io rr(1,2)], folded c_def]
  define fs' where "fs' = ino_fs False cg 1 k fs"
  note rw = read_cg_pair [OF io rr(1) ino_fs_geom [where fs = "d_fs s" and dir = False and cg = cg and v = 1 and k = k], folded fs_def c_def, folded fs'_def]
  have mg: "cg_chkmagic c" using group_sumD(2) [OF space_okD(4) [OF o(1) rr(1,2)]] by (simp add: c_def)
  have u: "\<not> u32 r \<ge> u32 (fs_ipg fs * fs_ncg fs)"
    using r by (simp add: take_bit_int_eq_self fs_def mult.commute)
  have dt: "ino_to_cg fs r = cg" "r smod fs_ipg fs = i" using r(1) a(4) by (simp_all add: ino_to_cg_def sdiv_nonneg smod_nonneg cg_def i_def fs_def)
  have ib: "0 \<le> i div 8" using rr(3) by simp
  have "cg_nifree m = cg_nifree (set_cg_time c (env_time s))"
    unfolding cg_nifree_def m_def c_def by (rule ld_cong) (use a(1) ib in \<open>auto simp: clrbit_other c_def\<close>)
  then have nf: "cg_nifree m = cg_nifree c" "cg_nifree (set_irotor m i) = cg_nifree c" by (simp_all add: cg_defs mem_simps)
  have "cg_irotor m = cg_irotor (set_cg_time c (env_time s))"
    unfolding cg_irotor_def m_def c_def by (rule ld_cong) (use a(1) ib in \<open>auto simp: clrbit_other c_def\<close>)
  then have rot: "u64 (cg_irotor m) = cg_irotor m" using a(5,6,7) by (simp add: set_time_ino take_bit_int_eq_self)
  have t: "cg_iusedoff (set_cg_time c (env_time s)) = cg_iusedoff c" by (rule set_time_ino)
  have us: "\<not> (isclr (set_cg_time c (env_time s)) (cg_iusedoff c) i \<and> fs_ronly fs = 0)"
    using used set_time_ino(6) [OF a(1) rr(3)] by (auto simp: used_ino_def cg_def i_def c_def fs_def)
  have ty: "IFTODT mode \<noteq> IFDIR" using IFTODT_bounds(2) [of mode] by simp
  have fse: "(add_nifree cg 1 fs)\<lparr>fs_fmod := 1\<rparr> = fs'" by (simp add: fs'_def ino_fs_def)
  have sz: "fs_cgsize (add_nifree cg 1 fs) = fs_cgsize fs" by (simp add: add_nifree_def)
  show ?thesis
    unfolding ufs_free_inode_run_def Let_def fs_def [symmetric] dt rw(1) c_def [symmetric] fs'_def [symmetric]
    using u us ty mg rw(3,6) rw(2) by (simp add: t m_def [folded c_def, symmetric] nf fse sz rot)
qed

lemma free_inode_given:
  assumes io: "inos_ok s" and r: "0 < r" "fs_ncg (d_fs s) * fs_ipg (d_fs s) < 2 ^ 32" and used: "used_ino s r"
  shows "\<exists>s'. ufs_free_inode r mode s = Some (0, s') \<and> ino_given s r s' \<and> ndir_added (r div fs_ipg (d_fs s)) 0 s s'"
proof -
  define n cg i where "n = fs_ipg (d_fs s)" and "cg = r div n" and "i = r mod n"
  define c where "c = group_at s cg"
  define m where "m = clrbit (set_cg_time c (env_time s)) (cg_iusedoff c) i"
  have rl: "0 \<le> r" "r < fs_ncg (d_fs s) * n" and iu: "iused c i" using used by (auto simp: used_ino_def n_def c_def cg_def i_def)
  have "0 < n" using fs_okD(13) [OF space_okD(3) [OF inos_okD(1) [OF io]]] by (simp add: n_def)
  note rr = ino_range [OF rl this, folded cg_def i_def]
  note gi = inos_okD(2) [OF io rr(1,2), folded c_def]
  define c' where "c' = set_nifree (if i < cg_irotor m then set_irotor m i else m) (cg_nifree c + 1)"
  define fs' where "fs' = ino_fs False cg 1 0 (d_fs s)"
  define s' where "s' = put_group s cg fs' c' (fs_cgsize (d_fs s))"
  have run: "ufs_free_inode r mode s = Some (0, s')"
    using free_inode_run [OF io rl [unfolded n_def] r(2), of mode 0] used
    by (simp add: ufs_free_inode_def s'_def c'_def fs'_def m_def c_def cg_def i_def n_def)
  note tk = put_ino_ino [OF gi rr(3,4) [unfolded n_def] iu, where dir = False and k = 0 and t = "env_time s", folded m_def, unfolded dir_upd_def if_False, folded c'_def]
  have map: "iused c' j = (if j = i then False else iused (group_at s cg) j)" if "0 \<le> j" "j < fs_ipg (d_fs s)" for j
    using tk(4) [OF that] by (simp add: c_def)
  have z: "r = 0 \<Longrightarrow> False" using r(1) by simp
  note pb = put_ino_bit [OF io rr(1,2) rr(3,4) [unfolded n_def] rr(5) [unfolded n_def] tk(1) [unfolded c_def] tk(2) tk(3) [unfolded c_def] map z
      ino_fs_geom [where fs = "d_fs s" and dir = False and cg = cg and v = 1 and k = 0]
      ino_fs_cs [where fs = "d_fs s" and dir = False and cg = cg and v = 1 and k = 0], folded fs'_def, folded s'_def]
  have "ino_given s r s'" using pb unfolding ino_given_def by auto
  moreover have "ndir_added cg 0 s s'"
    using put_group_ndir [OF io rr(1,2), where dir = False and k = 0 and v = 1 and c' = c'] tk(5) by (simp add: s'_def fs'_def c_def)
  ultimately show ?thesis using run by (auto simp: cg_def n_def)
qed

lemma free_inode_double:
  assumes io: "inos_ok s" and r: "0 \<le> r" "r < fs_ncg (d_fs s) * fs_ipg (d_fs s)" "fs_ncg (d_fs s) * fs_ipg (d_fs s) < 2 ^ 32"
    and free: "\<not> used_ino s r" "fs_ronly (d_fs s) = 0"
  shows "ufs_free_inode_run r mode s = Inl s"
proof -
  define n cg i c where "n = fs_ipg (d_fs s)" and "cg = r div n" and "i = r mod n" and "c = group_at s (r div n)"
  have "0 < n" using fs_okD(13) [OF space_okD(3) [OF inos_okD(1) [OF io]]] by (simp add: n_def)
  note rr = ino_range [OF r(1,2) [folded n_def] this, folded cg_def i_def]
  have c: "c = group_at s cg" by (simp add: c_def cg_def)
  note a = group_inoD [OF inos_okD(2) [OF io rr(1,2)], folded c]
  note rw = read_cg_pair [OF io rr(1) geom_eq_upd(1), folded c]
  have mg: "cg_chkmagic c" using group_sumD(2) [OF space_okD(4) [OF inos_okD(1) [OF io] rr(1,2)]] by (simp add: c)
  have dt: "ino_to_cg (d_fs s) r = cg" "r smod fs_ipg (d_fs s) = i"
    using r(1) \<open>0 < n\<close> by (simp_all add: ino_to_cg_def sdiv_nonneg smod_nonneg cg_def i_def n_def)
  have "isclr (set_cg_time c (env_time s)) (cg_iusedoff c) i"
    using free(1) r set_time_ino(6) [OF a(1) rr(3)] by (auto simp: used_ino_def c cg_def i_def n_def)
  then show ?thesis
    unfolding ufs_free_inode_run_def Let_def dt rw(1)
    using r mg rw(3,6) free(2) by (simp add: set_time_ino)
qed

subsection \<open>Properties of the inode allocator\<close>

lemma inos_ok_ex: "inos_ok disk_ex"
proof -
  have u: "isset grp_ex 168 i = (i < 3)" if "0 \<le> i" "i < 64" for i
  proof -
    have "\<forall>i \<in> set [0..63]. isset grp_ex 168 i = (i < 3)" by code_simp
    moreover have "i \<in> set [0..63]" using that by simp
    ultimately show ?thesis by blast
  qed
  have h: "cg_iusedoff grp_ex = 168" "cg_irotor grp_ex = 0" "cg_nifree grp_ex = 61" "cg_niblk grp_ex = 64" "cg_initediblk grp_ex = 64"
    by code_simp+
  have "{i \<in> {0..<64}. \<not> isset grp_ex 168 i} = {3..<64}" using u by auto
  then have "group_ino fs_one grp_ex" by (simp add: group_ino_def h grp_ex_fields fs_one_simps)
  moreover have "{0..<fs_ncg fs_one} = {0}" by (auto simp: fs_one_simps)
  ultimately show ?thesis using u [of 0] space_ok_ex
    by (simp add: inos_ok_def group_at_ex h) (simp add: fs_one_def)
qed

lemma used_ino_ex: "used_ino disk_ex 2" "\<not> used_ino disk_ex 9"
proof -
  have "isset grp_ex 168 2" "isclr grp_ex 168 9" "cg_iusedoff grp_ex = 168" by code_simp+
  then show "used_ino disk_ex 2" "\<not> used_ino disk_ex 9" by (simp_all add: used_ino_def fs_one_simps group_at_ex)
qed

text \<open>C7. \<open>ufs_hashalloc\<close> with \<open>ufs_inode_alloc\<close>, on a file system with consistent maps in which every
  inode block of every group is initialised (\<open>cg_niblk \<le> cg_initediblk\<close>, part of \<open>inos_ok\<close>; in a
  group where it is not, the code clears an inode block, and the wrong one), always returns. It gives 0 and changes
  nothing exactly when every inode of every group is in use, and otherwise the number of an inode that
  was free, which is then marked used. No other inode and no block changes its state, the counts of
  free inodes and of free blocks stay right, and the three counts of directories (of the file system,
  of the group in core, of the group on the device) go up by one in the group of the inode when the
  mode is a directory's and are kept otherwise.\<close>

theorem inode_alloc_spec:
  assumes "inos_ok s" "0 \<le> cg" "cg < fs_ncg (d_fs s)" "0 \<le> pref"
  shows "\<exists>r s'. ufs_hashalloc cg pref mode ufs_inode_alloc s = Some (r, s') \<and>
    (if \<exists>ino. 0 \<le> ino \<and> ino < fs_ncg (d_fs s) * fs_ipg (d_fs s) \<and> \<not> used_ino s ino then ino_made mode s r s' else r = 0 \<and> s' = s)"
proof -
  obtain r s' where h: "ufs_hashalloc cg pref mode ufs_inode_alloc s = Some (r, s')" "r \<noteq> 0 \<longrightarrow> ino_made mode s r s'"
    "r = 0 \<longrightarrow> s' = s \<and> (\<forall>c. 0 \<le> c \<longrightarrow> c < fs_ncg (d_fs s) \<longrightarrow> \<not> (\<exists>i. 0 \<le> i \<and> i < fs_ipg (d_fs s) \<and> \<not> iused (group_at s c) i))"
    using ino.hashalloc [OF assms, of mode] by blast
  have n: "0 < fs_ipg (d_fs s)" using fs_okD(13) [OF space_okD(3) [OF inos_okD(1) [OF assms(1)]]] .
  have all: "used_ino s ino" if "r = 0" "0 \<le> ino" "ino < fs_ncg (d_fs s) * fs_ipg (d_fs s)" for ino
    using ino_range [OF that(2,3) n] h(3) that by (auto simp: used_ino_def)
  have "\<exists>ino. 0 \<le> ino \<and> ino < fs_ncg (d_fs s) * fs_ipg (d_fs s) \<and> \<not> used_ino s ino" if "r \<noteq> 0"
    using h(2) that by (intro exI [of _ r]) (simp add: ino_made_def ino_taken_def)
  then show ?thesis using h all by (cases "r = 0") auto
qed

theorem inode_alloc_spec_witness:
  "\<exists>r s'. ufs_hashalloc 0 9 IFDIR ufs_inode_alloc disk_ex = Some (r, s') \<and> ino_taken disk_ex r s' \<and>
     cs_ndir (fs_cstotal (d_fs s')) = cs_ndir (fs_cstotal (d_fs disk_ex)) + 1"
proof -
  have "\<exists>ino. 0 \<le> ino \<and> ino < fs_ncg (d_fs disk_ex) * fs_ipg (d_fs disk_ex) \<and> \<not> used_ino disk_ex ino"
    using used_ino_ex(2) by (intro exI [of _ 9]) (simp add: fs_one_simps)
  moreover have "IFTODT IFDIR = DT_DIR" by code_simp
  ultimately show ?thesis using inode_alloc_spec [OF inos_ok_ex, of 0 9 IFDIR]
    by (auto simp: fs_one_simps ino_made_def ndir_added_def)
qed

text \<open>C13. \<open>ufs_free_inode\<close> of an inode in use succeeds, marks exactly this number free, and keeps the
  inode map, the counts of free inodes and the block maps and counts consistent. The three counts of
  directories are left as they are, which is right when the inode is no directory's and leaves them
  too high when it is.\<close>

theorem free_inode_spec:
  assumes "inos_ok s" "0 < r" "fs_ncg (d_fs s) * fs_ipg (d_fs s) < 2 ^ 32" "used_ino s r"
  shows "\<exists>s'. ufs_free_inode r mode s = Some (0, s') \<and> ino_given s r s' \<and> ndir_added (r div fs_ipg (d_fs s)) 0 s s'"
  by (rule free_inode_given [OF assms])

theorem free_inode_spec_witness:
  "\<exists>s'. ufs_free_inode 2 IFREG disk_ex = Some (0, s') \<and> ino_given disk_ex 2 s' \<and> ndir_added 0 0 disk_ex s'"
  using free_inode_spec [OF inos_ok_ex, of 2] used_ino_ex by (simp add: fs_one_simps)

text \<open>C15. Freeing an inode number that is free already, on a file system mounted for writing, is caught
  before anything is written: the run of \<open>ufs_free_inode\<close> ends at a diagnostic of the program, and the
  handle at that moment, with the super block and every byte of the device, is the one it started with.\<close>

theorem free_inode_traps_double_free:
  assumes "inos_ok s" "0 \<le> r" "r < fs_ncg (d_fs s) * fs_ipg (d_fs s)" "fs_ncg (d_fs s) * fs_ipg (d_fs s) < 2 ^ 32"
    and "\<not> used_ino s r" "fs_ronly (d_fs s) = 0"
  shows "ufs_free_inode_run r mode s = Inl s \<and> ufs_free_inode r mode s = None"
  using free_inode_double [OF assms] by (simp add: ufs_free_inode_def)

theorem free_inode_traps_double_free_witness:
  "ufs_free_inode_run 9 IFREG disk_ex = Inl disk_ex \<and> ufs_free_inode 9 IFREG disk_ex = None"
  using free_inode_traps_double_free [OF inos_ok_ex, of 9] used_ino_ex by (simp add: fs_one_simps) (simp add: fs_one_def fs_ex_def)

text \<open>C16. \<open>ufs_free_inode\<close> never changes the count of directories, whatever the mode of the inode:
  its test compares the four-bit directory entry type with \<open>IFDIR\<close>. The count
  \<open>ufs_inode_alloc\<close> increments for a directory is never decremented.\<close>

theorem free_inode_keeps_ndir:
  assumes "ufs_free_inode r mode s = Some (err, s')"
  shows "cs_ndir (fs_cstotal (d_fs s')) = cs_ndir (fs_cstotal (d_fs s))"
proof -
  have fs: "d_fs (snd (blkwrite b m n t)) = d_fs t" for b m n t
    by (auto simp: blkwrite_def bwrite_def ufs_disk_write_def Let_def split: prod.split)
  have ty: "IFTODT mode \<noteq> IFDIR" using IFTODT_bounds(2) [of mode] by simp
  have w: "cs_ndir (fs_cstotal (d_fs t')) = cs_ndir (fs_cstotal (d_fs s))"
    if "blkwrite b m n (s\<lparr>d_fs := (add_nifree cg 1 (d_fs s))\<lparr>fs_fmod := 1\<rparr>\<rparr>) = (e, t')" for b m n cg e t'
    using fs [of b m n "s\<lparr>d_fs := (add_nifree cg 1 (d_fs s))\<lparr>fs_fmod := 1\<rparr>\<rparr>"] that by (simp add: add_nifree_def)
  show ?thesis using assms ty unfolding ufs_free_inode_def ufs_free_inode_run_def Let_def
    by (auto split: prod.splits if_splits dest: w)
qed

theorem free_inode_keeps_ndir_witness:
  "\<exists>s'. ufs_free_inode 2 IFDIR disk_ex = Some (0, s') \<and> cs_ndir (fs_cstotal (d_fs s')) = cs_ndir (fs_cstotal (d_fs disk_ex))"
  using free_inode_given [OF inos_ok_ex, of 2 IFDIR] used_ino_ex free_inode_keeps_ndir [of 2 IFDIR disk_ex 0]
  by (auto simp: fs_one_simps)

subsection \<open>Initialising inodes\<close>

lemma init_gens_other:
  "\<not> (\<exists>k. 0 \<le> k \<and> k < int n \<and> dp + 256 * k + 80 \<le> x \<and> x < dp + 256 * k + 84) \<Longrightarrow> fst (init_gens n m dp s) x = m x"
proof (induction n m dp s rule: init_gens.induct)
  case (2 n m dp s)
  obtain r s1 where r: "c_rand s = (r, s1)" by (metis surj_pair)
  have 1: "\<not> (dp + 80 \<le> x \<and> x < dp + 84)" using 2(2) by (auto dest!: spec [of _ 0])
  have 2: "\<not> (\<exists>k. 0 \<le> k \<and> k < int n \<and> dp + 256 + 256 * k + 80 \<le> x \<and> x < dp + 256 + 256 * k + 84)"
  proof
    assume "\<exists>k. 0 \<le> k \<and> k < int n \<and> dp + 256 + 256 * k + 80 \<le> x \<and> x < dp + 256 + 256 * k + 84"
    then obtain k where "0 \<le> k" "k < int n" "dp + 256 + 256 * k + 80 \<le> x" "x < dp + 256 + 256 * k + 84" by blast
    then show False using 2(2) by (auto dest!: spec [of _ "k + 1"] simp: algebra_simps)
  qed
  show ?case using "2.IH" [OF r [symmetric] refl, of ] 1 2 r by (auto simp: mem_simps)
qed simp

lemma init_gens_state: "snd (init_gens n m dp s) = s\<lparr>env_nrand := env_nrand s + n\<rparr>"
  by (induction n m dp s rule: init_gens.induct) (auto simp: c_rand_def Let_def)

lemma geom_eq_addr:
  assumes "geom_eq (d_fs s) fs'"
  shows "fsbtodb fs' = fsbtodb (d_fs s)" "ino_to_fsba fs' = ino_to_fsba (d_fs s)" "fs_bsize fs' = fs_bsize (d_fs s)"
    "INOPB fs' = INOPB (d_fs s)" "fs_ipg fs' = fs_ipg (d_fs s)" "fs_cgsize fs' = fs_cgsize (d_fs s)"
  using assms
  by (auto simp: geom_eq_def fun_eq_iff fsbtodb_def ino_to_fsba_def ino_to_cg_def cgimin_def cgstart_def cgbase_def blkstofrags_def INOPB_def)

lemma inode_init_run:
  fixes mode
  assumes g: "ino_geom s" and cg: "0 \<le> cg" and c: "c = group_at s cg" and mg: "cg_chkmagic c" "168 \<le> cg_iusedoff c"
    and nf: "cs_nifree (fs_csp (d_fs s) cg) \<noteq> 0" "cg_nifree c \<noteq> 0"
    and pref: "0 < pref" "i = pref mod fs_ipg (d_fs s)" "\<not> iused c i"
    and ini: "n = cg_initediblk c + INOPB (d_fs s)" "0 \<le> cg_initediblk c" "n < 2 ^ 31" "cg_initediblk c < i + INOPB (d_fs s)" "cg_initediblk c < cg_niblk c"
  shows "\<exists>s' ibp d. ufs_inode_alloc cg pref mode s = Some (cg * fs_ipg (d_fs s) + i, s') \<and>
    ino_addr s' = ino_addr s \<and> INOPB (d_fs s') = INOPB (d_fs s) \<and>
    dev_data s' = memcpy d (ino_addr s (cg * fs_ipg (d_fs s) + n)) ibp 0 (fs_bsize (d_fs s)) \<and>
    (\<forall>x. 0 \<le> x \<longrightarrow> x < fs_bsize (d_fs s) \<longrightarrow> \<not> (80 \<le> x mod 256 \<and> x mod 256 < 84) \<longrightarrow> ibp x = 0)"
proof -
  note d = ino_geomD [OF g]
  define fs ct dir where "fs = d_fs s" and "ct = set_cg_time c (env_time s)" and "dir = (IFTODT mode = DT_DIR)"
  have ip: "0 < fs_ipg fs" "0 < INOPB fs" using d(9,10) by (simp_all add: fs_def INOPB_def)
  have i0: "0 \<le> i" using pref(2) ip by (simp add: fs_def)
  have "pref smod fs_ipg fs = i" using pref(1,2) ip by (simp add: fs_def smod_nonneg)
  with i0 have i: "0 \<le> i" "0 \<le> i div 8" "pref smod fs_ipg fs = i" by simp_all
  have h: "cg_iusedoff ct = cg_iusedoff c" "cg_nifree ct = cg_nifree c" "cg_niblk ct = cg_niblk c" "cg_initediblk ct = cg_initediblk c"
    "isset ct (cg_iusedoff c) i = iused c i"
    unfolding ct_def using set_time_ino(1-5) [of c "env_time s"] set_time_ino(6) [OF mg(2) i0] by simp_all
  have search: "inode_search fs ct pref = Some (i, ct)" using pref(1,3) i h by (simp add: inode_search_def)
  define base where "base = cg * fs_ipg fs + cg_initediblk c"
  define nb where "nb = cg * fs_ipg fs + n"
  have b0: "0 \<le> base" "0 \<le> nb" using cg ip ini(1,2) by (simp_all add: base_def nb_def fs_def)
  define ibp s1 where "ibp = fst (init_gens (nat (INOPB fs)) (memset (memcpy (env_junk s) 0 (dev_data s) (ino_addr s base) (fs_bsize fs)) 0 0 (fs_bsize fs)) 0 s)"
    and "s1 = s\<lparr>env_nrand := env_nrand s + nat (INOPB fs)\<rparr>"
  have ig: "init_gens (nat (INOPB fs)) (memset (memcpy (env_junk s) 0 (dev_data s) (ino_addr s base) (fs_bsize fs)) 0 0 (fs_bsize fs)) 0 s = (ibp, s1)"
    by (rule prod_eqI) (simp_all add: ibp_def s1_def init_gens_state)
  define X where "X = set_nifree (setbit (set_initediblk ct n) (cg_iusedoff c) i) (cg_nifree c - 1)"
  define c' fs' where "c' = dir_upd dir 1 X" and "fs' = ino_fs dir cg (- 1) 1 fs"
  have x1: "cg_iusedoff (set_initediblk ct n) = cg_iusedoff c" using h(1) by (simp add: cg_defs mem_simps)
  have "cg_nifree (setbit (set_initediblk ct n) (cg_iusedoff c) i) = cg_nifree (set_initediblk ct n)"
    unfolding cg_nifree_def by (rule ld_cong) (use mg(2) i(2) in \<open>auto simp: setbit_other\<close>)
  then have x2: "cg_nifree (setbit (set_initediblk ct n) (cg_iusedoff c) i) = cg_nifree c" using h(2) by (simp add: cg_defs mem_simps)
  have "cg_initediblk (setbit (set_initediblk ct n) (cg_iusedoff c) i) = cg_initediblk (set_initediblk ct n)"
    unfolding cg_initediblk_def by (rule ld_cong) (use mg(2) i(2) in \<open>auto simp: setbit_other\<close>)
  moreover have "s32 n = n" using ini ip by (intro s32_id) (auto simp: fs_def)
  ultimately have x3: "cg_initediblk c' = n" by (simp add: c'_def X_def dir_upd_def cg_defs mem_simps)
  have pd: "dir \<Longrightarrow> add_ndir cg 1 ((add_nifree cg (- 1) fs)\<lparr>fs_fmod := 1\<rparr>) = fs'" "\<not> dir \<Longrightarrow> (add_nifree cg (- 1) fs)\<lparr>fs_fmod := 1\<rparr> = fs'"
    "dir \<Longrightarrow> set_ndir X (cg_ndir X + 1) = c'" "\<not> dir \<Longrightarrow> X = c'"
    by (simp_all add: c'_def dir_upd_def fs'_def ino_fs_def add_nifree_def add_ndir_def)
  have ge: "geom_eq fs fs'" unfolding fs'_def by (rule ino_fs_geom)
  note ga = geom_eq_addr [OF ge [unfolded fs_def], folded fs_def]
  have sz: "0 < fs_cgsize fs" "0 < fs_bsize fs" using fs_okD(18) [OF d(3)] fs_ok_pos(1) [OF d(3)] by (simp_all add: fs_def)
  note cb = cg_block_nonneg [OF d(1) cg, folded fs_def]
  have rd: "blkread (fsbtodb fs (cgtod fs cg)) (env_junk s) (fs_cgsize fs) s = (fs_cgsize fs, c)"
    unfolding blkread_ok [OF d(2) cb sz(1)] by (simp add: c group_at_def cg_addr_def fs_def)
  have rdi: "blkread (fsbtodb fs (ino_to_fsba fs base)) (env_junk s) (fs_bsize fs) s =
      (fs_bsize fs, memcpy (env_junk s) 0 (dev_data s) (ino_addr s base) (fs_bsize fs))"
    unfolding blkread_ok [OF d(2) ino_addr_eq(2) [OF g b0(1), folded fs_def] sz(2)] by (simp add: ino_addr_def fs_def)
  define s2 where "s2 = s1\<lparr>d_fs := fs', dev_data := memcpy (dev_data s) (cg_addr s cg) c' 0 (fs_cgsize fs)\<rparr>"
  define s' where "s' = s2\<lparr>dev_data := memcpy (dev_data s2) (ino_addr s nb) ibp 0 (fs_bsize fs)\<rparr>"
  have io: "io_ok (s1\<lparr>d_fs := fs'\<rparr>)" "io_ok s2" using d(2) by (simp_all add: s1_def s2_def)
  have w1: "blkwrite (fsbtodb fs (cgtod fs cg)) c' (fs_cgsize fs) (s1\<lparr>d_fs := fs'\<rparr>) = (fs_cgsize fs, s2)"
    unfolding blkwrite_ok [OF io(1) cb sz(1)] by (simp add: s2_def s1_def cg_addr_def fs_def)
  have w2: "blkwrite (fsbtodb fs (ino_to_fsba fs nb)) ibp (fs_bsize fs) s2 = (fs_bsize fs, s')"
    unfolding blkwrite_ok [OF io(2) ino_addr_eq(2) [OF g b0(2), folded fs_def] sz(2)] by (simp add: s'_def s2_def s1_def ino_addr_def fs_def)
  have cnd: "fs_magic fs = FS_UFS2_MAGIC \<and> i + INOPB fs > cg_initediblk c \<and> cg_initediblk c < cg_niblk c"
    using ini(4,5) d(1) by (simp add: disk_ok_def fs_def)
  have w2': "blkwrite (fsbtodb fs (ino_to_fsba fs (cg * fs_ipg fs + n))) ibp (fs_bsize fs) s2 = (fs_bsize fs, s')" using w2 by (simp add: nb_def)
  have sa: "fs_cgsize (add_nifree cg (- 1) fs) = fs_cgsize fs" by (simp add: add_nifree_def)
  have run: "ufs_inode_alloc cg pref mode s = Some (cg * fs_ipg fs + i, s')"
    unfolding ufs_inode_alloc_def fs_def [symmetric]
    using nf [folded fs_def] mg(1) io_ok_mem [OF d(2)] sz
    apply (simp add: Let_def rd ct_def [symmetric] search h cnd [simplified] base_def [symmetric] rdi ig ini(1) [folded fs_def, symmetric]
        dir_def [symmetric] x1 x2 X_def [symmetric])
    apply (cases dir)
     apply (simp_all only: simp_thms if_True if_False pd ga sa w1 prod.case h x3 w2')
     apply (simp_all only: cnd [simplified] simp_thms if_True Let_def prod.case)
     apply simp_all
    done
  have "ino_addr s' = ino_addr s" "INOPB (d_fs s') = INOPB fs"
    using ga by (simp_all add: s'_def s2_def s1_def fun_eq_iff ino_addr_def fs_def)
  moreover have "dev_data s' = memcpy (dev_data s2) (ino_addr s nb) ibp 0 (fs_bsize fs)" by (simp add: s'_def)
  moreover have "ibp x = 0" if "0 \<le> x" "x < fs_bsize fs" "\<not> (80 \<le> x mod 256 \<and> x mod 256 < 84)" for x
  proof -
    have no: False if k: "80 + 256 * k \<le> x" "x < 84 + 256 * k" for k
    proof -
      have "x mod 256 = ((x - 256 * k) + 256 * k) mod 256" by simp
      also have "\<dots> = x - 256 * k" unfolding mod_mult_self2 using k by (intro mod_pos_pos_trivial) auto
      finally show False using that k \<open>\<not> (80 \<le> x mod 256 \<and> x mod 256 < 84)\<close> by linarith
    qed
    have "\<not> (\<exists>k. 0 \<le> k \<and> k < int (nat (INOPB fs)) \<and> 0 + 256 * k + 80 \<le> x \<and> x < 0 + 256 * k + 84)"
      using no by (auto simp: add.commute)
    then show ?thesis unfolding ibp_def using that by (simp add: init_gens_other mem_simps)
  qed
  ultimately show ?thesis using run unfolding nb_def fs_def by blast
qed

text \<open>C14. When \<open>ufs_inode_alloc\<close> finds that more inodes of the group have to be initialised, it
  advances \<open>cg_initediblk\<close> before it writes the cleared inode block, so the write hits the block
  after the one it was meant for: every inode of that block loses its mode and its links. When
  the block initialised is the last one of the group, that is the first inode block of the next
  group, whose inodes may be in use.\<close>

theorem inode_init_misplaced:
  assumes "ino_geom s" "0 \<le> cg" "c = group_at s cg" "cg_chkmagic c" "168 \<le> cg_iusedoff c"
    and "cs_nifree (fs_csp (d_fs s) cg) \<noteq> 0" "cg_nifree c \<noteq> 0"
    and "0 < pref" "\<not> iused c (pref mod fs_ipg (d_fs s))"
    and "n = cg_initediblk c + INOPB (d_fs s)" "0 \<le> cg_initediblk c" "n mod INOPB (d_fs s) = 0" "n < 2 ^ 31"
      "cg_initediblk c < pref mod fs_ipg (d_fs s) + INOPB (d_fs s)" "cg_initediblk c < cg_niblk c"
    and "0 \<le> k" "k < INOPB (d_fs s)"
  shows "\<exists>s'. ufs_inode_alloc cg pref mode s = Some (cg * fs_ipg (d_fs s) + pref mod fs_ipg (d_fs s), s') \<and>
    di_mode (dinode_at s' (cg * fs_ipg (d_fs s) + n + k)) = 0 \<and> di_nlink (dinode_at s' (cg * fs_ipg (d_fs s) + n + k)) = 0"
proof -
  note d = ino_geomD [OF assms(1)]
  define fs nb where "fs = d_fs s" and "nb = cg * fs_ipg (d_fs s) + n"
  obtain s' ibp dd where r: "ufs_inode_alloc cg pref mode s = Some (cg * fs_ipg fs + pref mod fs_ipg fs, s')"
    and a: "ino_addr s' = ino_addr s" "INOPB (d_fs s') = INOPB fs"
    and m: "dev_data s' = memcpy dd (ino_addr s nb) ibp 0 (fs_bsize fs)"
    and z: "\<And>x. 0 \<le> x \<Longrightarrow> x < fs_bsize fs \<Longrightarrow> \<not> (80 \<le> x mod 256 \<and> x mod 256 < 84) \<Longrightarrow> ibp x = 0"
    using inode_init_run [OF assms(1-8) refl assms(9-11,13-15), where mode = mode] unfolding fs_def nb_def by blast
  have ip: "0 < INOPB fs" "0 \<le> cg * fs_ipg fs" using d(9,10) assms(2) by (simp_all add: fs_def INOPB_def)
  have b0: "0 \<le> nb + k" using ip assms(10,11,16) by (simp add: nb_def fs_def)
  have "INOPB fs dvd fs_ipg fs" using d(6) by (simp add: dvd_eq_mod_eq_0 fs_def INOPB_def)
  then have "INOPB fs dvd nb" using assms(12) by (simp add: nb_def fs_def dvd_eq_mod_eq_0 [symmetric])
  then have md: "(nb + k) mod INOPB fs = k" using assms(16,17) by (auto simp: fs_def elim!: dvdE)
  have ad: "ino_addr s (nb + k) = ino_addr s nb" using ino_base_addr(1) [OF assms(1) b0] md by (simp add: fs_def)
  have kb: "256 * k + 256 \<le> fs_bsize fs" using assms(17) d(5) by (simp add: fs_def INOPB_def)
  have zero: "dinode_at s' (nb + k) x = 0" if "0 \<le> x" "x < 80" for x
  proof -
    have "ibp (256 * k + x) = 0" by (rule z) (use that assms(16) kb in auto)
    then show ?thesis using that assms(16) kb by (simp add: dinode_at_def ino_slot_def a md ad m memcpy_def add.assoc)
  qed
  have "ldn 2 (dinode_at s' (nb + k)) 0 = 0" "ldn 2 (dinode_at s' (nb + k)) 2 = 0"
    using zero by (simp_all add: numeral_2_eq_2)
  then have "di_mode (dinode_at s' (nb + k)) = 0" "di_nlink (dinode_at s' (nb + k)) = 0" by (simp_all add: di_defs ld16_def)
  then show ?thesis using r by (auto simp: nb_def fs_def)
qed

text \<open>A device on which inode 32 is a regular file with one link, and the inodes from 16 on are not
  initialised yet.\<close>

definition grp_ini :: mem where "grp_ini = st32 grp_ex 120 16"

definition disk_ini :: uufsd where
  "disk_ini = disk_ex\<lparr>env_junk := grp_ini,
     dev_data := (\<lambda>i. if 24576 \<le> i then st16 (st16 (\<lambda>_. 0) 24576 33188) 24578 1 i else grp_ini (i - 12288))\<rparr>"

lemma disk_ini_ok: "ino_geom disk_ini" "group_at disk_ini 0 = grp_ini" "d_fs disk_ini = fs_one" "fs_inopb fs_one = 16"
proof -
  show fs: "d_fs disk_ini = fs_one" by (simp add: disk_ini_def)
  have "disk_ok disk_ini" using ino_geomD(1) [OF ino_geom_ex(1)] by (simp add: disk_ok_def disk_ini_def io_ok_def)
  then show "ino_geom disk_ini" using ino_geom_ex(1) by (simp add: ino_geom_def disk_ini_def)
  show "group_at disk_ini 0 = grp_ini"
    by (rule ext) (simp add: group_at_def cg_addr_def memcpy_def disk_ini_def disk_ex_def fsbtodb_eq cgtod_def cgstart_def cgbase_def fs_one_def fs_ex_def)
  show "fs_inopb fs_one = 16" by (simp add: fs_one_def fs_ex_def)
qed

theorem inode_init_misplaced_witness:
  "di_mode (dinode_at disk_ini 32) = 33188 \<and>
   (\<exists>s'. ufs_inode_alloc 0 20 IFREG disk_ini = Some (20, s') \<and> di_mode (dinode_at s' 32) = 0)"
proof -
  have h: "cg_chkmagic grp_ini" "cg_iusedoff grp_ini = 168" "cg_nifree grp_ini = 61" "isclr grp_ini 168 20"
    "cg_initediblk grp_ini = 16" "cg_niblk grp_ini = 64" "cs_nifree (fs_csp fs_one 0) = 61" by code_simp+
  have "ino_slot disk_ini 32 = 24576"
    using ino_slot_eq [OF disk_ini_ok(1), of 32] by (simp add: disk_ini_ok fs_one_simps) (simp add: fs_one_def fs_ex_def)
  then have "ld16 (dinode_at disk_ini 32) 0 = ld16 (dev_data disk_ini) 24576" by (simp add: dinode_at_def mem_simps)
  also have "\<dots> = ld16 (st16 (st16 (\<lambda>_. 0) 24576 33188) 24578 1) 24576" by (rule ld_cong) (simp add: disk_ini_def)
  finally have "di_mode (dinode_at disk_ini 32) = 33188" by (simp add: di_mode_def mem_simps)
  then show ?thesis
    using inode_init_misplaced [OF disk_ini_ok(1) order.refl disk_ini_ok(2) [symmetric], of 20 32 0 IFREG] h
    by (auto simp: disk_ini_ok INOPB_def fs_one_simps)
qed

end
