(* ===== verification/Ufs_Vnode_Table.thy ===== *)
theory Ufs_Vnode_Table
  imports Ufs_Vnode Ufs_Inode_Alloc
begin

section \<open>The vnode table implements a map\<close>

text \<open>
  The doubly linked hash chains (\<open>seg\<close> forward, \<open>pseg\<close> backward) against the abstract table
  \<open>vmap\<close> from inode numbers to reference counts and in-core inodes: \<open>table w T\<close> relates the
  heads, the links and the vnodes of a state to the lists of vnodes on each chain. The locale
  \<open>ref_table\<close> is what the file system operations rely on, interpreted on \<open>vnode_get\<close> and
  \<open>vnode_put\<close>.
\<close>

subsection \<open>Doubly linked chains\<close>

text \<open>\<open>seg h l xs e\<close>: following \<open>nexthash\<close> from the pointer \<open>l\<close> visits the vnodes \<open>xs\<close> and ends at the
  pointer \<open>e\<close>. \<open>pseg h l xs\<close>: the first of \<open>xs\<close> has the back link \<open>l\<close>, each other one points back to
  the vnode before it.\<close>

type_synonym vheap = "int \<Rightarrow> ufs_vnode option"

fun seg :: "vheap \<Rightarrow> int option \<Rightarrow> int list \<Rightarrow> int option \<Rightarrow> bool" where
  "seg h l [] e \<longleftrightarrow> l = e"
| "seg h l (x # xs) e \<longleftrightarrow> l = Some x \<and> (\<exists>v. h x = Some v \<and> seg h (v_nexthash v) xs e)"

fun pseg :: "vheap \<Rightarrow> vlink \<Rightarrow> int list \<Rightarrow> bool" where
  "pseg h l [] \<longleftrightarrow> True"
| "pseg h l (x # xs) \<longleftrightarrow> (\<exists>v. h x = Some v \<and> v_pprevhash v = l) \<and> pseg h (Next x) xs"

lemma seg_append: "seg h l (xs @ ys) e \<longleftrightarrow> (\<exists>m. seg h l xs m \<and> seg h m ys e)"
  by (induction h l xs e rule: seg.induct) auto

lemma pseg_append: "pseg h l (xs @ ys) \<longleftrightarrow> pseg h l xs \<and> pseg h (if xs = [] then l else Next (last xs)) ys"
  by (induction h l xs rule: pseg.induct) auto

lemma seg_cong:
  assumes "\<And>x. x \<in> set xs \<Longrightarrow> map_option v_nexthash (h' x) = map_option v_nexthash (h x)"
  shows "seg h' l xs e = seg h l xs e"
  using assms
proof (induction xs arbitrary: l)
  case (Cons x xs)
  have e: "map_option v_nexthash (h' x) = map_option v_nexthash (h x)" using Cons.prems by simp
  have IH: "seg h' m xs e = seg h m xs e" for m using Cons by simp
  show ?case using e IH by (cases "h x"; cases "h' x") auto
qed simp

lemma pseg_cong:
  assumes "\<And>x. x \<in> set xs \<Longrightarrow> map_option v_pprevhash (h' x) = map_option v_pprevhash (h x)"
  shows "pseg h' l xs = pseg h l xs"
  using assms
proof (induction xs arbitrary: l)
  case (Cons x xs)
  have e: "map_option v_pprevhash (h' x) = map_option v_pprevhash (h x)" using Cons.prems by simp
  have IH: "pseg h' m xs = pseg h m xs" for m using Cons by simp
  show ?case using e IH by (cases "h x"; cases "h' x") auto
qed simp

lemma seg_find:
  "seg h l xs None \<Longrightarrow> vnode_find h ino l = Some (find (\<lambda>p. \<exists>v. h p = Some v \<and> v_ino v = ino) xs)"
proof (induction xs arbitrary: l)
  case Nil
  then show ?case by (subst vnode_find.simps) simp
next
  case (Cons x xs)
  then obtain v where v: "l = Some x" "h x = Some v" "seg h (v_nexthash v) xs None" by auto
  then show ?case using Cons.IH [OF v(3)] by (subst vnode_find.simps) simp
qed

lemma seg_dom: "seg h l xs e \<Longrightarrow> x \<in> set xs \<Longrightarrow> \<exists>v. h x = Some v"
  by (induction h l xs e rule: seg.induct) auto

text \<open>Unlinking the vnode \<open>p\<close> from the chain.\<close>

lemma unlink_seg:
  assumes s: "seg h l (as @ p # bs) None" and d: "distinct (as @ p # bs)" and v: "h p = Some v"
    and h': "\<And>x. x \<in> set bs \<Longrightarrow> map_option v_nexthash (h' x) = map_option v_nexthash (h x)"
      "\<And>x. x \<in> set (butlast as) \<Longrightarrow> map_option v_nexthash (h' x) = map_option v_nexthash (h x)"
      "as \<noteq> [] \<Longrightarrow> map_option v_nexthash (h' (last as)) = Some (v_nexthash v)"
  shows "seg h' (if as = [] then v_nexthash v else l) (as @ bs) None"
proof (cases "as = []")
  case True
  have "seg h (v_nexthash v) bs None" using s v True by simp
  then show ?thesis using True seg_cong [of bs h' h, OF h'(1)] by simp
next
  case False
  define cs q where "cs = butlast as" and "q = last as"
  have as: "as = cs @ [q]" using False by (simp add: cs_def q_def)
  have 1: "seg h l cs (Some q)" "seg h (v_nexthash v) bs None" using s v unfolding as by (auto simp: seg_append)
  have "seg h' l cs (Some q)" using 1(1) seg_cong [of cs h' h l "Some q", OF h'(2)] by (simp add: cs_def)
  moreover have "\<exists>u. h' q = Some u \<and> v_nexthash u = v_nexthash v" using h'(3) False by (auto simp: q_def)
  moreover have "seg h' (v_nexthash v) bs None" using 1(2) seg_cong [of bs h' h, OF h'(1)] by simp
  ultimately show ?thesis using False unfolding as by (auto simp: seg_append)
qed

lemma unlink_pseg:
  assumes s: "pseg h l (as @ p # bs)" and v: "h p = Some v"
    and h': "\<And>x. x \<in> set as \<Longrightarrow> map_option v_pprevhash (h' x) = map_option v_pprevhash (h x)"
      "\<And>x. x \<in> set (tl bs) \<Longrightarrow> map_option v_pprevhash (h' x) = map_option v_pprevhash (h x)"
      "bs \<noteq> [] \<Longrightarrow> map_option v_pprevhash (h' (hd bs)) = Some (v_pprevhash v)"
  shows "pseg h' l (as @ bs)" "v_pprevhash v = (if as = [] then l else Next (last as))"
proof -
  show pv: "v_pprevhash v = (if as = [] then l else Next (last as))" using s v by (simp add: pseg_append)
  have a: "pseg h' l as" using s pseg_cong [of as h' h l, OF h'(1)] by (simp add: pseg_append)
  have "pseg h' (v_pprevhash v) bs"
  proof (cases bs)
    case (Cons b cs)
    then have "pseg h (Next b) cs" using s by (simp add: pseg_append)
    then have "pseg h' (Next b) cs" using pseg_cong [of cs h' h "Next b"] h'(2) Cons by simp
    then show ?thesis using Cons h'(3) by auto
  qed simp
  then show "pseg h' l (as @ bs)" using a pv by (simp add: pseg_append)
qed

subsection \<open>The table\<close>

text \<open>\<open>table w T\<close>: the chain of key \<open>k\<close> holds the vnodes \<open>T k\<close>; every vnode hangs in the chain of its
  key, is referenced, and no two have the same inode number.\<close>

definition table :: "world \<Rightarrow> (int \<Rightarrow> int list) \<Rightarrow> bool" where
  "table w T \<longleftrightarrow>
     (\<forall>k. seg (w_vnodes w) (ht_head w k) (T k) None \<and> pseg (w_vnodes w) (Head k) (T k) \<and> distinct (T k)) \<and>
     (\<forall>p v. w_vnodes w p = Some v \<longrightarrow> p \<in> set (T (vnode_hash_key (w_ufsp w) (v_ino v))) \<and> 0 < v_count v \<and> p < w_brk w) \<and>
     (\<forall>k p v. p \<in> set (T k) \<longrightarrow> w_vnodes w p = Some v \<longrightarrow> vnode_hash_key (w_ufsp w) (v_ino v) = k) \<and>
     (\<forall>p q u v. w_vnodes w p = Some u \<longrightarrow> w_vnodes w q = Some v \<longrightarrow> v_ino u = v_ino v \<longrightarrow> p = q)"

definition vtab_ok :: "world \<Rightarrow> bool" where
  "vtab_ok w \<longleftrightarrow> (\<exists>T. table w T)"

text \<open>The abstract table: inode number to reference count and in-core inode.\<close>

definition vmap :: "world \<Rightarrow> int \<Rightarrow> (int \<times> inode) option" where
  "vmap w ino = (case vnode_find (w_vnodes w) ino (ht_head w (vnode_hash_key (w_ufsp w) ino)) of
     Some (Some p) \<Rightarrow> map_option (\<lambda>v. (v_count v, v_inode v)) (w_vnodes w p) | _ \<Rightarrow> None)"

lemma tableD:
  assumes "table w T"
  shows "seg (w_vnodes w) (ht_head w k) (T k) None" "pseg (w_vnodes w) (Head k) (T k)" "distinct (T k)"
    "w_vnodes w p = Some v \<Longrightarrow> p \<in> set (T (vnode_hash_key (w_ufsp w) (v_ino v)))"
    "w_vnodes w p = Some v \<Longrightarrow> 0 < v_count v" "w_vnodes w p = Some v \<Longrightarrow> p < w_brk w"
    "p \<in> set (T k) \<Longrightarrow> w_vnodes w p = Some v \<Longrightarrow> vnode_hash_key (w_ufsp w) (v_ino v) = k"
    "w_vnodes w p = Some u \<Longrightarrow> w_vnodes w q = Some v \<Longrightarrow> v_ino u = v_ino v \<Longrightarrow> p = q"
    "p \<in> set (T k) \<Longrightarrow> \<exists>v. w_vnodes w p = Some v"
  using assms seg_dom [of "w_vnodes w" "ht_head w k" "T k" None p] unfolding table_def by blast+

text \<open>The walk along the chain returns, and finds the vnode if there is one.\<close>

lemma find_vnode:
  assumes t: "table w T"
  shows "(\<exists>p v. w_vnodes w p = Some v \<and> v_ino v = ino \<and>
      vnode_find (w_vnodes w) ino (ht_head w (vnode_hash_key (w_ufsp w) ino)) = Some (Some p)) \<or>
    (\<forall>p v. w_vnodes w p = Some v \<longrightarrow> v_ino v \<noteq> ino) \<and>
      vnode_find (w_vnodes w) ino (ht_head w (vnode_hash_key (w_ufsp w) ino)) = Some None"
proof -
  define k where "k = vnode_hash_key (w_ufsp w) ino"
  let ?P = "\<lambda>p. \<exists>v. w_vnodes w p = Some v \<and> v_ino v = ino"
  note f = seg_find [OF tableD(1) [OF t, of k], of ino]
  show ?thesis
  proof (cases "find ?P (T k)")
    case None
    then have "\<forall>p v. w_vnodes w p = Some v \<longrightarrow> v_ino v \<noteq> ino" using tableD(4) [OF t] by (auto simp: find_None_iff k_def)
    then show ?thesis using f None by (simp add: k_def)
  next
    case (Some p)
    then have "?P p" by (auto simp: find_Some_iff)
    then show ?thesis using f Some by (auto simp: k_def)
  qed
qed

lemma vmap_eq:
  assumes t: "table w T"
  shows "w_vnodes w p = Some v \<Longrightarrow> v_ino v = ino \<Longrightarrow> vmap w ino = Some (v_count v, v_inode v)"
    "(\<forall>p v. w_vnodes w p = Some v \<longrightarrow> v_ino v \<noteq> ino) \<Longrightarrow> vmap w ino = None"
    "vmap w ino = None \<or> (\<exists>p v. w_vnodes w p = Some v \<and> v_ino v = ino \<and> vmap w ino = Some (v_count v, v_inode v))"
  using find_vnode [OF t, of ino] tableD(8) [OF t, of p v] unfolding vmap_def by (auto 0 3)

text \<open>Tables with the same vnodes of a number, up to their links, agree on that number.\<close>

lemma vmap_frame:
  assumes t: "table w T" "table w' T'"
    and a: "\<And>q v. w_vnodes w q = Some v \<Longrightarrow> v_ino v = ino \<Longrightarrow>
      \<exists>u. w_vnodes w' q = Some u \<and> v_ino u = ino \<and> v_count u = v_count v \<and> v_inode u = v_inode v"
    and b: "\<And>q u. w_vnodes w' q = Some u \<Longrightarrow> v_ino u = ino \<Longrightarrow> \<exists>v. w_vnodes w q = Some v \<and> v_ino v = ino"
  shows "vmap w' ino = vmap w ino"
  using find_vnode [OF t(1), of ino]
proof (elim disjE exE conjE)
  fix p v assume p: "w_vnodes w p = Some v" "v_ino v = ino"
  obtain u where u: "w_vnodes w' p = Some u" "v_ino u = ino" "v_count u = v_count v" "v_inode u = v_inode v" using a [OF p] by auto
  show ?thesis using vmap_eq(1) [OF t(1) p] vmap_eq(1) [OF t(2) u(1,2)] u by simp
next
  assume n: "\<forall>p v. w_vnodes w p = Some v \<longrightarrow> v_ino v \<noteq> ino"
  then have "\<forall>p v. w_vnodes w' p = Some v \<longrightarrow> v_ino v \<noteq> ino" using b by blast
  then show ?thesis using vmap_eq(2) [OF t(1) n] vmap_eq(2) [OF t(2)] by simp
qed

subsection \<open>Updating a vnode in place\<close>

lemma table_set_vnode:
  assumes t: "table w T" and v: "w_vnodes w p = Some v" and u: "v_ino u = v_ino v" "v_nexthash u = v_nexthash v"
    "v_pprevhash u = v_pprevhash v" "0 < v_count u"
  shows "table (set_vnode p u w) T" "vmap (set_vnode p u w) = (vmap w)(v_ino v \<mapsto> (v_count u, v_inode u))"
proof -
  note d = tableD [OF t]
  define w' where "w' = set_vnode p u w"
  have h': "w_vnodes w' = (w_vnodes w)(p \<mapsto> u)" "ht_head w' = ht_head w" "w_ufsp w' = w_ufsp w" "w_brk w' = w_brk w"
    by (simp_all add: w'_def set_vnode_def)
  have s: "seg (w_vnodes w') l xs e = seg (w_vnodes w) l xs e" "pseg (w_vnodes w') m xs = pseg (w_vnodes w) m xs" for l xs e m
    by (rule seg_cong pseg_cong; use v u in \<open>simp add: h'\<close>)+
  show t': "table (set_vnode p u w) T"
    unfolding w'_def [symmetric] table_def s h'(2-4)
  proof (intro conjI allI impI)
    fix k show "seg (w_vnodes w) (ht_head w k) (T k) None" "pseg (w_vnodes w) (Head k) (T k)" "distinct (T k)" by (fact d)+
  next
    fix q x assume "w_vnodes w' q = Some x"
    then show "q \<in> set (T (vnode_hash_key (w_ufsp w) (v_ino x)))" "0 < v_count x" "q < w_brk w"
      using d(4-6) v u by (auto simp: h' split: if_splits)
  next
    fix k q x assume "q \<in> set (T k)" "w_vnodes w' q = Some x"
    then show "vnode_hash_key (w_ufsp w) (v_ino x) = k" using d(7) [of q k] v u by (auto simp: h' split: if_splits)
  next
    fix q r x y assume "w_vnodes w' q = Some x" "w_vnodes w' r = Some y" "v_ino x = v_ino y"
    then show "q = r" using d(8) v u by (auto simp: h' split: if_splits)
  qed
  show "vmap (set_vnode p u w) = (vmap w)(v_ino v \<mapsto> (v_count u, v_inode u))"
  proof
    fix ino
    show "vmap (set_vnode p u w) ino = ((vmap w)(v_ino v \<mapsto> (v_count u, v_inode u))) ino"
    proof (cases "ino = v_ino v")
      case True
      then show ?thesis using vmap_eq(1) [OF t', of p u ino] u by (simp add: set_vnode_def)
    next
      case False
      have "vmap (set_vnode p u w) ino = vmap w ino"
        by (rule vmap_frame [OF t t']) (use False u v in \<open>auto simp: set_vnode_def split: if_splits\<close>)
      then show ?thesis using False by simp
    qed
  qed
qed

lemma table_ufs: "table (w\<lparr>w_ufs := s\<rparr>) T = table w T" "vmap (w\<lparr>w_ufs := s\<rparr>) = vmap w"
  by (simp_all add: table_def vmap_def fun_eq_iff split: option.split)

subsection \<open>Linking and unlinking\<close>

lemma table_insert:
  assumes t: "table w T" and p: "p = w_brk w" and k: "key = vnode_hash_key (w_ufsp w) (v_ino new)"
    and new: "0 < v_count new" "\<forall>q v. w_vnodes w q = Some v \<longrightarrow> v_ino v \<noteq> v_ino new"
  shows "\<exists>w'. vnode_insert key p new (w\<lparr>w_brk := p + 1\<rparr>) = Some w' \<and> table w' (T(key := p # T key)) \<and> w_ufs w' = w_ufs w \<and>
    vmap w' = (vmap w)(v_ino new \<mapsto> (v_count new, v_inode new)) \<and> map_option v_inode (w_vnodes w' p) = Some (v_inode new) \<and>
    map_option v_ino (w_vnodes w' p) = Some (v_ino new)"
proof -
  note d = tableD [OF t]
  have fresh: "w_vnodes w p = None" using d(6) [of p] p by (cases "w_vnodes w p") auto
  have pT: "p \<notin> set (T j)" for j using d(9) [of p j] fresh by auto
  define nv where "nv = new\<lparr>v_nexthash := ht_head w key, v_pprevhash := Head key\<rparr>"
  define h' where "h' = (case ht_head w key of None \<Rightarrow> (w_vnodes w)(p \<mapsto> nv)
      | Some q \<Rightarrow> (w_vnodes w)(q \<mapsto> (the (w_vnodes w q))\<lparr>v_pprevhash := Next p\<rparr>, p \<mapsto> nv))"
  define w' where "w' = w\<lparr>w_vnodes := h', w_brk := p + 1, ht_head := (ht_head w)(key \<mapsto> p)\<rparr>"
  have hd: "ht_head w key = (case T key of [] \<Rightarrow> None | q # _ \<Rightarrow> Some q)" using d(1) [of key] by (cases "T key") auto
  have run: "vnode_insert key p new (w\<lparr>w_brk := p + 1\<rparr>) = Some w'"
  proof (cases "T key")
    case Nil
    then show ?thesis using hd by (simp add: vnode_insert_def set_vnode_def w'_def h'_def nv_def)
  next
    case (Cons q qs)
    then obtain v where v: "w_vnodes w q = Some v" using d(9) [of q key] by auto
    then show ?thesis using hd Cons by (simp add: vnode_insert_def set_vnode_def get_vnode_def w'_def h'_def nv_def)
  qed
  have hp: "h' p = Some nv" by (auto simp: h'_def split: option.split)
  have hq: "\<exists>v. w_vnodes w q = Some v" if "ht_head w key = Some q" for q
    using that hd d(9) [of q key] by (cases "T key") auto
  have keep: "w_vnodes w x = Some v \<Longrightarrow> \<exists>u. h' x = Some u \<and> v_ino u = v_ino v \<and> v_count u = v_count v \<and> v_inode u = v_inode v \<and> v_nexthash u = v_nexthash v"
    and bk: "h' x = Some u \<Longrightarrow> \<exists>v. w_vnodes w x = Some v \<and> v_ino u = v_ino v \<and> v_count u = v_count v \<and> v_inode u = v_inode v \<and> v_nexthash u = v_nexthash v"
    if "x \<noteq> p" for x u v
    using that hq by (cases "ht_head w key"; force simp: h'_def split: if_splits)+
  have nx: "map_option v_nexthash (h' x) = map_option v_nexthash (w_vnodes w x)" if "x \<noteq> p" for x
    using keep [OF that] bk [OF that] by (cases "w_vnodes w x"; cases "h' x") fastforce+
  have pv: "map_option v_pprevhash (h' x) = map_option v_pprevhash (w_vnodes w x)" if "x \<noteq> p" "ht_head w key \<noteq> Some x" for x
    using that by (auto simp: h'_def split: option.split)
  have sg: "seg h' l (T j) e = seg (w_vnodes w) l (T j) e" for l j e
    by (rule seg_cong, rule nx) (use pT in auto)
  have chains: "seg h' (((ht_head w)(key \<mapsto> p)) j) ((T(key := p # T key)) j) None \<and> pseg h' (Head j) ((T(key := p # T key)) j) \<and> distinct ((T(key := p # T key)) j)" for j
  proof (cases "j = key")
    case True
    have "pseg h' (Next p) (T key)"
    proof (cases "T key")
      case (Cons q qs)
      then have q: "q \<noteq> p" "ht_head w key = Some q" "q \<notin> set qs" using pT [of key] hd d(3) [of key] by auto
      have "pseg (w_vnodes w) (Next q) qs" using d(2) [of key] Cons by simp
      moreover have "pseg h' (Next q) qs = pseg (w_vnodes w) (Next q) qs"
        by (rule pseg_cong, rule pv) (use pT [of key] Cons q in auto)
      ultimately show ?thesis using Cons q by (simp add: h'_def)
    qed simp
    then show ?thesis using True hp sg d(1,3) pT by (simp add: nv_def)
  next
    case False
    have "x \<noteq> p \<and> ht_head w key \<noteq> Some x" if x: "x \<in> set (T j)" for x
    proof
      show "x \<noteq> p" using x pT by auto
      show "ht_head w key \<noteq> Some x"
      proof
        assume "ht_head w key = Some x"
        then have "x \<in> set (T key)" using hd by (cases "T key") auto
        then show False using d(7) d(9) x False by metis
      qed
    qed
    then have "pseg h' (Head j) (T j) = pseg (w_vnodes w) (Head j) (T j)" by (intro pseg_cong pv) auto
    then show ?thesis using False sg d(1-3) by simp
  qed
  have vn: "w_vnodes w' = h'" "ht_head w' = (ht_head w)(key \<mapsto> p)" "w_ufsp w' = w_ufsp w" "w_brk w' = p + 1" by (simp_all add: w'_def)
  have nvk: "v_ino nv = v_ino new" "v_count nv = v_count new" "v_inode nv = v_inode new" by (simp_all add: nv_def)
  have t': "table w' (T(key := p # T key))"
    unfolding table_def vn
  proof (intro conjI allI impI)
    fix j show "seg h' (((ht_head w)(key \<mapsto> p)) j) ((T(key := p # T key)) j) None" "pseg h' (Head j) ((T(key := p # T key)) j)"
      "distinct ((T(key := p # T key)) j)" using chains [of j] by blast+
  next
    fix q u assume u: "h' q = Some u"
    show "q \<in> set ((T(key := p # T key)) (vnode_hash_key (w_ufsp w) (v_ino u)))" "0 < v_count u" "q < p + 1"
      using u hp bk [of q u] d(4-6) [of q] nvk new(1) k p by (cases "q = p"; fastforce)+
  next
    fix j q u assume "q \<in> set ((T(key := p # T key)) j)" "h' q = Some u"
    then show "vnode_hash_key (w_ufsp w) (v_ino u) = j"
      using hp bk [of q u] d(7) [of q] nvk k pT [of j] by (cases "q = p") (fastforce split: if_splits)+
  next
    fix q r u v assume a: "h' q = Some u" "h' r = Some v" "v_ino u = v_ino v"
    show "q = r"
    proof (cases "q = p \<or> r = p")
      case True
      then show ?thesis using a hp nvk new(2) bk [of q u] bk [of r v] by (cases "q = p"; cases "r = p") fastforce+
    next
      case False
      then show ?thesis using a bk [of q u] bk [of r v] d(8) [of q _ r] by fastforce
    qed
  qed
  have "vmap w' = (vmap w)(v_ino new \<mapsto> (v_count new, v_inode new))"
  proof
    fix ino
    show "vmap w' ino = ((vmap w)(v_ino new \<mapsto> (v_count new, v_inode new))) ino"
    proof (cases "ino = v_ino new")
      case True
      then show ?thesis using vmap_eq(1) [OF t', of p nv ino] hp nvk by (simp add: vn)
    next
      case False
      have "vmap w' ino = vmap w ino"
      proof (rule vmap_frame [OF t t'])
        fix q v assume q: "w_vnodes w q = Some v" "v_ino v = ino"
        then have "q \<noteq> p" using fresh by auto
        then show "\<exists>u. w_vnodes w' q = Some u \<and> v_ino u = ino \<and> v_count u = v_count v \<and> v_inode u = v_inode v"
          using keep [of q v] q by (auto simp: vn)
      next
        fix q u assume q: "w_vnodes w' q = Some u" "v_ino u = ino"
        then have "q \<noteq> p" using hp nvk False by (auto simp: vn)
        then show "\<exists>v. w_vnodes w q = Some v \<and> v_ino v = ino" using bk [of q u] q by (auto simp: vn)
      qed
      then show ?thesis using False by simp
    qed
  qed
  then show ?thesis using run t' hp nvk by (auto simp: w'_def)
qed

text \<open>What \<open>vnode_remove\<close> leaves of the heap: the vnode is gone, its neighbours are linked to each
  other, everything else is as it was.\<close>

definition unlinked :: "vheap \<Rightarrow> int \<Rightarrow> ufs_vnode \<Rightarrow> int list \<Rightarrow> int list \<Rightarrow> vheap" where
  "unlinked h p v as bs = (\<lambda>x. if x = p then None else
     map_option (\<lambda>u. u\<lparr>v_nexthash := (if as \<noteq> [] \<and> x = last as then v_nexthash v else v_nexthash u),
       v_pprevhash := (if bs \<noteq> [] \<and> x = hd bs then v_pprevhash v else v_pprevhash u)\<rparr>) (h x))"

lemma remove_run:
  assumes sg: "seg (w_vnodes w) (ht_head w key) (as @ p # bs) None" "pseg (w_vnodes w) (Head key) (as @ p # bs)"
    and dist: "distinct (as @ p # bs)" and v: "w_vnodes w p = Some v"
  shows "vnode_remove p w = Some (w\<lparr>w_vnodes := unlinked (w_vnodes w) p v as bs,
    ht_head := (if as = [] then (ht_head w)(key := v_nexthash v) else ht_head w)\<rparr>)"
    "v_nexthash v = (case bs of [] \<Rightarrow> None | r # _ \<Rightarrow> Some r)"
    "v_pprevhash v = (if as = [] then Head key else Next (last as))"
proof -
  have "seg (w_vnodes w) (v_nexthash v) bs None" using sg(1) v by (auto simp: seg_append)
  then show nx: "v_nexthash v = (case bs of [] \<Rightarrow> None | r # _ \<Rightarrow> Some r)" by (cases bs) auto
  show pv: "v_pprevhash v = (if as = [] then Head key else Next (last as))"
    using sg(2) v by (auto simp: pseg_append)
  have ex: "\<exists>u. w_vnodes w x = Some u" if "x \<in> set as \<union> set bs" for x using seg_dom [OF sg(1), of x] that by auto
  show "vnode_remove p w = Some (w\<lparr>w_vnodes := unlinked (w_vnodes w) p v as bs,
    ht_head := (if as = [] then (ht_head w)(key := v_nexthash v) else ht_head w)\<rparr>)"
  proof (cases "as = []")
    case True
    show ?thesis
    proof (cases bs)
      case Nil
      then have "unlinked (w_vnodes w) p v as bs = (w_vnodes w)(p := None)" using True by (auto simp: unlinked_def fun_eq_iff map_option.identity)
      then show ?thesis using True Nil v nx pv by (simp add: vnode_remove_def get_vnode_def set_link_def)
    next
      case (Cons r rs)
      then obtain u where u: "w_vnodes w r = Some u" "r \<noteq> p" using ex [of r] dist by auto
      then have "unlinked (w_vnodes w) p v as bs = (w_vnodes w)(r \<mapsto> u\<lparr>v_pprevhash := v_pprevhash v\<rparr>, p := None)"
        using True Cons by (auto simp: unlinked_def fun_eq_iff map_option.identity)
      then show ?thesis using True Cons v nx pv u by (simp add: vnode_remove_def get_vnode_def set_link_def set_vnode_def)
    qed
  next
    case False
    define q where "q = last as"
    have qs: "q \<in> set as" using last_in_set [OF False] by (simp add: q_def)
    then have q: "last as = q" "q \<noteq> p" "q \<in> set as" using dist by (auto simp: q_def)
    then obtain x where x: "w_vnodes w q = Some x" using ex by blast
    show ?thesis
    proof (cases bs)
      case Nil
      then have "unlinked (w_vnodes w) p v as bs = (w_vnodes w)(q \<mapsto> x\<lparr>v_nexthash := v_nexthash v\<rparr>, p := None)"
        using False q x by (auto simp: unlinked_def fun_eq_iff map_option.identity)
      then show ?thesis using False Nil v nx pv q x by (simp add: vnode_remove_def get_vnode_def set_link_def set_vnode_def)
    next
      case (Cons r rs)
      then obtain u where u: "w_vnodes w r = Some u" "r \<noteq> p" "r \<noteq> q" using ex [of r] dist q by auto
      then have "unlinked (w_vnodes w) p v as bs =
          (w_vnodes w)(q \<mapsto> x\<lparr>v_nexthash := v_nexthash v\<rparr>, r \<mapsto> u\<lparr>v_pprevhash := v_pprevhash v\<rparr>, p := None)"
        using False Cons q x by (auto simp: unlinked_def fun_eq_iff map_option.identity)
      then show ?thesis using False Cons v nx pv q x u by (simp add: vnode_remove_def get_vnode_def set_link_def set_vnode_def)
    qed
  qed
qed

lemma table_remove:
  assumes t: "table w T" and v: "w_vnodes w p = Some v" and k: "key = vnode_hash_key (w_ufsp w) (v_ino v)"
  shows "\<exists>w'. vnode_remove p w = Some w' \<and> table w' (T(key := remove1 p (T key))) \<and> w_ufs w' = w_ufs w \<and> w_vnodes w' p = None \<and>
    vmap w' = (vmap w)(v_ino v := None)"
proof -
  note d = tableD [OF t]
  have "p \<in> set (T key)" using d(4) [OF v] k by simp
  then obtain as bs where T: "T key = as @ p # bs" by (metis split_list)
  have dist: "distinct (as @ p # bs)" using d(3) [of key] T by simp
  have T': "remove1 p (T key) = as @ bs" using dist T by (simp add: remove1_append)
  note rr = remove_run [OF d(1,2) [of key, unfolded T] dist v]
  define h' where "h' = unlinked (w_vnodes w) p v as bs"
  define w' where "w' = w\<lparr>w_vnodes := h', ht_head := (if as = [] then (ht_head w)(key := v_nexthash v) else ht_head w)\<rparr>"
  have fr: "h' x = Some u \<Longrightarrow> x \<noteq> p \<and> (\<exists>y. w_vnodes w x = Some y \<and> v_ino u = v_ino y \<and> v_count u = v_count y \<and> v_inode u = v_inode y)" for x u
    by (auto simp: h'_def unlinked_def split: if_splits)
  have ke: "w_vnodes w x = Some y \<Longrightarrow> x \<noteq> p \<Longrightarrow> \<exists>u. h' x = Some u \<and> v_ino u = v_ino y \<and> v_count u = v_count y \<and> v_inode u = v_inode y" for x y
    by (auto simp: h'_def unlinked_def)
  have nx: "map_option v_nexthash (h' x) = map_option v_nexthash (w_vnodes w x)" if "x \<noteq> p" "as \<noteq> [] \<Longrightarrow> x \<noteq> last as" for x
    using that by (cases "w_vnodes w x") (auto simp: h'_def unlinked_def)
  have pv: "map_option v_pprevhash (h' x) = map_option v_pprevhash (w_vnodes w x)" if "x \<noteq> p" "bs \<noteq> [] \<Longrightarrow> x \<noteq> hd bs" for x
    using that by (cases "w_vnodes w x") (auto simp: h'_def unlinked_def)
  have bl: "x \<noteq> last as" if "x \<in> set (butlast as)" for x
  proof -
    have "as = butlast as @ [last as]" using that by (cases as) auto
    then show ?thesis using dist that by (metis append.assoc distinct_append disjoint_iff list.set_intros(1))
  qed
  have lk: "map_option v_nexthash (h' (last as)) = Some (v_nexthash v)" if "as \<noteq> []"
  proof -
    have "last as \<in> set as" using that by simp
    then have "last as \<noteq> p" "\<exists>u. w_vnodes w (last as) = Some u" using d(9) [of "last as" key] T dist by auto
    then show ?thesis using that by (auto simp: h'_def unlinked_def simp del: map_option_eq_Some)
  qed
  have lp: "map_option v_pprevhash (h' (hd bs)) = Some (v_pprevhash v)" if "bs \<noteq> []"
  proof -
    have "hd bs \<in> set bs" using that by simp
    then have "hd bs \<noteq> p" "\<exists>u. w_vnodes w (hd bs) = Some u" using d(9) [of "hd bs" key] T dist by auto
    then show ?thesis using that by (auto simp: h'_def unlinked_def simp del: map_option_eq_Some)
  qed
  have la: "last as \<notin> set bs" if "as \<noteq> []" using last_in_set [OF that] dist by auto
  have tl: "x \<noteq> p \<and> x \<noteq> hd bs" if "x \<in> set (tl bs)" for x using that dist by (cases bs) auto
  have hb: "hd bs \<notin> set as" if "bs \<noteq> []" using hd_in_set [OF that] dist by auto
  have chain: "seg h' (if as = [] then v_nexthash v else ht_head w key) (as @ bs) None" "pseg h' (Head key) (as @ bs)"
  proof -
    have s: "seg (w_vnodes w) (ht_head w key) (as @ p # bs) None" "pseg (w_vnodes w) (Head key) (as @ p # bs)" using d(1,2) [of key] T by simp_all
    show "seg h' (if as = [] then v_nexthash v else ht_head w key) (as @ bs) None"
      by (rule unlink_seg [OF s(1) dist v]) (use dist bl lk la in \<open>auto intro!: nx dest: in_set_butlastD\<close>)
    show "pseg h' (Head key) (as @ bs)"
      by (rule unlink_pseg(1) [OF s(2) v]) (use dist lp tl hb in \<open>auto intro!: pv\<close>)
  qed
  have oth: "seg h' l (T j) e = seg (w_vnodes w) l (T j) e" "pseg h' m (T j) = pseg (w_vnodes w) m (T j)" if j: "j \<noteq> key" for l e m j
  proof -
    have x: "x \<notin> set (T key)" if "x \<in> set (T j)" for x using d(7) d(9) that j by metis
    have "x \<noteq> p" "as \<noteq> [] \<Longrightarrow> x \<noteq> last as" "bs \<noteq> [] \<Longrightarrow> x \<noteq> hd bs" if "x \<in> set (T j)" for x
      using x [OF that] T by auto
    then show "seg h' l (T j) e = seg (w_vnodes w) l (T j) e" "pseg h' m (T j) = pseg (w_vnodes w) m (T j)"
      by (intro seg_cong pseg_cong nx pv; blast)+
  qed
  have vn: "w_vnodes w' = h'" "w_ufsp w' = w_ufsp w" "w_brk w' = w_brk w" by (simp_all add: w'_def)
  have t': "table w' (T(key := remove1 p (T key)))"
    unfolding table_def vn T'
  proof (intro conjI allI impI)
    fix j show "seg h' (ht_head w' j) ((T(key := as @ bs)) j) None" "pseg h' (Head j) ((T(key := as @ bs)) j)" "distinct ((T(key := as @ bs)) j)"
      using chain oth [of j] d(1-3) [of j] dist by (auto simp: w'_def)
  next
    fix q u assume u: "h' q = Some u"
    then obtain y where y: "q \<noteq> p" "w_vnodes w q = Some y" "v_ino u = v_ino y" "v_count u = v_count y" using fr by blast
    show "q \<in> set ((T(key := as @ bs)) (vnode_hash_key (w_ufsp w) (v_ino u)))" "0 < v_count u" "q < w_brk w"
      using d(4-6) [OF y(2)] y T by auto
  next
    fix j q u assume "q \<in> set ((T(key := as @ bs)) j)" "h' q = Some u"
    then show "vnode_hash_key (w_ufsp w) (v_ino u) = j" using fr [of q u] d(7) [of q j] T by (auto split: if_splits)
  next
    fix q r u x assume "h' q = Some u" "h' r = Some x" "v_ino u = v_ino x"
    then show "q = r" using fr [of q u] fr [of r x] d(8) [of q _ r] by force
  qed
  have hn: "h' p = None" by (simp add: h'_def unlinked_def)
  have "vmap w' = (vmap w)(v_ino v := None)"
  proof
    fix ino
    show "vmap w' ino = ((vmap w)(v_ino v := None)) ino"
    proof (cases "ino = v_ino v")
      case True
      have "\<forall>q u. w_vnodes w' q = Some u \<longrightarrow> v_ino u \<noteq> ino"
        using fr d(8) [of p v] v True by (metis vn(1))
      then show ?thesis using vmap_eq(2) [OF t'] True by simp
    next
      case False
      have "vmap w' ino = vmap w ino"
      proof (rule vmap_frame [OF t t'])
        fix q y assume "w_vnodes w q = Some y" "v_ino y = ino"
        moreover have "q \<noteq> p" using calculation False v by auto
        ultimately show "\<exists>u. w_vnodes w' q = Some u \<and> v_ino u = ino \<and> v_count u = v_count y \<and> v_inode u = v_inode y"
          using ke [of q y] by (auto simp: vn)
      next
        fix q u assume "w_vnodes w' q = Some u" "v_ino u = ino"
        then show "\<exists>v. w_vnodes w q = Some v \<and> v_ino v = ino" using fr [of q u] by (auto simp: vn)
      qed
      then show ?thesis using False by simp
    qed
  qed
  then show ?thesis using rr(1) t' hn vn by (auto simp: w'_def h'_def)
qed

subsection \<open>Getting and releasing a vnode\<close>

text \<open>A program state whose vnode table and device are in order.\<close>

definition world_ok :: "world \<Rightarrow> bool" where
  "world_ok w \<longleftrightarrow> vtab_ok w \<and> ino_geom (w_ufs w) \<and> ino_cache_ok (w_ufs w)"

text \<open>The in-core inode on the device.\<close>

definition disk_inode :: "world \<Rightarrow> int \<Rightarrow> inode" where
  "disk_inode w ino = copy_ondisk_to_incore inode0 (dinode_at (w_ufs w) ino) 0 ino"

lemma vnode_get_cases:
  assumes wo: "world_ok w" and ino: "0 < ino"
  shows "\<exists>p w'. vnode_get ino w = Some (Some p, w') \<and> world_ok w' \<and> dev_data (w_ufs w') = dev_data (w_ufs w) \<and>
    d_fs (w_ufs w') = d_fs (w_ufs w) \<and> map_option v_ino (w_vnodes w' p) = Some ino \<and>
    vmap w' = (case vmap w ino of Some (n, ip) \<Rightarrow> (vmap w)(ino \<mapsto> (n + 1, ip)) | None \<Rightarrow> (vmap w)(ino \<mapsto> (1, disk_inode w ino)))"
proof -
  obtain T where t: "table w T" using wo by (auto simp: world_ok_def vtab_ok_def)
  have g: "ino_geom (w_ufs w)" "ino_cache_ok (w_ufs w)" using wo by (auto simp: world_ok_def)
  define key where "key = vnode_hash_key (w_ufsp w) ino"
  from find_vnode [OF t, of ino, folded key_def] show ?thesis
  proof (elim disjE exE conjE)
    fix p v assume p: "w_vnodes w p = Some v" "v_ino v = ino" and f: "vnode_find (w_vnodes w) ino (ht_head w key) = Some (Some p)"
    define u where "u = v\<lparr>v_count := v_count v + 1\<rparr>"
    have "vnode_get ino w = Some (Some p, set_vnode p u w)"
      using f p by (simp add: vnode_get_def Let_def key_def get_vnode_def u_def)
    moreover have u: "v_ino u = v_ino v" "v_nexthash u = v_nexthash v" "v_pprevhash u = v_pprevhash v" "0 < v_count u"
      using tableD(5) [OF t p(1)] by (simp_all add: u_def)
    note ts = table_set_vnode [OF t p(1) u]
    have "vmap (set_vnode p u w) = (vmap w)(ino \<mapsto> (v_count v + 1, v_inode v))" using ts(2) p(2) by (simp add: u_def)
    moreover have "world_ok (set_vnode p u w)" using ts(1) g by (auto simp: world_ok_def vtab_ok_def set_vnode_def)
    ultimately show ?thesis using vmap_eq(1) [OF t p] p by (auto simp: set_vnode_def u_def)
  next
    assume n: "\<forall>p v. w_vnodes w p = Some v \<longrightarrow> v_ino v \<noteq> ino" and f: "vnode_find (w_vnodes w) ino (ht_head w key) = Some None"
    have mem: "env_mem (w_ufs w)" using io_ok_mem [OF ino_geomD(2) [OF g(1)]] .
    obtain off s b where r: "getino ino (w_ufs w) = (0, off, s)" "ino_geom s" "ino_cache_ok s" "dev_data s = dev_data (w_ufs w)" "d_inoblock s = Some b"
      "\<forall>i \<in> {0..<256}. b (off + i) = dev_data (w_ufs w) (ino_slot (w_ufs w) ino + i)"
      using read_inode_ok [OF g, of ino] ino by auto
    have fs: "d_fs s = d_fs (w_ufs w)"
      using getino_ok [OF g, of ino] ino r(1) by auto
    define ip where "ip = disk_inode w ino"
    have ip: "copy_ondisk_to_incore inode0 b off ino = ip" using incore_of_block [OF r(6)] by (simp add: ip_def disk_inode_def)
    define new where "new = \<lparr>v_inode = ip, v_ino = ino, v_count = 1, v_pprevhash = Head key, v_nexthash = None\<rparr>"
    have t': "table (w\<lparr>w_ufs := s\<rparr>) T" using t by (simp add: table_ufs)
    have k: "key = vnode_hash_key (w_ufsp (w\<lparr>w_ufs := s\<rparr>)) (v_ino new)" by (simp add: key_def new_def)
    have nn: "0 < v_count new" "\<forall>q v. w_vnodes (w\<lparr>w_ufs := s\<rparr>) q = Some v \<longrightarrow> v_ino v \<noteq> v_ino new" using n by (simp_all add: new_def)
    obtain w' where w': "vnode_insert key (w_brk w) new (w\<lparr>w_ufs := s, w_brk := w_brk w + 1\<rparr>) = Some w'"
      "table w' (T(key := w_brk w # T key))" "w_ufs w' = s" "vmap w' = (vmap w)(ino \<mapsto> (1, ip))"
      "map_option v_ino (w_vnodes w' (w_brk w)) = Some ino"
      using table_insert [OF t' _ k nn] by (auto simp: table_ufs new_def)
    have ww: "w\<lparr>w_brk := w_brk w + 1, w_ufs := s\<rparr> = w\<lparr>w_ufs := s, w_brk := w_brk w + 1\<rparr>" by simp
    have "vnode_get ino w = Some (Some (w_brk w), w')"
      using f mem ino r(1,5) ip w'(1) by (simp add: vnode_get_def key_def [symmetric] Let_def new_def ww)
    then show ?thesis
      using w' r(2-4) fs vmap_eq(2) [OF t n] by (auto simp: world_ok_def vtab_ok_def ip_def)
  qed
qed

text \<open>What else is in the vnode that is unlinked does not matter, nor does the state of the device.\<close>

lemma remove_cong:
  assumes t: "table w T" and v: "w_vnodes w p = Some v" and x: "v_nexthash x = v_nexthash v" "v_pprevhash x = v_pprevhash v"
    and r: "vnode_remove p w = Some w'"
  shows "vnode_remove p ((set_vnode p x w)\<lparr>w_ufs := s\<rparr>) = Some (w'\<lparr>w_ufs := s\<rparr>)"
proof -
  define key where "key = vnode_hash_key (w_ufsp w) (v_ino v)"
  obtain as bs where T: "T key = as @ p # bs" using tableD(4) [OF t v] unfolding key_def by (metis split_list)
  have dist: "distinct (as @ p # bs)" using tableD(3) [OF t, of key] T by simp
  note sg = tableD(1,2) [OF t, of key, unfolded T]
  define w1 where "w1 = (set_vnode p x w)\<lparr>w_ufs := s\<rparr>"
  have h: "w_vnodes w1 = (w_vnodes w)(p \<mapsto> x)" "ht_head w1 = ht_head w" by (simp_all add: w1_def set_vnode_def)
  have "seg (w_vnodes w1) l xs e = seg (w_vnodes w) l xs e" "pseg (w_vnodes w1) m xs = pseg (w_vnodes w) m xs" for l xs e m
    by (rule seg_cong pseg_cong; use v x in \<open>simp add: h\<close>)+
  then have sg1: "seg (w_vnodes w1) (ht_head w1 key) (as @ p # bs) None" "pseg (w_vnodes w1) (Head key) (as @ p # bs)" using sg by (simp_all add: h)
  have u: "unlinked (w_vnodes w1) p x as bs = unlinked (w_vnodes w) p v as bs" unfolding unlinked_def x h by (simp add: fun_eq_iff)
  show ?thesis
    using remove_run(1) [OF sg1 dist, of x] remove_run(1) [OF sg dist v] r unfolding u w1_def [symmetric]
    by (simp add: h x) (simp add: w1_def set_vnode_def)
qed

text \<open>Releasing a vnode of a file that still has links.\<close>

lemma vnode_put_cases:
  fixes dirty
  assumes wo: "world_ok w" and p: "w_vnodes w p = Some v" and ino: "0 < v_ino v" and ln: "1 \<le> i_nlink (v_inode v)"
  defines "ip \<equiv> (if dirty then copy_incore_to_ondisk (d_fs (w_ufs w)) (v_inode v) else v_inode v)"
  shows "\<exists>w'. vnode_put p dirty w = Some (0, w') \<and> world_ok w' \<and> d_fs (w_ufs w') = d_fs (w_ufs w) \<and>
    vmap w' = (if v_count v = 1 then (vmap w)(v_ino v := None)
      else (vmap w)(v_ino v \<mapsto> (v_count v - 1, if dirty then copy_incore_to_ondisk (d_fs (w_ufs w)) ip else ip))) \<and>
    dev_data (w_ufs w') = (if dirty then memcpy (dev_data (w_ufs w)) (ino_slot (w_ufs w) (v_ino v)) (i_din2 (copy_incore_to_ondisk (d_fs (w_ufs w)) ip)) 0 256
      else dev_data (w_ufs w))"
proof -
  obtain T where t: "table w T" using wo by (auto simp: world_ok_def vtab_ok_def)
  have g: "ino_geom (w_ufs w)" "ino_cache_ok (w_ufs w)" using wo by (auto simp: world_ok_def)
  define fs where "fs = d_fs (w_ufs w)"
  define v1 where "v1 = v\<lparr>v_count := v_count v - 1, v_inode := ip\<rparr>"
  have lnk: "1 \<le> i_nlink ip" using ln by (simp add: ip_def copy_incore_to_ondisk_def Let_def)
  obtain s where s: "(if dirty then ufs_write_inode (v_ino v) ip (w_ufs w) else (0, ip, w_ufs w)) =
      (0, if dirty then copy_incore_to_ondisk fs ip else ip, s)" "ino_geom s" "ino_cache_ok s" "d_fs s = fs"
    "dev_data s = (if dirty then memcpy (dev_data (w_ufs w)) (ino_slot (w_ufs w) (v_ino v)) (i_din2 (copy_incore_to_ondisk fs ip)) 0 256
      else dev_data (w_ufs w))"
    using write_inode_ok [OF g, of "v_ino v" ip] ino g by (cases dirty) (auto simp: fs_def)
  define ip' where "ip' = (if dirty then copy_incore_to_ondisk fs ip else ip)"
  define v2 where "v2 = v\<lparr>v_count := v_count v - 1, v_inode := ip'\<rparr>"
  have c: "0 < v_count v" using tableD(5) [OF t p] .
  show ?thesis
  proof (cases "v_count v = 1")
    case True
    obtain w' where w': "vnode_remove p w = Some w'" "table w' (T(vnode_hash_key (w_ufsp w) (v_ino v) := remove1 p (T (vnode_hash_key (w_ufsp w) (v_ino v)))))"
      "w_ufs w' = w_ufs w" "vmap w' = (vmap w)(v_ino v := None)"
      using table_remove [OF t p refl] by blast
    have rm: "vnode_remove p ((set_vnode p v2 w)\<lparr>w_ufs := s\<rparr>) = Some (w'\<lparr>w_ufs := s\<rparr>)"
      by (rule remove_cong [OF t p _ _ w'(1)]) (simp_all add: v2_def)
    have "vnode_put p dirty w = Some (0, w'\<lparr>w_ufs := s\<rparr>)"
      using s(1) True lnk p rm ip'_def by (cases dirty) (auto simp: vnode_put_def get_vnode_def Let_def ip_def v2_def fs_def)
    then show ?thesis
      using w'(2,4) s(2-5) True by (auto simp: world_ok_def vtab_ok_def table_ufs fs_def)
  next
    case False
    have t2: "table (set_vnode p v2 w) T" "vmap (set_vnode p v2 w) = (vmap w)(v_ino v \<mapsto> (v_count v2, v_inode v2))"
      by (rule table_set_vnode [OF t p]; use c False in \<open>simp add: v2_def\<close>)+
    have "vnode_put p dirty w = Some (0, (set_vnode p v2 w)\<lparr>w_ufs := s\<rparr>)"
      using s(1) False c p by (cases dirty) (auto simp: vnode_put_def get_vnode_def Let_def ip_def ip'_def v2_def fs_def set_vnode_def)
    then show ?thesis
      using t2 s(2-5) False by (auto simp: world_ok_def vtab_ok_def table_ufs v2_def ip'_def fs_def)
  qed
qed

subsection \<open>Properties of the vnode table\<close>

lemma same_file_twice:
  assumes "inode_ok ip"
  shows "inode_ok (copy_incore_to_ondisk fs ip)"
    "same_file a (copy_incore_to_ondisk fs (copy_incore_to_ondisk fs ip)) = same_file a (copy_incore_to_ondisk fs ip)"
proof -
  show ok: "inode_ok (copy_incore_to_ondisk fs ip)" using assms by (simp add: inode_ok_def copy_incore_to_ondisk_def Let_def)
  have far: "i_din2 (copy_incore_to_ondisk fs (copy_incore_to_ondisk fs ip)) i = i_din2 (copy_incore_to_ondisk fs ip) i" if "112 \<le> i" for i
    using incore_ondisk(14) [OF ok that] .
  have "di_db (i_din2 (copy_incore_to_ondisk fs (copy_incore_to_ondisk fs ip))) k = di_db (i_din2 (copy_incore_to_ondisk fs ip)) k"
    "di_ib (i_din2 (copy_incore_to_ondisk fs (copy_incore_to_ondisk fs ip))) k = di_ib (i_din2 (copy_incore_to_ondisk fs ip)) k" if "0 \<le> k" for k
    unfolding di_db_def di_ib_def by (rule ld_cong, rule far; use that in simp)+
  moreover have "i_blocks (copy_incore_to_ondisk fs (copy_incore_to_ondisk fs ip)) = i_blocks (copy_incore_to_ondisk fs ip)"
    by (simp add: copy_incore_to_ondisk_def Let_def calc_num_blocks_def)
  ultimately show "same_file a (copy_incore_to_ondisk fs (copy_incore_to_ondisk fs ip)) = same_file a (copy_incore_to_ondisk fs ip)"
    unfolding same_file_def by (simp add: copy_incore_to_ondisk_def Let_def)
qed

text \<open>C9. \<open>vnode_get\<close> implements the abstract table of in-core inodes: on a sound table it returns a
  vnode of the requested inode; if the inode is in core its reference count goes up by one and
  it is not read again, otherwise it is read from the device and gets the count one. The links
  of the hash chains stay sound, no other entry changes, and nothing is written.\<close>

theorem vnode_get_refines:
  assumes "world_ok w" "0 < ino"
  shows "\<exists>p w'. vnode_get ino w = Some (Some p, w') \<and> world_ok w' \<and> dev_data (w_ufs w') = dev_data (w_ufs w) \<and>
    map_option v_ino (w_vnodes w' p) = Some ino \<and>
    vmap w' = (case vmap w ino of Some (n, ip) \<Rightarrow> (vmap w)(ino \<mapsto> (n + 1, ip)) | None \<Rightarrow> (vmap w)(ino \<mapsto> (1, disk_inode w ino)))"
  using vnode_get_cases [OF assms] by blast

text \<open>C10. \<open>vnode_put\<close> of a file that has links (\<open>i_nlink \<ge> 1\<close>; the last reference of an unlinked file
  is handled by \<open>do_killfilebyinode\<close> instead): the reference count goes down by one, the last
  reference removes the entry from its chain and frees the vnode, no other entry changes, and
  the links stay sound. A dirty vnode is stored on the device with every field and block pointer
  of its inode and the number of sectors its size requires, and no other on-disk inode changes; a
  clean one leaves the device and the in-core inode as they are.\<close>

theorem vnode_put_refines:
  assumes "world_ok w" "w_vnodes w p = Some v" "0 < v_ino v" "1 \<le> i_nlink (v_inode v)" "inode_ok (v_inode v)"
  shows "\<exists>w'. vnode_put p dirty w = Some (0, w') \<and> world_ok w' \<and>
    (if v_count v = 1 then vmap w' = (vmap w)(v_ino v := None)
     else \<exists>ip. vmap w' = (vmap w)(v_ino v \<mapsto> (v_count v - 1, ip)) \<and>
       (if dirty then stored_as (d_fs (w_ufs w)) (v_inode v) ip else ip = v_inode v)) \<and>
    (if dirty then stored_as (d_fs (w_ufs w)) (v_inode v) (disk_inode w' (v_ino v)) \<and>
       (\<forall>j. 0 \<le> j \<longrightarrow> j \<noteq> v_ino v \<longrightarrow> dinode_at (w_ufs w') j = dinode_at (w_ufs w) j)
     else dev_data (w_ufs w') = dev_data (w_ufs w))"
proof -
  define fs ip where "fs = d_fs (w_ufs w)" and "ip = (if dirty then copy_incore_to_ondisk (d_fs (w_ufs w)) (v_inode v) else v_inode v)"
  obtain w' where w': "vnode_put p dirty w = Some (0, w')" "world_ok w'" "d_fs (w_ufs w') = d_fs (w_ufs w)"
    "vmap w' = (if v_count v = 1 then (vmap w)(v_ino v := None) else (vmap w)(v_ino v \<mapsto> (v_count v - 1, if dirty then copy_incore_to_ondisk fs ip else ip)))"
    "dev_data (w_ufs w') = (if dirty then memcpy (dev_data (w_ufs w)) (ino_slot (w_ufs w) (v_ino v)) (i_din2 (copy_incore_to_ondisk fs ip)) 0 256
      else dev_data (w_ufs w))"
    using vnode_put_cases [OF assms(1-4), of dirty] unfolding fs_def ip_def by blast
  have g: "ino_geom (w_ufs w)" "ino_geom (w_ufs w')" using assms(1) w'(2) by (auto simp: world_ok_def)
  note st = same_stored [OF ino_geomD(3) [OF g(1)] ino_geom_bsize [OF g(1)] assms(5), folded fs_def]
  note twice = same_file_twice [OF assms(5), where fs = fs]
  have sl: "0 \<le> j \<Longrightarrow> ino_slot (w_ufs w') j = ino_slot (w_ufs w) j" for j
    using ino_slot_eq [OF g(1)] ino_slot_eq [OF g(2)] w'(3) by simp
  have dev: "stored_as fs (v_inode v) (disk_inode w' (v_ino v))" "0 \<le> j \<Longrightarrow> j \<noteq> v_ino v \<Longrightarrow> dinode_at (w_ufs w') j = dinode_at (w_ufs w) j" if dirty for j
  proof -
    have "\<forall>i \<in> {0..<256}. dinode_at (w_ufs w') (v_ino v) (0 + i) = i_din2 (copy_incore_to_ondisk fs ip) i"
      using w'(5) that sl [of "v_ino v"] assms(3) by (simp add: dinode_at_def memcpy_def)
    then show "stored_as fs (v_inode v) (disk_inode w' (v_ino v))"
      using ondisk_incore [of ip "dinode_at (w_ufs w') (v_ino v)" 0 fs] twice that
      by (intro st) (simp add: disk_inode_def ip_def fs_def)
    show "dinode_at (w_ufs w') j = dinode_at (w_ufs w) j" if j: "0 \<le> j" "j \<noteq> v_ino v"
      using w'(5) \<open>dirty\<close> sl [OF j(1)] ino_slot_apart [OF g(1) _ j(1), of "v_ino v"] assms(3) j(2)
      by (auto simp: dinode_at_def memcpy_def fun_eq_iff)
  qed
  have core: "stored_as fs (v_inode v) (copy_incore_to_ondisk fs ip)" if dirty
    using twice(2) [of "copy_incore_to_ondisk fs ip"] that by (intro st) (auto simp: ip_def fs_def same_file_def)
  show ?thesis
  proof (intro exI conjI)
    show "if v_count v = 1 then vmap w' = (vmap w)(v_ino v := None)
     else \<exists>ip. vmap w' = (vmap w)(v_ino v \<mapsto> (v_count v - 1, ip)) \<and>
       (if dirty then stored_as (d_fs (w_ufs w)) (v_inode v) ip else ip = v_inode v)"
      using w'(4) core by (auto simp: fs_def ip_def)
    show "if dirty then stored_as (d_fs (w_ufs w)) (v_inode v) (disk_inode w' (v_ino v)) \<and>
       (\<forall>j. 0 \<le> j \<longrightarrow> j \<noteq> v_ino v \<longrightarrow> dinode_at (w_ufs w') j = dinode_at (w_ufs w) j)
     else dev_data (w_ufs w') = dev_data (w_ufs w)" using dev w'(5) by (auto simp: fs_def)
  qed (rule w'(1,2))+
qed

text \<open>The interface the file system operations rely on: a reference-counted table.\<close>

locale ref_table =
  fixes get :: "'k \<Rightarrow> 'w \<Rightarrow> ('p option \<times> 'w) option" and put :: "'p \<Rightarrow> 'w \<Rightarrow> (int \<times> 'w) option"
    and inv :: "'w \<Rightarrow> bool" and valid :: "'k \<Rightarrow> bool" and refs :: "'w \<Rightarrow> 'k \<Rightarrow> int" and live :: "'w \<Rightarrow> 'k \<Rightarrow> bool"
    and owner :: "'w \<Rightarrow> 'p \<Rightarrow> 'k option"
  assumes get_ref: "inv w \<Longrightarrow> valid k \<Longrightarrow> live w k \<Longrightarrow>
      \<exists>p w'. get k w = Some (Some p, w') \<and> inv w' \<and> owner w' p = Some k \<and> refs w' = (refs w)(k := refs w k + 1) \<and> live w' k"
    and put_ref: "inv w \<Longrightarrow> owner w p = Some k \<Longrightarrow> valid k \<Longrightarrow> live w k \<Longrightarrow>
      \<exists>w'. put p w = Some (0, w') \<and> inv w' \<and> refs w' = (refs w)(k := refs w k - 1)"
begin

lemma get_put:
  assumes "inv w" "valid k" "live w k"
  shows "\<exists>p w' w''. get k w = Some (Some p, w') \<and> put p w' = Some (0, w'') \<and> inv w'' \<and> refs w'' = refs w"
proof -
  obtain p w' where g: "get k w = Some (Some p, w')" "inv w'" "owner w' p = Some k" "refs w' = (refs w)(k := refs w k + 1)" "live w' k"
    using get_ref [OF assms] by blast
  obtain w'' where "put p w' = Some (0, w'')" "inv w''" "refs w'' = (refs w')(k := refs w' k - 1)"
    using put_ref [OF g(2,3) assms(2) g(5)] by blast
  then show ?thesis using g by auto
qed

end

definition vrefs :: "world \<Rightarrow> int \<Rightarrow> int" where
  "vrefs w ino = (case vmap w ino of Some (n, _) \<Rightarrow> n | None \<Rightarrow> 0)"

definition vlive :: "world \<Rightarrow> int \<Rightarrow> bool" where
  "vlive w ino \<longleftrightarrow> 1 \<le> i_nlink (case vmap w ino of Some (_, ip) \<Rightarrow> ip | None \<Rightarrow> disk_inode w ino)"

interpretation vt: ref_table vnode_get "\<lambda>p. vnode_put p False" world_ok "\<lambda>ino. 0 < ino" vrefs vlive
  "\<lambda>w p. map_option v_ino (w_vnodes w p)"
proof
  fix w k assume a: "world_ok w" "0 < k" "vlive w k"
  obtain p w' where g: "vnode_get k w = Some (Some p, w')" "world_ok w'" "map_option v_ino (w_vnodes w' p) = Some k"
    "vmap w' = (case vmap w k of Some (n, ip) \<Rightarrow> (vmap w)(k \<mapsto> (n + 1, ip)) | None \<Rightarrow> (vmap w)(k \<mapsto> (1, disk_inode w k)))"
    using vnode_get_cases [OF a(1,2)] by blast
  have "vrefs w' = (vrefs w)(k := vrefs w k + 1)" using g(4) by (auto simp: vrefs_def fun_eq_iff split: option.splits)
  moreover have "vlive w' k" using g(4) a(3) by (auto simp: vlive_def split: option.splits)
  ultimately show "\<exists>p w'. vnode_get k w = Some (Some p, w') \<and> world_ok w' \<and> map_option v_ino (w_vnodes w' p) = Some k \<and>
    vrefs w' = (vrefs w)(k := vrefs w k + 1) \<and> vlive w' k" using g by blast
next
  fix w p k assume a: "world_ok w" "map_option v_ino (w_vnodes w p) = Some k" "0 < k" "vlive w k"
  then obtain v T where v: "w_vnodes w p = Some v" "v_ino v = k" "table w T" by (auto simp: world_ok_def vtab_ok_def)
  note m = vmap_eq(1) [OF v(3,1,2)]
  have ln: "1 \<le> i_nlink (v_inode v)" using a(4) m by (simp add: vlive_def)
  obtain w' where w': "vnode_put p False w = Some (0, w')" "world_ok w'"
    "vmap w' = (if v_count v = 1 then (vmap w)(k := None) else (vmap w)(k \<mapsto> (v_count v - 1, v_inode v)))"
    using vnode_put_cases [OF a(1) v(1) _ ln, of False] a(3) v(2) by auto
  have "vrefs w' = (vrefs w)(k := vrefs w k - 1)" using w'(3) m by (auto simp: vrefs_def fun_eq_iff)
  then show "\<exists>w'. vnode_put p False w = Some (0, w') \<and> world_ok w' \<and> vrefs w' = (vrefs w)(k := vrefs w k - 1)" using w' by blast
qed

text \<open>C11. For an inode that has links (\<open>vlive\<close>), a reference taken with \<open>vnode_get\<close> and released with a
  clean \<open>vnode_put\<close> leaves the reference counts of all inodes as they were.\<close>

theorem vnode_get_put_balanced:
  assumes "world_ok w" "0 < ino" "vlive w ino"
  shows "\<exists>p w' w''. vnode_get ino w = Some (Some p, w') \<and> vnode_put p False w' = Some (0, w'') \<and> world_ok w'' \<and> vrefs w'' = vrefs w"
  by (rule vt.get_put [OF assms])

text \<open>A world with one vnode, of inode 5, referenced twice.\<close>

definition vnode_ex :: ufs_vnode where
  "vnode_ex = \<lparr>v_inode = inode_ex, v_ino = 5, v_count = 2, v_pprevhash = Head 5, v_nexthash = None\<rparr>"

definition world_ex :: world where
  "world_ex = \<lparr>w_ufs = disk_ex, w_ufsp = 0, ht_head = (\<lambda>k. if k = 5 then Some 1 else None), w_vnodes = (\<lambda>p. if p = 1 then Some vnode_ex else None),
     w_files = (\<lambda>_. None), w_brk = 2, w_uid = 1000, w_gid = 1000\<rparr>"

lemma world_ok_ex: "world_ok world_ex" "w_vnodes world_ex 1 = Some vnode_ex" "vmap world_ex 5 = Some (2, inode_ex)"
proof -
  have k: "vnode_hash_key 0 5 = 5" by code_simp
  have "table world_ex (\<lambda>k. if k = 5 then [1] else [])"
    by (auto simp: table_def world_ex_def vnode_ex_def k split: if_splits)
  then show "world_ok world_ex" "vmap world_ex 5 = Some (2, inode_ex)"
    using ino_geom_ex vmap_eq(1) [of world_ex _ 1 vnode_ex 5] by (auto simp: world_ok_def vtab_ok_def world_ex_def vnode_ex_def)
  show "w_vnodes world_ex 1 = Some vnode_ex" by (simp add: world_ex_def)
qed

theorem vnode_get_refines_witness:
  "\<exists>p w'. vnode_get 5 world_ex = Some (Some p, w') \<and> world_ok w' \<and> vmap w' = (vmap world_ex)(5 \<mapsto> (3, inode_ex))"
  using vnode_get_refines [OF world_ok_ex(1), of 5] world_ok_ex(3) by auto

theorem vnode_put_refines_witness:
  "\<exists>w'. vnode_put 1 True world_ex = Some (0, w') \<and> world_ok w' \<and> i_size (disk_inode w' 5) = 5000 \<and>
     i_gid (disk_inode w' 5) = 1000 \<and> di_db (i_din2 (disk_inode w' 5)) 0 = 48 \<and> i_blocks (disk_inode w' 5) = 10"
proof -
  have v: "0 < v_ino vnode_ex" "1 \<le> i_nlink (v_inode vnode_ex)" "inode_ok (v_inode vnode_ex)" "v_ino vnode_ex = 5" "v_inode vnode_ex = inode_ex"
    using inode_ok_ex by (simp_all add: vnode_ex_def inode_ex_def)
  obtain w' where w: "vnode_put 1 True world_ex = Some (0, w')" "world_ok w'" "stored_as (d_fs disk_ex) inode_ex (disk_inode w' 5)"
    using vnode_put_refines [OF world_ok_ex(1,2) v(1-3), of True] v(4,5) by (auto simp: world_ex_def)
  have "di_db (i_din2 inode_ex) 0 = 48" "sectors_of fs_one (i_mode inode_ex) (i_size inode_ex) = 10" by code_simp+
  then show ?thesis using w by (auto simp: stored_as_def inode_ex_def)
qed

theorem vnode_get_put_balanced_witness:
  "\<exists>p w' w''. vnode_get 5 world_ex = Some (Some p, w') \<and> vnode_put p False w' = Some (0, w'') \<and> vrefs w'' = vrefs world_ex"
proof -
  have "vlive world_ex 5" using world_ok_ex(3) by (simp add: vlive_def inode_ex_def)
  then show ?thesis using vnode_get_put_balanced [OF world_ok_ex(1), of 5] by auto
qed

end
