(* ===== verification/Ufs_Dir_Scan.thy ===== *)
theory Ufs_Dir_Scan
  imports Ufs_Dir Ufs_Vnode_Table
begin

section \<open>Directories as lists of entries: lookup, emptiness, paths\<close>

text \<open>
  A directory block as a chain of entries (\<open>lays\<close>), a directory as a list of such chains
  (\<open>dir_holds\<close>, \<open>dir_view\<close>). The locale \<open>dir_scan\<close> is the contract of a callback of
  \<open>ufs_dir_iterate\<close> that only reads: from it follows what the whole iteration computes, over all
  blocks and with the vnode taken and released around it. It is interpreted on \<open>lookup_proc\<close> and
  \<open>rmdir_proc\<close>. On top of lookup, path resolution is related to a walk through abstract
  directories.
\<close>

subsection \<open>Entries and chains of entries\<close>

text \<open>A directory entry as a value; the type and the name matter only for an entry in use.\<close>

record dent =
  e_ino :: int
  e_len :: int
  e_type :: int
  e_name :: string

lemma rec_len_bounds:
  assumes "0 \<le> n"
  shows "n + 9 \<le> UFS_DIR_REC_LEN n" "UFS_DIR_REC_LEN n \<le> n + 12" "UFS_DIR_REC_LEN n mod 4 = 0"
proof -
  have eq: "x AND - 4 = x - x mod 4" for x :: int
    using and_neg_exp [of x 2] by (simp add: minus_mod_eq_div_mult)
  have m: "UFS_DIR_REC_LEN n = n + 12 - (n + 12) mod 4" by (simp add: UFS_DIR_REC_LEN_def eq algebra_simps)
  have b: "0 \<le> (n + 12) mod 4" "(n + 12) mod 4 < 4" by simp_all
  show "n + 9 \<le> UFS_DIR_REC_LEN n" "UFS_DIR_REC_LEN n \<le> n + 12" unfolding m using b by linarith+
  show "UFS_DIR_REC_LEN n mod 4 = 0" unfolding m by (simp add: minus_mod_eq_mult_div)
qed

definition ent_at :: "mem \<Rightarrow> int \<Rightarrow> dent \<Rightarrow> bool" where
  "ent_at m a e \<longleftrightarrow> d_ino m a = e_ino e \<and> d_reclen m a = e_len e \<and>
     (e_ino e \<noteq> 0 \<longrightarrow> d_type m a = e_type e \<and> d_namlen m a = int (length (e_name e)) \<and> same_chars (e_name e) m (a + 8))"

text \<open>An entry lies inside its block of 512 bytes, and its name inside the entry.\<close>

definition ent_fits :: "int \<Rightarrow> dent \<Rightarrow> bool" where
  "ent_fits a e \<longleftrightarrow> 8 \<le> e_len e \<and> e_len e mod 4 = 0 \<and> a mod DIRBLKSIZ + e_len e \<le> DIRBLKSIZ \<and>
     (e_ino e \<noteq> 0 \<longrightarrow> e_name e \<noteq> [] \<and> UFS_DIR_REC_LEN (int (length (e_name e))) \<le> e_len e)"

text \<open>The entries \<open>es\<close> fill the buffer from \<open>a\<close> to \<open>z\<close>.\<close>

fun lays :: "mem \<Rightarrow> int \<Rightarrow> dent list \<Rightarrow> int \<Rightarrow> bool" where
  "lays m a [] z \<longleftrightarrow> a = z"
| "lays m a (e # es) z \<longleftrightarrow> ent_at m a e \<and> ent_fits a e \<and> lays m (a + e_len e) es z"

fun span :: "dent list \<Rightarrow> int" where
  "span [] = 0"
| "span (e # es) = e_len e + span es"

lemma lays_append: "lays m a (xs @ ys) z \<longleftrightarrow> lays m a xs (a + span xs) \<and> lays m (a + span xs) ys z"
  by (induction xs arbitrary: a) (auto simp: add.assoc)

lemma span_append [simp]: "span (xs @ ys) = span xs + span ys"
  by (induction xs) auto

lemma lays_span: "lays m a es z \<Longrightarrow> z = a + span es"
  by (induction es arbitrary: a) fastforce+

lemma lays_le: "lays m a es z \<Longrightarrow> a \<le> z"
  by (induction es arbitrary: a) (force simp: ent_fits_def)+

lemma ent_fits_len: "ent_fits a e \<Longrightarrow> 8 \<le> e_len e"
  by (simp add: ent_fits_def)

lemma same_chars_cong:
  "(\<And>i. a \<le> i \<Longrightarrow> i < a + int (length cs) \<Longrightarrow> m i = m' i) \<Longrightarrow> same_chars cs m a = same_chars cs m' a"
  by (induction cs arbitrary: a) auto

lemma ent_at_cong:
  assumes "ent_fits a e" and "\<And>i. a \<le> i \<Longrightarrow> i < a + e_len e \<Longrightarrow> m i = m' i"
  shows "ent_at m a e = ent_at m' a e"
proof -
  have l: "8 \<le> e_len e" using ent_fits_len [OF assms(1)] .
  have "d_ino m a = d_ino m' a" "d_reclen m a = d_reclen m' a" "d_type m a = d_type m' a" "d_namlen m a = d_namlen m' a"
    unfolding dirent_defs by (rule ld_cong, use assms(2) l in simp)+
  moreover have "same_chars (e_name e) m (a + 8) = same_chars (e_name e) m' (a + 8)" if "e_ino e \<noteq> 0"
  proof (rule same_chars_cong, rule assms(2))
    fix i assume "a + 8 \<le> i" "i < a + 8 + int (length (e_name e))"
    then show "a \<le> i" "i < a + e_len e"
      using assms(1) that rec_len_bounds(1) [of "int (length (e_name e))"] by (simp_all add: ent_fits_def)
  qed
  ultimately show ?thesis by (auto simp: ent_at_def)
qed

lemma lays_cong:
  assumes "\<And>i. a \<le> i \<Longrightarrow> i < z \<Longrightarrow> m i = m' i" and "lays m a es z"
  shows "lays m' a es z"
  using assms
proof (induction es arbitrary: a)
  case (Cons e es)
  have l: "a + e_len e \<le> z" "8 \<le> e_len e" using Cons.prems(2) lays_le ent_fits_len by auto
  have "ent_at m' a e" using Cons.prems ent_at_cong [of a e m m'] l by auto
  moreover have "lays m' (a + e_len e) es z" by (rule Cons.IH) (use Cons.prems l in auto)
  ultimately show ?case using Cons.prems by simp
qed simp

text \<open>Names are determined by their bytes.\<close>

lemma of_char_byte_inj: "(of_char c :: byte) = of_char d \<longleftrightarrow> c = d"
proof
  assume a: "(of_char c :: byte) = of_char d"
  have "unat (of_char x :: byte) = of_char x" for x
  proof -
    have "(of_char x :: byte) = of_nat (of_char x)" by (cases x) (simp add: of_char_def)
    then show ?thesis using nat_of_char_less_256 [of x] by (simp only: unat_of_nat) simp
  qed
  then show "c = d" using a by (metis of_char_eq_iff)
qed simp

lemma same_chars_unique: "same_chars xs m a \<Longrightarrow> length xs = length ys \<Longrightarrow> same_chars ys m a \<longleftrightarrow> xs = ys"
proof (induction xs arbitrary: ys a)
  case (Cons c cs)
  then obtain d ds where ys: "ys = d # ds" by (cases ys) auto
  have "same_chars ds m (a + 1) \<longleftrightarrow> cs = ds" using Cons ys by simp
  then show ?case using Cons.prems ys of_char_byte_inj [of c d] by auto
qed simp

lemma put_chars_at: "put_chars m a cs i = (if a \<le> i \<and> i < a + int (length cs) then of_char (cs ! nat (i - a)) else m i)"
proof (induction cs arbitrary: m a)
  case (Cons c cs)
  show ?case
  proof (cases "a + 1 \<le> i")
    case True
    then have "nat (i - a) = Suc (nat (i - (a + 1)))" by simp
    then show ?thesis using True by (simp add: Cons.IH)
  qed (auto simp: Cons.IH)
qed auto

lemma same_chars_put: "same_chars cs (put_chars m a cs) a"
proof -
  have "same_chars cs' m' b" if "\<forall>k < length cs'. m' (b + int k) = of_char (cs' ! k)" for cs' :: string and m' b
    using that
  proof (induction cs' arbitrary: b)
    case (Cons c cs')
    have "m' (b + 1 + int k) = of_char (cs' ! k)" if "k < length cs'" for k
      using Cons.prems [rule_format, of "Suc k"] that by (simp add: add.assoc)
    then show ?case using Cons.IH [of "b + 1"] Cons.prems [rule_format, of 0] by simp
  qed simp
  then show ?thesis by (simp add: put_chars_at)
qed

subsection \<open>Scans that only read\<close>

text \<open>What a scan computes: the private data after the entries, up to the one where it stops.\<close>

fun visit :: "('p \<Rightarrow> dent \<Rightarrow> bool \<times> 'p) \<Rightarrow> 'p \<Rightarrow> dent list \<Rightarrow> bool \<times> 'p" where
  "visit g p [] = (False, p)"
| "visit g p (e # es) = (if fst (g p e) then (True, snd (g p e)) else visit g (snd (g p e)) es)"

lemma visit_append:
  "visit g p (xs @ ys) = (if fst (visit g p xs) then visit g p xs else visit g (snd (visit g p xs)) ys)"
  by (induction xs arbitrary: p) auto

definition blk_base :: "uufsd \<Rightarrow> int \<Rightarrow> int" where
  "blk_base s blk = fsbtodb (d_fs s) blk * d_bsize s"

lemma bmap_direct:
  assumes "0 \<le> i" "i < NDADDR"
  shows "ufs_bmap ip (u32 i) p s = (if \<not> env_mem s then Some (ENOMEM, p)
    else if di_db (i_din2 ip) i = 1852140901 then None else Some (0, di_db (i_din2 ip) i))"
  using assms by (simp add: ufs_bmap_def bmap_ptr_def Let_def u_id)

text \<open>
  The blocks of a directory from block \<open>i\<close> at byte \<open>pos\<close> on hold the entries \<open>ess\<close>, one list per
  file system block.
\<close>

fun dir_holds :: "uufsd \<Rightarrow> inode \<Rightarrow> int \<Rightarrow> int \<Rightarrow> dent list list \<Rightarrow> bool" where
  "dir_holds s ip i pos [] \<longleftrightarrow> howmany (i_size ip) (fs_bsize (d_fs s)) \<le> i"
| "dir_holds s ip i pos (es # ess) \<longleftrightarrow> i < howmany (i_size ip) (fs_bsize (d_fs s)) \<and>
     (\<exists>blk. ufs_bmap ip (u32 i) 0 s = Some (0, blk) \<and> 0 \<le> fsbtodb (d_fs s) blk \<and>
        0 < ufs_inode_io_size (d_fs s) ip pos False \<and> min (ufs_inode_io_size (d_fs s) ip pos False) (i_size ip - pos) mod DIRBLKSIZ = 0 \<and>
        lays (\<lambda>x. dev_data s (blk_base s blk + x)) 0 es (min (ufs_inode_io_size (d_fs s) ip pos False) (i_size ip - pos))) \<and>
     dir_holds s ip (i + 1) (pos + ufs_inode_io_size (d_fs s) ip pos False) ess"

text \<open>The part of the handle that reading inodes does not change.\<close>

definition same_disk :: "uufsd \<Rightarrow> uufsd \<Rightarrow> bool" where
  "same_disk s s' \<longleftrightarrow> (\<exists>a b c. s' = s\<lparr>d_inoblock := a, d_inomin := b, d_inomax := c\<rparr>)"

lemma same_disk_refl [simp]: "same_disk s s"
  unfolding same_disk_def by (rule exI [of _ "d_inoblock s"], rule exI [of _ "d_inomin s"], rule exI [of _ "d_inomax s"]) simp

lemma same_diskD:
  assumes "same_disk s s'"
  shows "dev_data s' = dev_data s" "d_fs s' = d_fs s" "d_bsize s' = d_bsize s" "env_mem s' = env_mem s" "env_junk s' = env_junk s"
    "io_ok s' = io_ok s" "blkread b m n s' = blkread b m n s" "ufs_bmap ip k p s' = ufs_bmap ip k p s" "blk_base s' = blk_base s"
proof -
  obtain x y z where s': "s' = s\<lparr>d_inoblock := x, d_inomin := y, d_inomax := z\<rparr>" using assms by (auto simp: same_disk_def)
  show f: "dev_data s' = dev_data s" "d_fs s' = d_fs s" "d_bsize s' = d_bsize s" "env_mem s' = env_mem s" "env_junk s' = env_junk s" "io_ok s' = io_ok s"
    by (simp_all add: s')
  have g: "d_fd s' = d_fd s" "dev_pread s' = dev_pread s" by (simp_all add: s')
  have r: "blkread b m n s' = blkread b m n s" for b m n unfolding blkread_def bread_def f g ..
  have rp: "read_ptr x y z s' = read_ptr x y z s" for x y z unfolding read_ptr_def f r ..
  show "ufs_bmap ip k p s' = ufs_bmap ip k p s" unfolding ufs_bmap_def bmap_ptr_def f rp ..
  show "blkread b m n s' = blkread b m n s" by (rule r)
  show "blk_base s' = blk_base s" by (simp add: blk_base_def f fun_eq_iff)
qed

lemma same_disk_trans: "same_disk a b \<Longrightarrow> same_disk b c \<Longrightarrow> same_disk a c"
  unfolding same_disk_def by (elim exE) (simp, blast)

lemma dir_holds_same: "same_disk s s' \<Longrightarrow> dir_holds s' ip i pos ess = dir_holds s ip i pos ess"
  by (induction ess arbitrary: i pos) (simp_all add: same_diskD)

locale dir_scan =
  fixes func :: "'p dirfunc" and g :: "'p \<Rightarrow> dent \<Rightarrow> bool \<times> 'p" and ok :: "'p \<Rightarrow> bool"
  assumes keep: "ok p \<Longrightarrow> ok (snd (g p e))"
    and scan: "ok p \<Longrightarrow> ent_at m a e \<Longrightarrow> ent_fits a e \<Longrightarrow>
      func p m a off = Some (if fst (g p e) then DIRENT_ABORT else 0, m, snd (g p e))"
begin

lemma visit_ok: "ok p \<Longrightarrow> ok (snd (visit g p es))"
  by (induction es arbitrary: p) (auto simp: keep)

lemma block_scan:
  assumes "lays m off es z" "z = min blksize (dir_size - pos)" "ok p"
  shows "dir_block func blkno blksize dir_size pos off ret m p s =
    Some (if fst (visit g p es) then Inl 0 else Inr (if es = [] then ret else 0), m, snd (visit g p es), s)"
  using assms(1,3)
proof (induction es arbitrary: off ret p)
  case Nil
  then show ?case using assms(2) by (subst dir_block.simps) auto
next
  case (Cons e es)
  have e: "ent_at m off e" "ent_fits off e" "lays m (off + e_len e) es z" using Cons.prems by simp_all
  have l: "d_reclen m off = e_len e" "8 \<le> e_len e" "off < z" using e lays_le [OF e(3)] ent_fits_len [OF e(2)] by (simp_all add: ent_at_def)
  have c: "off < blksize \<and> pos + off < dir_size" using l(3) assms(2) by linarith
  show ?case
    by (subst dir_block.simps) (use c l(1) scan [OF Cons.prems(2) e(1,2)] Cons.IH [OF e(3) keep [OF Cons.prems(2)]] in \<open>simp add: Let_def\<close>)
qed

lemma blocks_scan:
  assumes "io_ok s" "dir_holds s ip i pos ess" "ok p"
  shows "\<exists>r. dir_blocks func ip (i_size ip) (howmany (i_size ip) (fs_bsize (d_fs s))) i pos ret buf p s =
      Some (r, snd (visit g p (concat ess)), s) \<and> (ret = 0 \<longrightarrow> r = 0)"
  using assms(2,3)
proof (induction ess arbitrary: i pos ret buf p)
  case Nil
  then show ?case by (subst dir_blocks.simps) simp
next
  case (Cons es ess)
  define sz where "sz = ufs_inode_io_size (d_fs s) ip pos False"
  obtain blk where b: "ufs_bmap ip (u32 i) 0 s = Some (0, blk)" "0 \<le> fsbtodb (d_fs s) blk" "0 < sz"
    "lays (\<lambda>x. dev_data s (blk_base s blk + x)) 0 es (min sz (i_size ip - pos))"
    using Cons.prems by (auto simp: sz_def)
  have n: "dir_holds s ip (i + 1) (pos + sz) ess" "i < howmany (i_size ip) (fs_bsize (d_fs s))" using Cons.prems by (simp_all add: sz_def)
  define m where "m = memcpy buf 0 (dev_data s) (fsbtodb (d_fs s) blk * d_bsize s) sz"
  have "lays m 0 es (min sz (i_size ip - pos))"
    by (rule lays_cong [OF _ b(4)]) (simp add: m_def memcpy_def blk_base_def)
  note bl = block_scan [OF this refl Cons.prems(2), of blk 0 s]
  obtain r where r: "dir_blocks func ip (i_size ip) (howmany (i_size ip) (fs_bsize (d_fs s))) (i + 1) (pos + sz) 0 m (snd (visit g p es)) s =
      Some (r, snd (visit g (snd (visit g p es)) (concat ess)), s)" "r = 0"
    using Cons.IH [OF n(1) visit_ok [OF Cons.prems(2)], of 0] by blast
  show ?case
    by (subst dir_blocks.simps)
      (use n(2) b(1) blkread_ok [OF assms(1) b(2,3)] r bl b(3) in \<open>simp add: Let_def sz_def [symmetric] m_def [symmetric] visit_append if_distrib\<close>)
qed

end

subsection \<open>Taking and releasing a vnode around a scan\<close>

text \<open>What the holder of a pointer sees of the vnode: its number, count and inode.\<close>

definition vview :: "world \<Rightarrow> int \<Rightarrow> (int \<times> int \<times> inode) option" where
  "vview w p = map_option (\<lambda>v. (v_ino v, v_count v, v_inode v)) (w_vnodes w p)"

definition same_world :: "world \<Rightarrow> world \<Rightarrow> bool" where
  "same_world w w' \<longleftrightarrow> same_disk (w_ufs w) (w_ufs w') \<and> vview w' = vview w \<and> w_files w' = w_files w \<and>
     w_uid w' = w_uid w \<and> w_gid w' = w_gid w"

lemma vview_Some: "vview w p = Some (n, c, ip) \<longleftrightarrow> (\<exists>v. w_vnodes w p = Some v \<and> v_ino v = n \<and> v_count v = c \<and> v_inode v = ip)"
  by (auto simp: vview_def)

lemma vview_eq:
  assumes "world_ok w" "vview w p = Some (n, c, ip)"
  shows "vmap w n = Some (c, ip)"
  using assms vmap_eq(1) by (auto simp: world_ok_def vtab_ok_def vview_Some)

lemma vmap_vview:
  assumes "world_ok w" "world_ok w'" "vview w' = vview w"
  shows "vmap w' = vmap w"
proof
  obtain T T' where t: "table w T" "table w' T'" using assms(1,2) by (auto simp: world_ok_def vtab_ok_def)
  fix n
  have "vmap w n = Some x \<longleftrightarrow> (\<exists>p. vview w p = Some (n, x))" for x
    using vmap_eq(3) [OF t(1), of n] vview_eq [OF assms(1), of _ n] by (cases x) (fastforce simp: vview_Some)
  moreover have "vmap w' n = Some x \<longleftrightarrow> (\<exists>p. vview w' p = Some (n, x))" for x
    using vmap_eq(3) [OF t(2), of n] vview_eq [OF assms(2), of _ n] by (cases x) (fastforce simp: vview_Some)
  ultimately show "vmap w' n = vmap w n" using assms(3) by (metis option.exhaust)
qed

lemma getino_same_disk: "getino ino s = (r, off, s') \<Longrightarrow> same_disk s s'"
proof -
  assume g: "getino ino s = (r, off, s')"
  have 1: "same_disk s (s\<lparr>d_inoblock := x\<rparr>)" for x
    unfolding same_disk_def by (rule exI [of _ x], rule exI [of _ "d_inomin s"], rule exI [of _ "d_inomax s"]) simp
  have 2: "same_disk s (s\<lparr>d_inoblock := x, d_inomin := y, d_inomax := z\<rparr>)" for x y z
    unfolding same_disk_def by blast
  show ?thesis using g 1 2 by (auto simp: getino_def Let_def split: option.splits if_splits prod.splits)
qed

lemma insert_view:
  assumes "vnode_insert key p new w = Some w'"
  shows "vview w' = (vview w)(p \<mapsto> (v_ino new, v_count new, v_inode new))" "w_ufs w' = w_ufs w" "w_files w' = w_files w"
    "w_uid w' = w_uid w" "w_gid w' = w_gid w"
  using assms by (auto simp: vnode_insert_def set_vnode_def get_vnode_def vview_def fun_eq_iff split: option.splits)

lemma vnode_get_view:
  assumes wo: "world_ok w" and g: "vnode_get ino w = Some (Some p, w')"
  shows "\<exists>c ip. vview w' = (vview w)(p \<mapsto> (ino, c, ip)) \<and> vview w p = (if c = 1 then None else Some (ino, c - 1, ip))"
    and "same_disk (w_ufs w) (w_ufs w')" "w_files w' = w_files w" "w_uid w' = w_uid w" "w_gid w' = w_gid w"
proof -
  obtain T where t: "table w T" using wo by (auto simp: world_ok_def vtab_ok_def)
  define key where "key = vnode_hash_key (w_ufsp w) ino"
  let ?goal = "(\<exists>c ip. vview w' = (vview w)(p \<mapsto> (ino, c, ip)) \<and> vview w p = (if c = 1 then None else Some (ino, c - 1, ip))) \<and>
    same_disk (w_ufs w) (w_ufs w') \<and> w_files w' = w_files w \<and> w_uid w' = w_uid w \<and> w_gid w' = w_gid w"
  from find_vnode [OF t, of ino, folded key_def] have ?goal
  proof (elim disjE exE conjE)
    fix q v assume q: "w_vnodes w q = Some v" "v_ino v = ino" and f: "vnode_find (w_vnodes w) ino (ht_head w key) = Some (Some q)"
    have e: "p = q" "w' = set_vnode q (v\<lparr>v_count := v_count v + 1\<rparr>) w"
      using g f q by (auto simp: vnode_get_def Let_def key_def [symmetric] get_vnode_def)
    have "vview w' = (vview w)(p \<mapsto> (ino, v_count v + 1, v_inode v))" "vview w p = Some (ino, v_count v, v_inode v)"
      using e q by (simp_all add: vview_def set_vnode_def fun_eq_iff)
    moreover have "v_count v + 1 \<noteq> 1" using tableD(5) [OF t q(1)] by simp
    ultimately show ?goal using e by (intro conjI exI [of _ "v_count v + 1"] exI [of _ "v_inode v"]) (simp_all add: set_vnode_def)
  next
    assume f: "vnode_find (w_vnodes w) ino (ht_head w key) = Some None"
    obtain rc off s where gi: "(if ino \<noteq> 0 then getino ino (w_ufs w) else (0, 0, w_ufs w)) = (rc, off, s)" by (metis prod.exhaust)
    have sd: "same_disk (w_ufs w) s" using gi getino_same_disk [of ino "w_ufs w"] by (auto split: if_splits)
    obtain new where n: "p = w_brk w" "vnode_insert key p new (w\<lparr>w_brk := w_brk w + 1, w_ufs := s\<rparr>) = Some w'" "v_ino new = ino" "v_count new = 1"
      using g f gi by (auto simp: vnode_get_def Let_def key_def [symmetric] split: if_splits bind_splits)
    have "vview w p = None" using tableD(6) [OF t, of p] n(1) by (cases "w_vnodes w p") (auto simp: vview_def)
    moreover have "vview (w\<lparr>w_brk := w_brk w + 1, w_ufs := s\<rparr>) = vview w" by (simp add: vview_def fun_eq_iff)
    ultimately show ?goal using insert_view [OF n(2)] n(3,4) sd by auto
  qed
  then show "\<exists>c ip. vview w' = (vview w)(p \<mapsto> (ino, c, ip)) \<and> vview w p = (if c = 1 then None else Some (ino, c - 1, ip))"
    "same_disk (w_ufs w) (w_ufs w')" "w_files w' = w_files w" "w_uid w' = w_uid w" "w_gid w' = w_gid w" by blast+
qed

lemma remove_view:
  assumes "vnode_remove p w = Some w'"
  shows "vview w' = (vview w)(p := None)" "w_ufs w' = w_ufs w" "w_files w' = w_files w" "w_uid w' = w_uid w" "w_gid w' = w_gid w"
  using assms by (auto simp: vnode_remove_def set_link_def set_vnode_def get_vnode_def vview_def fun_eq_iff
      split: option.splits vlink.splits bind_splits)

lemma vnode_put_view:
  assumes "vnode_put p False w = Some (r, w')" "vview w p = Some (ino, c, ip)" "1 \<le> i_nlink ip"
  shows "vview w' = (vview w)(p := if c \<le> 1 then None else Some (ino, c - 1, ip))" "w_ufs w' = w_ufs w" "w_files w' = w_files w"
    "w_uid w' = w_uid w" "w_gid w' = w_gid w"
proof -
  obtain v where v: "w_vnodes w p = Some v" "v_ino v = ino" "v_count v = c" "v_inode v = ip" using assms(2) by (auto simp: vview_Some)
  have sv: "vview (set_vnode p x w) = (vview w)(p \<mapsto> (v_ino x, v_count x, v_inode x))" for x by (auto simp: vview_def set_vnode_def fun_eq_iff)
  have "vview w' = (vview w)(p := if c \<le> 1 then None else Some (ino, c - 1, ip)) \<and> w_ufs w' = w_ufs w \<and> w_files w' = w_files w \<and>
    w_uid w' = w_uid w \<and> w_gid w' = w_gid w"
  proof (cases "c \<le> 1")
    case True
    obtain x where x: "vnode_remove p (set_vnode p x w) = Some w'"
      using assms(1,3) v True by (auto simp: vnode_put_def get_vnode_def Let_def set_vnode_def split: bind_splits)
    show ?thesis using remove_view [OF x] True sv by (auto simp: set_vnode_def)
  next
    case False
    then show ?thesis using assms(1) v sv by (auto simp: vnode_put_def get_vnode_def Let_def set_vnode_def vview_def fun_eq_iff split: if_splits)
  qed
  then show "vview w' = (vview w)(p := if c \<le> 1 then None else Some (ino, c - 1, ip))" "w_ufs w' = w_ufs w" "w_files w' = w_files w"
    "w_uid w' = w_uid w" "w_gid w' = w_gid w" by blast+
qed

text \<open>The in-core inode of a number, and the directory \<open>ino\<close> with the entries of its blocks.\<close>

definition inode_of :: "world \<Rightarrow> int \<Rightarrow> inode" where
  "inode_of w ino = (case vmap w ino of Some (_, ip) \<Rightarrow> ip | None \<Rightarrow> disk_inode w ino)"

definition dir_view :: "world \<Rightarrow> int \<Rightarrow> dent list list \<Rightarrow> bool" where
  "dir_view w ino ess \<longleftrightarrow> 0 < ino \<and> 1 \<le> i_nlink (inode_of w ino) \<and> dir_holds (w_ufs w) (inode_of w ino) 0 0 ess"

lemma same_worldD:
  assumes "world_ok w" "world_ok w'" "same_world w w'"
  shows "vmap w' = vmap w" "inode_of w' ino = inode_of w ino" "dir_view w' ino ess = dir_view w ino ess"
proof -
  have sd: "same_disk (w_ufs w) (w_ufs w')" "vview w' = vview w" using assms(3) by (auto simp: same_world_def)
  show v: "vmap w' = vmap w" by (rule vmap_vview) (use assms sd in auto)
  have "ino_slot (w_ufs w') ino = ino_slot (w_ufs w) ino"
    by (simp add: ino_slot_def ino_addr_def same_diskD [OF sd(1)])
  then have "disk_inode w' ino = disk_inode w ino" by (simp add: disk_inode_def dinode_at_def same_diskD [OF sd(1)])
  then show i: "inode_of w' ino = inode_of w ino" by (simp add: inode_of_def v split: option.split)
  show "dir_view w' ino ess = dir_view w ino ess" by (simp add: dir_view_def i dir_holds_same [OF sd(1)])
qed

lemma same_world_refl: "same_world w w"
  by (simp add: same_world_def)

lemma same_world_trans: "same_world a b \<Longrightarrow> same_world b c \<Longrightarrow> same_world a c"
  using same_disk_trans by (auto simp: same_world_def)

lemma take_vnode:
  assumes wo: "world_ok w" and ino: "0 < ino"
  shows "\<exists>q w1 c. vnode_get ino w = Some (Some q, w1) \<and> world_ok w1 \<and> vview w1 = (vview w)(q \<mapsto> (ino, c, inode_of w ino)) \<and>
    vview w q = (if c = 1 then None else Some (ino, c - 1, inode_of w ino)) \<and> 0 < c \<and> same_disk (w_ufs w) (w_ufs w1) \<and>
    w_files w1 = w_files w \<and> w_uid w1 = w_uid w \<and> w_gid w1 = w_gid w"
proof -
  define ip where "ip = inode_of w ino"
  obtain q w1 where g: "vnode_get ino w = Some (Some q, w1)" "world_ok w1" "vmap w1 ino = Some (case vmap w ino of Some (n, ip) \<Rightarrow> (n + 1, ip) | None \<Rightarrow> (1, ip))"
    using vnode_get_cases [OF wo ino] by (auto simp: ip_def inode_of_def split: option.splits)
  obtain c x where vv: "vview w1 = (vview w)(q \<mapsto> (ino, c, x))" "vview w q = (if c = 1 then None else Some (ino, c - 1, x))"
    using vnode_get_view(1) [OF wo g(1)] by blast
  have x: "vview w1 q = Some (ino, c, x)" by (simp add: vv)
  have xip: "x = ip" using vview_eq [OF g(2) x] g(3) by (auto simp: ip_def inode_of_def split: option.splits)
  have "0 < c" using x g(2) tableD(5) by (auto simp: world_ok_def vtab_ok_def vview_Some)
  then show ?thesis using g(1,2) vv xip vnode_get_view(2-) [OF wo g(1)] unfolding ip_def by blast
qed

lemma drop_vnode:
  assumes wo: "world_ok w" and q: "vview w q = Some (ino, c, ip)" and ip: "0 < ino" "1 \<le> i_nlink ip"
  shows "\<exists>w'. vnode_put q False w = Some (0, w') \<and> world_ok w' \<and> vview w' = (vview w)(q := if c \<le> 1 then None else Some (ino, c - 1, ip)) \<and>
    w_ufs w' = w_ufs w \<and> w_files w' = w_files w \<and> w_uid w' = w_uid w \<and> w_gid w' = w_gid w"
proof -
  obtain v where v: "w_vnodes w q = Some v" "v_ino v = ino" "v_inode v = ip" using q by (auto simp: vview_Some)
  obtain w' where w': "vnode_put q False w = Some (0, w')" "world_ok w'"
    using vnode_put_cases [OF wo v(1), of False] v ip by auto
  show ?thesis using w' vnode_put_view [OF w'(1) q ip(2)] by blast
qed

context dir_scan
begin

lemma iterate_scan:
  assumes wo: "world_ok w" and d: "dir_view w ino ess" and p: "ok p"
  shows "\<exists>w'. ufs_dir_iterate ino func p w = Some (0, snd (visit g p (concat ess)), w') \<and> world_ok w' \<and> same_world w w'"
proof -
  define ip where "ip = inode_of w ino"
  have h: "0 < ino" "1 \<le> i_nlink ip" "dir_holds (w_ufs w) ip 0 0 ess" using d by (auto simp: dir_view_def ip_def)
  obtain q w1 c where g: "vnode_get ino w = Some (Some q, w1)" "world_ok w1" "vview w1 = (vview w)(q \<mapsto> (ino, c, ip))"
    "vview w q = (if c = 1 then None else Some (ino, c - 1, ip))" "0 < c" "same_disk (w_ufs w) (w_ufs w1)"
    and fr: "w_files w1 = w_files w" "w_uid w1 = w_uid w" "w_gid w1 = w_gid w"
    using take_vnode [OF wo h(1)] unfolding ip_def by blast
  have x: "vview w1 q = Some (ino, c, ip)" by (simp add: g(3))
  have gi: "get_inode q w1 = Some ip" using x by (auto simp: get_inode_def vview_Some)
  have io: "io_ok (w_ufs w1)" "env_mem (w_ufs w1)" using g(2) ino_geomD(2) io_ok_mem by (auto simp: world_ok_def)
  have dh: "dir_holds (w_ufs w1) ip 0 0 ess" using h(3) dir_holds_same [OF g(6)] by simp
  have db: "dir_blocks func ip (i_size ip) (howmany (i_size ip) (fs_bsize (d_fs (w_ufs w1)))) 0 0 0 (env_junk (w_ufs w1)) p (w_ufs w1) =
      Some (0, snd (visit g p (concat ess)), w_ufs w1)"
    using blocks_scan [OF io(1) dh p, of 0] by blast
  obtain w2 where w2: "vnode_put q False w1 = Some (0, w2)" "world_ok w2" "vview w2 = (vview w1)(q := if c \<le> 1 then None else Some (ino, c - 1, ip))"
    "w_ufs w2 = w_ufs w1" "w_files w2 = w_files w1" "w_uid w2 = w_uid w1" "w_gid w2 = w_gid w1"
    using drop_vnode [OF g(2) x h(1,2)] by blast
  have "vview w2 = vview w" using w2(3) g(3-5) by (auto simp: fun_eq_iff)
  then have "same_world w w2" using w2 fr g(6) by (simp add: same_world_def)
  moreover have "ufs_dir_iterate ino func p w = Some (0, snd (visit g p (concat ess)), w2)"
    using g(1) gi io(2) db w2(1) by (simp add: ufs_dir_iterate_def)
  ultimately show ?thesis using w2(2) by blast
qed

end

subsection \<open>Lookup\<close>

definition ent_named :: "string \<Rightarrow> dent \<Rightarrow> bool" where
  "ent_named name e \<longleftrightarrow> e_ino e \<noteq> 0 \<and> e_name e = name"

text \<open>The inode number of the first entry in use of that name.\<close>

definition dir_find :: "string \<Rightarrow> dent list \<Rightarrow> int option" where
  "dir_find name es = map_option e_ino (find (ent_named name) es)"

definition look_step :: "lookup_struct \<Rightarrow> dent \<Rightarrow> bool \<times> lookup_struct" where
  "look_step ls e = (if ent_named (lk_name ls) e then (True, ls\<lparr>lk_inode := e_ino e, lk_found := lk_found ls + 1\<rparr>) else (False, ls))"

text \<open>An entry matches when its length and characters do.\<close>

lemma ent_match:
  assumes "ent_at m a e" "e_ino e \<noteq> 0"
  shows "d_namlen m a AND 255 = int (length (e_name e))"
    "length name = length (e_name e) \<Longrightarrow> same_chars name m (a + 8) \<longleftrightarrow> e_name e = name"
proof -
  have n: "d_namlen m a = int (length (e_name e))" "same_chars (e_name e) m (a + 8)" using assms by (auto simp: ent_at_def)
  have "d_namlen m a AND 255 = d_namlen m a mod 256"
    using take_bit_eq_mask [of 8 "d_namlen m a"] by (simp add: take_bit_eq_mod mask_eq_exp_minus_1)
  also have "\<dots> = d_namlen m a" using ld_bounds(1,2) [of m "a + 7"] by (simp add: d_namlen_def)
  finally show "d_namlen m a AND 255 = int (length (e_name e))" using n(1) by simp
  show "length name = length (e_name e) \<Longrightarrow> same_chars name m (a + 8) \<longleftrightarrow> e_name e = name"
    using same_chars_unique [OF n(2), of name] by simp
qed

lemma ent_at_ino: "ent_at m a e \<Longrightarrow> d_ino m a = e_ino e"
  by (simp add: ent_at_def)

interpretation lk: dir_scan lookup_proc look_step "\<lambda>ls. lk_len ls = int (length (lk_name ls))"
proof
  fix ls :: lookup_struct and m a e off
  assume ls: "lk_len ls = int (length (lk_name ls))" and e: "ent_at m a e" "ent_fits a e"
  show "lookup_proc ls m a off = Some (if fst (look_step ls e) then DIRENT_ABORT else 0, m, snd (look_step ls e))"
    using ls ent_at_ino [OF e(1)] ent_match(1) [OF e(1)] ent_match(2) [OF e(1), of "lk_name ls"]
    by (auto simp: lookup_proc_def look_step_def ent_named_def)
qed (simp add: look_step_def)

lemma look_visit:
  "snd (visit look_step ls es) = (case dir_find (lk_name ls) es of None \<Rightarrow> ls | Some n \<Rightarrow> ls\<lparr>lk_inode := n, lk_found := lk_found ls + 1\<rparr>)"
  by (induction es) (auto simp: dir_find_def look_step_def)

lemma lookup_run:
  assumes "world_ok w" "dir_view w dir ess"
  shows "\<exists>w'. ufs_lookup dir name w = Some (case dir_find name (concat ess) of None \<Rightarrow> (ENOENT, 0, w') | Some n \<Rightarrow> (0, n, w')) \<and>
    world_ok w' \<and> same_world w w'"
proof -
  define ls where "ls = \<lparr>lk_name = name, lk_len = int (length name), lk_inode = 0, lk_found = 0\<rparr>"
  have "lk_len ls = int (length (lk_name ls))" by (simp add: ls_def)
  then obtain w' where w': "ufs_dir_iterate dir lookup_proc ls w = Some (0, snd (visit look_step ls (concat ess)), w')" "world_ok w'" "same_world w w'"
    using lk.iterate_scan [OF assms, of ls] by blast
  then have "ufs_lookup dir name w = Some (case dir_find name (concat ess) of None \<Rightarrow> (ENOENT, 0, w') | Some n \<Rightarrow> (0, n, w'))"
    by (simp add: ufs_lookup_def ls_def look_visit split: option.splits)
  then show ?thesis using w' by blast
qed

subsection \<open>The test for emptiness\<close>

definition dot_entry :: "dent \<Rightarrow> bool" where
  "dot_entry e \<longleftrightarrow> e_ino e = 0 \<or> e_name e = ''.'' \<or> e_name e = ''..''"

lemma dot_byte: "(of_char c :: byte) = 46 \<longleftrightarrow> c = CHR ''.''"
  using of_char_byte_inj [of c "CHR ''.''"] by simp

interpretation rm: dir_scan rmdir_proc "\<lambda>p e. (False, if dot_entry e then p else 0)" "\<lambda>_. True"
proof
  fix p m a e off
  assume e: "ent_at m a e" "ent_fits a e"
  have n: "e_ino e \<noteq> 0 \<Longrightarrow> same_chars (e_name e) m (a + 8)" using e(1) by (simp add: ent_at_def)
  have "e_name e = ''.'' \<longleftrightarrow> length (e_name e) = 1 \<and> m (a + 8) = of_char (CHR ''.'')" if "e_ino e \<noteq> 0"
    using n [OF that] by (cases "e_name e") (auto simp: dot_byte)
  moreover have "e_name e = ''..'' \<longleftrightarrow> length (e_name e) = 2 \<and> m (a + 8) = of_char (CHR ''.'') \<and> m (a + 9) = of_char (CHR ''.'')" if "e_ino e \<noteq> 0"
    using n [OF that] by (cases "e_name e"; cases "tl (e_name e)") (auto simp: dot_byte add.commute)
  ultimately have "rmdir_proc p m a off = Some (0, m, if dot_entry e then p else 0)"
    using ent_at_ino [OF e(1)] ent_match(1) [OF e(1)] by (auto simp: rmdir_proc_def dot_entry_def)
  then show "rmdir_proc p m a off = Some (if fst (False, if dot_entry e then p else 0) then DIRENT_ABORT else 0, m, snd (False, if dot_entry e then p else 0))"
    by simp
qed simp

lemma rm_visit: "snd (visit (\<lambda>p e. (False, if dot_entry e then p else 0)) p es) = (if list_all dot_entry es then p else (0 :: int))"
  by (induction es arbitrary: p) auto

text \<open>C26. \<open>do_check_empty_dir\<close> scans all blocks of the directory and answers 0 exactly when no entry in use
  other than \<open>.\<close> and \<open>..\<close> is left, and \<open>ENOTEMPTY\<close> otherwise; it changes nothing but the inode
  cache.\<close>

theorem check_empty_dir_spec:
  assumes "world_ok w" "dir_view w ino ess"
  shows "\<exists>w'. do_check_empty_dir ino w = Some (if list_all dot_entry (concat ess) then 0 else - ENOTEMPTY, w') \<and>
    world_ok w' \<and> same_world w w'"
proof -
  obtain w' where "ufs_dir_iterate ino rmdir_proc 1 w = Some (0, if list_all dot_entry (concat ess) then 1 else 0, w')" "world_ok w'" "same_world w w'"
    using rm.iterate_scan [OF assms TrueI, of 1] unfolding rm_visit by blast
  then show ?thesis by (simp add: do_check_empty_dir_def)
qed

subsection \<open>Paths\<close>

text \<open>The components of a path, and the walk along them through a map \<open>D\<close> from directories to entries;
  an empty last component is the directory itself.\<close>

fun split_path :: "string \<Rightarrow> string list" where
  "split_path [] = [[]]"
| "split_path (c # cs) = (if c = CHR ''/'' then [] # split_path cs else (c # hd (split_path cs)) # tl (split_path cs))"

fun walk :: "(int \<Rightarrow> dent list) \<Rightarrow> int \<Rightarrow> string list \<Rightarrow> int option" where
  "walk D d [] = Some d"
| "walk D d (n # ns) = (if n = [] \<and> ns = [] then Some d else Option.bind (dir_find n (D d)) (\<lambda>d'. walk D d' ns))"

text \<open>The directories the walk reads.\<close>

fun walked :: "(int \<Rightarrow> dent list) \<Rightarrow> int \<Rightarrow> string list \<Rightarrow> int list" where
  "walked D d [] = []"
| "walked D d (n # ns) = (if n = [] \<and> ns = [] then [] else d # (case dir_find n (D d) of None \<Rightarrow> [] | Some d' \<Rightarrow> walked D d' ns))"

lemma split_path_unfold:
  "split_path p = takeWhile (\<lambda>c. c \<noteq> CHR ''/'') p # (case dropWhile (\<lambda>c. c \<noteq> CHR ''/'') p of [] \<Rightarrow> [] | _ # r \<Rightarrow> split_path r)"
  by (induction p) auto

definition shows_dir :: "world \<Rightarrow> (int \<Rightarrow> dent list) \<Rightarrow> int \<Rightarrow> bool" where
  "shows_dir w D d \<longleftrightarrow> (\<exists>ess. dir_view w d ess \<and> D d = concat ess)"

lemma shows_dir_same: "world_ok w \<Longrightarrow> world_ok w' \<Longrightarrow> same_world w w' \<Longrightarrow> shows_dir w' D d = shows_dir w D d"
  by (simp add: shows_dir_def same_worldD)

lemma lookup_shows:
  assumes "world_ok w" "shows_dir w D d"
  shows "\<exists>w'. ufs_lookup d name w = Some (case dir_find name (D d) of None \<Rightarrow> (ENOENT, 0, w') | Some n \<Rightarrow> (0, n, w')) \<and>
    world_ok w' \<and> same_world w w'"
proof -
  obtain ess where e: "dir_view w d ess" "D d = concat ess" using assms(2) by (auto simp: shows_dir_def)
  show ?thesis using lookup_run [OF assms(1) e(1), of name] unfolding e(2) .
qed

definition open_last :: "(int \<times> string \<times> int \<times> world) \<Rightarrow> (int \<times> int \<times> world) option" where
  "open_last = (\<lambda>(retval, base_name, dir, w).
     if retval \<noteq> 0 then Some (retval, 0, w)
     else if base_name = [] then Some (0, dir, w)
     else do {
       (retval, ino, w) \<leftarrow> ufs_lookup dir base_name w;
       Some (retval, if retval \<noteq> 0 then 0 else ino, w)
     })"

lemma namei_loop_walk:
  assumes "world_ok w" "\<forall>x \<in> set (walked D d (split_path p)). shows_dir w D x"
  shows "\<exists>w'. Option.bind (dir_namei_loop d p w) open_last =
      Some (case walk D d (split_path p) of None \<Rightarrow> (ENOENT, 0, w') | Some n \<Rightarrow> (0, n, w')) \<and> world_ok w' \<and> same_world w w'"
  using assms
proof (induction p arbitrary: d w rule: length_induct)
  case (1 p)
  define n where "n = takeWhile (\<lambda>c. c \<noteq> CHR ''/'') p"
  show ?case
  proof (cases "dropWhile (\<lambda>c. c \<noteq> CHR ''/'') p")
    case Nil
    then have sp: "split_path p = [n]" using split_path_unfold [of p] unfolding n_def Nil by simp
    have lp: "dir_namei_loop d p w = Some (0, n, d, w)" unfolding dir_namei_loop.simps [of d p] Nil n_def by simp
    show ?thesis
    proof (cases "n = []")
      case True
      then show ?thesis using lp sp 1(2) same_world_refl by (simp add: open_last_def)
    next
      case False
      then have "shows_dir w D d" using 1(3) sp by simp
      then obtain w' where "ufs_lookup d n w = Some (case dir_find n (D d) of None \<Rightarrow> (ENOENT, 0, w') | Some n \<Rightarrow> (0, n, w'))" "world_ok w'" "same_world w w'"
        using lookup_shows [OF 1(2)] by blast
      then show ?thesis using lp sp False by (auto simp: open_last_def split: option.splits)
    qed
  next
    case (Cons c r)
    then have sp: "split_path p = n # split_path r" using split_path_unfold [of p] by (simp add: n_def)
    have ne: "split_path r \<noteq> []" using split_path_unfold [of r] by simp
    have len: "length r < length p" using length_dropWhile_le [of "\<lambda>c. c \<noteq> CHR ''/''" p] Cons by simp
    have "shows_dir w D d" using 1(3) sp ne by simp
    then obtain w1 where w1: "ufs_lookup d n w = Some (case dir_find n (D d) of None \<Rightarrow> (ENOENT, 0, w1) | Some n \<Rightarrow> (0, n, w1))" "world_ok w1" "same_world w w1"
      using lookup_shows [OF 1(2)] by blast
    have lp: "dir_namei_loop d p w = (case dir_find n (D d) of None \<Rightarrow> Some (ENOENT, [], 0, w1) | Some d' \<Rightarrow> dir_namei_loop d' r w1)"
      using Cons w1(1) by (subst dir_namei_loop.simps) (simp add: n_def [symmetric] split: option.splits)
    show ?thesis
    proof (cases "dir_find n (D d)")
      case None
      then show ?thesis using lp sp ne w1 by (auto simp: open_last_def)
    next
      case (Some d')
      have "\<forall>x \<in> set (walked D d' (split_path r)). shows_dir w1 D x"
        using 1(3) sp ne Some shows_dir_same [OF 1(2) w1(2,3)] by auto
      then obtain w' where "Option.bind (dir_namei_loop d' r w1) open_last =
          Some (case walk D d' (split_path r) of None \<Rightarrow> (ENOENT, 0, w') | Some n \<Rightarrow> (0, n, w'))" "world_ok w'" "same_world w1 w'"
        using 1(1) len w1(2) by blast
      then show ?thesis using lp sp ne Some same_world_trans [OF w1(3)] by auto
    qed
  qed
qed

text \<open>Where the walk of a path begins, and its components.\<close>

definition path_start :: "int \<Rightarrow> int \<Rightarrow> string \<Rightarrow> int" where
  "path_start root cur path = (if take 1 path = ''/'' then root else cur)"

definition path_names :: "string \<Rightarrow> string list" where
  "path_names path = split_path (if take 1 path = ''/'' then drop 1 path else path)"

lemma namei_run:
  assumes "world_ok w" "\<forall>d \<in> set (walked D (path_start root cur path) (path_names path)). shows_dir w D d"
  shows "\<exists>w'. ufs_namei root cur path w =
      Some (case walk D (path_start root cur path) (path_names path) of None \<Rightarrow> (ENOENT, 0, w') | Some n \<Rightarrow> (0, n, w')) \<and>
    world_ok w' \<and> same_world w w'"
proof -
  have "ufs_namei root cur path w = Option.bind (dir_namei_loop (path_start root cur path) (if take 1 path = ''/'' then drop 1 path else path) w) open_last"
    by (simp add: ufs_namei_def ufs_open_namei_def ufs_dir_namei_def open_last_def path_start_def split: list.splits)
  then show ?thesis using namei_loop_walk [OF assms(1) assms(2) [unfolded path_names_def]] unfolding path_names_def by simp
qed

text \<open>C21. Path lookup: \<open>ufs_namei\<close>, reading every directory block by block from the device, resolves a
  path like the abstract walk through the maps of directory entries does, from the root for an
  absolute path and from the current directory otherwise; a missing component gives \<open>ENOENT\<close>. The
  reference counts, the in-core inodes and the device are as before.\<close>

theorem namei_refines_walk:
  assumes "world_ok w" "\<forall>d \<in> set (walked D (path_start root cur path) (path_names path)). shows_dir w D d"
  shows "\<exists>w'. ufs_namei root cur path w =
      Some (case walk D (path_start root cur path) (path_names path) of None \<Rightarrow> (ENOENT, 0, w') | Some n \<Rightarrow> (0, n, w')) \<and>
    world_ok w' \<and> same_world w w'"
  by (rule namei_run [OF assms])

subsection \<open>A sample directory\<close>

text \<open>Writing the entries of a list into a buffer.\<close>

fun put_ents :: "mem \<Rightarrow> int \<Rightarrow> dent list \<Rightarrow> mem" where
  "put_ents m a [] = m"
| "put_ents m a (e # es) = put_ents (put_chars (set_d_namlen (set_d_type (set_d_reclen (set_d_ino m a (e_ino e)) a (e_len e)) a (e_type e)) a
     (int (length (e_name e)))) (a + 8) (e_name e)) (a + e_len e) es"

definition ents_ex :: "dent list" where
  "ents_ex = [\<lparr>e_ino = 2, e_len = 12, e_type = 4, e_name = ''.''\<rparr>, \<lparr>e_ino = 2, e_len = 12, e_type = 4, e_name = ''..''\<rparr>,
     \<lparr>e_ino = 5, e_len = 488, e_type = 8, e_name = ''ab''\<rparr>]"

definition disk_dir :: uufsd where
  "disk_dir = disk_ex\<lparr>dev_data := (\<lambda>i. if 8192 \<le> i \<and> i < 8704 then put_ents (\<lambda>_. 0) 0 ents_ex (i - 8192) else grp_ex (i - 12288))\<rparr>"

definition root_ex :: inode where
  "root_ex = inode_ex\<lparr>i_number := 2, i_mode := 16877, i_nlink := 2, i_size := 512, i_din2 := st64 (st64 (\<lambda>_. 0) 16 512) 112 16\<rparr>"

definition vroot_ex :: ufs_vnode where
  "vroot_ex = \<lparr>v_inode = root_ex, v_ino = 2, v_count = 1, v_pprevhash = Head 2, v_nexthash = None\<rparr>"

definition world_dir :: world where
  "world_dir = \<lparr>w_ufs = disk_dir, w_ufsp = 0, ht_head = (\<lambda>k. if k = 2 then Some 1 else None), w_vnodes = (\<lambda>p. if p = 1 then Some vroot_ex else None),
     w_files = (\<lambda>_. None), w_brk = 2, w_uid = 1000, w_gid = 1000\<rparr>"

lemma ino_addr_ex: "0 \<le> k \<Longrightarrow> 16384 \<le> ino_addr disk_dir k"
proof -
  assume k: "0 \<le> k"
  have "0 \<le> k sdiv 64" "0 \<le> k smod 64 sdiv 16" using k by (simp_all add: sdiv_nonneg smod_nonneg)
  then show ?thesis
    by (simp add: ino_addr_def fsbtodb_eq ino_to_fsba_def ino_to_cg_def cgimin_def cgstart_def cgbase_def blkstofrags_def INOPB_def disk_dir_def disk_ex_def fs_one_def fs_ex_def)
qed

lemma world_dir_ok: "world_ok world_dir" "vmap world_dir 2 = Some (1, root_ex)"
proof -
  have k: "vnode_hash_key 0 2 = 2" by code_simp
  have "table world_dir (\<lambda>k. if k = 2 then [1] else [])" by (auto simp: table_def world_dir_def vroot_ex_def k split: if_splits)
  moreover have "ino_geom disk_dir" using ino_geom_ex(1) by (simp add: disk_dir_def ino_geom_def disk_ok_def)
  moreover have "ino_cache_ok disk_dir" by (simp add: ino_cache_ok_def disk_dir_def disk_ex_def)
  ultimately show "world_ok world_dir" "vmap world_dir 2 = Some (1, root_ex)"
    using vmap_eq(1) [of world_dir _ 1 vroot_ex 2] by (auto simp: world_ok_def vtab_ok_def world_dir_def vroot_ex_def)
qed

lemma inode_of_ex: "inode_of world_dir 2 = root_ex"
  by (simp add: inode_of_def world_dir_ok(2))

lemma root_ex_facts: "d_fs disk_dir = fs_one" "env_mem disk_dir" "d_bsize disk_dir = 512" "di_db (i_din2 root_ex) 0 = 16"
  "howmany (i_size root_ex) (fs_bsize fs_one) = 1" "blk_base disk_dir 16 = 8192" "fsbtodb fs_one 16 = 16"
proof -
  show f: "d_fs disk_dir = fs_one" "env_mem disk_dir" "d_bsize disk_dir = 512" by (simp_all add: disk_dir_def disk_ex_def)
  show "di_db (i_din2 root_ex) 0 = 16" by code_simp
  show "howmany (i_size root_ex) (fs_bsize fs_one) = 1" by (simp add: howmany_def root_ex_def fs_one_simps sdiv_nonneg)
  show "blk_base disk_dir 16 = 8192" "fsbtodb fs_one 16 = 16" by (simp_all add: blk_base_def fsbtodb_eq f) (simp_all add: fs_one_def fs_ex_def)
qed

lemma dir_view_ex: "dir_view world_dir 2 [ents_ex]"
proof -
  have sz: "ufs_inode_io_size fs_one root_ex 0 False = 512" by code_simp
  have bm: "ufs_bmap root_ex (u32 0) 0 disk_dir = Some (0, 16)" using bmap_direct [of 0 root_ex 0 disk_dir] root_ex_facts by simp
  have "lays (put_ents (\<lambda>_. 0) 0 ents_ex) 0 ents_ex 512" by code_simp
  then have "lays (\<lambda>x. dev_data disk_dir (8192 + x)) 0 ents_ex 512" by (rule lays_cong [rotated]) (simp add: disk_dir_def)
  then have "dir_holds disk_dir root_ex 0 0 [ents_ex]" using bm sz root_ex_facts by (simp add: root_ex_facts) (simp add: root_ex_def)
  then show "dir_view world_dir 2 [ents_ex]" by (simp add: dir_view_def inode_of_ex) (simp add: world_dir_def root_ex_def)
qed

lemma ents_ex_find: "dir_find ''ab'' (concat [ents_ex]) = Some 5" "\<not> list_all dot_entry (concat [ents_ex])"
  by code_simp+

theorem check_empty_dir_spec_witness: "\<exists>w'. do_check_empty_dir 2 world_dir = Some (- ENOTEMPTY, w') \<and> same_world world_dir w'"
  using check_empty_dir_spec [OF world_dir_ok(1) dir_view_ex] ents_ex_find(2) by auto

theorem namei_refines_walk_witness: "\<exists>w'. ufs_namei 2 2 ''/../ab'' world_dir = Some (0, 5, w') \<and> same_world world_dir w'"
proof -
  define D where "D = (\<lambda>d :: int. if d = 2 then ents_ex else [])"
  have "walked D (path_start 2 2 ''/../ab'') (path_names ''/../ab'') = [2, 2]" "walk D (path_start 2 2 ''/../ab'') (path_names ''/../ab'') = Some 5"
    unfolding D_def by code_simp+
  moreover have "shows_dir world_dir D 2" using dir_view_ex by (auto simp: shows_dir_def D_def intro: exI [of _ "[ents_ex]"])
  ultimately show ?thesis using namei_refines_walk [OF world_dir_ok(1), of D 2 2 "''/../ab''"] by auto
qed

end
