(* ===== verification/Ufs_Dir_Edit.thy ===== *)
theory Ufs_Dir_Edit
  imports Ufs_Dir_Scan
begin

section \<open>Adding and removing directory entries\<close>

text \<open>
  The locale \<open>dir_edit\<close> is the contract of a callback that changes entries: on a well-formed block
  it either passes the block or changes it and stops. From it follow the effect on the whole
  directory and on the device, and that no inode and no vnode is touched. It is interpreted on
  \<open>link_proc\<close> and \<open>unlink_proc\<close>; the properties say what \<open>ufs_addnamedir\<close> and \<open>ufs_unlink\<close> do to
  the map from names to inodes.
\<close>

subsection \<open>Adding an entry to a block\<close>

text \<open>The entries in use, as name, inode number and type.\<close>

definition used :: "dent list \<Rightarrow> (string \<times> int \<times> int) list" where
  "used es = map (\<lambda>e. (e_name e, e_ino e, e_type e)) (filter (\<lambda>e. e_ino e \<noteq> 0) es)"

lemma used_simps [simp]:
  "used [] = []"
  "used (e # es) = (if e_ino e \<noteq> 0 then [(e_name e, e_ino e, e_type e)] else []) @ used es"
  "used (xs @ ys) = used xs @ used ys"
  by (simp_all add: used_def)

text \<open>An entry with room for \<open>need\<close> more bytes.\<close>

definition roomy :: "int \<Rightarrow> dent \<Rightarrow> bool" where
  "roomy need e \<longleftrightarrow> (if e_ino e = 0 then need else UFS_DIR_REC_LEN (int (length (e_name e))) + need) \<le> e_len e"

lemma same_block_next:
  assumes "lays m off (e # es) z" "z mod DIRBLKSIZ = 0" "off mod DIRBLKSIZ + e_len e < DIRBLKSIZ"
  obtains n es' where "es = n # es'" "(off + e_len e) mod DIRBLKSIZ = off mod DIRBLKSIZ + e_len e"
proof -
  have l: "8 \<le> e_len e" "off + e_len e \<le> z" using assms(1) ent_fits_len lays_le by auto
  have "off + e_len e \<noteq> z"
  proof
    assume "off + e_len e = z"
    then have "(off mod 512 + e_len e) mod 512 = 0" using assms(2) by (metis DIRBLKSIZ_def mod_add_left_eq)
    moreover have "0 \<le> off mod 512" by simp
    ultimately show False using assms(3) l(1) by simp
  qed
  then obtain n es' where "es = n # es'" using assms(1) by (cases es) auto
  moreover have "(off + e_len e) mod 512 = (off mod 512 + e_len e) mod 512" by (simp add: mod_add_left_eq)
  moreover have "0 \<le> off mod 512" by simp
  ultimately show thesis using that assms(3) l(1) by simp
qed

lemma reclen_store:
  assumes "ent_at m a e" "ent_fits a e" "8 \<le> n" "n < 65536" "ent_fits a (e\<lparr>e_len := n\<rparr>)"
  shows "ent_at (set_d_reclen m a n) a (e\<lparr>e_len := n\<rparr>)" "i < a + 4 \<or> a + 6 \<le> i \<Longrightarrow> set_d_reclen m a n i = m i"
proof -
  show fr: "set_d_reclen m a n i = m i" if "i < a + 4 \<or> a + 6 \<le> i" for i
    using that st_other(2) [of i "a + 4" m n] by (simp add: dirent_defs add.assoc)
  have "same_chars (e_name e) (set_d_reclen m a n) (a + 8) = same_chars (e_name e) m (a + 8)"
    by (rule same_chars_cong) (simp add: fr)
  then show "ent_at (set_d_reclen m a n) a (e\<lparr>e_len := n\<rparr>)"
    using assms(1,3,4) by (auto simp: ent_at_def dirent_defs mem_simps u_id)
qed

lemma link_absorb_run:
  assumes l: "lays m off (e # es) z" and z: "z mod DIRBLKSIZ = 0"
  shows "\<exists>ret m1 e1 es1. link_absorb DIRBLKSIZ m off (off mod DIRBLKSIZ) = (ret, e_len e1, m1) \<and> lays m1 off (e1 # es1) z \<and>
     e_ino e1 = e_ino e \<and> e_name e1 = e_name e \<and> used (e1 # es1) = used (e # es) \<and> length es1 \<le> length es \<and> e_len e \<le> e_len e1 \<and>
     (ret = 0 \<and> m1 = m \<or> ret = DIRENT_CHANGED) \<and> (\<forall>i. i < off \<or> z \<le> i \<longrightarrow> m1 i = m i) \<and>
     (\<forall>need. list_ex (roomy need) (e # es) \<longrightarrow> list_ex (roomy need) (e1 # es1))"
proof (cases "off mod DIRBLKSIZ + e_len e < DIRBLKSIZ - 8 \<and> d_ino m (off + e_len e) = 0")
  case False
  have "d_reclen m off = e_len e" using l by (simp add: ent_at_def)
  then have "link_absorb DIRBLKSIZ m off (off mod DIRBLKSIZ) = (0, e_len e, m)"
    using False by (auto simp: link_absorb_def Let_def)
  then show ?thesis using l by (intro exI [of _ 0] exI [of _ m] exI [of _ e] exI [of _ es]) simp
next
  case True
  have e: "ent_at m off e" "ent_fits off e" "d_reclen m off = e_len e" using l by (auto simp: ent_at_def)
  obtain n es' where n: "es = n # es'" "(off + e_len e) mod DIRBLKSIZ = off mod DIRBLKSIZ + e_len e"
    using same_block_next [OF l z] True by auto
  have nx: "ent_at m (off + e_len e) n" "ent_fits (off + e_len e) n" "lays m (off + e_len e + e_len n) es' z" using l n(1) by simp_all
  have n0: "e_ino n = 0" "d_reclen m (off + e_len e) = e_len n" using nx(1) True by (auto simp: ent_at_def)
  define k where "k = e_len e + e_len n"
  define e1 where "e1 = e\<lparr>e_len := k\<rparr>"
  have k: "8 \<le> k" "off mod DIRBLKSIZ + k \<le> DIRBLKSIZ" "e_len e \<le> k" "e_len n \<le> k"
    using e(2) nx(2) n(2) ent_fits_len [OF e(2)] ent_fits_len [OF nx(2)] by (auto simp: k_def ent_fits_def)
  have k2: "k < 65536" using k(2) pos_mod_sign [of 512 off] by simp
  have f1: "ent_fits off e1"
    using e(2) nx(2) k by (auto simp: ent_fits_def e1_def k_def mod_add_eq)
  have st: "link_absorb DIRBLKSIZ m off (off mod DIRBLKSIZ) = (DIRENT_CHANGED, k, set_d_reclen m off k)"
    using True e(3) n0(2) k(2) by (simp add: link_absorb_def Let_def k_def)
  note rs = reclen_store [OF e(1,2) k(1) k2 f1 [unfolded e1_def]]
  have "lays (set_d_reclen m off k) (off + k) es' z"
    by (rule lays_cong [OF _ nx(3) [unfolded add.assoc, folded k_def]]) (use rs(2) k(1) in simp)
  then have ly: "lays (set_d_reclen m off k) off (e1 # es') z" using rs(1) f1 by (simp add: e1_def)
  have le: "off + k \<le> z" using lays_le [OF nx(3)] by (simp add: k_def)
  have "roomy need e \<or> roomy need n \<Longrightarrow> roomy need e1" for need
    using k e(2) n0 ent_fits_len [OF e(2)] by (auto simp: roomy_def e1_def ent_fits_def k_def)
  then have "\<forall>need. list_ex (roomy need) (e # es) \<longrightarrow> list_ex (roomy need) (e1 # es')" using n(1) by auto
  then show ?thesis
    using st ly le k n0 rs(2) n(1)
    by (intro exI [of _ DIRENT_CHANGED] exI [of _ "set_d_reclen m off k"] exI [of _ e1] exI [of _ es']) (auto simp: e1_def)
qed

text \<open>The handle after the buffer \<open>m\<close> is written to block \<open>blk\<close>; the walk writes every change of the
  buffer at once.\<close>

definition put_blk :: "uufsd \<Rightarrow> int \<Rightarrow> int \<Rightarrow> mem \<Rightarrow> uufsd" where
  "put_blk s blk n m = s\<lparr>dev_data := memcpy (dev_data s) (blk_base s blk) m 0 n\<rparr>"

lemma put_blk_twice: "put_blk (put_blk s blk n m) blk n m' = put_blk s blk n m'"
  by (simp add: put_blk_def blk_base_def memcpy_def fun_eq_iff)

lemma put_blk_same: "(\<And>x. 0 \<le> x \<Longrightarrow> x < n \<Longrightarrow> dev_data s (blk_base s blk + x) = m x) \<Longrightarrow> put_blk s blk n m = s"
proof -
  assume a: "\<And>x. 0 \<le> x \<Longrightarrow> x < n \<Longrightarrow> dev_data s (blk_base s blk + x) = m x"
  have "memcpy (dev_data s) (blk_base s blk) m 0 n = dev_data s"
    using a [of "i - blk_base s blk" for i] by (auto simp: memcpy_def fun_eq_iff)
  then show ?thesis by (simp add: put_blk_def)
qed

lemma put_blk_fields [simp]: "d_fs (put_blk s blk n m) = d_fs s" "io_ok (put_blk s blk n m) = io_ok s" "d_bsize (put_blk s blk n m) = d_bsize s"
  by (simp_all add: put_blk_def)

lemma dir_block_step:
  assumes "func p m off (off mod DIRBLKSIZ) = Some (r, m1, p1)" "off < blksize" "pos + off < dir_size"
    "io_ok s" "0 \<le> fsbtodb (d_fs s) blk" "0 < blksize" "r AND DIRENT_CHANGED \<noteq> 0 \<or> m1 = m"
  shows "dir_block func blk blksize dir_size pos off ret m p (put_blk s blk blksize m) =
    (if r AND DIRENT_ABORT \<noteq> 0 then Some (Inl 0, m1, p1, put_blk s blk blksize m1)
     else dir_block func blk blksize dir_size pos (off + d_reclen m1 off) r m1 p1 (put_blk s blk blksize m1))"
proof -
  have w: "blkwrite (fsbtodb (d_fs s) blk) m1 blksize (put_blk s blk blksize m) = (blksize, put_blk s blk blksize m1)"
    using blkwrite_ok [of "put_blk s blk blksize m" "fsbtodb (d_fs s) blk" blksize m1] assms(4-6) put_blk_twice [of s blk blksize m m1]
    by (simp add: put_blk_def blk_base_def)
  show ?thesis
    by (subst dir_block.simps) (use assms w in \<open>auto simp: Let_def\<close>)
qed

text \<open>The new entry, and filling it into an unused entry that is long enough.\<close>

definition link_ok :: "link_struct \<Rightarrow> bool" where
  "link_ok ls \<longleftrightarrow> l_namelen ls = int (length (l_name ls)) \<and> l_name ls \<noteq> [] \<and> length (l_name ls) \<le> 255 \<and>
     0 < l_inode ls \<and> l_inode ls < 2 ^ 32 \<and> l_blocksize ls = DIRBLKSIZ"

definition link_ent :: "link_struct \<Rightarrow> int \<Rightarrow> dent" where
  "link_ent ls len = \<lparr>e_ino = l_inode ls, e_len = len, e_type = IFTODT (l_flags ls), e_name = l_name ls\<rparr>"

definition link_fill :: "link_struct \<Rightarrow> mem \<Rightarrow> int \<Rightarrow> mem" where
  "link_fill ls m de = (let
      m = set_d_ino m de (l_inode ls); m = set_d_namlen m de (l_namelen ls); m = set_d_type m de (IFTODT (l_flags ls));
      m = put_chars m (de + 8) (l_name ls) in m(de + 8 + l_namelen ls := 0))"

lemma IFTODT_byte: "0 \<le> IFTODT x" "IFTODT x < 256"
  using IFTODT_bounds [of x] by auto

lemma link_fill_ent:
  assumes ok: "link_ok ls" and e: "ent_at m a e" "ent_fits a e" and len: "UFS_DIR_REC_LEN (l_namelen ls) \<le> e_len e"
  shows "ent_at (link_fill ls m a) a (link_ent ls (e_len e))" "ent_fits a (link_ent ls (e_len e))"
    "i < a \<or> a + e_len e \<le> i \<Longrightarrow> link_fill ls m a i = m i"
proof -
  note l = ok [unfolded link_ok_def]
  define n where "n = int (length (l_name ls))"
  have n: "l_namelen ls = n" "0 \<le> n" "n \<le> 255" "n + 9 \<le> e_len e" using l len rec_len_bounds(1) [of n] by (auto simp: n_def)
  define m1 where "m1 = set_d_type (set_d_namlen (set_d_ino m a (l_inode ls)) a n) a (IFTODT (l_flags ls))"
  have fill: "link_fill ls m a = (put_chars m1 (a + 8) (l_name ls))(a + 8 + n := 0)"
    by (simp add: link_fill_def m1_def n(1) Let_def)
  have hd: "link_fill ls m a i = m1 i" if "i < a + 8" for i using that n by (simp add: fill put_chars_at)
  have "d_ino (link_fill ls m a) a = d_ino m1 a" "d_reclen (link_fill ls m a) a = d_reclen m1 a"
    "d_type (link_fill ls m a) a = d_type m1 a" "d_namlen (link_fill ls m a) a = d_namlen m1 a"
    unfolding dirent_defs by (rule ld_cong, simp add: hd)+
  moreover have "d_ino m1 a = l_inode ls" "d_type m1 a = IFTODT (l_flags ls)" "d_namlen m1 a = n" "d_reclen m1 a = e_len e"
    using l n e(1) IFTODT_byte [of "l_flags ls"] by (auto simp: m1_def dirent_defs mem_simps u_id ent_at_def)
  moreover have "same_chars (l_name ls) (link_fill ls m a) (a + 8)"
    using same_chars_put [of "l_name ls" m1 "a + 8"] same_chars_cong [of "a + 8" "l_name ls" "link_fill ls m a" "put_chars m1 (a + 8) (l_name ls)"]
    by (simp add: fill n_def)
  ultimately show "ent_at (link_fill ls m a) a (link_ent ls (e_len e))" by (simp add: ent_at_def link_ent_def n_def)
  show "ent_fits a (link_ent ls (e_len e))" using e(2) len l by (auto simp: ent_fits_def link_ent_def)
  assume i: "i < a \<or> a + e_len e \<le> i"
  have "m1 i = m i" using i n(2,4) by (auto simp: m1_def dirent_defs mem_simps)
  then show "link_fill ls m a i = m i" using i n by (auto simp: fill put_chars_at n_def)
qed

lemma link_proc_unused:
  assumes ok: "link_ok ls" and l: "lays m off (e # es) z" and z: "z mod DIRBLKSIZ = 0" and e: "e_ino e = 0"
    and len: "UFS_DIR_REC_LEN (l_namelen ls) \<le> fst (snd (link_absorb DIRBLKSIZ m off (off mod DIRBLKSIZ)))"
  shows "\<exists>m' es'. link_proc ls m off (off mod DIRBLKSIZ) = Some (DIRENT_ABORT OR DIRENT_CHANGED, m', ls\<lparr>l_done := l_done ls + 1\<rparr>) \<and>
    lays m' off es' z \<and> (\<forall>i. i < off \<or> z \<le> i \<longrightarrow> m' i = m i) \<and>
    used es' = (l_name ls, l_inode ls, IFTODT (l_flags ls)) # used (e # es)"
proof -
  obtain ret m1 e1 es1 where a: "link_absorb DIRBLKSIZ m off (off mod DIRBLKSIZ) = (ret, e_len e1, m1)" "lays m1 off (e1 # es1) z"
    "e_ino e1 = e_ino e" "used (e1 # es1) = used (e # es)" "\<forall>i. i < off \<or> z \<le> i \<longrightarrow> m1 i = m i"
    using link_absorb_run [OF l z] by blast
  have e1: "ent_at m1 off e1" "ent_fits off e1" "lays m1 (off + e_len e1) es1 z" "d_ino m1 off = 0" using a(2,3) e by (auto simp: ent_at_def)
  have len1: "UFS_DIR_REC_LEN (l_namelen ls) \<le> e_len e1" using len a(1) by simp
  note f = link_fill_ent [OF ok e1(1,2) len1]
  have bs: "l_blocksize ls = DIRBLKSIZ" using ok by (simp add: link_ok_def)
  have "link_proc ls m off (off mod DIRBLKSIZ) = Some (DIRENT_ABORT OR DIRENT_CHANGED, link_fill ls m1 off, ls\<lparr>l_done := l_done ls + 1\<rparr>)"
    using a(1) e1(4) len1 by (simp add: link_proc_def Let_def bs link_fill_def)
  moreover have "lays (link_fill ls m1 off) (off + e_len e1) es1 z" by (rule lays_cong [OF _ e1(3)]) (use f(3) in simp)
  then have "lays (link_fill ls m1 off) off (link_ent ls (e_len e1) # es1) z" using f(1,2) by (simp add: link_ent_def)
  moreover have "\<forall>i. i < off \<or> z \<le> i \<longrightarrow> link_fill ls m1 off i = m i"
    using f(3) a(5) lays_le [OF e1(3)] by auto
  moreover have "used (link_ent ls (e_len e1) # es1) = (l_name ls, l_inode ls, IFTODT (l_flags ls)) # used (e # es)"
    using ok a(3,4) e by (simp add: link_ent_def link_ok_def)
  ultimately show ?thesis by blast
qed

text \<open>Splitting an entry in use: its tail becomes an unused entry.\<close>

lemma split_ent:
  assumes l: "lays m off (e # es) z" and k: "k mod 4 = 0" "UFS_DIR_REC_LEN (int (length (e_name e))) \<le> k" "k + 8 \<le> e_len e"
  defines "m' \<equiv> set_d_reclen (set_d_namlen (set_d_ino (set_d_reclen m off k) (off + k) 0) (off + k) 0) (off + k) (e_len e - k)"
  shows "lays m' off (e\<lparr>e_len := k\<rparr> # \<lparr>e_ino = 0, e_len = e_len e - k, e_type = 0, e_name = []\<rparr> # es) z"
    "i < off \<or> off + e_len e \<le> i \<Longrightarrow> m' i = m i" "d_reclen m' off = k"
proof -
  define u where "u = \<lparr>e_ino = 0, e_len = e_len e - k, e_type = 0, e_name = []\<rparr>"
  have e: "ent_at m off e" "ent_fits off e" "lays m (off + e_len e) es z" using l by simp_all
  have b: "0 \<le> off mod 512" "off mod 512 + e_len e \<le> 512" "8 \<le> e_len e" "e_len e mod 4 = 0" using e(2) by (auto simp: ent_fits_def)
  have k8: "9 \<le> k" "k < 65536" using k(2,3) b rec_len_bounds(1) [of "int (length (e_name e))"] by linarith+
  have om: "(off + k) mod 512 = off mod 512 + k"
  proof -
    have "(off + k) mod 512 = (off mod 512 + k) mod 512" by (simp add: mod_add_left_eq)
    also have "\<dots> = off mod 512 + k" by (rule mod_pos_pos_trivial) (use b k(3) k8 in linarith)+
    finally show ?thesis .
  qed
  define m1 where "m1 = set_d_reclen m off k"
  have f1: "ent_fits off (e\<lparr>e_len := k\<rparr>)" using e(2) b k k8 by (auto simp: ent_fits_def)
  note rs = reclen_store [OF e(1,2) _ k8(2) f1, folded m1_def]
  have m': "m' = set_d_reclen (set_d_namlen (set_d_ino m1 (off + k) 0) (off + k) 0) (off + k) (e_len e - k)" by (simp add: m'_def m1_def)
  have fr: "m' i = m1 i" if "i < off + k \<or> off + k + 8 \<le> i" for i
    using that by (auto simp: m' dirent_defs mem_simps)
  show "m' i = m i" if "i < off \<or> off + e_len e \<le> i" for i
    using that fr [of i] rs(2) [of i] k8 k(3) by auto
  have "ent_at m' off (e\<lparr>e_len := k\<rparr>)"
    using ent_at_cong [OF f1, of m' m1] fr rs(1) k8 by simp
  moreover have "ent_at m' (off + k) u"
    using k(3) b(2) b(1) k8 by (simp add: m' ent_at_def u_def dirent_defs mem_simps u_id)
  moreover have "ent_fits (off + k) u" using b k om by (simp add: ent_fits_def u_def mod_diff_eq [of "e_len e" 4 k, symmetric])
  moreover have "lays m' (off + e_len e) es z" by (rule lays_cong [OF _ e(3)]) (use fr rs(2) k8 k(3) in auto)
  ultimately show "lays m' off (e\<lparr>e_len := k\<rparr> # \<lparr>e_ino = 0, e_len = e_len e - k, e_type = 0, e_name = []\<rparr> # es) z"
    using f1 by (simp add: u_def)
  show "d_reclen m' off = k" using \<open>ent_at m' off (e\<lparr>e_len := k\<rparr>)\<close> by (simp add: ent_at_def)
qed

lemma link_proc_used:
  assumes l: "lays m off (e # es) z" and z: "z mod DIRBLKSIZ = 0" and e: "e_ino e \<noteq> 0" and bs: "l_blocksize ls = DIRBLKSIZ" and n: "0 \<le> l_namelen ls"
  defines "need \<equiv> UFS_DIR_REC_LEN (l_namelen ls)"
  shows "(\<exists>r m1 e1 es1. link_proc ls m off (off mod DIRBLKSIZ) = Some (r, m1, ls) \<and> (r \<noteq> DIRENT_CHANGED \<longrightarrow> r = 0 \<and> m1 = m) \<and>
      lays m1 off (e1 # es1) z \<and> length es1 \<le> length es \<and> used (e1 # es1) = used (e # es) \<and> \<not> roomy need e1 \<and>
      (list_ex (roomy need) (e # es) \<longrightarrow> list_ex (roomy need) (e1 # es1)) \<and> (\<forall>i. i < off \<or> z \<le> i \<longrightarrow> m1 i = m i)) \<or>
    (\<exists>m2 e2 u es2. link_proc ls m off (off mod DIRBLKSIZ) = Some (DIRENT_CHANGED, m2, ls) \<and> lays m2 off (e2 # u # es2) z \<and>
      e_ino u = 0 \<and> need \<le> e_len u \<and> used (e2 # u # es2) = used (e # es) \<and> (\<forall>i. i < off \<or> z \<le> i \<longrightarrow> m2 i = m i))"
proof -
  obtain ret m1 e1 es1 where a: "link_absorb DIRBLKSIZ m off (off mod DIRBLKSIZ) = (ret, e_len e1, m1)" "lays m1 off (e1 # es1) z"
    "e_ino e1 = e_ino e" "e_name e1 = e_name e" "used (e1 # es1) = used (e # es)" "length es1 \<le> length es"
    "ret = 0 \<and> m1 = m \<or> ret = DIRENT_CHANGED" "\<forall>i. i < off \<or> z \<le> i \<longrightarrow> m1 i = m i"
    "\<forall>need. list_ex (roomy need) (e # es) \<longrightarrow> list_ex (roomy need) (e1 # es1)"
    using link_absorb_run [OF l z] by blast
  have at: "ent_at m1 off e1" "e_ino e1 \<noteq> 0" "ent_fits off e1" "off + e_len e1 \<le> z" using a(2,3) e lays_le by auto
  define k where "k = UFS_DIR_REC_LEN (int (length (e_name e1)))"
  have nm: "d_namlen m1 off AND 255 = int (length (e_name e1))" "d_ino m1 off \<noteq> 0" using ent_match(1) [OF at(1,2)] ent_at_ino [OF at(1)] at(2) by auto
  show ?thesis
  proof (cases "e_len e1 < k + need")
    case True
    then have "link_proc ls m off (off mod DIRBLKSIZ) = Some (ret, m1, ls)"
      using a(1) nm by (simp add: link_proc_def bs need_def k_def)
    moreover have "\<not> roomy need e1" using True at(2) by (simp add: roomy_def k_def)
    ultimately show ?thesis using a by blast
  next
    case False
    define m2 where "m2 = set_d_reclen (set_d_namlen (set_d_ino (set_d_reclen m1 off k) (off + k) 0) (off + k) 0) (off + k) (e_len e1 - k)"
    have kk: "k mod 4 = 0" "k + 8 \<le> e_len e1" "0 \<le> k"
      using rec_len_bounds [of "int (length (e_name e1))"] rec_len_bounds(1) [OF n] n False by (auto simp: k_def need_def)
    note sp = split_ent [OF a(2) kk(1) _ kk(2), folded k_def m2_def, OF order_refl]
    have "off mod 512 + e_len e1 \<le> 512" "0 \<le> off mod 512" using at(3) by (simp_all add: ent_fits_def)
    then have "k < 65536" using kk by linarith
    then have rl: "d_reclen (set_d_reclen m1 off k) off = k" using kk by (simp add: dirent_defs mem_simps u_id)
    have "link_proc ls m off (off mod DIRBLKSIZ) = Some (DIRENT_CHANGED, m2, ls)"
      using a(1) nm False rl by (simp add: link_proc_def bs need_def k_def [symmetric] Let_def m2_def)
    moreover have "used (e1\<lparr>e_len := k\<rparr> # \<lparr>e_ino = 0, e_len = e_len e1 - k, e_type = 0, e_name = []\<rparr> # es1) = used (e # es)" unfolding a(5) [symmetric] by simp
    moreover have "\<forall>i. i < off \<or> z \<le> i \<longrightarrow> m2 i = m i" using sp(2) a(8) at(4) by auto
    ultimately show ?thesis using sp(1) False
      by (intro disjI2 exI [of _ m2] exI [of _ "e1\<lparr>e_len := k\<rparr>"] exI [of _ "\<lparr>e_ino = 0, e_len = e_len e1 - k, e_type = 0, e_name = []\<rparr>"] exI [of _ es1]) simp
  qed
qed

lemma link_proc_full:
  assumes l: "lays m off (e # es) z" and z: "z mod DIRBLKSIZ = 0" and e: "e_ino e = 0" and bs: "l_blocksize ls = DIRBLKSIZ"
    and len: "fst (snd (link_absorb DIRBLKSIZ m off (off mod DIRBLKSIZ))) < UFS_DIR_REC_LEN (l_namelen ls)"
  shows "\<exists>r m1 e1 es1. link_proc ls m off (off mod DIRBLKSIZ) = Some (r, m1, ls) \<and> (r \<noteq> DIRENT_CHANGED \<longrightarrow> r = 0 \<and> m1 = m) \<and>
      lays m1 off (e1 # es1) z \<and> length es1 \<le> length es \<and> used (e1 # es1) = used (e # es) \<and> \<not> roomy (UFS_DIR_REC_LEN (l_namelen ls)) e1 \<and>
      (list_ex (roomy (UFS_DIR_REC_LEN (l_namelen ls))) (e # es) \<longrightarrow> list_ex (roomy (UFS_DIR_REC_LEN (l_namelen ls))) (e1 # es1)) \<and>
      (\<forall>i. i < off \<or> z \<le> i \<longrightarrow> m1 i = m i)"
proof -
  obtain ret m1 e1 es1 where a: "link_absorb DIRBLKSIZ m off (off mod DIRBLKSIZ) = (ret, e_len e1, m1)" "lays m1 off (e1 # es1) z"
    "e_ino e1 = e_ino e" "used (e1 # es1) = used (e # es)" "length es1 \<le> length es"
    "ret = 0 \<and> m1 = m \<or> ret = DIRENT_CHANGED" "\<forall>i. i < off \<or> z \<le> i \<longrightarrow> m1 i = m i"
    "\<forall>need. list_ex (roomy need) (e # es) \<longrightarrow> list_ex (roomy need) (e1 # es1)"
    using link_absorb_run [OF l z] by blast
  have "d_ino m1 off = 0" using a(2,3) e by (simp add: ent_at_def)
  then have "link_proc ls m off (off mod DIRBLKSIZ) = Some (ret, m1, ls)" using a(1) len by (simp add: link_proc_def bs)
  moreover have "\<not> roomy (UFS_DIR_REC_LEN (l_namelen ls)) e1" using a(1,3) e len by (simp add: roomy_def)
  ultimately show ?thesis using a by blast
qed

text \<open>One of the three ways \<open>link_proc\<close> leaves an entry.\<close>

lemma link_proc_cases:
  assumes ok: "link_ok ls" and l: "lays m off (e # es) z" and z: "z mod DIRBLKSIZ = 0"
  defines "need \<equiv> UFS_DIR_REC_LEN (l_namelen ls)"
  shows "(\<exists>r m1 e1 es1. link_proc ls m off (off mod DIRBLKSIZ) = Some (r, m1, ls) \<and> (r \<noteq> DIRENT_CHANGED \<longrightarrow> r = 0 \<and> m1 = m) \<and>
      lays m1 off (e1 # es1) z \<and> length es1 \<le> length es \<and> used (e1 # es1) = used (e # es) \<and> \<not> roomy need e1 \<and>
      (list_ex (roomy need) (e # es) \<longrightarrow> list_ex (roomy need) (e1 # es1)) \<and> (\<forall>i. i < off \<or> z \<le> i \<longrightarrow> m1 i = m i)) \<or>
    (\<exists>m2 e2 u es2. link_proc ls m off (off mod DIRBLKSIZ) = Some (DIRENT_CHANGED, m2, ls) \<and> lays m2 off (e2 # u # es2) z \<and>
      e_ino u = 0 \<and> need \<le> e_len u \<and> used (e2 # u # es2) = used (e # es) \<and> (\<forall>i. i < off \<or> z \<le> i \<longrightarrow> m2 i = m i)) \<or>
    (\<exists>m' es'. link_proc ls m off (off mod DIRBLKSIZ) = Some (DIRENT_ABORT OR DIRENT_CHANGED, m', ls\<lparr>l_done := l_done ls + 1\<rparr>) \<and>
      lays m' off es' z \<and> (\<forall>i. i < off \<or> z \<le> i \<longrightarrow> m' i = m i) \<and>
      used es' = (l_name ls, l_inode ls, IFTODT (l_flags ls)) # used (e # es))"
proof (cases "e_ino e = 0")
  case False
  have "l_blocksize ls = DIRBLKSIZ" "0 \<le> l_namelen ls" using ok by (simp_all add: link_ok_def)
  from link_proc_used [OF l z False this, folded need_def] show ?thesis by (elim disjE) (erule disjI1, erule disjI2 [OF disjI1])
next
  case True
  show ?thesis
  proof (cases "fst (snd (link_absorb DIRBLKSIZ m off (off mod DIRBLKSIZ))) < need")
    case f: True
    have "l_blocksize ls = DIRBLKSIZ" using ok by (simp add: link_ok_def)
    from link_proc_full [OF l z True this f [unfolded need_def], folded need_def] show ?thesis by (rule disjI1)
  next
    case False
    then have "need \<le> fst (snd (link_absorb DIRBLKSIZ m off (off mod DIRBLKSIZ)))" by simp
    from link_proc_unused [OF ok l z True this [unfolded need_def]] show ?thesis by (intro disjI2)
  qed
qed

text \<open>
  The walk of \<open>link_proc\<close> over a block: it ends, keeps the chain of entries, and either adds the
  new entry and stops, or leaves the entries in use as they are; the latter only when no entry
  had room.
\<close>

definition linked :: "link_struct \<Rightarrow> dent list \<Rightarrow> int \<Rightarrow> (int + int) \<Rightarrow> link_struct \<Rightarrow> dent list \<Rightarrow> bool" where
  "linked ls es ret res ls' es' \<longleftrightarrow>
      res = Inl 0 \<and> ls' = ls\<lparr>l_done := l_done ls + 1\<rparr> \<and>
         (\<exists>xs ys. used es = xs @ ys \<and> used es' = xs @ (l_name ls, l_inode ls, IFTODT (l_flags ls)) # ys) \<or>
       \<not> list_ex (roomy (UFS_DIR_REC_LEN (l_namelen ls))) es \<and> ls' = ls \<and> used es' = used es \<and>
         (\<exists>r. res = Inr r \<and> (if es = [] then r = ret else r = 0 \<or> r = DIRENT_CHANGED))"

lemma linked_Cons:
  assumes "linked ls es2 r res ls' es'" "used (e1 # es2) = used (e # es1)" "r = 0 \<or> r = DIRENT_CHANGED"
    "\<not> roomy (UFS_DIR_REC_LEN (l_namelen ls)) e1"
    "list_ex (roomy (UFS_DIR_REC_LEN (l_namelen ls))) (e # es1) \<longrightarrow> list_ex (roomy (UFS_DIR_REC_LEN (l_namelen ls))) (e1 # es2)"
  shows "linked ls (e # es1) ret res ls' (e1 # es')"
  using assms(1) unfolding linked_def
proof (elim disjE conjE exE)
  fix xs ys assume x: "res = Inl 0" "ls' = ls\<lparr>l_done := l_done ls + 1\<rparr>" "used es2 = xs @ ys" "used es' = xs @ (l_name ls, l_inode ls, IFTODT (l_flags ls)) # ys"
  have "used (e # es1) = (used [e1] @ xs) @ ys" "used (e1 # es') = (used [e1] @ xs) @ (l_name ls, l_inode ls, IFTODT (l_flags ls)) # ys"
    unfolding assms(2) [symmetric] using x(3,4) by simp_all
  then show "res = Inl 0 \<and> ls' = ls\<lparr>l_done := l_done ls + 1\<rparr> \<and>
      (\<exists>xs ys. used (e # es1) = xs @ ys \<and> used (e1 # es') = xs @ (l_name ls, l_inode ls, IFTODT (l_flags ls)) # ys) \<or>
    \<not> list_ex (roomy (UFS_DIR_REC_LEN (l_namelen ls))) (e # es1) \<and> ls' = ls \<and> used (e1 # es') = used (e # es1) \<and>
      (\<exists>r. res = Inr r \<and> (if e # es1 = [] then r = ret else r = 0 \<or> r = DIRENT_CHANGED))" using x(1,2) by blast
next
  fix r' assume x: "\<not> list_ex (roomy (UFS_DIR_REC_LEN (l_namelen ls))) es2" "ls' = ls" "used es' = used es2" "res = Inr r'"
    "if es2 = [] then r' = r else r' = 0 \<or> r' = DIRENT_CHANGED"
  have "used (e1 # es') = used (e # es1)" unfolding assms(2) [symmetric] using x(3) by simp
  then show "res = Inl 0 \<and> ls' = ls\<lparr>l_done := l_done ls + 1\<rparr> \<and>
      (\<exists>xs ys. used (e # es1) = xs @ ys \<and> used (e1 # es') = xs @ (l_name ls, l_inode ls, IFTODT (l_flags ls)) # ys) \<or>
    \<not> list_ex (roomy (UFS_DIR_REC_LEN (l_namelen ls))) (e # es1) \<and> ls' = ls \<and> used (e1 # es') = used (e # es1) \<and>
      (\<exists>r. res = Inr r \<and> (if e # es1 = [] then r = ret else r = 0 \<or> r = DIRENT_CHANGED))"
    using x assms(3,4,5) by (auto split: if_splits)
qed

lemma link_block_run:
  assumes ok: "link_ok ls" and io: "io_ok s" "0 \<le> fsbtodb (d_fs s) blk" "0 < blksize"
    and z: "z = min blksize (dir_size - pos)" "z mod DIRBLKSIZ = 0" and l: "lays m off es z"
  shows "\<exists>res m' ls' es'. dir_block link_proc blk blksize dir_size pos off ret m ls (put_blk s blk blksize m) =
      Some (res, m', ls', put_blk s blk blksize m') \<and> lays m' off es' z \<and> (\<forall>i. i < off \<or> z \<le> i \<longrightarrow> m' i = m i) \<and> linked ls es ret res ls' es'"
  using l
proof (induction es arbitrary: off ret m rule: length_induct)
  case (1 es)
  define need where "need = UFS_DIR_REC_LEN (l_namelen ls)"
  show ?case
  proof (cases es)
    case Nil
    then have "off = z" using 1(2) by simp
    then have "dir_block link_proc blk blksize dir_size pos off ret m ls (put_blk s blk blksize m) = Some (Inr ret, m, ls, put_blk s blk blksize m)"
      using z(1) by (subst dir_block.simps) auto
    moreover have "lays m off [] z" "linked ls es ret (Inr ret) ls []" using \<open>off = z\<close> Nil by (simp_all add: linked_def)
    ultimately show ?thesis by blast
  next
    case (Cons e es1)
    note l = 1(2) [unfolded Cons]
    have b: "off < blksize" "pos + off < dir_size" using l z(1) ent_fits_len [of off e] lays_le [of m "off + e_len e" es1 z] by auto
    note step = dir_block_step [of link_proc, OF _ b io]
    from link_proc_cases [OF ok l z(2), folded need_def] show ?thesis
    proof (elim disjE exE conjE)
      fix m' es'
      assume a: "link_proc ls m off (off mod DIRBLKSIZ) = Some (DIRENT_ABORT OR DIRENT_CHANGED, m', ls\<lparr>l_done := l_done ls + 1\<rparr>)"
        "lays m' off es' z" "\<forall>i. i < off \<or> z \<le> i \<longrightarrow> m' i = m i" "used es' = (l_name ls, l_inode ls, IFTODT (l_flags ls)) # used (e # es1)"
      have "used es = [] @ used (e # es1)" "used es' = [] @ (l_name ls, l_inode ls, IFTODT (l_flags ls)) # used (e # es1)" using a(4) Cons by simp_all
      then have "linked ls es ret (Inl 0) (ls\<lparr>l_done := l_done ls + 1\<rparr>) es'" unfolding linked_def by blast
      moreover have "dir_block link_proc blk blksize dir_size pos off ret m ls (put_blk s blk blksize m) =
          Some (Inl 0, m', ls\<lparr>l_done := l_done ls + 1\<rparr>, put_blk s blk blksize m')" using step [OF a(1), of ret] by simp
      ultimately show ?thesis using a(2,3) by blast
    next
      fix m2 e2 u es2
      assume a: "link_proc ls m off (off mod DIRBLKSIZ) = Some (DIRENT_CHANGED, m2, ls)" "lays m2 off (e2 # u # es2) z" "e_ino u = 0"
        "need \<le> e_len u" "used (e2 # u # es2) = used (e # es1)" "\<forall>i. i < off \<or> z \<le> i \<longrightarrow> m2 i = m i"
      define o2 where "o2 = off + e_len e2"
      have lu: "lays m2 o2 (u # es2) z" and o2: "d_reclen m2 off = e_len e2" "off \<le> o2" using a(2) by (auto simp: o2_def ent_at_def ent_fits_def)
      have bu: "o2 < blksize" "pos + o2 < dir_size" using lu z(1) ent_fits_len [of o2 u] lays_le [of m2 "o2 + e_len u" es2 z] by auto
      obtain rt ma and ea :: dent where "link_absorb DIRBLKSIZ m2 o2 (o2 mod DIRBLKSIZ) = (rt, e_len ea, ma)" "e_len u \<le> e_len ea"
        using link_absorb_run [OF lu z(2)] by blast
      then have "need \<le> fst (snd (link_absorb DIRBLKSIZ m2 o2 (o2 mod DIRBLKSIZ)))" using a(4) by simp
      then obtain m' es' where f: "link_proc ls m2 o2 (o2 mod DIRBLKSIZ) = Some (DIRENT_ABORT OR DIRENT_CHANGED, m', ls\<lparr>l_done := l_done ls + 1\<rparr>)"
        "lays m' o2 es' z" "\<forall>i. i < o2 \<or> z \<le> i \<longrightarrow> m' i = m2 i" "used es' = (l_name ls, l_inode ls, IFTODT (l_flags ls)) # used (u # es2)"
        using link_proc_unused [OF ok lu z(2) a(3)] unfolding need_def by blast
      have "dir_block link_proc blk blksize dir_size pos off ret m ls (put_blk s blk blksize m) =
          Some (Inl 0, m', ls\<lparr>l_done := l_done ls + 1\<rparr>, put_blk s blk blksize m')"
        using step [OF a(1), of ret] dir_block_step [of link_proc, OF f(1) bu io] o2(1) by (simp add: o2_def)
      moreover have "ent_at m' off e2"
        using ent_at_cong [of off e2 m' m2] a(2) f(3) by (simp add: o2_def)
      then have "lays m' off (e2 # es') z" using a(2) f(2) by (simp add: o2_def)
      moreover have "\<forall>i. i < off \<or> z \<le> i \<longrightarrow> m' i = m i" using a(6) f(3) o2(2) by auto
      moreover have "used es = used [e2] @ used (u # es2)" "used (e2 # es') = used [e2] @ (l_name ls, l_inode ls, IFTODT (l_flags ls)) # used (u # es2)"
        unfolding Cons a(5) [symmetric] using f(4) by simp_all
      then have "linked ls es ret (Inl 0) (ls\<lparr>l_done := l_done ls + 1\<rparr>) (e2 # es')" unfolding linked_def by blast
      ultimately show ?thesis by blast
    next
      fix r m1 e1 es2
      assume a: "link_proc ls m off (off mod DIRBLKSIZ) = Some (r, m1, ls)" "lays m1 off (e1 # es2) z" "length es2 \<le> length es1"
        "used (e1 # es2) = used (e # es1)" "\<not> roomy need e1" "list_ex (roomy need) (e # es1) \<longrightarrow> list_ex (roomy need) (e1 # es2)"
        "\<forall>i. i < off \<or> z \<le> i \<longrightarrow> m1 i = m i" and r: "r \<noteq> DIRENT_CHANGED \<longrightarrow> r = 0 \<and> m1 = m"
      define o2 where "o2 = off + e_len e1"
      have o2: "d_reclen m1 off = e_len e1" "off \<le> o2" "lays m1 o2 es2 z" using a(2) by (auto simp: o2_def ent_at_def ent_fits_def)
      have "length es2 < length es" using a(3) Cons by simp
      then obtain res m' ls' es' where i: "dir_block link_proc blk blksize dir_size pos o2 r m1 ls (put_blk s blk blksize m1) =
          Some (res, m', ls', put_blk s blk blksize m')" "lays m' o2 es' z" "\<forall>i. i < o2 \<or> z \<le> i \<longrightarrow> m' i = m1 i" "linked ls es2 r res ls' es'"
        using 1(1) o2(3) by blast
      have "dir_block link_proc blk blksize dir_size pos off ret m ls (put_blk s blk blksize m) = Some (res, m', ls', put_blk s blk blksize m')"
        using step [OF a(1), of ret] r i(1) o2(1) by (cases "r = 1") (simp_all add: o2_def)
      moreover have "ent_at m' off e1" using ent_at_cong [of off e1 m' m1] a(2) i(3) by (simp add: o2_def)
      then have "lays m' off (e1 # es') z" using a(2) i(2) by (simp add: o2_def)
      moreover have "\<forall>i. i < off \<or> z \<le> i \<longrightarrow> m' i = m i" using a(7) i(3) o2(2) by auto
      moreover have "linked ls es ret res ls' (e1 # es')"
        unfolding Cons using linked_Cons [OF i(4) a(4)] a(5,6) r unfolding need_def by blast
      ultimately show ?thesis by blast
    qed
  qed
qed

subsection \<open>Edits of a directory\<close>

text \<open>A directory in the direct blocks of its inode, whose blocks overlap neither each other nor a block of
  inodes.\<close>

definition apart :: "int \<Rightarrow> int \<Rightarrow> int \<Rightarrow> bool" where
  "apart n a b \<longleftrightarrow> a + n \<le> b \<or> b + n \<le> a"

definition dir_base :: "uufsd \<Rightarrow> inode \<Rightarrow> int \<Rightarrow> int" where
  "dir_base s ip j = blk_base s (di_db (i_din2 ip) j)"

definition dir_apart :: "uufsd \<Rightarrow> inode \<Rightarrow> bool" where
  "dir_apart s ip \<longleftrightarrow> (let n = howmany (i_size ip) (fs_bsize (d_fs s)); b = fs_bsize (d_fs s) in n \<le> NDADDR \<and>
     (\<forall>i j. 0 \<le> i \<longrightarrow> i < j \<longrightarrow> j < n \<longrightarrow> apart b (dir_base s ip i) (dir_base s ip j)) \<and>
     (\<forall>i k. 0 \<le> i \<longrightarrow> i < n \<longrightarrow> 0 \<le> k \<longrightarrow> apart b (dir_base s ip i) (ino_addr s k)))"

lemma io_size_le: "ufs_inode_io_size fs ip pos False \<le> fs_bsize fs"
  by (simp add: ufs_inode_io_size_def Let_def)

lemma dir_base_upd: "dir_base (s\<lparr>dev_data := d\<rparr>) ip j = dir_base s ip j" "ino_addr (s\<lparr>dev_data := d\<rparr>) k = ino_addr s k"
  by (simp_all add: dir_base_def blk_base_def ino_addr_def)

lemma dir_apart_upd: "dir_apart (s\<lparr>dev_data := d\<rparr>) ip = dir_apart s ip"
  by (simp add: dir_apart_def dir_base_upd)

lemma dir_holds_frame:
  assumes "dir_holds s ip i pos ess" "0 \<le> i" "howmany (i_size ip) (fs_bsize (d_fs s)) \<le> NDADDR"
    "\<And>j x. i \<le> j \<Longrightarrow> j < howmany (i_size ip) (fs_bsize (d_fs s)) \<Longrightarrow> dir_base s ip j \<le> x \<Longrightarrow> x < dir_base s ip j + fs_bsize (d_fs s) \<Longrightarrow> d x = dev_data s x"
  shows "dir_holds (s\<lparr>dev_data := d\<rparr>) ip i pos ess"
  using assms
proof (induction ess arbitrary: i pos)
  case (Cons es ess)
  define sz where "sz = ufs_inode_io_size (d_fs s) ip pos False"
  have i: "i < howmany (i_size ip) (fs_bsize (d_fs s))" "i < NDADDR" using Cons.prems(1,3) by auto
  obtain blk where b: "ufs_bmap ip (u32 i) 0 s = Some (0, blk)" "0 \<le> fsbtodb (d_fs s) blk" "0 < sz" "min sz (i_size ip - pos) mod DIRBLKSIZ = 0"
    "lays (\<lambda>x. dev_data s (blk_base s blk + x)) 0 es (min sz (i_size ip - pos))"
    using Cons.prems(1) by (auto simp: sz_def)
  have bm: "blk = di_db (i_din2 ip) i" "ufs_bmap ip (u32 i) 0 (s\<lparr>dev_data := d\<rparr>) = Some (0, blk)"
    using b(1) bmap_direct [OF Cons.prems(2) i(2)] by (auto split: if_splits)
  have "lays (\<lambda>x. d (blk_base s blk + x)) 0 es (min sz (i_size ip - pos))"
    by (rule lays_cong [OF _ b(5)], rule Cons.prems(4) [symmetric, of i]) (use i(1) bm(1) io_size_le [of "d_fs s" ip pos] in \<open>auto simp: dir_base_def sz_def\<close>)
  moreover have "dir_holds (s\<lparr>dev_data := d\<rparr>) ip (i + 1) (pos + sz) ess"
  proof (rule Cons.IH)
    show "d x = dev_data s x" if "i + 1 \<le> j" "j < howmany (i_size ip) (fs_bsize (d_fs s))" "dir_base s ip j \<le> x" "x < dir_base s ip j + fs_bsize (d_fs s)" for j x
      by (rule Cons.prems(4) [of j]) (use that in auto)
  qed (use Cons.prems in \<open>auto simp: sz_def\<close>)
  ultimately show ?case using b bm(2) i(1) by (simp add: sz_def blk_base_def)
qed simp

text \<open>How an edit changes the blocks: it passes some and stops at one, or passes all.\<close>

inductive edits :: "('p \<Rightarrow> dent list \<Rightarrow> 'p \<Rightarrow> dent list \<Rightarrow> bool) \<Rightarrow> ('p \<Rightarrow> dent list \<Rightarrow> 'p \<Rightarrow> dent list \<Rightarrow> bool) \<Rightarrow>
    'p \<Rightarrow> dent list list \<Rightarrow> 'p \<Rightarrow> dent list list \<Rightarrow> bool \<Rightarrow> bool" for Pass Stop where
  edits_Nil: "edits Pass Stop p [] p [] False"
| edits_Stop: "Stop p es p' es' \<Longrightarrow> edits Pass Stop p (es # ess) p' (es' # ess) True"
| edits_Pass: "Pass p es p1 es1 \<Longrightarrow> edits Pass Stop p1 ess p' ess' b \<Longrightarrow> edits Pass Stop p (es # ess) p' (es1 # ess') b"

locale dir_edit =
  fixes func :: "'p dirfunc" and ok :: "'p \<Rightarrow> bool" and pre :: "'p \<Rightarrow> dent list \<Rightarrow> bool"
    and Pass Stop :: "'p \<Rightarrow> dent list \<Rightarrow> 'p \<Rightarrow> dent list \<Rightarrow> bool"
  assumes pass_ok: "Pass p es p' es' \<Longrightarrow> ok p \<Longrightarrow> ok p' \<and> pre p' = pre p"
    and block: "ok p \<Longrightarrow> pre p es \<Longrightarrow> io_ok s \<Longrightarrow> 0 \<le> fsbtodb (d_fs s) blk \<Longrightarrow> 0 < blksize \<Longrightarrow> z = min blksize (dir_size - pos) \<Longrightarrow>
      z mod DIRBLKSIZ = 0 \<Longrightarrow> lays m 0 es z \<Longrightarrow>
      \<exists>res m' p' es'. dir_block func blk blksize dir_size pos 0 0 m p (put_blk s blk blksize m) = Some (res, m', p', put_blk s blk blksize m') \<and>
        lays m' 0 es' z \<and> (res = Inl 0 \<and> Stop p es p' es' \<or> (res = Inr 0 \<or> res = Inr DIRENT_CHANGED) \<and> Pass p es p' es')"
begin

lemma blocks_edit:
  assumes "io_ok s" "dir_apart s ip" "dir_holds s ip i pos ess" "0 \<le> i" "ok p" "\<forall>es \<in> set ess. pre p es"
    "n = howmany (i_size ip) (fs_bsize (d_fs s))" "bsz = fs_bsize (d_fs s)"
  shows "\<exists>r p' d ess' b. dir_blocks func ip (i_size ip) n i pos ret buf p s = Some (r, p', s\<lparr>dev_data := d\<rparr>) \<and> edits Pass Stop p ess p' ess' b \<and>
      (if b then r = 0 else r = 0 \<or> r = DIRENT_CHANGED \<or> r = ret) \<and> dir_holds (s\<lparr>dev_data := d\<rparr>) ip i pos ess' \<and>
      (\<forall>x. (\<forall>j. i \<le> j \<longrightarrow> j < n \<longrightarrow> \<not> (dir_base s ip j \<le> x \<and> x < dir_base s ip j + bsz)) \<longrightarrow> d x = dev_data s x)"
  using assms
proof (induction ess arbitrary: i pos ret buf p s)
  case Nil
  have "dir_blocks func ip (i_size ip) n i pos ret buf p s = Some (ret, p, s\<lparr>dev_data := dev_data s\<rparr>)"
    using Nil.prems by (subst dir_blocks.simps) simp
  moreover have "dir_holds (s\<lparr>dev_data := dev_data s\<rparr>) ip i pos []" using Nil.prems by simp
  moreover note edits_Nil [of Pass Stop p]
  ultimately show ?case by (intro exI [of _ ret] exI [of _ p] exI [of _ "dev_data s"] exI [of _ "[]"] exI [of _ False]) simp
next
  case (Cons es ess)
  define sz where "sz = ufs_inode_io_size (d_fs s) ip pos False"
  define z where "z = min sz (i_size ip - pos)"
  obtain blk where b: "ufs_bmap ip (u32 i) 0 s = Some (0, blk)" "0 \<le> fsbtodb (d_fs s) blk" "0 < sz" "z mod DIRBLKSIZ = 0"
    "lays (\<lambda>x. dev_data s (blk_base s blk + x)) 0 es z"
    using Cons.prems(3) by (auto simp: sz_def z_def)
  have i: "i < n" "n \<le> NDADDR" "dir_holds s ip (i + 1) (pos + sz) ess" using Cons.prems(2,3,7) by (auto simp: dir_apart_def Let_def sz_def)
  have blk: "blk_base s blk = dir_base s ip i" using b(1) bmap_direct [OF Cons.prems(4), of ip 0 s] i by (auto simp: dir_base_def split: if_splits)
  have szb: "sz \<le> bsz" using io_size_le Cons.prems(8) by (simp add: sz_def)
  define m where "m = memcpy buf 0 (dev_data s) (fsbtodb (d_fs s) blk * d_bsize s) sz"
  have lm: "lays m 0 es z" by (rule lays_cong [OF _ b(5)]) (simp add: m_def memcpy_def blk_base_def z_def)
  have ps: "put_blk s blk sz m = s" by (rule put_blk_same) (simp add: m_def memcpy_def blk_base_def)
  have "pre p es" using Cons.prems(6) by simp
  from block [OF Cons.prems(5) this Cons.prems(1) b(2,3) z_def b(4) lm]
  obtain res m' p1 es1 where db: "dir_block func blk sz (i_size ip) pos 0 0 m p s = Some (res, m', p1, put_blk s blk sz m')" "lays m' 0 es1 z"
    "res = Inl 0 \<and> Stop p es p1 es1 \<or> (res = Inr 0 \<or> res = Inr DIRENT_CHANGED) \<and> Pass p es p1 es1"
    unfolding ps by blast
  define d1 where "d1 = memcpy (dev_data s) (blk_base s blk) m' 0 sz"
  have s1: "put_blk s blk sz m' = s\<lparr>dev_data := d1\<rparr>" by (simp add: put_blk_def d1_def)
  have out: "d1 x = dev_data s x" if "\<not> (dir_base s ip i \<le> x \<and> x < dir_base s ip i + bsz)" for x
    using that szb by (auto simp: d1_def memcpy_def blk)
  have in1: "d1 (blk_base s blk + x) = m' x" if "0 \<le> x" "x < z" for x using that by (simp add: d1_def memcpy_def z_def)
  have rest: "dir_holds (s\<lparr>dev_data := d1\<rparr>) ip (i + 1) (pos + sz) ess"
  proof (rule dir_holds_frame [OF i(3)])
    fix j x assume j: "i + 1 \<le> j" "j < howmany (i_size ip) (fs_bsize (d_fs s))" "dir_base s ip j \<le> x" "x < dir_base s ip j + fs_bsize (d_fs s)"
    have "apart bsz (dir_base s ip i) (dir_base s ip j)" using Cons.prems(2,4,8) j by (auto simp: dir_apart_def Let_def)
    then show "d1 x = dev_data s x" using j(3,4) Cons.prems(8) by (intro out) (auto simp: apart_def)
  qed (use Cons.prems i in auto)
  have first: "dir_holds (s\<lparr>dev_data := d\<rparr>) ip i pos (es1 # ess')"
    if "dir_holds (s\<lparr>dev_data := d\<rparr>) ip (i + 1) (pos + sz) ess'" "\<And>x. dir_base s ip i \<le> x \<Longrightarrow> x < dir_base s ip i + bsz \<Longrightarrow> d x = d1 x" for d ess'
  proof -
    have "lays (\<lambda>x. d (blk_base s blk + x)) 0 es1 z"
      by (rule lays_cong [OF _ db(2)]) (use that(2) in1 szb blk in \<open>auto simp: z_def\<close>)
    moreover have "ufs_bmap ip (u32 i) 0 (s\<lparr>dev_data := d\<rparr>) = Some (0, blk)"
      using b(1) bmap_direct [OF Cons.prems(4), of ip 0] i by (auto split: if_splits)
    ultimately show ?thesis using that(1) b(2-4) i(1) Cons.prems(7) by (auto simp: sz_def [symmetric] z_def blk_base_def)
  qed
  have run: "dir_blocks func ip (i_size ip) n i pos ret buf p s =
      (case res of Inl r \<Rightarrow> Some (r, p1, s\<lparr>dev_data := d1\<rparr>)
       | Inr r \<Rightarrow> dir_blocks func ip (i_size ip) n (i + 1) (pos + sz) r m' p1 (s\<lparr>dev_data := d1\<rparr>))"
    by (subst dir_blocks.simps)
      (use i(1) b(1,3) blkread_ok [OF Cons.prems(1) b(2,3)] db(1) s1 in \<open>simp add: Let_def sz_def [symmetric] m_def [symmetric] split: sum.split\<close>)
  consider (stop) "res = Inl 0" "Stop p es p1 es1" | (pass) r where "res = Inr r" "r = 0 \<or> r = DIRENT_CHANGED" "Pass p es p1 es1"
    using db(3) by blast
  then show ?case
  proof cases
    case stop
    moreover have "dir_holds (s\<lparr>dev_data := d1\<rparr>) ip i pos (es1 # ess)" by (rule first [OF rest]) simp
    ultimately show ?thesis using run out edits_Stop [of Stop p es p1 es1 Pass ess] i(1)
      by (intro exI [of _ 0] exI [of _ p1] exI [of _ d1] exI [of _ "es1 # ess"] exI [of _ True]) auto
  next
    case pass
    have ok1: "ok p1" "\<forall>es \<in> set ess. pre p1 es" using pass_ok [OF pass(3) Cons.prems(5)] Cons.prems(6) by auto
    obtain r' p' d ess' c where ih: "dir_blocks func ip (i_size ip) n (i + 1) (pos + sz) r m' p1 (s\<lparr>dev_data := d1\<rparr>) = Some (r', p', s\<lparr>dev_data := d\<rparr>)"
      "edits Pass Stop p1 ess p' ess' c" "if c then r' = 0 else r' = 0 \<or> r' = DIRENT_CHANGED \<or> r' = r" "dir_holds (s\<lparr>dev_data := d\<rparr>) ip (i + 1) (pos + sz) ess'"
      "\<forall>x. (\<forall>j. i + 1 \<le> j \<longrightarrow> j < n \<longrightarrow> \<not> (dir_base s ip j \<le> x \<and> x < dir_base s ip j + bsz)) \<longrightarrow> d x = d1 x"
      using Cons.IH [of "s\<lparr>dev_data := d1\<rparr>" "i + 1" "pos + sz" p1 r m'] Cons.prems rest ok1 by (auto simp: dir_apart_upd dir_base_upd)
    have "d x = d1 x" if "dir_base s ip i \<le> x" "x < dir_base s ip i + bsz" for x
    proof (rule ih(5) [rule_format])
      fix j assume j: "i + 1 \<le> j" "j < n"
      have "apart bsz (dir_base s ip i) (dir_base s ip j)" using Cons.prems(2,4,7,8) j by (auto simp: dir_apart_def Let_def)
      then show "\<not> (dir_base s ip j \<le> x \<and> x < dir_base s ip j + bsz)" using that by (auto simp: apart_def)
    qed
    then have "dir_holds (s\<lparr>dev_data := d\<rparr>) ip i pos (es1 # ess')" by (rule first [OF ih(4)])
    moreover have "\<forall>x. (\<forall>j. i \<le> j \<longrightarrow> j < n \<longrightarrow> \<not> (dir_base s ip j \<le> x \<and> x < dir_base s ip j + bsz)) \<longrightarrow> d x = dev_data s x"
      using ih(5) out i(1) by (metis order.refl order.trans zle_add1_eq_le less_le)
    moreover have "if c then r' = 0 else r' = 0 \<or> r' = DIRENT_CHANGED \<or> r' = ret" using ih(3) pass(2) by auto
    moreover have "dir_blocks func ip (i_size ip) n i pos ret buf p s = Some (r', p', s\<lparr>dev_data := d\<rparr>)" using run pass(1) ih(1) by simp
    moreover note edits_Pass [where Pass = Pass, OF pass(3) ih(2)]
    ultimately show ?thesis by blast
  qed
qed

end

text \<open>What an edit of directory \<open>ino\<close> leaves as it was: every vnode, every inode, the super block, and the device
  outside the blocks of the directory.\<close>

definition dir_edited :: "world \<Rightarrow> int \<Rightarrow> world \<Rightarrow> bool" where
  "dir_edited w ino w' \<longleftrightarrow> vview w' = vview w \<and> (\<forall>n > 0. inode_of w' n = inode_of w n) \<and> dir_apart (w_ufs w') (inode_of w' ino) \<and>
     d_fs (w_ufs w') = d_fs (w_ufs w) \<and> w_files w' = w_files w \<and> w_uid w' = w_uid w \<and> w_gid w' = w_gid w \<and>
     (\<forall>x. (\<forall>j. 0 \<le> j \<longrightarrow> j < howmany (i_size (inode_of w ino)) (fs_bsize (d_fs (w_ufs w))) \<longrightarrow>
         \<not> (dir_base (w_ufs w) (inode_of w ino) j \<le> x \<and> x < dir_base (w_ufs w) (inode_of w ino) j + fs_bsize (d_fs (w_ufs w)))) \<longrightarrow>
       dev_data (w_ufs w') x = dev_data (w_ufs w) x)"

lemma same_disk_geom:
  assumes "same_disk s s'"
  shows "dir_base s' ip j = dir_base s ip j" "ino_addr s' k = ino_addr s k" "ino_slot s' k = ino_slot s k" "dir_apart s' ip = dir_apart s ip"
  by (simp_all add: dir_base_def ino_slot_def ino_addr_def dir_apart_def same_diskD [OF assms] Let_def)

lemma ino_slot_in_block:
  assumes "ino_geom s"
  shows "ino_addr s k \<le> ino_slot s k" "ino_slot s k + 256 \<le> ino_addr s k + fs_bsize (d_fs s)"
proof -
  have p: "0 < fs_inopb (d_fs s)" "fs_bsize (d_fs s) = 256 * fs_inopb (d_fs s)" using ino_geomD [OF assms] by auto
  have "0 \<le> k mod fs_inopb (d_fs s)" "k mod fs_inopb (d_fs s) < fs_inopb (d_fs s)" using p(1) by simp_all
  then show "ino_addr s k \<le> ino_slot s k" "ino_slot s k + 256 \<le> ino_addr s k + fs_bsize (d_fs s)"
    using p(2) by (simp_all add: ino_slot_def INOPB_def)
qed

text \<open>Writing outside the blocks of inodes keeps the state sound and every inode as it is.\<close>

lemma world_ok_write:
  assumes wo: "world_ok w"
    and d: "\<And>k x. 0 \<le> k \<Longrightarrow> ino_addr (w_ufs w) k \<le> x \<Longrightarrow> x < ino_addr (w_ufs w) k + fs_bsize (d_fs (w_ufs w)) \<Longrightarrow> d x = dev_data (w_ufs w) x"
  shows "world_ok (w\<lparr>w_ufs := (w_ufs w)\<lparr>dev_data := d\<rparr>\<rparr>)" "0 \<le> n \<Longrightarrow> inode_of (w\<lparr>w_ufs := (w_ufs w)\<lparr>dev_data := d\<rparr>\<rparr>) n = inode_of w n"
proof -
  define s where "s = w_ufs w"
  have g: "vtab_ok w" "ino_geom s" "ino_cache_ok s" using wo by (auto simp: world_ok_def s_def)
  have "ino_geom (s\<lparr>dev_data := d\<rparr>)" using g(2) by (simp add: ino_geom_def disk_ok_def)
  moreover have "ino_cache_ok (s\<lparr>dev_data := d\<rparr>)"
    unfolding ino_cache_ok_def
  proof (intro impI)
    assume "d_inomin (s\<lparr>dev_data := d\<rparr>) < d_inomax (s\<lparr>dev_data := d\<rparr>)"
    then obtain b where c: "0 \<le> d_inomin s" "d_inomax s = d_inomin s + INOPB (d_fs s)" "d_inomin s mod INOPB (d_fs s) = 0" "d_inoblock s = Some b"
      "\<forall>i \<in> {0..<fs_bsize (d_fs s)}. b i = dev_data s (ino_addr s (d_inomin s) + i)"
      using g(3) by (auto simp: ino_cache_ok_def)
    have "\<forall>i \<in> {0..<fs_bsize (d_fs s)}. b i = d (ino_addr s (d_inomin s) + i)"
      using c(1,5) d [of "d_inomin s"] by (simp add: s_def)
    then show "0 \<le> d_inomin (s\<lparr>dev_data := d\<rparr>) \<and> d_inomax (s\<lparr>dev_data := d\<rparr>) = d_inomin (s\<lparr>dev_data := d\<rparr>) + INOPB (d_fs (s\<lparr>dev_data := d\<rparr>)) \<and>
      d_inomin (s\<lparr>dev_data := d\<rparr>) mod INOPB (d_fs (s\<lparr>dev_data := d\<rparr>)) = 0 \<and>
      (\<exists>b. d_inoblock (s\<lparr>dev_data := d\<rparr>) = Some b \<and>
        (\<forall>i \<in> {0..<fs_bsize (d_fs (s\<lparr>dev_data := d\<rparr>))}. b i = dev_data (s\<lparr>dev_data := d\<rparr>) (ino_addr (s\<lparr>dev_data := d\<rparr>) (d_inomin (s\<lparr>dev_data := d\<rparr>)) + i)))"
      using c by (simp add: dir_base_upd)
  qed
  ultimately show "world_ok (w\<lparr>w_ufs := (w_ufs w)\<lparr>dev_data := d\<rparr>\<rparr>)"
    using g(1) by (simp add: world_ok_def vtab_ok_def table_ufs s_def)
  assume n: "0 \<le> n"
  have sl: "ino_slot (s\<lparr>dev_data := d\<rparr>) n = ino_slot s n" by (simp add: ino_slot_def ino_addr_def)
  have "d (ino_slot s n + i) = dev_data s (ino_slot s n + i)" if "0 \<le> i" "i < 256" for i
    using d [OF n, of "ino_slot s n + i"] ino_slot_in_block [OF g(2), of n] that by (simp add: s_def)
  then have "\<forall>i \<in> {0..<256}. d (ino_slot s n + i) = dev_data s (ino_slot s n + i)" by simp
  then have "dinode_at (s\<lparr>dev_data := d\<rparr>) n = dinode_at s n" by (auto simp: dinode_at_def memcpy_def fun_eq_iff sl)
  then show "inode_of (w\<lparr>w_ufs := (w_ufs w)\<lparr>dev_data := d\<rparr>\<rparr>) n = inode_of w n"
    by (simp add: inode_of_def table_ufs disk_inode_def s_def split: option.split)
qed

context dir_edit
begin

lemma iterate_edit:
  assumes wo: "world_ok w" and d: "dir_view w ino ess" and ap: "dir_apart (w_ufs w) (inode_of w ino)" and p: "ok p" "\<forall>es \<in> set ess. pre p es"
  shows "\<exists>r p' w' ess' b. ufs_dir_iterate ino func p w = Some (r, p', w') \<and> world_ok w' \<and> edits Pass Stop p ess p' ess' b \<and>
    (if b then r = 0 else r = 0 \<or> r = DIRENT_CHANGED) \<and> dir_view w' ino ess' \<and> dir_edited w ino w'"
proof -
  define ip where "ip = inode_of w ino"
  have h: "0 < ino" "1 \<le> i_nlink ip" "dir_holds (w_ufs w) ip 0 0 ess" using d by (auto simp: dir_view_def ip_def)
  obtain q w1 c where g: "vnode_get ino w = Some (Some q, w1)" "world_ok w1" "vview w1 = (vview w)(q \<mapsto> (ino, c, ip))"
    "vview w q = (if c = 1 then None else Some (ino, c - 1, ip))" "0 < c" "same_disk (w_ufs w) (w_ufs w1)"
    and fr: "w_files w1 = w_files w" "w_uid w1 = w_uid w" "w_gid w1 = w_gid w"
    using take_vnode [OF wo h(1)] unfolding ip_def by blast
  note sd = same_diskD [OF g(6)] same_disk_geom [OF g(6)]
  have x1: "vview w1 q = Some (ino, c, ip)" by (simp add: g(3))
  have gi: "get_inode q w1 = Some ip" using x1 by (auto simp: get_inode_def vview_Some)
  have io: "io_ok (w_ufs w1)" "env_mem (w_ufs w1)" using g(2) ino_geomD(2) io_ok_mem by (auto simp: world_ok_def)
  have dh: "dir_holds (w_ufs w1) ip 0 0 ess" using h(3) dir_holds_same [OF g(6)] by simp
  have ap1: "dir_apart (w_ufs w1) ip" using ap sd by (simp add: ip_def)
  obtain r p' da ess' b where e: "dir_blocks func ip (i_size ip) (howmany (i_size ip) (fs_bsize (d_fs (w_ufs w1)))) 0 0 0 (env_junk (w_ufs w1)) p (w_ufs w1) =
      Some (r, p', (w_ufs w1)\<lparr>dev_data := da\<rparr>)" "edits Pass Stop p ess p' ess' b" "if b then r = 0 else r = 0 \<or> r = DIRENT_CHANGED \<or> r = 0"
    "dir_holds ((w_ufs w1)\<lparr>dev_data := da\<rparr>) ip 0 0 ess'"
    "\<forall>x. (\<forall>j. 0 \<le> j \<longrightarrow> j < howmany (i_size ip) (fs_bsize (d_fs (w_ufs w1))) \<longrightarrow>
       \<not> (dir_base (w_ufs w1) ip j \<le> x \<and> x < dir_base (w_ufs w1) ip j + fs_bsize (d_fs (w_ufs w1)))) \<longrightarrow> da x = dev_data (w_ufs w1) x"
    using blocks_edit [OF io(1) ap1 dh order_refl p refl refl, of 0] by blast
  have ni: "da x = dev_data (w_ufs w1) x" if "0 \<le> k" "ino_addr (w_ufs w1) k \<le> x" "x < ino_addr (w_ufs w1) k + fs_bsize (d_fs (w_ufs w1))" for k x
  proof (rule e(5) [rule_format])
    fix j assume j: "0 \<le> j" "j < howmany (i_size ip) (fs_bsize (d_fs (w_ufs w1)))"
    have "apart (fs_bsize (d_fs (w_ufs w1))) (dir_base (w_ufs w1) ip j) (ino_addr (w_ufs w1) k)" using ap1 j that(1) by (simp add: dir_apart_def Let_def)
    then show "\<not> (dir_base (w_ufs w1) ip j \<le> x \<and> x < dir_base (w_ufs w1) ip j + fs_bsize (d_fs (w_ufs w1)))" using that by (auto simp: apart_def)
  qed
  define w2 where "w2 = w1\<lparr>w_ufs := (w_ufs w1)\<lparr>dev_data := da\<rparr>\<rparr>"
  have w2: "world_ok w2" "\<And>n. 0 \<le> n \<Longrightarrow> inode_of w2 n = inode_of w1 n" unfolding w2_def by (rule world_ok_write [OF g(2) ni]; simp)+
  have v2: "vview w2 = vview w1" by (simp add: vview_def w2_def fun_eq_iff)
  then have x2: "vview w2 q = Some (ino, c, ip)" by (simp add: g(3))
  obtain w3 where w3: "vnode_put q False w2 = Some (0, w3)" "world_ok w3" "vview w3 = (vview w2)(q := if c \<le> 1 then None else Some (ino, c - 1, ip))"
    "w_ufs w3 = w_ufs w2" "w_files w3 = w_files w2" "w_uid w3 = w_uid w2" "w_gid w3 = w_gid w2"
    using drop_vnode [OF w2(1) x2 h(1,2)] by blast
  have v3: "vview w3 = vview w" using w3(3) v2 g(3-5) by (auto simp: fun_eq_iff)
  have vm: "vmap w3 = vmap w" by (rule vmap_vview [OF wo w3(2) v3])
  have di: "disk_inode w3 n = disk_inode w n" if "0 < n" for n
  proof -
    have "\<forall>i \<in> {0..<256}. da (ino_slot (w_ufs w1) n + i) = dev_data (w_ufs w1) (ino_slot (w_ufs w1) n + i)"
      using ni [of n] ino_slot_in_block [of "w_ufs w1" n] g(2) that by (simp add: world_ok_def)
    moreover have "ino_slot (w_ufs w3) n = ino_slot (w_ufs w1) n" by (simp add: w3(4) w2_def ino_slot_def ino_addr_def)
    ultimately have "dinode_at (w_ufs w3) n = dinode_at (w_ufs w) n" using sd by (auto simp: dinode_at_def memcpy_def fun_eq_iff w3(4) w2_def)
    then show ?thesis by (simp add: disk_inode_def)
  qed
  have io3: "inode_of w3 n = inode_of w n" if "0 < n" for n by (simp add: inode_of_def vm di [OF that] split: option.split)
  have "dir_view w3 ino ess'" using h(1,2) e(4) io3 [OF h(1)] by (simp add: dir_view_def ip_def w3(4) w2_def)
  moreover have "dir_edited w ino w3"
    using v3 io3 ap h(1) e(5) sd fr w3(5-7) by (simp add: dir_edited_def w3(4) w2_def dir_apart_upd ip_def [symmetric])
  moreover have "ufs_dir_iterate ino func p w = Some (r, p', w3)"
    using g(1) gi io(2) e(1) w3(1) by (simp add: ufs_dir_iterate_def w2_def)
  moreover have "if b then r = 0 else r = 0 \<or> r = DIRENT_CHANGED" using e(3) by (auto split: if_splits)
  ultimately show ?thesis using w3(2) e(2) by blast
qed

end

subsection \<open>Adding an entry to a directory\<close>

definition link_pass :: "link_struct \<Rightarrow> dent list \<Rightarrow> link_struct \<Rightarrow> dent list \<Rightarrow> bool" where
  "link_pass ls es ls' es' \<longleftrightarrow> \<not> list_ex (roomy (UFS_DIR_REC_LEN (l_namelen ls))) es \<and> ls' = ls \<and> used es' = used es"

definition link_stop :: "link_struct \<Rightarrow> dent list \<Rightarrow> link_struct \<Rightarrow> dent list \<Rightarrow> bool" where
  "link_stop ls es ls' es' \<longleftrightarrow> ls' = ls\<lparr>l_done := l_done ls + 1\<rparr> \<and>
     (\<exists>xs ys. used es = xs @ ys \<and> used es' = xs @ (l_name ls, l_inode ls, IFTODT (l_flags ls)) # ys)"

interpretation ln: dir_edit link_proc link_ok "\<lambda>_ _. True" link_pass link_stop
proof
  fix ls :: link_struct and es s blk blksize z dir_size pos m
  assume a: "link_ok ls" "io_ok s" "0 \<le> fsbtodb (d_fs s) blk" "0 < blksize" "z = min blksize (dir_size - pos)" "z mod DIRBLKSIZ = 0" "lays m 0 es z"
  obtain res m' ls' es' where r: "dir_block link_proc blk blksize dir_size pos 0 0 m ls (put_blk s blk blksize m) = Some (res, m', ls', put_blk s blk blksize m')"
    "lays m' 0 es' z" "linked ls es 0 res ls' es'" using link_block_run [OF a, of 0] by blast
  moreover have "res = Inl 0 \<and> link_stop ls es ls' es' \<or> (res = Inr 0 \<or> res = Inr DIRENT_CHANGED) \<and> link_pass ls es ls' es'"
    using r(3) unfolding linked_def link_stop_def link_pass_def by (auto split: if_splits)
  ultimately show "\<exists>res m' p' es'. dir_block link_proc blk blksize dir_size pos 0 0 m ls (put_blk s blk blksize m) = Some (res, m', p', put_blk s blk blksize m') \<and>
      lays m' 0 es' z \<and> (res = Inl 0 \<and> link_stop ls es p' es' \<or> (res = Inr 0 \<or> res = Inr DIRENT_CHANGED) \<and> link_pass ls es p' es')"
    by blast
qed (simp add: link_pass_def)

lemma edits_link:
  assumes "edits link_pass link_stop ls ess ls' ess' b"
  shows "if b then ls' = ls\<lparr>l_done := l_done ls + 1\<rparr> \<and>
        (\<exists>xs ys. used (concat ess) = xs @ ys \<and> used (concat ess') = xs @ (l_name ls, l_inode ls, IFTODT (l_flags ls)) # ys)
      else ls' = ls \<and> used (concat ess') = used (concat ess) \<and> \<not> list_ex (roomy (UFS_DIR_REC_LEN (l_namelen ls))) (concat ess)"
  using assms
proof (induction rule: edits.induct)
  case (edits_Stop p es p' es' ess)
  then obtain xs ys where "p' = p\<lparr>l_done := l_done p + 1\<rparr>" "used es = xs @ ys" "used es' = xs @ (l_name p, l_inode p, IFTODT (l_flags p)) # ys"
    by (auto simp: link_stop_def)
  then have "p' = p\<lparr>l_done := l_done p + 1\<rparr>" "used (concat (es # ess)) = xs @ (ys @ used (concat ess))"
    "used (concat (es' # ess)) = xs @ (l_name p, l_inode p, IFTODT (l_flags p)) # (ys @ used (concat ess))" by simp_all
  then show ?case by auto
next
  case (edits_Pass p es p1 es1 ess p' ess' b)
  have p: "p1 = p" "used es1 = used es" "\<not> list_ex (roomy (UFS_DIR_REC_LEN (l_namelen p))) es" using edits_Pass.hyps(1) by (auto simp: link_pass_def)
  show ?case
  proof (cases b)
    case True
    then obtain xs ys where "p' = p\<lparr>l_done := l_done p + 1\<rparr>" "used (concat ess) = xs @ ys" "used (concat ess') = xs @ (l_name p, l_inode p, IFTODT (l_flags p)) # ys"
      using edits_Pass.IH p(1) by auto
    then have "p' = p\<lparr>l_done := l_done p + 1\<rparr>" "used (concat (es # ess)) = (used es @ xs) @ ys"
      "used (concat (es1 # ess')) = (used es @ xs) @ (l_name p, l_inode p, IFTODT (l_flags p)) # ys" using p by simp_all
    then show ?thesis unfolding if_P [OF True] by blast
  qed (use edits_Pass.IH p in auto)
qed simp

lemma find_used:
  "dir_find name es = map_option (\<lambda>(n, i, t). i) (find (\<lambda>(n, i, t). n = name) (used es))"
  by (induction es) (auto simp: dir_find_def ent_named_def)

lemma find_insert:
  "find P (xs @ a # ys) = (if P a \<and> (\<forall>x \<in> set xs. \<not> P x) then Some a else find P (xs @ ys))"
  by (induction xs) auto

lemma dir_find_link:
  assumes "used es = xs @ ys" "used es' = xs @ (name, ino, t) # ys" "dir_find name es = None"
  shows "dir_find n es' = (if n = name then Some ino else dir_find n es)"
proof -
  have "\<forall>x \<in> set (xs @ ys). fst x \<noteq> name" using assms(1,3) by (auto simp: find_used find_None_iff)
  then show ?thesis using assms(1,2) by (auto simp: find_used find_insert case_prod_beta)
qed

lemma addname_run:
  assumes "world_ok w" "dir_view w dir ess" "dir_apart (w_ufs w) (inode_of w dir)" "fs_ronly (d_fs (w_ufs w)) = 0"
    "name \<noteq> []" "length name \<le> 255" "0 < ino" "ino < 2 ^ 32" "dir_find name (concat ess) = None"
    "list_ex (roomy (UFS_DIR_REC_LEN (int (length name)))) (concat ess)"
  shows "\<exists>w' ess'. ufs_addnamedir dir name ino flags w = Some (0, w') \<and> world_ok w' \<and> dir_view w' dir ess' \<and> dir_edited w dir w' \<and>
    (\<forall>n. dir_find n (concat ess') = (if n = name then Some ino else dir_find n (concat ess)))"
proof -
  define ls where "ls = \<lparr>l_name = name, l_namelen = int (length name), l_inode = ino, l_flags = flags, l_done = 0, l_blocksize = DIRBLKSIZ\<rparr>"
  have ok: "link_ok ls" using assms by (simp add: link_ok_def ls_def)
  obtain r ls' w' ess' b where e: "ufs_dir_iterate dir link_proc ls w = Some (r, ls', w')" "world_ok w'" "edits link_pass link_stop ls ess ls' ess' b"
    "if b then r = 0 else r = 0 \<or> r = DIRENT_CHANGED" "dir_view w' dir ess'" "dir_edited w dir w'"
    using ln.iterate_edit [OF assms(1-3) ok] by blast
  note l = edits_link [OF e(3)]
  have b: b using l assms(10) by (cases b) (auto simp: ls_def)
  obtain xs ys where u: "used (concat ess) = xs @ ys" "used (concat ess') = xs @ (name, ino, IFTODT flags) # ys" and d: "l_done ls' = 1"
    using l b by (auto simp: ls_def)
  have "ufs_addnamedir dir name ino flags w = Some (0, w')" using e(1,4) b d assms(4) by (simp add: ufs_addnamedir_def ls_def)
  then show ?thesis using e dir_find_link [OF u assms(9)] by blast
qed

text \<open>C20. Adding a name: \<open>ufs_addnamedir\<close> of a new name to a directory that has room for it returns 0; then the
  directory is well formed again and maps the new name to the inode and every other name to what it
  mapped it to before. Only the blocks of the directory change on the device.\<close>

theorem addnamedir_inserts:
  assumes "world_ok w" "dir_view w dir ess" "dir_apart (w_ufs w) (inode_of w dir)" "fs_ronly (d_fs (w_ufs w)) = 0"
    "name \<noteq> []" "length name \<le> 255" "0 < ino" "ino < 2 ^ 32" "dir_find name (concat ess) = None"
    "list_ex (roomy (UFS_DIR_REC_LEN (int (length name)))) (concat ess)"
  shows "\<exists>w' ess'. ufs_addnamedir dir name ino flags w = Some (0, w') \<and> world_ok w' \<and> dir_view w' dir ess' \<and> dir_edited w dir w' \<and>
    (\<forall>n. dir_find n (concat ess') = (if n = name then Some ino else dir_find n (concat ess)))"
  by (rule addname_run [OF assms])

text \<open>C25. A name that was added is found: \<open>ufs_lookup\<close> after \<open>ufs_addnamedir\<close> returns the inode that was linked,
  and for any other name what it returned before.\<close>

theorem addname_lookup_roundtrip:
  assumes "world_ok w" "dir_view w dir ess" "dir_apart (w_ufs w) (inode_of w dir)" "fs_ronly (d_fs (w_ufs w)) = 0"
    "name \<noteq> []" "length name \<le> 255" "0 < ino" "ino < 2 ^ 32" "dir_find name (concat ess) = None"
    "list_ex (roomy (UFS_DIR_REC_LEN (int (length name)))) (concat ess)"
  shows "\<exists>w1. ufs_addnamedir dir name ino flags w = Some (0, w1) \<and> (\<exists>w2. ufs_lookup dir name w1 = Some (0, ino, w2)) \<and>
    (\<forall>n. n \<noteq> name \<longrightarrow> map_option (\<lambda>(r, i, _). (r, i)) (ufs_lookup dir n w1) = map_option (\<lambda>(r, i, _). (r, i)) (ufs_lookup dir n w))"
proof -
  obtain w1 ess' where a: "ufs_addnamedir dir name ino flags w = Some (0, w1)" "world_ok w1" "dir_view w1 dir ess'"
    "\<forall>n. dir_find n (concat ess') = (if n = name then Some ino else dir_find n (concat ess))"
    using addname_run [OF assms] by blast
  have "\<exists>w2. ufs_lookup dir name w1 = Some (0, ino, w2)" using lookup_run [OF a(2,3), of name] a(4) by auto
  moreover have "map_option (\<lambda>(r, i, _). (r, i)) (ufs_lookup dir n w1) = map_option (\<lambda>(r, i, _). (r, i)) (ufs_lookup dir n w)" if "n \<noteq> name" for n
    using lookup_run [OF a(2,3), of n] lookup_run [OF assms(1,2), of n] a(4) that by (auto split: option.splits)
  ultimately show ?thesis using a(1) by blast
qed

subsection \<open>Removing an entry\<close>

definition unlink_target :: "unlink_struct \<Rightarrow> dent \<Rightarrow> bool" where
  "unlink_target ls e \<longleftrightarrow> ent_named (u_name ls) e \<and> (u_inode ls \<noteq> 0 \<longrightarrow> e_ino e = u_inode ls)"

text \<open>The first entry to remove begins its block of 512 bytes, or follows an entry in use.\<close>

fun prev_ok :: "(dent \<Rightarrow> bool) \<Rightarrow> int \<Rightarrow> bool \<Rightarrow> dent list \<Rightarrow> bool" where
  "prev_ok P off u [] \<longleftrightarrow> True"
| "prev_ok P off u (e # es) \<longleftrightarrow> (if P e then off mod DIRBLKSIZ = 0 \<or> u else prev_ok P (off + e_len e) (e_ino e \<noteq> 0) es)"

definition unlink_ok :: "unlink_struct \<Rightarrow> bool" where
  "unlink_ok ls \<longleftrightarrow> u_namelen ls = int (length (u_name ls))"

lemma unlink_proc_eq:
  assumes "unlink_ok ls" "ent_at m off e"
  shows "unlink_proc ls m off k =
    (if e_ino e = 0 then Some (0, m, ls)
     else if \<not> unlink_target ls e then Some (0, m, ls\<lparr>u_prev_dirent := Some off\<rparr>)
     else map_option (\<lambda>m. (DIRENT_ABORT OR DIRENT_CHANGED, m, ls\<lparr>u_prev_dirent := Some off, u_done := u_done ls + 1\<rparr>))
       (if k \<noteq> 0 then map_option (\<lambda>q. set_d_reclen m q (d_reclen m q + d_reclen m off)) (u_prev_dirent ls) else Some (set_d_ino m off 0)))"
  using assms ent_at_ino [OF assms(2)] ent_match(1) [OF assms(2)] ent_match(2) [OF assms(2), of "u_name ls"]
  by (auto simp: unlink_proc_def unlink_target_def ent_named_def unlink_ok_def Let_def map_option_case split: option.splits)

lemma merge_ent:
  assumes l: "lays m q (e # t # ys) z" and o: "(q + e_len e) mod DIRBLKSIZ \<noteq> 0"
  shows "lays (set_d_reclen m q (d_reclen m q + d_reclen m (q + e_len e))) q (e\<lparr>e_len := e_len e + e_len t\<rparr> # ys) z"
    "i < q \<Longrightarrow> set_d_reclen m q (d_reclen m q + d_reclen m (q + e_len e)) i = m i"
proof -
  define k where "k = e_len e + e_len t"
  have e: "ent_at m q e" "ent_fits q e" "ent_at m (q + e_len e) t" "ent_fits (q + e_len e) t" "lays m (q + k) ys z" using l by (simp_all add: k_def add.assoc)
  have r: "d_reclen m q = e_len e" "d_reclen m (q + e_len e) = e_len t" using e(1,3) by (simp_all add: ent_at_def)
  have b: "0 \<le> q mod 512" "q mod 512 + e_len e \<le> 512" "8 \<le> e_len e" "8 \<le> e_len t" "(q + e_len e) mod 512 + e_len t \<le> 512"
    "e_len e mod 4 = 0" "e_len t mod 4 = 0" using e(2,4) by (auto simp: ent_fits_def)
  have qm: "(q + e_len e) mod 512 = (q mod 512 + e_len e) mod 512" by (simp add: mod_add_left_eq)
  have "q mod 512 + e_len e \<noteq> 512" using o qm by auto
  then have "(q + e_len e) mod 512 = q mod 512 + e_len e" unfolding qm by (intro mod_pos_pos_trivial) (use b in linarith)+
  then have f: "ent_fits q (e\<lparr>e_len := k\<rparr>)" "k < 65536" "8 \<le> k" using e(2) b by (auto simp: ent_fits_def k_def mod_add_eq [of "e_len e" 4 "e_len t", symmetric])
  note rs = reclen_store [OF e(1,2) f(3,2,1)]
  have "lays (set_d_reclen m q k) (q + k) ys z" by (rule lays_cong [OF _ e(5)]) (use rs(2) f(3) in simp)
  then show "lays (set_d_reclen m q (d_reclen m q + d_reclen m (q + e_len e))) q (e\<lparr>e_len := e_len e + e_len t\<rparr> # ys) z"
    using rs(1) f(1) by (simp add: r k_def)
  show "i < q \<Longrightarrow> set_d_reclen m q (d_reclen m q + d_reclen m (q + e_len e)) i = m i" using rs(2) by (simp add: r k_def)
qed

lemma clear_ent:
  assumes "lays m a (t # ys) z"
  shows "lays (set_d_ino m a 0) a (t\<lparr>e_ino := 0\<rparr> # ys) z" "i < a \<Longrightarrow> set_d_ino m a 0 i = m i"
proof -
  have t: "ent_at m a t" "ent_fits a t" "lays m (a + e_len t) ys z" using assms by simp_all
  have fr: "set_d_ino m a 0 i = m i" if "i < a \<or> a + 4 \<le> i" for i using that by (simp add: set_d_ino_def mem_simps)
  have "ent_at (set_d_ino m a 0) a (t\<lparr>e_ino := 0\<rparr>)" using t(1) by (simp add: ent_at_def dirent_defs mem_simps)
  moreover have "lays (set_d_ino m a 0) (a + e_len t) ys z" by (rule lays_cong [OF _ t(3)]) (use fr ent_fits_len [OF t(2)] in simp)
  ultimately show "lays (set_d_ino m a 0) a (t\<lparr>e_ino := 0\<rparr> # ys) z" using t(2) by (simp add: ent_fits_def)
  show "i < a \<Longrightarrow> set_d_ino m a 0 i = m i" using fr by simp
qed

definition unlink_pass :: "unlink_struct \<Rightarrow> dent list \<Rightarrow> unlink_struct \<Rightarrow> dent list \<Rightarrow> bool" where
  "unlink_pass ls es ls' es' \<longleftrightarrow> es' = es \<and> list_all (\<lambda>e. \<not> unlink_target ls e) es \<and> (\<exists>x. ls' = ls\<lparr>u_prev_dirent := x\<rparr>)"

definition unlink_stop :: "unlink_struct \<Rightarrow> dent list \<Rightarrow> unlink_struct \<Rightarrow> dent list \<Rightarrow> bool" where
  "unlink_stop ls es ls' es' \<longleftrightarrow> u_done ls' = u_done ls + 1 \<and>
     (\<exists>xs t ys. es = xs @ t # ys \<and> list_all (\<lambda>e. \<not> unlink_target ls e) xs \<and> unlink_target ls t \<and> used es' = used xs @ used ys)"

lemma unlink_target_prev [simp]: "unlink_target (ls\<lparr>u_prev_dirent := x\<rparr>) = unlink_target ls"
  by (simp add: unlink_target_def fun_eq_iff)

lemma unlink_block_run:
  assumes io: "io_ok s" "0 \<le> fsbtodb (d_fs s) blk" "0 < blksize" and z: "z = min blksize (dir_size - pos)"
    and l: "lays m 0 (xs @ es) z" and ok: "unlink_ok ls" and xs: "list_all (\<lambda>e. \<not> unlink_target ls e) xs"
    and pv: "xs \<noteq> [] \<longrightarrow> e_ino (last xs) \<noteq> 0 \<longrightarrow> u_prev_dirent ls = Some (span xs - e_len (last xs))"
    and u: "prev_ok (unlink_target ls) (span xs) (xs \<noteq> [] \<and> e_ino (last xs) \<noteq> 0) es"
  shows "\<exists>res m' ls' es'. dir_block unlink_proc blk blksize dir_size pos (span xs) ret m ls (put_blk s blk blksize m) =
      Some (res, m', ls', put_blk s blk blksize m') \<and> lays m' 0 es' z \<and>
      (res = Inl 0 \<and> unlink_stop ls (xs @ es) ls' es' \<or> res = Inr (if es = [] then ret else 0) \<and> unlink_pass ls (xs @ es) ls' es')"
  using l ok xs pv u
proof (induction es arbitrary: xs ls ret)
  case Nil
  have "span xs = z" using lays_span [OF Nil.prems(1)] by simp
  then have "dir_block unlink_proc blk blksize dir_size pos (span xs) ret m ls (put_blk s blk blksize m) = Some (Inr ret, m, ls, put_blk s blk blksize m)"
    using z by (subst dir_block.simps) auto
  moreover have "unlink_pass ls xs ls xs" using Nil.prems(3) by (auto simp: unlink_pass_def intro: exI [of _ "u_prev_dirent ls"])
  ultimately show ?case using Nil.prems(1) by auto
next
  case (Cons e es)
  define off where "off = span xs"
  have la: "lays m 0 xs off" "lays m off (e # es) z" using Cons.prems(1) lays_append [of m 0 xs "e # es" z] by (auto simp: off_def)
  have e: "ent_at m off e" "ent_fits off e" "off + e_len e \<le> z" "d_reclen m off = e_len e" using la(2) lays_le by (auto simp: ent_at_def)
  have b: "off < blksize" "pos + off < dir_size" using e z ent_fits_len [OF e(2)] by auto
  note step = dir_block_step [of unlink_proc, OF _ b io, of ls m]
  note up = unlink_proc_eq [OF Cons.prems(2) e(1), of "off mod DIRBLKSIZ"]
  have sp: "span (xs @ [e]) = off + e_len e" by (simp add: off_def)
  show ?case
  proof (cases "unlink_target ls e")
    case False
    define ls1 where "ls1 = (if e_ino e = 0 then ls else ls\<lparr>u_prev_dirent := Some off\<rparr>)"
    have pr: "unlink_proc ls m off (off mod DIRBLKSIZ) = Some (0, m, ls1)" using up False by (simp add: ls1_def)
    have st: "dir_block unlink_proc blk blksize dir_size pos off ret m ls (put_blk s blk blksize m) =
        dir_block unlink_proc blk blksize dir_size pos (span (xs @ [e])) 0 m ls1 (put_blk s blk blksize m)"
      using step [OF pr, of ret] e(4) sp by simp
    have ut: "unlink_target ls1 = unlink_target ls" by (simp add: ls1_def)
    have ih: "\<exists>res m' ls' es'. dir_block unlink_proc blk blksize dir_size pos (span (xs @ [e])) 0 m ls1 (put_blk s blk blksize m) =
        Some (res, m', ls', put_blk s blk blksize m') \<and> lays m' 0 es' z \<and>
        (res = Inl 0 \<and> unlink_stop ls1 ((xs @ [e]) @ es) ls' es' \<or> res = Inr (if es = [] then 0 else 0) \<and> unlink_pass ls1 ((xs @ [e]) @ es) ls' es')"
    proof (rule Cons.IH)
      show "lays m 0 ((xs @ [e]) @ es) z" using Cons.prems(1) by simp
      show "unlink_ok ls1" using Cons.prems(2) by (simp add: ls1_def unlink_ok_def)
      show "list_all (\<lambda>e. \<not> unlink_target ls1 e) (xs @ [e])" using Cons.prems(3) False by (simp add: ut)
      show "xs @ [e] \<noteq> [] \<longrightarrow> e_ino (last (xs @ [e])) \<noteq> 0 \<longrightarrow> u_prev_dirent ls1 = Some (span (xs @ [e]) - e_len (last (xs @ [e])))"
        by (simp add: ls1_def off_def)
      show "prev_ok (unlink_target ls1) (span (xs @ [e])) (xs @ [e] \<noteq> [] \<and> e_ino (last (xs @ [e])) \<noteq> 0) es"
        using Cons.prems(5) False by (simp add: ut sp off_def)
    qed
    have "unlink_stop ls1 = unlink_stop ls" "unlink_pass ls1 (xs @ e # es) = unlink_pass ls (xs @ e # es)"
      by (auto simp: unlink_stop_def unlink_pass_def ut fun_eq_iff) (auto simp: ls1_def intro: exI)
    then show ?thesis using ih st by (simp add: off_def)
  next
    case True
    then have e0: "e_ino e \<noteq> 0" by (simp add: unlink_target_def ent_named_def)
    define ls1 where "ls1 = ls\<lparr>u_prev_dirent := Some off, u_done := u_done ls + 1\<rparr>"
    have us: "unlink_stop ls (xs @ e # es) ls1 es'" if "used es' = used xs @ used es" for es'
      using that Cons.prems(3) True by (auto simp: unlink_stop_def ls1_def)
    have "\<exists>m' es'. unlink_proc ls m off (off mod DIRBLKSIZ) = Some (DIRENT_ABORT OR DIRENT_CHANGED, m', ls1) \<and> lays m' 0 es' z \<and> used es' = used xs @ used es"
    proof (cases "off mod DIRBLKSIZ = 0")
      case True
      note c = clear_ent [OF la(2)]
      have "lays (set_d_ino m off 0) 0 xs off" by (rule lays_cong [OF _ la(1)]) (use c(2) in simp)
      then have "lays (set_d_ino m off 0) 0 (xs @ e\<lparr>e_ino := 0\<rparr> # es) z" using c(1) by (simp add: lays_append off_def)
      then show ?thesis using up True \<open>unlink_target ls e\<close> e0 by (intro exI [of _ "set_d_ino m off 0"] exI [of _ "xs @ e\<lparr>e_ino := 0\<rparr> # es"]) (simp add: ls1_def)
    next
      case False
      then obtain as p where x: "xs = as @ [p]" "e_ino p \<noteq> 0" using Cons.prems(5) True by (cases xs rule: rev_cases) (auto simp: off_def)
      have sx: "span xs = span as + e_len p" by (simp add: x(1))
      have pvq: "u_prev_dirent ls = Some (span as)" using Cons.prems(4) x sx by simp
      have l2: "lays m 0 as (span as)" "lays m (span as) (p # e # es) z" using Cons.prems(1) lays_append [of m 0 as "p # e # es" z] by (simp_all add: x(1))
      have oo: "off = span as + e_len p" by (simp add: off_def sx)
      note mg = merge_ent [OF l2(2), folded oo, OF False]
      define m' where "m' = set_d_reclen m (span as) (d_reclen m (span as) + d_reclen m off)"
      have "lays m' 0 as (span as)" by (rule lays_cong [OF _ l2(1)]) (use mg(2) in \<open>simp add: m'_def\<close>)
      then have "lays m' 0 (as @ p\<lparr>e_len := e_len p + e_len e\<rparr> # es) z" using mg(1) by (simp add: lays_append m'_def)
      moreover have "used (as @ p\<lparr>e_len := e_len p + e_len e\<rparr> # es) = used xs @ used es" by (simp add: x(1))
      moreover have "unlink_proc ls m off (off mod DIRBLKSIZ) = Some (DIRENT_ABORT OR DIRENT_CHANGED, m', ls1)"
        using up False True e0 pvq by (simp add: ls1_def m'_def)
      ultimately show ?thesis by blast
    qed
    then obtain m' es' where f: "unlink_proc ls m off (off mod DIRBLKSIZ) = Some (DIRENT_ABORT OR DIRENT_CHANGED, m', ls1)" "lays m' 0 es' z" "used es' = used xs @ used es"
      by blast
    show ?thesis using step [OF f(1), of ret] f(2) us [OF f(3)] by (auto simp: off_def)
  qed
qed

interpretation un: dir_edit unlink_proc unlink_ok "\<lambda>ls es. prev_ok (unlink_target ls) 0 False es" unlink_pass unlink_stop
proof
  fix ls ls' :: unlink_struct and es es'
  assume "unlink_pass ls es ls' es'" "unlink_ok ls"
  then show "unlink_ok ls' \<and> (\<lambda>es. prev_ok (unlink_target ls') 0 False es) = (\<lambda>es. prev_ok (unlink_target ls) 0 False es)"
    by (auto simp: unlink_pass_def unlink_ok_def)
next
  fix ls :: unlink_struct and es s blk blksize z dir_size pos m
  assume a: "unlink_ok ls" "prev_ok (unlink_target ls) 0 False es" "io_ok s" "0 \<le> fsbtodb (d_fs s) blk" "0 < blksize" "z = min blksize (dir_size - pos)" "lays m 0 es z"
  show "\<exists>res m' p' es'. dir_block unlink_proc blk blksize dir_size pos 0 0 m ls (put_blk s blk blksize m) = Some (res, m', p', put_blk s blk blksize m') \<and>
      lays m' 0 es' z \<and> (res = Inl 0 \<and> unlink_stop ls es p' es' \<or> (res = Inr 0 \<or> res = Inr DIRENT_CHANGED) \<and> unlink_pass ls es p' es')"
    using unlink_block_run [of s blk blksize z dir_size pos m "[]" es ls 0] a by auto
qed

lemma edits_unlink:
  assumes "edits unlink_pass unlink_stop ls ess ls' ess' b"
  shows "if b then \<exists>xs t ys. concat ess = xs @ t # ys \<and> list_all (\<lambda>e. \<not> unlink_target ls e) xs \<and> unlink_target ls t \<and> used (concat ess') = used xs @ used ys
      else ess' = ess \<and> list_all (\<lambda>e. \<not> unlink_target ls e) (concat ess)"
  using assms
proof (induction rule: edits.induct)
  case (edits_Stop p es p' es' ess)
  then obtain xs t ys where "es = xs @ t # ys" "list_all (\<lambda>e. \<not> unlink_target p e) xs" "unlink_target p t" "used es' = used xs @ used ys"
    by (auto simp: unlink_stop_def)
  then have "concat (es # ess) = xs @ t # (ys @ concat ess)" "list_all (\<lambda>e. \<not> unlink_target p e) xs" "unlink_target p t"
    "used (concat (es' # ess)) = used xs @ used (ys @ concat ess)" by simp_all
  then show ?case unfolding if_True by blast
next
  case (edits_Pass p es p1 es1 ess p' ess' b)
  have p: "unlink_target p1 = unlink_target p" "es1 = es" "list_all (\<lambda>e. \<not> unlink_target p e) es" using edits_Pass.hyps(1) by (auto simp: unlink_pass_def)
  show ?case
  proof (cases b)
    case True
    then obtain xs t ys where "concat ess = xs @ t # ys" "list_all (\<lambda>e. \<not> unlink_target p e) xs" "unlink_target p t" "used (concat ess') = used xs @ used ys"
      using edits_Pass.IH p(1) by auto
    then have "concat (es # ess) = (es @ xs) @ t # ys" "list_all (\<lambda>e. \<not> unlink_target p e) (es @ xs)" "unlink_target p t"
      "used (concat (es1 # ess')) = used (es @ xs) @ used ys" using p by simp_all
    then show ?thesis unfolding if_P [OF True] by blast
  qed (use edits_Pass.IH p in auto)
qed simp

definition uniq_names :: "dent list \<Rightarrow> bool" where
  "uniq_names es \<longleftrightarrow> distinct (map fst (used es))"

lemma dir_find_Some:
  assumes "dir_find name es = Some ino"
  shows "ino \<noteq> 0" "\<exists>t. (name, ino, t) \<in> set (used es)"
proof -
  obtain e where "find (ent_named name) es = Some e" "e_ino e = ino" using assms by (auto simp: dir_find_def)
  then have e: "e \<in> set es" "ent_named name e" "e_ino e = ino" by (auto simp: find_Some_iff)
  then show "ino \<noteq> 0" "\<exists>t. (name, ino, t) \<in> set (used es)" by (force simp: ent_named_def used_def)+
qed

lemma dir_find_unlink:
  assumes u: "uniq_names es" and es: "es = xs @ t # ys" and t: "ent_named name t" and es': "used es' = used xs @ used ys"
  shows "dir_find n es' = (if n = name then None else dir_find n es)"
proof -
  have ue: "used es = used xs @ (name, e_ino t, e_type t) # used ys" using es t by (simp add: ent_named_def)
  have "name \<notin> fst ` set (used xs @ used ys)" using u ue by (auto simp: uniq_names_def)
  then have "find (\<lambda>(n, i, t). n = name) (used xs @ used ys) = None"
    unfolding find_None_iff by (metis (mono_tags, lifting) case_prodE fst_conv image_eqI)
  then show ?thesis using es' ue by (auto simp: find_used find_insert)
qed

lemma unlink_run:
  assumes "world_ok w" "dir_view w dir ess" "dir_apart (w_ufs w) (inode_of w dir)" "fs_ronly (d_fs (w_ufs w)) = 0"
    "uniq_names (concat ess)" "dir_find name (concat ess) = Some ino" "\<forall>es \<in> set ess. prev_ok (ent_named name) 0 False es"
  shows "\<exists>w' ess'. ufs_unlink dir name ino w = Some (0, w') \<and> world_ok w' \<and> dir_view w' dir ess' \<and> dir_edited w dir w' \<and>
    (\<forall>n. dir_find n (concat ess') = (if n = name then None else dir_find n (concat ess)))"
proof -
  define ls where "ls = \<lparr>u_name = name, u_namelen = int (length name), u_inode = ino, u_prev_dirent = None, u_done = 0\<rparr>"
  have ok: "unlink_ok ls" by (simp add: unlink_ok_def ls_def)
  obtain t0 where t0: "(name, ino, t0) \<in> set (used (concat ess))" using dir_find_Some(2) [OF assms(6)] by blast
  have tg: "unlink_target ls e = ent_named name e" if "e \<in> set (concat ess)" for e
  proof -
    have "e_ino e = ino" if "ent_named name e"
    proof -
      have "(name, e_ino e, e_type e) \<in> set (used (concat ess))" using \<open>e \<in> set (concat ess)\<close> that by (force simp: used_def ent_named_def)
      then show ?thesis using t0 assms(5) unfolding uniq_names_def by (metis eq_key_imp_eq_value fst_conv prod.inject)
    qed
    then show ?thesis by (auto simp: unlink_target_def ls_def)
  qed
  have pc: "prev_ok P o' u es = prev_ok Q o' u es" if "\<And>e. e \<in> set es \<Longrightarrow> P e = Q e" for P Q o' u es
    using that by (induction es arbitrary: o' u) auto
  have pre: "\<forall>es \<in> set ess. prev_ok (unlink_target ls) 0 False es"
  proof
    fix es assume "es \<in> set ess"
    then have "unlink_target ls e = ent_named name e" if "e \<in> set es" for e using tg [of e] that by auto
    then show "prev_ok (unlink_target ls) 0 False es" using assms(7) pc [of es "unlink_target ls" "ent_named name"] \<open>es \<in> set ess\<close> by blast
  qed
  obtain r ls' w' ess' b where e: "ufs_dir_iterate dir unlink_proc ls w = Some (r, ls', w')" "world_ok w'" "edits unlink_pass unlink_stop ls ess ls' ess' b"
    "if b then r = 0 else r = 0 \<or> r = DIRENT_CHANGED" "dir_view w' dir ess'" "dir_edited w dir w'"
    using un.iterate_edit [OF assms(1-3) ok pre] by blast
  note l = edits_unlink [OF e(3)]
  have b: b
  proof (rule ccontr)
    assume "\<not> b"
    then have "list_all (\<lambda>e. \<not> ent_named name e) (concat ess)" using l tg by (auto simp: list_all_iff)
    then have "dir_find name (concat ess) = None" by (auto simp: dir_find_def find_None_iff list_all_iff)
    then show False using assms(6) by simp
  qed
  obtain xs t ys where u: "concat ess = xs @ t # ys" "unlink_target ls t" "used (concat ess') = used xs @ used ys" using l b by auto
  have "ent_named name t" using u(2) by (simp add: unlink_target_def ls_def)
  then have "\<forall>n. dir_find n (concat ess') = (if n = name then None else dir_find n (concat ess))" using dir_find_unlink [OF assms(5) u(1) _ u(3)] by blast
  moreover have "ufs_unlink dir name ino w = Some (0, w')" using e(1,4) b assms(4) by (simp add: ufs_unlink_def ls_def)
  ultimately show ?thesis using e by blast
qed

text \<open>C24. Removing a name: \<open>ufs_unlink\<close> of a name whose entry begins its 512-byte block or follows an entry in use
  returns 0; then the directory is well formed, no longer has the name, and maps every other name
  to what it did. Only the blocks of the directory change on the device.\<close>

theorem unlink_removes:
  assumes "world_ok w" "dir_view w dir ess" "dir_apart (w_ufs w) (inode_of w dir)" "fs_ronly (d_fs (w_ufs w)) = 0"
    "uniq_names (concat ess)" "dir_find name (concat ess) = Some ino" "\<forall>es \<in> set ess. prev_ok (ent_named name) 0 False es"
  shows "\<exists>w' ess'. ufs_unlink dir name ino w = Some (0, w') \<and> world_ok w' \<and> dir_view w' dir ess' \<and> dir_edited w dir w' \<and>
    (\<forall>n. dir_find n (concat ess') = (if n = name then None else dir_find n (concat ess)))"
  by (rule unlink_run [OF assms])

fun last_used :: "int \<Rightarrow> dent list \<Rightarrow> int option \<Rightarrow> int option" where
  "last_used a [] q = q"
| "last_used a (e # es) q = last_used (a + e_len e) es (if e_ino e = 0 then q else Some a)"

lemma last_used_append: "last_used a (xs @ ys) q = last_used (a + span xs) ys (last_used a xs q)"
  by (induction xs arbitrary: a q) (simp_all add: add.assoc)

text \<open>The walk over entries that are not to be removed.\<close>

lemma unlink_skip:
  assumes io: "io_ok s" "0 \<le> fsbtodb (d_fs s) blk" "0 < blksize" and z: "z = min blksize (dir_size - pos)"
    and "unlink_ok ls" "lays m a (xs @ es) z" "list_all (\<lambda>e. \<not> unlink_target ls e) xs"
  shows "dir_block unlink_proc blk blksize dir_size pos a ret m ls (put_blk s blk blksize m) =
    dir_block unlink_proc blk blksize dir_size pos (a + span xs) (if xs = [] then ret else 0) m (ls\<lparr>u_prev_dirent := last_used a xs (u_prev_dirent ls)\<rparr>) (put_blk s blk blksize m)"
  using assms(5-)
proof (induction xs arbitrary: a ls ret)
  case (Cons e xs)
  have e: "ent_at m a e" "ent_fits a e" "lays m (a + e_len e) (xs @ es) z" "d_reclen m a = e_len e" using Cons.prems(2) by (auto simp: ent_at_def)
  have b: "a < blksize" "pos + a < dir_size" using lays_le [OF e(3)] ent_fits_len [OF e(2)] z by auto
  define ls1 where "ls1 = ls\<lparr>u_prev_dirent := if e_ino e = 0 then u_prev_dirent ls else Some a\<rparr>"
  have pr: "unlink_proc ls m a (a mod DIRBLKSIZ) = Some (0, m, ls1)"
    using unlink_proc_eq [OF Cons.prems(1) e(1), of "a mod DIRBLKSIZ"] Cons.prems(3) by (simp add: ls1_def)
  have "unlink_ok ls1" "unlink_target ls1 = unlink_target ls" using Cons.prems(1) by (simp_all add: ls1_def unlink_ok_def)
  then have "dir_block unlink_proc blk blksize dir_size pos (a + e_len e) 0 m ls1 (put_blk s blk blksize m) =
      dir_block unlink_proc blk blksize dir_size pos (a + e_len e + span xs) 0 m (ls1\<lparr>u_prev_dirent := last_used (a + e_len e) xs (u_prev_dirent ls1)\<rparr>) (put_blk s blk blksize m)"
    using Cons.IH [OF _ e(3), of ls1 0] Cons.prems(3) by simp
  then show ?case using dir_block_step [of unlink_proc, OF pr b io, of ret] e(4) by (simp add: ls1_def add.assoc)
qed simp

text \<open>C27. The case the precondition of the removal excludes, which removals lead to: the entry to remove follows an
  unused entry that begins a 512-byte block. The walk reports success and writes the block, but the
  entry is still there: the record length of the last entry in use before it, in the block in front,
  has grown instead, beyond the end of its block.\<close>

theorem unlink_misses_after_unused:
  assumes "io_ok s" "0 \<le> fsbtodb (d_fs s) blk" "0 < blksize" "z = min blksize (dir_size - pos)" "unlink_ok ls"
    "lays m 0 (xs @ [p, v, t] @ ys) z" "list_all (\<lambda>e. \<not> unlink_target ls e) (xs @ [p, v])" "e_ino p \<noteq> 0" "e_ino v = 0" "unlink_target ls t"
    "(span xs + e_len p) mod DIRBLKSIZ = 0" "e_len v < DIRBLKSIZ"
  shows "\<exists>m' ls'. dir_block unlink_proc blk blksize dir_size pos 0 0 m ls (put_blk s blk blksize m) = Some (Inl 0, m', ls', put_blk s blk blksize m') \<and>
    u_done ls' = u_done ls + 1 \<and> ent_at m' (span (xs @ [p, v])) t \<and> d_reclen m' (span xs) = e_len p + e_len t"
proof -
  define q a where "q = span xs" and "a = span (xs @ [p, v])"
  have l3: "lays m 0 ((xs @ [p, v]) @ t # ys) z" using assms(6) by simp
  have l: "lays m q (p # v # t # ys) z" "lays m a (t # ys) z" using assms(6) by (simp_all add: lays_append q_def a_def add.assoc)
  have e: "ent_at m q p" "ent_fits q p" "ent_at m a t" "ent_fits a t" "ent_fits (q + e_len p) v" "lays m (a + e_len t) ys z" using l by simp_all
  have len: "8 \<le> e_len p" "8 \<le> e_len v" "e_len p \<le> 512" "e_len t \<le> 512" "a = q + e_len p + e_len v"
    using e pos_mod_sign [of 512 q] pos_mod_sign [of 512 a] ent_fits_len [OF e(2)] ent_fits_len [OF e(5)] by (auto simp: ent_fits_def a_def q_def)
  have am: "a mod DIRBLKSIZ \<noteq> 0"
  proof -
    have "a mod 512 = (e_len v) mod 512" using assms(11) mod_add_left_eq [of "q + e_len p" 512 "e_len v"] len(5) by (simp add: q_def)
    then show ?thesis using len(2) assms(12) by simp
  qed
  define ls1 where "ls1 = ls\<lparr>u_prev_dirent := Some q\<rparr>"
  have "last_used 0 (xs @ [p, v]) (u_prev_dirent ls) = Some q" using assms(8,9) by (simp add: last_used_append q_def)
  then have sk: "dir_block unlink_proc blk blksize dir_size pos 0 0 m ls (put_blk s blk blksize m) = dir_block unlink_proc blk blksize dir_size pos a 0 m ls1 (put_blk s blk blksize m)"
    using unlink_skip [OF assms(1-5) l3 assms(7), of 0] unfolding a_def [symmetric] by (simp add: ls1_def)
  have k: "8 \<le> e_len p + e_len t" "e_len p + e_len t < 65536" using len ent_fits_len [OF e(4)] by auto
  define m' where "m' = set_d_reclen m q (e_len p + e_len t)"
  have pr: "unlink_proc ls1 m a (a mod DIRBLKSIZ) = Some (DIRENT_ABORT OR DIRENT_CHANGED, m', ls1\<lparr>u_prev_dirent := Some a, u_done := u_done ls1 + 1\<rparr>)"
    using unlink_proc_eq [OF _ e(3), of ls1 "a mod DIRBLKSIZ"] assms(5,10) am e(1,3)
    by (simp add: ls1_def unlink_ok_def m'_def ent_at_def) (simp add: unlink_target_def ent_named_def)
  have b: "a < blksize" "pos + a < dir_size" using lays_le [OF e(6)] ent_fits_len [OF e(4)] assms(4) by auto
  have "m' i = m i" if "a \<le> i" for i using that len by (simp add: m'_def set_d_reclen_def mem_simps)
  then have "ent_at m' a t" using ent_at_cong [OF e(4), of m' m] e(3) by simp
  moreover have "d_reclen m' q = e_len p + e_len t" using k by (simp add: m'_def dirent_defs mem_simps u_id)
  ultimately show ?thesis using sk dir_block_step [of unlink_proc, OF pr b assms(1-3), of 0] unfolding a_def [symmetric] q_def [symmetric] by (simp add: ls1_def)
qed

subsection \<open>The sample directory, edited\<close>

lemma ents_ex_facts: "dir_find ''cd'' (concat [ents_ex]) = None" "list_ex (roomy (UFS_DIR_REC_LEN (int (length ''cd'')))) (concat [ents_ex])"
  "uniq_names (concat [ents_ex])" "\<forall>es \<in> set [ents_ex]. prev_ok (ent_named ''ab'') 0 False es"
  by code_simp+

lemma ronly_ex: "fs_ronly (d_fs (w_ufs world_dir)) = 0" "w_ufs world_dir = disk_dir"
  by (simp_all add: world_dir_def disk_dir_def disk_ex_def fs_one_def fs_ex_def)

lemma dir_apart_ex: "dir_apart (w_ufs world_dir) (inode_of world_dir 2)"
proof -
  have "apart 4096 (dir_base disk_dir root_ex i) (ino_addr disk_dir k)" if "0 \<le> i" "i < 1" "0 \<le> k" for i k
  proof -
    have "i = 0" using that by simp
    then show ?thesis using root_ex_facts(4,6) ino_addr_ex [OF that(3)] by (simp add: apart_def dir_base_def)
  qed
  then have "dir_apart disk_dir root_ex" using root_ex_facts(5) by (simp add: dir_apart_def Let_def root_ex_facts(1) fs_one_simps)
  then show ?thesis by (simp add: inode_of_ex ronly_ex)
qed

theorem addnamedir_inserts_witness:
  "\<exists>w' ess'. ufs_addnamedir 2 ''cd'' 7 33188 world_dir = Some (0, w') \<and> dir_view w' 2 ess' \<and> dir_find ''cd'' (concat ess') = Some 7 \<and> dir_find ''ab'' (concat ess') = Some 5"
proof -
  obtain w' ess' where a: "ufs_addnamedir 2 ''cd'' 7 33188 world_dir = Some (0, w')" "dir_view w' 2 ess'"
    "\<forall>n. dir_find n (concat ess') = (if n = ''cd'' then Some 7 else dir_find n (concat [ents_ex]))"
    using addnamedir_inserts [OF world_dir_ok(1) dir_view_ex dir_apart_ex ronly_ex(1) _ _ _ _ ents_ex_facts(1,2), of 7 33188] by auto
  have "dir_find ''cd'' (concat ess') = Some 7" "dir_find ''ab'' (concat ess') = Some 5" using a(3) ents_ex_find(1) by simp_all
  then show ?thesis using a(1,2) by blast
qed

theorem addname_lookup_roundtrip_witness:
  "\<exists>w1 w2. ufs_addnamedir 2 ''cd'' 7 33188 world_dir = Some (0, w1) \<and> ufs_lookup 2 ''cd'' w1 = Some (0, 7, w2)"
proof -
  show ?thesis using addname_lookup_roundtrip [OF world_dir_ok(1) dir_view_ex dir_apart_ex ronly_ex(1) _ _ _ _ ents_ex_facts(1,2), of 7 33188] by auto
qed

theorem unlink_removes_witness:
  "\<exists>w' ess'. ufs_unlink 2 ''ab'' 5 world_dir = Some (0, w') \<and> dir_view w' 2 ess' \<and> dir_find ''ab'' (concat ess') = None"
proof -
  obtain w' ess' where a: "ufs_unlink 2 ''ab'' 5 world_dir = Some (0, w')" "dir_view w' 2 ess'"
    "\<forall>n. dir_find n (concat ess') = (if n = ''ab'' then None else dir_find n (concat [ents_ex]))"
    using unlink_removes [OF world_dir_ok(1) dir_view_ex dir_apart_ex ronly_ex(1) ents_ex_facts(3) ents_ex_find(1) ents_ex_facts(4)] by blast
  have "dir_find ''ab'' (concat ess') = None" using a(3) by simp
  then show ?thesis using a(1,2) by blast
qed

text \<open>Two 512-byte blocks; the first entry of the second block was removed before.\<close>

definition ents_hole :: "dent list" where
  "ents_hole = [\<lparr>e_ino = 5, e_len = 512, e_type = 8, e_name = ''z''\<rparr>, \<lparr>e_ino = 0, e_len = 16, e_type = 8, e_name = ''a''\<rparr>,
     \<lparr>e_ino = 7, e_len = 496, e_type = 8, e_name = ''b''\<rparr>]"

theorem unlink_misses_after_unused_witness:
  "\<exists>m' ls'. dir_block unlink_proc 16 1024 1024 0 0 0 (put_ents (\<lambda>_. 0) 0 ents_hole) \<lparr>u_name = ''b'', u_namelen = 1, u_inode = 7, u_prev_dirent = None, u_done = 0\<rparr>
      (put_blk disk_ex 16 1024 (put_ents (\<lambda>_. 0) 0 ents_hole)) = Some (Inl 0, m', ls', put_blk disk_ex 16 1024 m') \<and>
    d_ino m' 528 = 7 \<and> d_reclen m' 0 = 1008"
proof -
  define ls where "ls = \<lparr>u_name = ''b'', u_namelen = 1, u_inode = 7, u_prev_dirent = None, u_done = 0\<rparr>"
  define p v t where "p = ents_hole ! 0" and "v = ents_hole ! 1" and "t = ents_hole ! 2"
  have eh: "ents_hole = [] @ [p, v, t] @ []" by (simp add: ents_hole_def p_def v_def t_def)
  have l: "lays (put_ents (\<lambda>_. 0) 0 ents_hole) 0 ([] @ [p, v, t] @ []) 1024" unfolding eh [symmetric] by code_simp
  have f: "unlink_ok ls" "list_all (\<lambda>e. \<not> unlink_target ls e) ([] @ [p, v])" "e_ino p \<noteq> 0" "e_ino v = 0" "unlink_target ls t"
    "(span [] + e_len p) mod DIRBLKSIZ = 0" "e_len v < DIRBLKSIZ"
    unfolding ls_def p_def v_def t_def by code_simp+
  have io: "0 \<le> fsbtodb (d_fs disk_ex) 16" "(0 :: int) < 1024" "1024 = min 1024 (1024 - (0 :: int))" by (simp_all add: fsbtodb_eq fs_one_def fs_ex_def)
  have sp: "span ([] @ [p, v]) = 528" "span ([] :: dent list) = 0" "e_ino t = 7" "e_len p + e_len t = 1008" unfolding p_def v_def t_def by code_simp+
  show ?thesis using unlink_misses_after_unused [OF io_ok_ex io f(1) l f(2-)] unfolding sp ls_def [symmetric] by (auto simp: ent_at_def sp)
qed

end
