(* ===== verification/Ufs_File.thy ===== *)
theory Ufs_File
  imports Ufs_Dir
begin

section \<open>File input and output (fuse-ufs-fileio.c)\<close>

text \<open>
  An open file buffers one block. The buffer belongs to file block \<open>f_blockno\<close> and disk block
  \<open>f_physblock\<close>; the flags say whether it holds the block and whether it has to be written.
  The functions take the file, the inode of its vnode and the handle by value and return them;
  \<open>with_file\<close> applies them to an open file of the state. Positions are unsigned 64-bit, file
  block numbers unsigned 32-bit.
\<close>

definition UFS_FILE_WRITE :: int where [simp]: "UFS_FILE_WRITE = 1"
definition UFS_FILE_CREATE :: int where [simp]: "UFS_FILE_CREATE = 2"
definition UFS_FILE_MASK :: int where [simp]: "UFS_FILE_MASK = 0xFF"
definition UFS_FILE_SHARED_INODE :: int where [simp]: "UFS_FILE_SHARED_INODE = 0x8000"
definition UFS_FILE_BUF_DIRTY :: int where [simp]: "UFS_FILE_BUF_DIRTY = 0x4000"
definition UFS_FILE_BUF_VALID :: int where [simp]: "UFS_FILE_BUF_VALID = 0x2000"
definition UFS_MAGIC_FILE :: int where [simp]: "UFS_MAGIC_FILE = 0xbadb00b"
definition UFS_SEEK_SET :: int where [simp]: "UFS_SEEK_SET = 0"
definition UFS_SEEK_CUR :: int where [simp]: "UFS_SEEK_CUR = 1"
definition UFS_SEEK_END :: int where [simp]: "UFS_SEEK_END = 2"

type_synonym file_state = "ufs_file \<times> inode \<times> uufsd"

subsection \<open>Open\<close>

text \<open>Returns the code and the new file.\<close>

definition ufs_file_open2 :: "int \<Rightarrow> int \<Rightarrow> int \<Rightarrow> uufsd \<Rightarrow> int \<times> ufs_file option" where
  "ufs_file_open2 ino vnode flags s =
     (if flags AND (UFS_FILE_WRITE OR UFS_FILE_CREATE) \<noteq> 0 \<and> fs_ronly (d_fs s) \<noteq> 0 then (EROFS, None)
      else if \<not> env_mem s then (ENOMEM, None)
      else (0, Some \<lparr>f_magic = UFS_MAGIC_FILE, f_ino = ino, f_vnode = vnode,
                     f_flags = flags AND (UFS_FILE_MASK OR UFS_FILE_SHARED_INODE), f_pos = 0,
                     f_blockno = 0, f_physblock = 0, f_buf = env_junk s\<rparr>))"

subsection \<open>Writing the buffer\<close>

definition ufs_io_size :: "fs \<Rightarrow> inode \<Rightarrow> int \<Rightarrow> bool \<Rightarrow> int" where
  "ufs_io_size fs ip offset write = ufs_inode_io_size fs ip (s32 offset) write"

definition flush_alloc :: "int \<Rightarrow> file_state \<Rightarrow> (int \<times> file_state) option" where
  "flush_alloc sz st = (case st of (f, ip, s) \<Rightarrow> do {
     (retval, blkno, s) \<leftarrow> ufs_block_alloc (i_number ip) sz s;
     let f = f\<lparr>f_physblock := blkno\<rparr>;
     if retval \<noteq> 0 then Some (retval, f, ip, s)
     else do {
       (retval, ip, s) \<leftarrow> ufs_set_block ip (f_blockno f) blkno s;
       Some (retval, f, ip, s)
     }
   })"

text \<open>Make sure the buffer has a disk block of the right size; a smaller one is given back first.\<close>

definition flush_place :: "int \<Rightarrow> int \<Rightarrow> file_state \<Rightarrow> (int \<times> file_state) option" where
  "flush_place sz oldfilesize st = (case st of (f, ip, s) \<Rightarrow>
     if f_physblock f = 0 then flush_alloc sz (f, ip, s)
     else
       let fs = d_fs s;
           nfrags = s32 (numfrags fs (fragroundup fs sz));
           osize = ufs_io_size fs ip oldfilesize True;
           ofrags = s32 (numfrags fs (fragroundup fs osize))
       in if nfrags > ofrags then do {
            s \<leftarrow> ufs_block_free (f_physblock f) osize s;
            (retval, ip, s) \<leftarrow> ufs_set_block ip (f_blockno f) 0 s;
            if retval \<noteq> 0 then Some (retval, f, ip, s)
            else flush_alloc sz (f\<lparr>f_physblock := 0\<rparr>, ip, s)
          }
          else Some (0, f, ip, s))"

definition ufs_file_flush :: "file_state \<Rightarrow> (int \<times> file_state) option" where
  "ufs_file_flush st = (case st of (f, ip, s) \<Rightarrow>
     let oldfilesize = s32 (di_size (i_din2 ip))
     in if f_flags f AND UFS_FILE_BUF_VALID = 0 \<or> f_flags f AND UFS_FILE_BUF_DIRTY = 0 then Some (0, f, ip, s)
        else
          let sz = ufs_io_size (d_fs s) ip (f_pos f) True
          in if sz = 0 then Some (0, f, ip, s)
             else do {
               (retval, f, ip, s) \<leftarrow> flush_place sz oldfilesize (f, ip, s);
               if retval \<noteq> 0 then Some (retval, f, ip, s)
               else
                 let (retval, s) = blkwrite (fsbtodb (d_fs s) (f_physblock f)) (f_buf f) sz s
                 in if retval \<le> 0 then Some (- EIO, f, ip, s)
                    else
                      let f = f\<lparr>f_flags := f_flags f AND NOT UFS_FILE_BUF_DIRTY\<rparr>
                      in if f_ino f \<noteq> 0 then
                           let (retval, ip, s) = ufs_write_inode (f_ino f) ip s
                           in Some (retval, f, ip, s)
                         else Some (0, f, ip, s)
             })"

definition sync_buffer_position :: "file_state \<Rightarrow> (int \<times> file_state) option" where
  "sync_buffer_position st = (case st of (f, ip, s) \<Rightarrow>
     let b = u32 (lblkno (d_fs s) (f_pos f))
     in if b \<noteq> f_blockno f then do {
          (retval, f, ip, s) \<leftarrow> ufs_file_flush (f, ip, s);
          if retval \<noteq> 0 then Some (retval, f, ip, s)
          else Some (0, f\<lparr>f_flags := f_flags f AND NOT UFS_FILE_BUF_VALID, f_blockno := b\<rparr>, ip, s)
        }
        else Some (0, f, ip, s))"

subsection \<open>Filling the buffer\<close>

definition load_buffer :: "bool \<Rightarrow> file_state \<Rightarrow> (int \<times> file_state) option" where
  "load_buffer dontfill st = (case st of (f, ip, s) \<Rightarrow>
     if f_flags f AND UFS_FILE_BUF_VALID \<noteq> 0 then Some (0, f, ip, s)
     else do {
       (retval, physblock) \<leftarrow> ufs_bmap ip (f_blockno f) (f_physblock f) s;
       let f = f\<lparr>f_physblock := physblock\<rparr>;
       let fsize = ufs_io_size (d_fs s) ip (f_pos f) False;
       if retval \<noteq> 0 then Some (retval, f, ip, s)
       else
         let (retval, buf) =
           (if dontfill then (0, f_buf f)
            else if physblock \<noteq> 0 then bread (fsbtodb (d_fs s) physblock) (f_buf f) fsize s
            else (0, memset (f_buf f) 0 0 fsize));
             f = f\<lparr>f_buf := buf\<rparr>
         in if retval = -1 then Some (-1, f, ip, s)
            else Some (0, f\<lparr>f_flags := f_flags f OR UFS_FILE_BUF_VALID\<rparr>, ip, s)
     })"

subsection \<open>Reading and writing\<close>

text \<open>
  The loops move \<open>c\<close> bytes at a time, \<open>count\<close> counts what was moved. A file system with no
  block size divides by zero. The comparison of size and position after the buffer is loaded
  repeats the loop condition: neither function changes them.
\<close>

definition chunk :: "int \<Rightarrow> int \<Rightarrow> int \<Rightarrow> int" where
  "chunk bsize pos n = (let c = bsize - pos mod bsize in if c > n then n else c)"

lemma chunk_pos [simp]: "0 < bsize \<Longrightarrow> 0 < n \<Longrightarrow> 0 < chunk bsize pos n"
  using pos_mod_bound [of bsize pos] by (auto simp: chunk_def Let_def)

function file_read_loop :: "int \<Rightarrow> int \<Rightarrow> mem \<Rightarrow> file_state \<Rightarrow> (int \<times> int \<times> mem \<times> file_state) option" where
  "file_read_loop wanted count out (f, ip, s) =
     (if f_pos f < i_size ip \<and> wanted > 0 then
        case sync_buffer_position (f, ip, s) of
          None \<Rightarrow> None
        | Some (retval, f, ip, s) \<Rightarrow>
            if retval \<noteq> 0 then Some (retval, count, out, f, ip, s)
            else (case load_buffer False (f, ip, s) of
               None \<Rightarrow> None
             | Some (retval, f, ip, s) \<Rightarrow>
                 if retval \<noteq> 0 then Some (retval, count, out, f, ip, s)
                 else if fs_bsize (d_fs s) \<le> 0 \<or> i_size ip \<le> f_pos f then None
                 else
                   let start = f_pos f mod fs_bsize (d_fs s);
                       c = chunk (fs_bsize (d_fs s)) (f_pos f) wanted;
                       left = i_size ip - f_pos f;
                       c = (if c > left then left else c)
                   in file_read_loop (wanted - c) (count + c) (memcpy out count (f_buf f) start c)
                        (f\<lparr>f_pos := f_pos f + c\<rparr>, ip, s))
      else Some (0, count, out, f, ip, s))"
  by pat_completeness auto
termination
  by (relation "measure (\<lambda>(n, c, out, st). nat n)") (auto simp: Let_def not_le)

function file_write_loop :: "int \<Rightarrow> int \<Rightarrow> mem \<Rightarrow> int \<Rightarrow> file_state \<Rightarrow> (int \<times> int \<times> file_state) option" where
  "file_write_loop nbytes count buf ptr (f, ip, s) =
     (if nbytes > 0 then
        case sync_buffer_position (f, ip, s) of
          None \<Rightarrow> None
        | Some (retval, f, ip, s) \<Rightarrow>
            if retval \<noteq> 0 then Some (retval, count, f, ip, s)
            else if fs_bsize (d_fs s) \<le> 0 then None
            else
              let start = f_pos f mod fs_bsize (d_fs s);
                  c = chunk (fs_bsize (d_fs s)) (f_pos f) nbytes
              in (case load_buffer (c = fs_bsize (d_fs s)) (f, ip, s) of
                    None \<Rightarrow> None
                  | Some (retval, f, ip, s) \<Rightarrow>
                      if retval \<noteq> 0 then Some (retval, count, f, ip, s)
                      else file_write_loop (nbytes - c) (count + c) buf (ptr + c)
                             (f\<lparr>f_flags := f_flags f OR UFS_FILE_BUF_DIRTY,
                                f_buf := memcpy (f_buf f) start buf ptr c,
                                f_pos := f_pos f + c\<rparr>, ip, s))
      else Some (0, count, f, ip, s))"
  by pat_completeness auto
termination
  by (relation "measure (\<lambda>(n, c, b, p, st). nat n)") (auto simp: Let_def not_le)

declare file_read_loop.simps [simp del] file_write_loop.simps [simp del]

text \<open>Code, number of bytes, the bytes read.\<close>

definition ufs_file_read :: "int \<Rightarrow> mem \<Rightarrow> file_state \<Rightarrow> (int \<times> int \<times> mem \<times> file_state) option" where
  "ufs_file_read wanted out st = file_read_loop (u32 wanted) 0 out st"

text \<open>The count is not stored when the file is not open for writing.\<close>

definition ufs_file_write :: "int \<Rightarrow> int \<Rightarrow> mem \<Rightarrow> int \<Rightarrow> file_state \<Rightarrow> (int \<times> int \<times> file_state) option" where
  "ufs_file_write wr buf_n buf ptr st = (case st of (f, ip, s) \<Rightarrow>
     if f_flags f AND UFS_FILE_WRITE = 0 then Some (EROFS, wr, f, ip, s)
     else file_write_loop (u32 buf_n) 0 buf ptr (f, ip, s))"

definition ufs_file_lseek :: "int \<Rightarrow> int \<Rightarrow> ufs_file \<Rightarrow> inode \<Rightarrow> int \<times> ufs_file" where
  "ufs_file_lseek offset whence f ip =
     (if whence = UFS_SEEK_SET then (0, f\<lparr>f_pos := u64 offset\<rparr>)
      else if whence = UFS_SEEK_CUR then (0, f\<lparr>f_pos := u64 (f_pos f + offset)\<rparr>)
      else if whence = UFS_SEEK_END then (0, f\<lparr>f_pos := u64 (i_size ip + offset)\<rparr>)
      else (EINVAL, f))"

definition ufs_file_get_size :: "ufs_file \<Rightarrow> inode \<Rightarrow> int \<times> int" where
  "ufs_file_get_size f ip = (if f_magic f \<noteq> UFS_MAGIC_FILE then (EINVAL, 0) else (0, i_size ip))"

text \<open>The new size reaches \<open>ufs_truncate\<close> as an \<open>int\<close> and the inode as 32 bits.\<close>

definition ufs_file_set_size :: "int \<Rightarrow> file_state \<Rightarrow> (int \<times> file_state) option" where
  "ufs_file_set_size sz st = do {
     (_, f, ip, s) \<leftarrow> ufs_file_flush st;
     (retval, ip, s) \<leftarrow>
       (if u64 sz < i_size ip \<and> i_blocks ip \<noteq> 0 then ufs_truncate ip (s32 sz) s else Some (0, ip, s));
     Some (retval, f, ip\<lparr>i_size := u64 sz AND 0xffffffff\<rparr>, s)
   }"

subsection \<open>do_write (op_write.c)\<close>

text \<open>
  The loop passes the rest of the size, cut to 32 bits, until nothing is left; the value
  returned is the count of the last pass. Error codes are returned in place of a count. With a
  size that is a positive multiple of \<open>2 ^ 32\<close> the loop makes no progress.
\<close>

partial_function (option) do_write_loop ::
  "int \<Rightarrow> int \<Rightarrow> int \<Rightarrow> mem \<Rightarrow> int \<Rightarrow> file_state \<Rightarrow> (int \<times> int \<times> file_state) option" where
  "do_write_loop rt wr sz buf tmp st =
     (if sz > 0 \<and> rt = 0 then
        Option.bind (ufs_file_write wr sz buf tmp st) (\<lambda>(rt, wr, st).
          do_write_loop rt wr (sz - wr) buf (tmp + wr) st)
      else Some (rt, wr, st))"

definition do_write :: "mem \<Rightarrow> int \<Rightarrow> int \<Rightarrow> file_state \<Rightarrow> (int \<times> file_state) option" where
  "do_write buf sz offset st = (case st of (f, ip, s) \<Rightarrow>
     let (rt, fsize) = ufs_file_get_size f ip
     in if rt \<noteq> 0 then Some (rt, f, ip, s)
        else do {
          (rt, f, ip, s) \<leftarrow>
            (if u64 (offset + sz) > fsize then ufs_file_set_size (offset + sz) (f, ip, s)
             else Some (0, f, ip, s));
          if rt \<noteq> 0 then Some (rt, f, ip, s)
          else do {
            let (rt, f) = ufs_file_lseek offset UFS_SEEK_SET f ip;
            (rt, wr, f, ip, s) \<leftarrow> do_write_loop 0 0 sz buf 0 (f, ip, s);
            if rt \<noteq> 0 then Some (rt, f, ip, s)
            else do {
              (rt, f, ip, s) \<leftarrow> ufs_file_flush (f, ip, s);
              Some (if rt \<noteq> 0 then rt else wr, f, ip, s)
            }
          }
        })"

subsection \<open>Files of the state\<close>

definition with_file :: "int \<Rightarrow> (file_state \<Rightarrow> ('a \<times> file_state) option) \<Rightarrow> world \<Rightarrow> ('a \<times> world) option" where
  "with_file fp g w = do {
     f \<leftarrow> w_files w fp;
     ip \<leftarrow> get_inode (f_vnode f) w;
     (r, f, ip, s) \<leftarrow> g (f, ip, w_ufs w);
     w \<leftarrow> set_inode (f_vnode f) ip (w\<lparr>w_ufs := s, w_files := (w_files w)(fp \<mapsto> f)\<rparr>);
     Some (r, w)
   }"

text \<open>\<open>release_callback\<close> of op_release.c, used for files that share their inode.\<close>

definition release_callback :: "int \<Rightarrow> int \<Rightarrow> world \<Rightarrow> world option" where
  "release_callback vnode flags w = map_option snd (vnode_put vnode (flags AND UFS_FILE_WRITE \<noteq> 0) w)"

definition ufs_file_close2 :: "int \<Rightarrow> world \<Rightarrow> (int \<times> world) option" where
  "ufs_file_close2 fp w = do {
     (retval, w) \<leftarrow> with_file fp ufs_file_flush w;
     f \<leftarrow> w_files w fp;
     w \<leftarrow> (if f_flags f AND UFS_FILE_SHARED_INODE = 0
            then map_option snd (vnode_put (f_vnode f) (fs_ronly (d_fs (w_ufs w)) = 0) w)
            else release_callback (f_vnode f) (f_flags f AND UFS_FILE_MASK) w);
     Some (retval, w\<lparr>w_files := (w_files w)(fp := None)\<rparr>)
   }"

definition do_open :: "string \<Rightarrow> int \<Rightarrow> world \<Rightarrow> (int option \<times> world) option" where
  "do_open path flags w = do {
     (rt, ino, vp, w) \<leftarrow> do_readvnode path w;
     if rt \<noteq> 0 then Some (None, w)
     else do {
       let vnode = the vp;
       case ufs_file_open2 ino vnode (if flags AND 3 \<noteq> 0 then UFS_FILE_WRITE else 0) (w_ufs w) of
         (_, None) \<Rightarrow> do { (_, w) \<leftarrow> vnode_put vnode False w; Some (None, w) }
       | (_, Some f) \<Rightarrow>
           Some (Some (w_brk w), w\<lparr>w_files := (w_files w)(w_brk w \<mapsto> f), w_brk := w_brk w + 1\<rparr>)
     }
   }"

definition do_release :: "int option \<Rightarrow> world \<Rightarrow> (int \<times> world) option" where
  "do_release file w =
     (case file of
        None \<Rightarrow> Some (- ENOENT, w)
      | Some fp \<Rightarrow> do {
          (rc, w) \<leftarrow> ufs_file_close2 fp w;
          Some (if rc \<noteq> 0 then - EIO else 0, w)
        })"

end
