(* ===== verification/Ufs_Ops.thy ===== *)
theory Ufs_Ops
  imports Ufs_File
begin

section \<open>The FUSE operations (op_*.c, do_check.c, do_fillstatbuf.c)\<close>

text \<open>
  One definition per callback the program registers with FUSE. Each takes the state and
  returns its result, negative error codes included, with the new state; results that the code
  stores through pointers are returned as values. \<open>RETURN_IF_RDONLY\<close> returns the positive
  \<open>EROFS\<close>, as in the code. A pointer that the code uses without having set it has no meaning:
  such a call does not return. What the callbacks get from FUSE itself (the user of the
  request, the \<open>filler\<close> of readdir) is a field of the state or an argument.
\<close>

subsection \<open>Paths\<close>

text \<open>\<open>strrchr(path, '/')\<close>: the text before and after the last slash.\<close>

definition last_slash :: "string \<Rightarrow> (string \<times> string) option" where
  "last_slash path =
     (case dropWhile (\<lambda>c. c \<noteq> CHR ''/'') (rev path) of
        [] \<Rightarrow> None
      | _ # pre \<Rightarrow> Some (rev pre, rev (takeWhile (\<lambda>c. c \<noteq> CHR ''/'') (rev path))))"

definition do_check :: "string \<Rightarrow> int" where
  "do_check path =
     (case last_slash path of
        None \<Rightarrow> - ENOENT
      | Some (_, base) \<Rightarrow> if length base > 255 then - ENAMETOOLONG else 0)"

definition do_check_split :: "string \<Rightarrow> int \<times> (string \<times> string) option" where
  "do_check_split path =
     (case last_slash path of
        None \<Rightarrow> (- ENOENT, None)
      | Some (dir, base) \<Rightarrow> if length base > 255 then (- ENAMETOOLONG, None) else (0, Some (dir, base)))"

definition ronly :: "world \<Rightarrow> bool" where
  "ronly w \<longleftrightarrow> fs_ronly (d_fs (w_ufs w)) \<noteq> 0"

text \<open>\<open>ufs->now ? ufs->now : time(NULL)\<close>\<close>

definition ufs_now :: "world \<Rightarrow> int" where
  "ufs_now w = (if d_now (w_ufs w) \<noteq> 0 then d_now (w_ufs w) else env_time (w_ufs w))"

subsection \<open>Attributes\<close>

record stat =
  st_dev :: int
  st_ino :: int
  st_mode :: int
  st_nlink :: int
  st_uid :: int
  st_gid :: int
  st_size :: int
  st_blksize :: int
  st_blocks :: int
  st_atime :: int
  st_mtime :: int
  st_ctime :: int

text \<open>
  \<open>nlink_t\<close> is unsigned and the link count is a signed 16-bit number; \<open>off_t\<close> and \<open>blkcnt_t\<close> are
  signed and the size and the number of sectors are not.
\<close>

definition do_fillstatbuf :: "inode \<Rightarrow> world \<Rightarrow> stat" where
  "do_fillstatbuf ip w =
     \<lparr>st_dev = w_ufsp w, st_ino = i_number ip, st_mode = i_mode ip, st_nlink = u64 (i_nlink ip),
      st_uid = i_uid ip, st_gid = i_gid ip, st_size = s64 (i_size ip),
      st_blksize = fs_fsize (d_fs (w_ufs w)), st_blocks = s64 (i_blocks ip), st_atime = i_atime ip,
      st_mtime = i_mtime ip, st_ctime = i_ctime ip\<rparr>"

definition op_fgetattr :: "string \<Rightarrow> world \<Rightarrow> (int \<times> stat option \<times> world) option" where
  "op_fgetattr path w = do {
     (rt, ino, vp, w) \<leftarrow> do_readvnode path w;
     if rt \<noteq> 0 then Some (rt, None, w)
     else do {
       ip \<leftarrow> get_inode (the vp) w;
       let st = do_fillstatbuf ip w;
       (_, w) \<leftarrow> vnode_put (the vp) False w;
       Some (0, Some st, w)
     }
   }"

definition op_getattr :: "string \<Rightarrow> world \<Rightarrow> (int \<times> stat option \<times> world) option" where
  "op_getattr path w =
     (if do_check path \<noteq> 0 then Some (do_check path, None, w) else op_fgetattr path w)"

abbreviation (input) R_OK :: int where "R_OK \<equiv> 4"
abbreviation (input) W_OK :: int where "W_OK \<equiv> 2"
abbreviation (input) X_OK :: int where "X_OK \<equiv> 1"
abbreviation (input) F_OK :: int where "F_OK \<equiv> 0"

definition inode_access :: "int \<Rightarrow> int \<Rightarrow> inode \<Rightarrow> int \<Rightarrow> int" where
  "inode_access uid gid ip mode =
     (let perms = i_mode ip
      in if mode = F_OK then 0
         else if uid = 0 then
           (if mode AND X_OK = 0 then 0
            else if perms AND 0x49 \<noteq> 0 then 0 else - EACCES)
         else if uid = i_uid ip then
           (if mode AND R_OK \<noteq> 0 \<and> perms AND 0x100 = 0 then - EACCES
            else if mode AND W_OK \<noteq> 0 \<and> perms AND 0x80 = 0 then - EACCES
            else if mode AND X_OK \<noteq> 0 \<and> perms AND 0x40 = 0 then - EACCES else 0)
         else if gid = i_gid ip then
           (if mode AND R_OK \<noteq> 0 \<and> perms AND 0x20 = 0 then - EACCES
            else if mode AND W_OK \<noteq> 0 \<and> perms AND 0x10 = 0 then - EACCES
            else if mode AND X_OK \<noteq> 0 \<and> perms AND 0x8 = 0 then - EACCES else 0)
         else
           (if mode AND R_OK \<noteq> 0 \<and> perms AND 0x4 = 0 then - EACCES
            else if mode AND W_OK \<noteq> 0 \<and> perms AND 0x2 = 0 then - EACCES
            else if mode AND X_OK \<noteq> 0 \<and> perms AND 0x1 = 0 then - EACCES else 0))"

text \<open>The vnode is not released.\<close>

definition op_access :: "string \<Rightarrow> int \<Rightarrow> world \<Rightarrow> (int \<times> world) option" where
  "op_access path msk w =
     (if msk AND W_OK \<noteq> 0 \<and> ronly w then Some (- EROFS, w)
      else if do_check path \<noteq> 0 then Some (do_check path, w)
      else do {
        (res, ino, vp, w) \<leftarrow> do_readvnode path w;
        if res \<noteq> 0 then Some (res, w)
        else do {
          ip \<leftarrow> get_inode (the vp) w;
          Some (inode_access (w_uid w) (w_gid w) ip msk, w)
        }
      })"

definition op_chmod :: "string \<Rightarrow> int \<Rightarrow> world \<Rightarrow> (int \<times> world) option" where
  "op_chmod path mode w =
     (if ronly w then Some (EROFS, w)
      else if do_check path \<noteq> 0 then Some (do_check path, w)
      else do {
        (rt, ino, vp, w) \<leftarrow> do_readvnode path w;
        if rt \<noteq> 0 then Some (rt, w)
        else do {
          let msk = 0xFFF;
          w \<leftarrow> upd_inode (the vp) (\<lambda>ip. ip\<lparr>i_mode := (i_mode ip AND NOT msk) OR (mode AND msk),
                                             i_ctime := env_time (w_ufs w)\<rparr>) w;
          (rc, w) \<leftarrow> vnode_put (the vp) True w;
          Some (if rc \<noteq> 0 then - EIO else 0, w)
        }
      })"

text \<open>The guards test the other id, as in the code; -1 is the unsigned \<open>0xffffffff\<close>.\<close>

definition op_chown :: "string \<Rightarrow> int \<Rightarrow> int \<Rightarrow> world \<Rightarrow> (int \<times> world) option" where
  "op_chown path uid gid w =
     (if ronly w then Some (EROFS, w)
      else do {
        (rt, ino, vp, w) \<leftarrow> do_readvnode path w;
        if rt \<noteq> 0 then Some (rt, w)
        else do {
          w \<leftarrow> upd_inode (the vp) (\<lambda>ip.
                 let ip = (if uid \<noteq> 0xffffffff then ip\<lparr>i_gid := gid\<rparr> else ip)
                 in if gid \<noteq> 0xffffffff then ip\<lparr>i_uid := uid\<rparr> else ip) w;
          (rc, w) \<leftarrow> vnode_put (the vp) True w;
          Some (if rc \<noteq> 0 then - EIO else 0, w)
        }
      })"

text \<open>\<open>tv0\<close> and \<open>tv1\<close> are the seconds of the two times; the code uses the first for both.\<close>

definition op_utimens :: "string \<Rightarrow> int \<Rightarrow> int \<Rightarrow> world \<Rightarrow> (int \<times> world) option" where
  "op_utimens path tv0 tv1 w = do {
     (rt, ino, vp, w) \<leftarrow> do_readvnode path w;
     if rt \<noteq> 0 then Some (rt, w)
     else do {
       w \<leftarrow> upd_inode (the vp) (\<lambda>ip. ip\<lparr>i_atime := tv0, i_mtime := tv0\<rparr>) w;
       (rt, w) \<leftarrow> vnode_put (the vp) True w;
       Some (if rt \<noteq> 0 then - EIO else 0, w)
     }
   }"

record statvfs =
  f_bsize :: int
  f_frsize :: int
  f_blocks :: int
  f_bfree :: int
  f_bavail :: int
  f_files :: int
  f_ffree :: int
  f_favail :: int
  f_fsid :: int
  f_flag :: int
  f_namemax :: int

definition op_statfs :: "world \<Rightarrow> int \<times> statvfs" where
  "op_statfs w =
     (let fs = d_fs (w_ufs w); ffree = cs_nifree (fs_cstotal fs) + fs_pendinginodes fs
      in (0, \<lparr>f_bsize = fs_bsize fs, f_frsize = fs_fsize fs, f_blocks = fs_dsize fs,
              f_bfree = blkstofrags fs (cs_nbfree (fs_cstotal fs)) + cs_nffree (fs_cstotal fs)
                          + dbtofsb fs (fs_pendingblocks fs),
              f_bavail = freespace fs (fs_minfree fs) + dbtofsb fs (fs_pendingblocks fs),
              f_files = fs_ncg fs * fs_ipg fs - ROOTINO, f_ffree = ffree, f_favail = ffree,
              f_fsid = 0, f_flag = 0, f_namemax = MAXNAMLEN\<rparr>))"

subsection \<open>Open files\<close>

text \<open>Returns the code and the file handle.\<close>

definition op_open :: "string \<Rightarrow> int \<Rightarrow> world \<Rightarrow> (int \<times> int option \<times> world) option" where
  "op_open path flags w = do {
     (file, w) \<leftarrow> do_open path flags w;
     Some (if file = None then - ENOENT else 0, file, w)
   }"

definition op_read :: "mem \<Rightarrow> int \<Rightarrow> int \<Rightarrow> int \<Rightarrow> world \<Rightarrow> (int \<times> mem \<times> world) option" where
  "op_read buf sz offset fh w = do {
     ((r, out), w) \<leftarrow> with_file fh (\<lambda>(f, ip, s).
        let (rc, f) = ufs_file_lseek offset UFS_SEEK_SET f ip
        in if rc \<noteq> 0 then Some ((- EINVAL, buf), f, ip, s)
           else do {
             (rc, bytes, out, st) \<leftarrow> ufs_file_read sz buf (f, ip, s);
             Some ((if rc \<noteq> 0 then - EIO else s32 bytes, out), st)
           }) w;
     Some (r, out, w)
   }"

definition op_write :: "mem \<Rightarrow> int \<Rightarrow> int \<Rightarrow> int \<Rightarrow> world \<Rightarrow> (int \<times> world) option" where
  "op_write buf sz offset fh w = do {
     (rt, w) \<leftarrow> with_file fh (do_write buf sz offset) w;
     Some (s32 rt, w)
   }"

definition op_flush :: "int option \<Rightarrow> world \<Rightarrow> (int \<times> world) option" where
  "op_flush file w =
     (case file of
        None \<Rightarrow> Some (- ENOENT, w)
      | Some fp \<Rightarrow> do {
          (rc, w) \<leftarrow> with_file fp ufs_file_flush w;
          Some (if rc \<noteq> 0 then - EIO else 0, w)
        })"

definition op_release :: "int option \<Rightarrow> world \<Rightarrow> (int \<times> world) option" where
  "op_release file w = do_release file w"

definition op_truncate :: "string \<Rightarrow> int \<Rightarrow> world \<Rightarrow> (int \<times> world) option" where
  "op_truncate path len w =
     (if do_check path \<noteq> 0 then Some (do_check path, w)
      else do {
        (file, w) \<leftarrow> do_open path 1 w;
        case file of
          None \<Rightarrow> Some (- ENOENT, w)
        | Some fp \<Rightarrow> do {
            (rt, w) \<leftarrow> with_file fp (ufs_file_set_size len) w;
            (rt', w) \<leftarrow> do_release (Some fp) w;
            Some (if rt \<noteq> 0 then rt else rt', w)
          }
      })"

definition op_ftruncate :: "int \<Rightarrow> int \<Rightarrow> world \<Rightarrow> (int \<times> world) option" where
  "op_ftruncate len fh w = with_file fh (ufs_file_set_size len) w"

subsection \<open>Directories and links\<close>

text \<open>The bytes of a C string at an address, at most \<open>n\<close> of them.\<close>

fun cstr_at :: "nat \<Rightarrow> mem \<Rightarrow> int \<Rightarrow> string" where
  "cstr_at 0 m a = []"
| "cstr_at (Suc n) m a = (if m a = 0 then [] else char_of (uint (m a)) # cstr_at n m (a + 1))"

text \<open>
  The \<open>filler\<close> of FUSE is a parameter: it gets its buffer, a name and an inode number and
  returns its code (1 when the buffer is full) and the buffer.
\<close>

definition walk_dir :: "('b \<Rightarrow> string \<Rightarrow> int \<Rightarrow> int \<times> 'b) \<Rightarrow> 'b dirfunc" where
  "walk_dir filler b m de off =
     (if d_ino m de = 0 then Some (0, m, b)
      else
        let flen = d_namlen m de AND 0xff;
            (ret, b) = filler b (cstr_at (nat flen) m (de + 8)) (d_ino m de)
        in Some (ret, m, b))"

definition op_readdir ::
  "string \<Rightarrow> ('b \<Rightarrow> string \<Rightarrow> int \<Rightarrow> int \<times> 'b) \<Rightarrow> 'b \<Rightarrow> world \<Rightarrow> (int \<times> 'b \<times> world) option" where
  "op_readdir path filler b w = do {
     (rt, ino, vp, w) \<leftarrow> do_readvnode path w;
     if rt \<noteq> 0 then Some (rt, b, w)
     else do {
       (rt, b, w) \<leftarrow> ufs_dir_iterate ino (walk_dir filler) b w;
       (_, w) \<leftarrow> vnode_put (the vp) False w;
       Some (if rt \<noteq> 0 then - EIO else 0, b, w)
     }
   }"

text \<open>The link's text, cut to the size of the caller's buffer; \<open>None\<close> when nothing is stored.\<close>

definition readlink_text :: "inode \<Rightarrow> int \<Rightarrow> int \<Rightarrow> uufsd \<Rightarrow> int \<times> string option" where
  "readlink_text ip ino sz s =
     (if ino \<noteq> i_number ip then (- EINVAL, None)
      else if \<not> S_ISLNK (i_mode ip) then (- EINVAL, None)
      else if i_blocks ip \<noteq> 0 then
        (if \<not> env_mem s then (- ENOMEM, None)
         else let (rc, b) = blkread (fsbtodb (d_fs s) (di_db (i_din2 ip) 0)) (env_junk s) (fs_bsize (d_fs s)) s
              in if rc = -1 then (- EIO, None) else (0, Some (cstr_at (nat (sz - 1)) b 0)))
      else (0, Some (cstr_at (nat (sz - 1)) (i_din2 ip) 112)))"

definition op_readlink :: "string \<Rightarrow> int \<Rightarrow> world \<Rightarrow> (int \<times> string option \<times> world) option" where
  "op_readlink path sz w = do {
     (rt, ino, vp, w) \<leftarrow> do_readvnode path w;
     if rt \<noteq> 0 then Some (rt, None, w)
     else do {
       ip \<leftarrow> get_inode (the vp) w;
       let (rt, txt) = readlink_text ip ino sz (w_ufs w);
       (_, w) \<leftarrow> vnode_put (the vp) False w;
       Some (rt, txt, w)
     }
   }"

text \<open>Device numbers: \<open>major\<close> and \<open>minor\<close> of the C library, and the two encodings.\<close>

definition major :: "int \<Rightarrow> int" where
  "major dev = u32 ((drop_bit 8 dev AND 0xfff) OR (drop_bit 32 dev AND NOT 0xfff))"

definition minor :: "int \<Rightarrow> int" where
  "minor dev = u32 ((dev AND 0xff) OR (drop_bit 12 dev AND NOT 0xff))"

definition old_valid_dev :: "int \<Rightarrow> bool" where
  "old_valid_dev dev \<longleftrightarrow> major dev < 256 \<and> minor dev < 256"

definition old_encode_dev :: "int \<Rightarrow> int" where
  "old_encode_dev dev = u16 (push_bit 8 (major dev) OR minor dev)"

definition new_encode_dev :: "int \<Rightarrow> int" where
  "new_encode_dev dev =
     u32 ((minor dev AND 0xff) OR push_bit 8 (major dev) OR push_bit 12 (minor dev AND NOT 0xff))"

definition do_modetoufslag :: "int \<Rightarrow> int" where
  "do_modetoufslag mode =
     (if S_ISREG mode then DT_REG
      else if S_ISDIR mode then DT_DIR
      else if S_ISCHR mode then DT_CHR
      else if S_ISBLK mode then DT_BLK
      else if S_ISFIFO mode then DT_FIFO
      else if S_ISSOCK mode then DT_SOCK
      else if S_ISLNK mode then DT_LNK
      else DT_UNKNOWN)"

text \<open>The new inode: times, owner, device number or short link; too long a short link fails an
  assertion.\<close>

definition create_inode :: "int \<Rightarrow> int \<Rightarrow> int \<Rightarrow> int \<Rightarrow> int \<Rightarrow> string option \<Rightarrow> fs \<Rightarrow> inode \<Rightarrow> inode option" where
  "create_inode mode dev tm uid gid fastsymlink fs ip =
     (let ip = ip\<lparr>i_mode := u16 mode, i_atime := tm, i_ctime := tm, i_mtime := tm, i_nlink := 1,
                  i_size := 0, i_uid := uid, i_gid := gid\<rparr>;
          ip = (if S_ISCHR mode \<or> S_ISBLK mode
                then (if old_valid_dev dev then set_di_db ip 0 (old_encode_dev dev)
                      else set_di_db ip 1 (new_encode_dev dev))
                else ip)
      in case fastsymlink of
           None \<Rightarrow> Some ip
         | Some txt \<Rightarrow>
             if S_ISLNK mode then
               (let dst_len = max_symlinklen fs
                in if int (length txt) < dst_len
                   then Some (ip\<lparr>i_size := int (length txt),
                                i_din2 := put_chars (memset (i_din2 ip) 112 0 dst_len) 112 txt\<rparr>)
                   else None)
             else Some ip)"

text \<open>
  The first reference to the parent directory is never released. The path is split without a
  look at the result: without the two parts the code has no path to go on with.
\<close>

definition do_create :: "string \<Rightarrow> int \<Rightarrow> int \<Rightarrow> string option \<Rightarrow> world \<Rightarrow> (int \<times> world) option" where
  "do_create path mode dev fastsymlink w = do {
     (p_path, r_path) \<leftarrow> snd (do_check_split path);
     (rt, ino, dirp, w) \<leftarrow> do_readvnode p_path w;
     if rt \<noteq> 0 then Some (rt, w)
     else do {
       let dirnode = the dirp;
       (rt, vp, w) \<leftarrow> ufs_valloc dirnode mode w;
       if rt \<noteq> 0 then Some (- ENOMEM, w)
       else do {
         vnode \<leftarrow> vp;
         (rt, w) \<leftarrow> ufs_link ino r_path vnode mode w;
         if rt \<noteq> 0 then do { (_, w) \<leftarrow> vnode_put vnode True w; Some (rt, w) }
         else do {
           let tm = ufs_now w;
           ip \<leftarrow> get_inode vnode w;
           ip \<leftarrow> create_inode mode dev tm (w_uid w) (w_gid w) fastsymlink (d_fs (w_ufs w)) ip;
           w \<leftarrow> set_inode vnode ip w;
           (rt, ino, dirp, w) \<leftarrow> do_readvnode p_path w;
           (ret, dirp, w) \<leftarrow>
             (if rt \<noteq> 0 then Some (- EIO, if rt = - ENOENT then Some dirnode else None, w)
              else do {
                w \<leftarrow> upd_inode (the dirp) (\<lambda>ip. ip\<lparr>i_ctime := tm, i_mtime := tm\<rparr>) w;
                Some (0, dirp, w)
              });
           (_, w) \<leftarrow> (case dirp of None \<Rightarrow> Some (0, w) | Some d \<Rightarrow> vnode_put d True w);
           (_, w) \<leftarrow> vnode_put vnode True w;
           Some (ret, w)
         }
       }
     }
   }"

definition op_create :: "string \<Rightarrow> int \<Rightarrow> int \<Rightarrow> world \<Rightarrow> (int \<times> int option \<times> world) option" where
  "op_create path mode flags w = do {
     (rt, file, w) \<leftarrow> op_open path flags w;
     if rt = 0 then Some (0, file, w)
     else do {
       (rt, w) \<leftarrow> do_create path mode 0 None w;
       if rt \<noteq> 0 then Some (rt, None, w)
       else do {
         (rt, file, w) \<leftarrow> op_open path flags w;
         Some (if rt \<noteq> 0 then - EIO else 0, file, w)
       }
     }
   }"

definition op_mknod :: "string \<Rightarrow> int \<Rightarrow> int \<Rightarrow> world \<Rightarrow> (int \<times> world) option" where
  "op_mknod path mode dev w =
     (if ronly w then Some (EROFS, w) else do_create path mode dev None w)"

definition op_symlink :: "string \<Rightarrow> string \<Rightarrow> world \<Rightarrow> (int \<times> world) option" where
  "op_symlink sourcename destname w =
     (let sourcelen = int (length sourcename)
      in if sourcelen < max_symlinklen (d_fs (w_ufs w))
         then do_create destname (IFLNK OR 0x1FF) 0 (Some sourcename) w
         else do {
           (rt, w) \<leftarrow> do_create destname (IFLNK OR 0x1FF) 0 None w;
           if rt \<noteq> 0 then Some (rt, w)
           else do {
             (file, w) \<leftarrow> do_open destname 1 w;
             case file of
               None \<Rightarrow> Some (- EIO, w)
             | Some fp \<Rightarrow> do {
                 (wr, w) \<leftarrow> with_file fp (do_write (put_chars (\<lambda>_. 0) 0 sourcename) sourcelen 0) w;
                 if u64 wr \<noteq> sourcelen then Some (- EIO, w)
                 else do_release (Some fp) w
               }
           }
         })"

text \<open>A new directory's block: the entries \<open>.\<close> and \<open>..\<close>.\<close>

definition ufs_new_dir_block :: "int \<Rightarrow> int \<Rightarrow> uufsd \<Rightarrow> mem option" where
  "ufs_new_dir_block dir_ino parent_ino s =
     (let dirsize = DIRBLKSIZ; blocksize = fragroundup (d_fs s) dirsize
      in if \<not> env_mem s then None
         else
           let m = memset (env_junk s) 0 0 blocksize
           in Some (if dir_ino \<noteq> 0 then
                let m = set_d_ino m 0 dir_ino;
                    m = set_d_namlen m 0 1;
                    m = m(8 := of_char (CHR ''.''));
                    m = set_d_type m 0 DT_DIR;
                    rec_len = dirsize - UFS_DIR_REC_LEN 1;
                    m = set_d_reclen m 0 (UFS_DIR_REC_LEN 1);
                    d = d_reclen m 0;
                    m = set_d_ino m d parent_ino;
                    m = set_d_namlen m d 2;
                    m = m(d + 8 := of_char (CHR ''.''));
                    m = m(d + 9 := of_char (CHR ''.''));
                    m = set_d_type m d DT_DIR
                in set_d_reclen m d rec_len
              else m))"

text \<open>The part of \<open>ufs_mkdir\<close> between the allocation of the inode and the release of the vnodes.\<close>

definition mkdir_body :: "int \<Rightarrow> int \<Rightarrow> int \<Rightarrow> string \<Rightarrow> world \<Rightarrow> (int \<times> world) option" where
  "mkdir_body parent pv vnode name w = do {
     ip \<leftarrow> get_inode vnode w;
     pip \<leftarrow> get_inode pv w;
     let fs = d_fs (w_ufs w);
     let dirsize = DIRBLKSIZ;
     let blocksize = fragroundup fs dirsize;
     (retval, blk, s) \<leftarrow> ufs_block_alloc (i_number ip) blocksize (w_ufs w);
     let w = w\<lparr>w_ufs := s\<rparr>;
     if retval \<noteq> 0 then Some (retval, w)
     else case ufs_new_dir_block (i_number ip) (i_number pip) (w_ufs w) of
       None \<Rightarrow> Some (ENOMEM, w)
     | Some block \<Rightarrow> do {
         w \<leftarrow> upd_inode vnode (\<lambda>ip. (set_di_db ip 0 blk)\<lparr>i_mode := DT_DIR OR 0x1FF, i_uid := 0,
                                        i_gid := 0, i_nlink := 1, i_size := dirsize\<rparr>) w;
         let (retval, s) = blkwrite (fsbtodb fs blk) block blocksize (w_ufs w);
         let w = w\<lparr>w_ufs := s\<rparr>;
         if retval = -1 then Some (-1, w)
         else do {
           (retval, _, w) \<leftarrow> ufs_lookup parent name w;
           if retval = 0 then Some (EEXIST, w)
           else if retval \<noteq> ENOENT then Some (retval, w)
           else do {
             (retval, w) \<leftarrow> ufs_link parent name vnode (DTTOIF DT_DIR) w;
             if retval \<noteq> 0 then Some (retval, w)
             else do {
               w \<leftarrow> (if parent \<noteq> i_number ip
                      then upd_inode pv (\<lambda>ip. ip\<lparr>i_nlink := i_nlink ip + 1\<rparr>) w else Some w);
               Some (0, w)
             }
           }
         }
       }
   }"

text \<open>The only caller passes 0 for the inode number, so an inode is always allocated.\<close>

definition ufs_mkdir :: "int \<Rightarrow> string \<Rightarrow> world \<Rightarrow> (int \<times> world) option" where
  "ufs_mkdir parent name w = do {
     (pvp, w) \<leftarrow> vnode_get parent w;
     case pvp of
       None \<Rightarrow> Some (ENOENT, w)
     | Some pv \<Rightarrow> do {
         (retval, vp, w) \<leftarrow> ufs_valloc pv (DTTOIF DT_DIR) w;
         (retval, w) \<leftarrow>
           (if retval \<noteq> 0 then Some (retval, w)
            else do {
              vnode \<leftarrow> vp;
              (retval, w) \<leftarrow> mkdir_body parent pv vnode name w;
              (_, w) \<leftarrow> vnode_put vnode True w;
              Some (retval, w)
            });
         (_, w) \<leftarrow> vnode_put pv True w;
         Some (retval, w)
       }
   }"

text \<open>
  The vnode pointer is tested instead of the code: when the path is not found it was never set.
\<close>

definition op_mkdir :: "string \<Rightarrow> int \<Rightarrow> world \<Rightarrow> (int \<times> world) option" where
  "op_mkdir path mode w =
     (if ronly w then Some (EROFS, w)
      else case do_check_split path of
        (rt, None) \<Rightarrow> Some (rt, w)
      | (rt, Some (p_path, r_path)) \<Rightarrow> do {
          (rt, ino, vp, w) \<leftarrow> do_readvnode p_path w;
          if rt = - ENOENT then None
          else case vp of
            None \<Rightarrow> Some (rt, w)
          | Some vnode \<Rightarrow> do {
              (rt, w) \<leftarrow> ufs_mkdir ino r_path w;
              if rt \<noteq> 0 then Some (rt, w)
              else do {
                (rt, _, cvp, w) \<leftarrow> do_readvnode path w;
                if rt \<noteq> 0 then Some (- EIO, w)
                else do {
                  let tm = ufs_now w;
                  w \<leftarrow> upd_inode (the cvp) (\<lambda>ip. ip\<lparr>i_mode := u16 (IFDIR OR mode), i_ctime := tm,
                         i_atime := tm, i_mtime := tm, i_uid := w_uid w, i_gid := w_gid w\<rparr>) w;
                  (_, w) \<leftarrow> vnode_put (the cvp) True w;
                  w \<leftarrow> upd_inode vnode (\<lambda>ip. ip\<lparr>i_ctime := tm, i_mtime := tm\<rparr>) w;
                  (_, w) \<leftarrow> vnode_put vnode True w;
                  Some (0, w)
                }
              }
            }
        })"

definition op_link :: "string \<Rightarrow> string \<Rightarrow> world \<Rightarrow> (int \<times> world) option" where
  "op_link source dest w =
     (if ronly w then Some (EROFS, w)
      else if do_check source \<noteq> 0 then Some (do_check source, w)
      else case do_check_split dest of
        (rc, None) \<Rightarrow> Some (rc, w)
      | (rc, Some (p_path, r_path)) \<Rightarrow> do {
          (rc, dir_ino, vp, w) \<leftarrow> do_readvnode p_path w;
          if rc \<noteq> 0 then Some (rc, w)
          else do {
            (_, w) \<leftarrow> vnode_put (the vp) False w;
            (rc, ino, vp, w) \<leftarrow> do_readvnode source w;
            if rc \<noteq> 0 then Some (rc, w)
            else do {
              let vnode = the vp;
              ip \<leftarrow> get_inode vnode w;
              (rc, w) \<leftarrow> ufs_link dir_ino r_path vnode (i_mode ip) w;
              if rc \<noteq> 0 then do { (_, w) \<leftarrow> vnode_put vnode False w; Some (rc, w) }
              else do {
                let tm = ufs_now w;
                w \<leftarrow> upd_inode vnode (\<lambda>ip. ip\<lparr>i_mtime := tm, i_atime := tm, i_ctime := tm\<rparr>) w;
                (rc, w) \<leftarrow> vnode_put vnode True w;
                Some (if rc \<noteq> 0 then - EIO else 0, w)
              }
            }
          }
        })"

text \<open>When the file is not found, or is a directory, the parent's vnode is not released.\<close>

definition op_unlink :: "string \<Rightarrow> world \<Rightarrow> (int \<times> world) option" where
  "op_unlink path w =
     (if ronly w then Some (EROFS, w)
      else case do_check_split path of
        (rt, None) \<Rightarrow> Some (rt, w)
      | (rt, Some (p_path, r_path)) \<Rightarrow> do {
          (rt, p_ino, pvp, w) \<leftarrow> do_readvnode p_path w;
          if rt \<noteq> 0 then Some (rt, w)
          else do {
            (rt, r_ino, rvp, w) \<leftarrow> do_readvnode path w;
            if rt \<noteq> 0 then Some (rt, w)
            else do {
              let p_vnode = the pvp;
              let r_vnode = the rvp;
              rip \<leftarrow> get_inode r_vnode w;
              if S_ISDIR (i_mode rip) then do {
                (_, w) \<leftarrow> vnode_put r_vnode False w;
                Some (- EISDIR, w)
              }
              else do {
                (rt, w) \<leftarrow> ufs_unlink p_ino r_path r_ino w;
                if rt \<noteq> 0 then do {
                  (_, w) \<leftarrow> vnode_put r_vnode False w;
                  (_, w) \<leftarrow> vnode_put p_vnode False w;
                  Some (- EIO, w)
                }
                else do {
                  let tm = ufs_now w;
                  w \<leftarrow> upd_inode r_vnode (\<lambda>ip. if i_nlink ip > 0 then ip\<lparr>i_nlink := i_nlink ip - 1\<rparr> else ip) w;
                  w \<leftarrow> upd_inode p_vnode (\<lambda>ip. ip\<lparr>i_ctime := tm, i_mtime := tm\<rparr>) w;
                  (rt, w) \<leftarrow> vnode_put p_vnode True w;
                  if rt \<noteq> 0 then do { (_, w) \<leftarrow> vnode_put r_vnode True w; Some (- EIO, w) }
                  else do {
                    w \<leftarrow> upd_inode r_vnode (\<lambda>ip. ip\<lparr>i_ctime := tm\<rparr>) w;
                    (rt, w) \<leftarrow> vnode_put r_vnode True w;
                    Some (if rt \<noteq> 0 then - EIO else 0, w)
                  }
                }
              }
            }
          }
        })"

definition rmdir_body :: "int \<Rightarrow> int \<Rightarrow> int \<Rightarrow> int \<Rightarrow> string \<Rightarrow> world \<Rightarrow> (int \<times> world) option" where
  "rmdir_body p_ino p_vnode r_ino r_vnode r_path w = do {
     rip \<leftarrow> get_inode r_vnode w;
     if \<not> S_ISDIR (i_mode rip) then Some (- ENOTDIR, w)
     else if r_ino = ROOTINO then Some (- EIO, w)
     else do {
       (rt, w) \<leftarrow> do_check_empty_dir r_ino w;
       if rt \<noteq> 0 then Some (rt, w)
       else do {
         (rt, w) \<leftarrow> ufs_unlink p_ino r_path r_ino w;
         if rt \<noteq> 0 then Some (- EIO, w)
         else do {
           let tm = ufs_now w;
           w \<leftarrow> upd_inode r_vnode (\<lambda>ip. ip\<lparr>i_nlink := 0, i_ctime := tm, i_mtime := tm\<rparr>) w;
           w \<leftarrow> upd_inode p_vnode (\<lambda>ip. if i_nlink ip > 1 then ip\<lparr>i_nlink := i_nlink ip - 1\<rparr> else ip) w;
           Some (0, w)
         }
       }
     }
   }"

definition op_rmdir :: "string \<Rightarrow> world \<Rightarrow> (int \<times> world) option" where
  "op_rmdir path w =
     (case do_check_split path of
        (rt, None) \<Rightarrow> Some (rt, w)
      | (rt, Some (p_path, r_path)) \<Rightarrow> do {
          (rt, p_ino, pvp, w) \<leftarrow> do_readvnode p_path w;
          if rt \<noteq> 0 then Some (rt, w)
          else do {
            let p_vnode = the pvp;
            (rt, r_ino, rvp, w) \<leftarrow> do_readvnode path w;
            if rt \<noteq> 0 then do { (_, w) \<leftarrow> vnode_put p_vnode False w; Some (rt, w) }
            else do {
              let r_vnode = the rvp;
              (rt, w) \<leftarrow> rmdir_body p_ino p_vnode r_ino r_vnode r_path w;
              (_, w) \<leftarrow> vnode_put p_vnode True w;
              (_, w) \<leftarrow> vnode_put r_vnode True w;
              Some (rt, w)
            }
          }
        })"

subsection \<open>Rename\<close>

text \<open>The checks when the destination exists; 0 when the rename may go on.\<close>

definition rename_check :: "inode \<Rightarrow> inode \<Rightarrow> int \<Rightarrow> world \<Rightarrow> (int \<times> world) option" where
  "rename_check src_inode dest_inode dest_ino w = do {
     (rt, w) \<leftarrow>
       (if S_ISDIR (i_mode dest_inode) then
          (if \<not> S_ISDIR (i_mode src_inode) then Some (- EISDIR, w)
           else do_check_empty_dir dest_ino w)
        else Some (0, w));
     if rt \<noteq> 0 then Some (rt, w)
     else if S_ISDIR (i_mode src_inode) \<and> \<not> S_ISDIR (i_mode dest_inode) then Some (- ENOTDIR, w)
     else Some (0, w)
   }"

text \<open>Step 1: delete the destination.\<close>

definition rename_delete :: "int \<Rightarrow> int \<Rightarrow> string \<Rightarrow> int \<Rightarrow> int \<Rightarrow> world \<Rightarrow> (int \<times> world) option" where
  "rename_delete d_dest_ino d_dest_vnode r_dest dest_ino dest_vnode w = do {
     (rt, w) \<leftarrow> ufs_unlink d_dest_ino r_dest dest_ino w;
     if rt \<noteq> 0 then Some (- EIO, w)
     else do {
       dip \<leftarrow> get_inode dest_vnode w;
       if S_ISDIR (i_mode dip) then do {
         (rt, dip, s) \<leftarrow> do_killfilebyinode dest_ino dip (w_ufs w);
         w \<leftarrow> set_inode dest_vnode dip (w\<lparr>w_ufs := s\<rparr>);
         if rt \<noteq> 0 then Some (rt, w)
         else do {
           w \<leftarrow> upd_inode d_dest_vnode (\<lambda>ip. if i_nlink ip > 1 then ip\<lparr>i_nlink := i_nlink ip - 1\<rparr> else ip) w;
           Some (0, w)
         }
       }
       else do {
         w \<leftarrow> upd_inode dest_vnode (\<lambda>ip. if i_nlink ip > 0 then ip\<lparr>i_nlink := i_nlink ip - 1\<rparr> else ip) w;
         Some (0, w)
       }
     }
   }"

text \<open>Moving a directory to another parent: fix the link counts and the entry \<open>..\<close>.\<close>

definition rename_reparent :: "int \<Rightarrow> int \<Rightarrow> int \<Rightarrow> int \<Rightarrow> int \<Rightarrow> world \<Rightarrow> (int \<times> world) option" where
  "rename_reparent d_src_ino d_src_vnode d_dest_ino d_dest_vnode src_ino w = do {
     w \<leftarrow> upd_inode d_dest_vnode (\<lambda>ip. ip\<lparr>i_nlink := i_nlink ip + 1\<rparr>) w;
     w \<leftarrow> upd_inode d_src_vnode (\<lambda>ip. if i_nlink ip > 1 then ip\<lparr>i_nlink := i_nlink ip - 1\<rparr> else ip) w;
     ip \<leftarrow> get_inode d_src_vnode w;
     let (rt, ip, s) = ufs_write_inode d_src_ino ip (w_ufs w);
     w \<leftarrow> set_inode d_src_vnode ip (w\<lparr>w_ufs := s\<rparr>);
     if rt \<noteq> 0 then Some (- EIO, w)
     else do_fix_dotdot src_ino d_dest_ino w
   }"

text \<open>
  Steps 2 and 3: link the source under its new name and unlink the old one. The flag says
  whether the vnodes are released afterwards: a failed removal of the old name skips that.
\<close>

definition rename_move ::
  "int \<Rightarrow> int \<Rightarrow> string \<Rightarrow> int \<Rightarrow> int \<Rightarrow> string \<Rightarrow> int \<Rightarrow> int \<Rightarrow> world \<Rightarrow> (int \<times> bool \<times> world) option" where
  "rename_move d_src_ino d_src_vnode r_src d_dest_ino d_dest_vnode r_dest src_ino src_vnode w = do {
     sip \<leftarrow> get_inode src_vnode w;
     (rt, w) \<leftarrow> ufs_link d_dest_ino r_dest src_vnode (i_mode sip) w;
     if rt \<noteq> 0 then Some (rt, True, w)
     else do {
       (rt, w) \<leftarrow>
         (if S_ISDIR (i_mode sip) \<and> d_src_ino \<noteq> d_dest_ino
          then rename_reparent d_src_ino d_src_vnode d_dest_ino d_dest_vnode src_ino w
          else Some (0, w));
       if rt \<noteq> 0 then Some (rt, True, w)
       else do {
         let tm = ufs_now w;
         w \<leftarrow> upd_inode src_vnode (\<lambda>ip. ip\<lparr>i_ctime := tm\<rparr>) w;
         w \<leftarrow> upd_inode d_dest_vnode (\<lambda>ip. ip\<lparr>i_ctime := tm, i_mtime := tm\<rparr>) w;
         (rt, w) \<leftarrow> ufs_unlink d_src_ino r_src src_ino w;
         if rt \<noteq> 0 then Some (- EIO, False, w)
         else do {
           w \<leftarrow> upd_inode src_vnode (\<lambda>ip. ip\<lparr>i_nlink := i_nlink ip - 1\<rparr>) w;
           Some (0, True, w)
         }
       }
     }
   }"

text \<open>Release those vnodes that were found, dirty, in the order of the code.\<close>

fun put_all :: "int option list \<Rightarrow> world \<Rightarrow> world option" where
  "put_all [] w = Some w"
| "put_all (None # vs) w = put_all vs w"
| "put_all (Some p # vs) w = do { (_, w) \<leftarrow> vnode_put p True w; put_all vs w }"

definition rename_vnodes ::
  "string \<Rightarrow> string \<Rightarrow> int \<Rightarrow> int \<Rightarrow> int \<Rightarrow> int \<Rightarrow> int \<Rightarrow> int \<Rightarrow> int \<Rightarrow> int option \<Rightarrow> world \<Rightarrow>
     (int \<times> bool \<times> world) option" where
  "rename_vnodes r_src r_dest d_src_ino d_src_vnode d_dest_ino d_dest_vnode src_ino src_vnode
       dest_ino dest w =
     (case dest of
        None \<Rightarrow> rename_move d_src_ino d_src_vnode r_src d_dest_ino d_dest_vnode r_dest src_ino src_vnode w
      | Some dest_vnode \<Rightarrow>
          if src_ino = dest_ino then Some (0, True, w)
          else do {
            sip \<leftarrow> get_inode src_vnode w;
            dip \<leftarrow> get_inode dest_vnode w;
            (rt, w) \<leftarrow> rename_check sip dip dest_ino w;
            if rt \<noteq> 0 then Some (rt, True, w)
            else do {
              (rt, w) \<leftarrow> rename_delete d_dest_ino d_dest_vnode r_dest dest_ino dest_vnode w;
              if rt \<noteq> 0 then Some (rt, True, w)
              else rename_move d_src_ino d_src_vnode r_src d_dest_ino d_dest_vnode r_dest src_ino src_vnode w
            }
          })"

text \<open>
  A vnode for the destination that cannot be had leaves with the code of the lookup of the
  source, which is 0. A bad destination path frees pointers that were never set.
\<close>

definition op_rename :: "string \<Rightarrow> string \<Rightarrow> world \<Rightarrow> (int \<times> world) option" where
  "op_rename source dest w =
     (case do_check_split source of
        (rt, None) \<Rightarrow> Some (rt, w)
      | (rt, Some (p_src, r_src)) \<Rightarrow> do {
          (p_dest, r_dest) \<leftarrow> snd (do_check_split dest);
          (rt, d_src_ino, d_src, w) \<leftarrow> do_readvnode p_src w;
          if rt \<noteq> 0 then do { w \<leftarrow> put_all [d_src] w; Some (rt, w) }
          else do {
            (rt, d_dest_ino, d_dest, w) \<leftarrow> do_readvnode p_dest w;
            if rt \<noteq> 0 then do { w \<leftarrow> put_all [d_dest, d_src] w; Some (rt, w) }
            else do {
              (rt, src_ino, src, w) \<leftarrow> do_readvnode source w;
              if rt \<noteq> 0 then do { w \<leftarrow> put_all [src, d_dest, d_src] w; Some (rt, w) }
              else do {
                (destrt, dest_ino, destv, w) \<leftarrow> do_readvnode dest w;
                if destrt \<noteq> 0 \<and> destrt \<noteq> - ENOENT then do {
                  w \<leftarrow> put_all [destv, src, d_dest, d_src] w;
                  Some (0, w)
                }
                else do {
                  (rt, release, w) \<leftarrow> rename_vnodes r_src r_dest d_src_ino (the d_src) d_dest_ino
                     (the d_dest) src_ino (the src) dest_ino destv w;
                  if release then do { w \<leftarrow> put_all [destv, src, d_dest, d_src] w; Some (rt, w) }
                  else Some (rt, w)
                }
              }
            }
          }
        })"

end
