(* ===== verification/Ufs_Mount.thy ===== *)
theory Ufs_Mount
  imports Ufs_Ops
begin

section \<open>Mounting (libufs/sblock.c, cgroup.c, type.c, op_init.c, op_destroy.c, fuse-ufs.c, fuse-ufs.probe.c)\<close>

text \<open>
  Reading and writing the super block and the summary area, the start and the end of a mount,
  the mount options, and the main functions of the program and of its probe. In the code \<open>d_fs\<close> and \<open>d_sb\<close> are one union: the model keeps the
  fields as a record and the bytes as a buffer, \<open>fs_load\<close> reads the fields from the bytes and
  \<open>fs_store\<close> writes them into the bytes. The bytes of the in-core pointers of \<open>struct fs\<close> are
  not given by the record. How \<open>ufs_disk_fillout_blank\<close> finds the device for a name (\<open>stat\<close>,
  /etc/fstab) is left to the environment: the model gets the descriptor that \<open>open\<close> returns.
\<close>

subsection \<open>The bytes of the super block\<close>

definition fs_load :: "mem \<Rightarrow> fs \<Rightarrow> fs" where
  "fs_load b fs =
     \<lparr>fs_sblkno = ld32 b 8, fs_cblkno = ld32 b 12, fs_iblkno = ld32 b 16, fs_dblkno = ld32 b 20,
      fs_old_cgoffset = ld32 b 24, fs_old_cgmask = ld32 b 28, fs_ncg = ld32 b 44,
      fs_bsize = ld32 b 48, fs_fsize = ld32 b 52, fs_frag = ld32 b 56, fs_minfree = ld32 b 60,
      fs_bmask = ld32 b 72, fs_fmask = ld32 b 76, fs_bshift = ld32 b 80, fs_fshift = ld32 b 84,
      fs_fragshift = ld32 b 96, fs_fsbtodb = ld32 b 100, fs_nindir = ld32 b 116,
      fs_inopb = ld32 b 120, fs_cssize = ld32 b 156, fs_cgsize = ld32 b 160, fs_ipg = ld32 b 184,
      fs_fpg = ld32 b 188, fs_fmod = s8 (ld8 b 208), fs_ronly = s8 (ld8 b 210),
      fs_contigdirs = fs_contigdirs fs, fs_csp = fs_csp fs, fs_maxcluster = fs_maxcluster fs,
      fs_sblockloc = ld64 b 1000,
      fs_cstotal = \<lparr>cs_ndir = ld64 b 1008, cs_nbfree = ld64 b 1016, cs_nifree = ld64 b 1024,
                    cs_nffree = ld64 b 1032\<rparr>,
      fs_size = ld64 b 1080, fs_dsize = ld64 b 1088, fs_csaddr = ld64 b 1096,
      fs_pendingblocks = ld64 b 1104, fs_pendinginodes = ld32 b 1112, fs_avgfilesize = ld32 b 1196,
      fs_avgfpdir = ld32 b 1200, fs_contigsumsize = ld32 b 1316, fs_maxsymlinklen = ld32 b 1320,
      fs_qbmask = ld64 b 1336, fs_qfmask = ld64 b 1344, fs_magic = ld32 b 1372\<rparr>"

definition fs_store :: "fs \<Rightarrow> mem \<Rightarrow> mem" where
  "fs_store fs b =
     (let b = st32 b 8 (fs_sblkno fs); b = st32 b 12 (fs_cblkno fs); b = st32 b 16 (fs_iblkno fs);
          b = st32 b 20 (fs_dblkno fs); b = st32 b 24 (fs_old_cgoffset fs);
          b = st32 b 28 (fs_old_cgmask fs); b = st32 b 44 (fs_ncg fs); b = st32 b 48 (fs_bsize fs);
          b = st32 b 52 (fs_fsize fs); b = st32 b 56 (fs_frag fs); b = st32 b 60 (fs_minfree fs);
          b = st32 b 72 (fs_bmask fs); b = st32 b 76 (fs_fmask fs); b = st32 b 80 (fs_bshift fs);
          b = st32 b 84 (fs_fshift fs); b = st32 b 96 (fs_fragshift fs);
          b = st32 b 100 (fs_fsbtodb fs); b = st32 b 116 (fs_nindir fs);
          b = st32 b 120 (fs_inopb fs); b = st32 b 156 (fs_cssize fs);
          b = st32 b 160 (fs_cgsize fs); b = st32 b 184 (fs_ipg fs); b = st32 b 188 (fs_fpg fs);
          b = st8 b 208 (fs_fmod fs); b = st8 b 210 (fs_ronly fs);
          b = st64 b 1000 (fs_sblockloc fs); b = st64 b 1008 (cs_ndir (fs_cstotal fs));
          b = st64 b 1016 (cs_nbfree (fs_cstotal fs)); b = st64 b 1024 (cs_nifree (fs_cstotal fs));
          b = st64 b 1032 (cs_nffree (fs_cstotal fs)); b = st64 b 1080 (fs_size fs);
          b = st64 b 1088 (fs_dsize fs); b = st64 b 1096 (fs_csaddr fs);
          b = st64 b 1104 (fs_pendingblocks fs); b = st32 b 1112 (fs_pendinginodes fs);
          b = st32 b 1196 (fs_avgfilesize fs); b = st32 b 1200 (fs_avgfpdir fs);
          b = st32 b 1316 (fs_contigsumsize fs); b = st32 b 1320 (fs_maxsymlinklen fs);
          b = st64 b 1336 (fs_qbmask fs); b = st64 b 1344 (fs_qfmask fs)
      in st32 b 1372 (fs_magic fs))"

subsection \<open>Reading and writing the super block\<close>

definition superblocks :: "int list" where
  "superblocks = [65536, 8192, 0, 262144]"

text \<open>
  The search along the standard locations: the code, the location and the handle. A byte-swapped
  super block makes the program exit.
\<close>

fun sbread_search :: "int list \<Rightarrow> uufsd \<Rightarrow> (int \<times> int \<times> uufsd) option" where
  "sbread_search [] s = Some (-1, -1, s)"
| "sbread_search (superblock # sbs) s =
     (let (err, sb) = bread superblock (d_sb s) SBLOCKSIZE s;
          fs = fs_load sb (d_fs s);
          s = s\<lparr>d_sb := sb, d_fs := fs\<rparr>
      in if err = -1 then Some (-1, superblock, s)
         else if fs_magic fs = FS_UFS2_CIGAM then None
         else
           let ufs = (if fs_magic fs = FS_UFS1_MAGIC then 1 else d_ufs s);
               ufs = (if fs_magic fs = FS_UFS2_MAGIC \<and> fs_sblockloc fs = superblock then 2 else ufs)
           in if fs_bsize fs \<le> MAXBSIZE \<and> u64 (fs_bsize fs) \<ge> SIZEOF_FS \<and> ufs \<noteq> 0
              then Some (0, superblock, s\<lparr>d_ufs := ufs\<rparr>)
              else sbread_search sbs (s\<lparr>d_ufs := 0\<rparr>))"

text \<open>A super block whose fragments are smaller than a sector makes the last division one by zero.\<close>

definition sbread :: "uufsd \<Rightarrow> (int \<times> uufsd) option" where
  "sbread s = do {
     (err, superblock, s) \<leftarrow> sbread_search superblocks s;
     if err \<noteq> 0 then Some (-1, s)
     else do {
       let bsize = fs_fsize (d_fs s) sdiv fsbtodb (d_fs s) 1;
       if bsize = 0 then None
       else Some (0, s\<lparr>d_bsize := bsize, d_sblock := superblock sdiv bsize\<rparr>)
     }
   }"

function sbwrite_copies :: "mem \<Rightarrow> int \<Rightarrow> int \<Rightarrow> uufsd \<Rightarrow> int \<times> uufsd" where
  "sbwrite_copies sb ncg i s =
     (if i < ncg then
        let (err, s) = bwrite (fsbtodb (d_fs s) (cgsblock (d_fs s) i)) sb SBLOCKSIZE s
        in if err = -1 then (-1, s) else sbwrite_copies sb ncg (i + 1) s
      else (0, s))"
  by pat_completeness auto
termination by (relation "measure (\<lambda>(b, n, i, s). nat (n - i))") auto

declare sbwrite_copies.simps [simp del]

definition sbwrite :: "bool \<Rightarrow> uufsd \<Rightarrow> int \<times> uufsd" where
  "sbwrite all s =
     (let s = (if d_sblock s = 0 then s\<lparr>d_sblock := fs_sblockloc (d_fs s) sdiv d_bsize s\<rparr> else s);
          sb = fs_store (d_fs s) (d_sb s);
          s = s\<lparr>d_sb := sb\<rparr>;
          (err, s) = bwrite (d_sblock s) sb SBLOCKSIZE s
      in if err = -1 then (-1, s)
         else if all then sbwrite_copies sb (fs_ncg (d_fs s)) 0 s
         else (0, s))"

subsection \<open>Cylinder groups through the handle (cgroup.c)\<close>

definition cgread1 :: "int \<Rightarrow> uufsd \<Rightarrow> int \<times> uufsd" where
  "cgread1 c s =
     (let fs = d_fs s
      in if c \<ge> fs_ncg fs then (0, s)
         else let (err, buf) = bread (fsbtodb fs (cgtod fs c)) (d_buf s) (fs_bsize fs) s;
                  s = s\<lparr>d_buf := buf\<rparr>
              in if err = -1 then (-1, s) else (1, s\<lparr>d_lcg := c\<rparr>))"

definition cgread :: "uufsd \<Rightarrow> int \<times> uufsd" where
  "cgread s = cgread1 (d_ccg s) (s\<lparr>d_ccg := d_ccg s + 1\<rparr>)"

definition cgwrite1 :: "int \<Rightarrow> uufsd \<Rightarrow> int \<times> uufsd" where
  "cgwrite1 c s =
     (let fs = d_fs s; (err, s) = bwrite (fsbtodb fs (cgtod fs c)) (d_buf s) (fs_bsize fs) s
      in (if err = -1 then -1 else 0, s))"

subsection \<open>Opening and closing the disk (type.c)\<close>

definition ufs_disk_fillout_blank :: "int \<Rightarrow> uufsd \<Rightarrow> int \<times> uufsd" where
  "ufs_disk_fillout_blank fd s =
     (if fd = -1 then (-1, s)
      else (0, s\<lparr>d_bsize := 1, d_ccg := 0, d_fd := fd, d_inoblock := None, d_inomin := 0,
                 d_inomax := 0, d_lcg := 0, d_mine := 0, d_ufs := 0\<rparr>))"

definition ufs_disk_fillout :: "int \<Rightarrow> uufsd \<Rightarrow> (int \<times> uufsd) option" where
  "ufs_disk_fillout fd s =
     (let (rc, s) = ufs_disk_fillout_blank fd s
      in if rc = -1 then Some (-1, s)
         else do {
           (rc, s) \<leftarrow> sbread s;
           Some (if rc = -1 then -1 else 0, s)
         })"

definition ufs_disk_close :: "uufsd \<Rightarrow> int \<times> uufsd" where
  "ufs_disk_close s = (0, s\<lparr>d_inoblock := None\<rparr>)"

subsection \<open>The summary area\<close>

text \<open>The array of group summaries as bytes: four 32-bit counts each.\<close>

definition csum_load :: "mem \<Rightarrow> int \<Rightarrow> csum" where
  "csum_load b i = \<lparr>cs_ndir = ld32 b (16 * i), cs_nbfree = ld32 b (16 * i + 4),
     cs_nifree = ld32 b (16 * i + 8), cs_nffree = ld32 b (16 * i + 12)\<rparr>"

definition csum_bytes :: "(int \<Rightarrow> csum) \<Rightarrow> mem" where
  "csum_bytes csp a =
     (let cs = csp (a div 16); k = a mod 16;
          v = (if k < 4 then cs_ndir cs else if k < 8 then cs_nbfree cs
               else if k < 12 then cs_nifree cs else cs_nffree cs)
      in word_of_int (v div 256 ^ nat (a mod 4)))"

text \<open>The loop of \<open>op_init\<close> that reads the area; \<open>None\<close> when a read fails.\<close>

function csum_read :: "int \<Rightarrow> int \<Rightarrow> mem \<Rightarrow> mem \<Rightarrow> int \<Rightarrow> uufsd \<Rightarrow> mem option" where
  "csum_read blks i buf area space s =
     (if i < blks \<and> 0 < fs_frag (d_fs s) then
        let fs = d_fs s;
            sz = (if i + fs_frag fs > blks then (blks - i) * fs_fsize fs else fs_bsize fs);
            (err, buf) = bread (fsbtodb fs (fs_csaddr fs + i)) buf sz s
        in if err = -1 then None
           else csum_read blks (i + fs_frag fs) buf (memcpy area space buf 0 sz) (space + sz) s
      else Some area)"
  by pat_completeness auto
termination by (relation "measure (\<lambda>(b, i, u, a, p, s). nat (b - i))") auto

declare csum_read.simps [simp del]

text \<open>The loop of \<open>op_destroy\<close> that writes it; failed writes are reported and ignored.\<close>

function csum_write :: "fs \<Rightarrow> mem \<Rightarrow> int \<Rightarrow> uufsd \<Rightarrow> uufsd" where
  "csum_write fs area i s =
     (if i < fs_cssize fs \<and> 0 < fs_bsize fs then
        let sz = (if fs_cssize fs - i < fs_bsize fs then fs_cssize fs - i else fs_bsize fs)
        in csum_write fs area (i + fs_bsize fs)
             (snd (blkwrite (fsbtodb fs (fs_csaddr fs + numfrags fs i)) (\<lambda>a. area (i + a)) sz s))
      else s)"
  by pat_completeness auto
termination by (relation "measure (\<lambda>(f, a, i, s). nat (fs_cssize f - i))") auto

declare csum_write.simps [simp del]

subsection \<open>Start and end of a mount\<close>

text \<open>
  \<open>op_init\<close>: every failure makes the program exit. A block without fragments would make the
  loop over the summary area endless.
\<close>

definition op_init :: "int \<Rightarrow> bool \<Rightarrow> uufsd \<Rightarrow> uufsd option" where
  "op_init fd readonly s = do {
     (rc, s) \<leftarrow> ufs_disk_fillout fd s;
     if rc \<noteq> 0 \<or> \<not> env_mem s then None
     else do {
       let fs = d_fs s;
       let blks = howmany (fs_cssize fs) (fs_fsize fs);
       area \<leftarrow> (if 0 < blks \<and> fs_frag fs \<le> 0 then None else csum_read blks 0 (env_junk s) (env_junk s) 0 s);
       let fs = fs\<lparr>fs_csp := csum_load area\<rparr>;
       let fs = (if fs_contigsumsize fs > 0
                 then fs\<lparr>fs_maxcluster := (\<lambda>i. if 0 \<le> i \<and> i < fs_ncg fs then fs_contigsumsize fs
                                                else fs_maxcluster fs i)\<rparr>
                 else fs);
       let fs = fs\<lparr>fs_contigdirs := (\<lambda>i. if 0 \<le> i \<and> i < fs_ncg fs then 0 else fs_contigdirs fs i)\<rparr>;
       let fs = fs\<lparr>fs_ronly := (if readonly then 1 else 0)\<rparr>;
       Some (s\<lparr>d_fs := fs\<rparr>)
     }
   }"

definition op_destroy :: "uufsd \<Rightarrow> uufsd" where
  "op_destroy s =
     (let s = (if fs_fmod (d_fs s) \<noteq> 0
               then snd (sbwrite True (csum_write (d_fs s) (csum_bytes (fs_csp (d_fs s))) 0 s))
               else s)
      in snd (ufs_disk_close s))"

definition op_fsync :: "world \<Rightarrow> int \<times> world" where
  "op_fsync w =
     (if ronly w then (EROFS, w)
      else let (rc, s) = sbwrite True (w_ufs w)
           in (if rc \<noteq> 0 then - EIO else 0, w\<lparr>w_ufs := s\<rparr>))"

text \<open>The probe before mounting: the code and the volume name, which is the start of the device
  name. A summary area that cannot be read is not an error.\<close>

definition do_probe :: "int \<Rightarrow> string \<Rightarrow> uufsd \<Rightarrow> (int \<times> string option) option" where
  "do_probe fd name s = do {
     (rc, s) \<leftarrow> ufs_disk_fillout fd s;
     if rc = -1 \<or> \<not> env_mem s then Some (-1, None)
     else do {
       let fs = d_fs s;
       let blks = howmany (fs_cssize fs) (fs_fsize fs);
       if 0 < blks \<and> fs_frag fs \<le> 0 then None
       else Some (0, if csum_read blks 0 (env_junk s) (env_junk s) 0 s = None then None
                     else Some (take 16 name))
     }
   }"

subsection \<open>Mount options (fuse-ufs.c)\<close>

record ufs_data =
  o_debug :: bool
  o_silent :: bool
  o_force :: bool
  o_readonly :: bool
  o_mnt_point :: "string option"
  o_options :: "string option"
  o_device :: "string option"
  o_volname :: "string option"

definition def_opts :: string where
  "def_opts = ''use_ino,''"

text \<open>One option, split at \<open>=\<close>: the new settings and the text for FUSE; \<open>None\<close> for a value
  where none is allowed.\<close>

definition mount_option :: "string \<Rightarrow> string option \<Rightarrow> ufs_data \<Rightarrow> (ufs_data \<times> string) option" where
  "mount_option opt val opts =
     (if opt = ''ro'' then
        (if val \<noteq> None then None else Some (opts\<lparr>o_readonly := True\<rparr>, ''ro,''))
      else if opt = ''rw'' then
        (if val \<noteq> None then None else Some (opts\<lparr>o_readonly := False\<rparr>, ''rw,''))
      else if opt = ''rw+'' then
        (if val \<noteq> None then None else Some (opts\<lparr>o_readonly := False, o_force := True\<rparr>, ''rw,''))
      else if opt = ''debug'' then
        (if val \<noteq> None then None else Some (opts\<lparr>o_debug := True\<rparr>, ''debug,''))
      else if opt = ''silent'' then
        (if val \<noteq> None then None else Some (opts\<lparr>o_silent := True\<rparr>, ''''))
      else Some (opts, opt @ (case val of None \<Rightarrow> '''' | Some v \<Rightarrow> ''='' @ v) @ '',''))"

text \<open>\<open>strsep\<close>: the text before the first separator, and the rest if there is one.\<close>

definition strsep :: "char \<Rightarrow> string \<Rightarrow> string \<times> string option" where
  "strsep c s =
     (takeWhile (\<lambda>x. x \<noteq> c) s,
      case dropWhile (\<lambda>x. x \<noteq> c) s of [] \<Rightarrow> None | _ # r \<Rightarrow> Some r)"

lemma strsep_less: "strsep c s = (a, Some r) \<Longrightarrow> length r < length s"
  using length_dropWhile_le [of "\<lambda>x. x \<noteq> c" s] by (auto simp: strsep_def split: list.splits)

function mount_options :: "string option \<Rightarrow> string \<Rightarrow> ufs_data \<Rightarrow> (ufs_data \<times> string) option" where
  "mount_options None ret opts = Some (opts, ret)"
| "mount_options (Some s) ret opts =
     (if s = [] then Some (opts, ret)
      else
        let (item, rest) = strsep (CHR '','') s; (opt, val) = strsep (CHR ''='') item
        in case mount_option opt val opts of
             None \<Rightarrow> None
           | Some (opts, txt) \<Rightarrow> mount_options rest (ret @ txt) opts)"
  by pat_completeness auto
termination
  by (relation "measure (\<lambda>(s, r, opts). case s of None \<Rightarrow> 0 | Some x \<Rightarrow> Suc (length x))")
    (auto split: option.splits dest: strsep_less [OF sym] strsep_less)

text \<open>
  The result is the error code stored through \<open>err\<close> (0 when nothing is stored), the options for
  FUSE and the settings. \<open>rw_ok\<close> says whether the device opens for reading and writing.
\<close>

definition parse_mount_options :: "string \<Rightarrow> string \<Rightarrow> bool \<Rightarrow> ufs_data \<Rightarrow> int \<times> string option \<times> ufs_data option" where
  "parse_mount_options orig_opts device rw_ok opts =
     (case mount_options (Some orig_opts) '''' (opts\<lparr>o_readonly := True\<rparr>) of
        None \<Rightarrow> (0, None, None)
      | Some (opts, ret) \<Rightarrow>
          if \<not> o_readonly opts \<and> \<not> rw_ok then (EPERM, None, Some opts)
          else (0, Some (ret @ def_opts @ (if o_readonly opts then ''ro,'' else '''') @ ''fsname='' @ device),
                Some opts))"

subsection \<open>The start of the program (fuse-ufs.c)\<close>

text \<open>
  What the program calls of the C library and of FUSE is a parameter: \<open>getopt_long\<close> by the list of
  options it returns and the arguments that are left, \<open>realpath\<close>, whether \<open>stat\<close>, \<open>malloc\<close> and
  \<open>fuse_opt_add_arg\<close> succeed, and the name of the package.
\<close>

definition strappend :: "bool \<Rightarrow> string option \<Rightarrow> string option \<Rightarrow> int \<times> string option" where
  "strappend mem dest app =
     (case app of
        None \<Rightarrow> (0, dest)
      | Some a \<Rightarrow> if \<not> mem then (-1, dest) else (0, Some (case dest of None \<Rightarrow> a | Some d \<Rightarrow> d @ a)))"

text \<open>The loop over the options; the option for help ends the program.\<close>

fun parse_options_loop :: "bool \<Rightarrow> (char \<times> string option) list \<Rightarrow> ufs_data \<Rightarrow> (int \<times> ufs_data) option" where
  "parse_options_loop mem [] opts = Some (0, opts)"
| "parse_options_loop mem ((c, optarg) # cs) opts =
     (if c = CHR ''o'' then
        let (rc, o1) = (if o_options opts \<noteq> None then strappend mem (o_options opts) (Some '','') else (0, o_options opts))
        in if rc \<noteq> 0 then Some (-1, opts\<lparr>o_options := o1\<rparr>)
           else let (rc, o2) = strappend mem o1 optarg
                in if rc \<noteq> 0 then Some (-1, opts\<lparr>o_options := o2\<rparr>)
                   else parse_options_loop mem cs (opts\<lparr>o_options := o2\<rparr>)
      else if c = CHR ''h'' then None
      else if c = CHR ''v'' then parse_options_loop mem cs (opts\<lparr>o_debug := True\<rparr>)
      else Some (-1, opts))"

text \<open>The device, with its full path, from the first argument.\<close>

definition device_arg :: "bool \<Rightarrow> (string \<Rightarrow> string option) \<Rightarrow> string \<Rightarrow> int \<times> string option" where
  "device_arg mem realpath optarg =
     (if take 1 optarg \<noteq> ''/'' then
        (case realpath optarg of None \<Rightarrow> (-1, None) | Some d \<Rightarrow> (0, if mem then Some d else None))
      else (0, if mem then Some optarg else None))"

definition parse_options ::
  "bool \<Rightarrow> (string \<Rightarrow> string option) \<Rightarrow> (char \<times> string option) list \<Rightarrow> string list \<Rightarrow> ufs_data \<Rightarrow> (int \<times> ufs_data) option" where
  "parse_options mem realpath cs args opts = do {
     (rc, opts) \<leftarrow> parse_options_loop mem cs opts;
     if rc \<noteq> 0 then Some (-1, opts)
     else do {
       let (rc, opts) = (case args of [] \<Rightarrow> (0, opts)
             | a # _ \<Rightarrow> let (rc, d) = device_arg mem realpath a in (rc, opts\<lparr>o_device := d\<rparr>));
       if rc \<noteq> 0 then Some (-1, opts)
       else do {
         let opts = (if 1 < length args then opts\<lparr>o_mnt_point := Some (args ! 1)\<rparr> else opts);
         Some (if 2 < length args \<or> o_device opts = None \<or> o_mnt_point opts = None then -1 else 0, opts)
       }
     }
   }"

text \<open>
  \<open>main\<close>: the exit code and the arguments of \<open>fuse_main\<close> when it is called. Mount options that are
  refused without an error code end the program with 0. \<open>fd\<close> and \<open>name\<close> are the descriptor and
  the device name \<open>ufs_disk_fillout\<close> finds, as for \<open>do_probe\<close>.
\<close>

definition opts0 :: ufs_data where
  "opts0 = \<lparr>o_debug = False, o_silent = False, o_force = False, o_readonly = False, o_mnt_point = None,
     o_options = None, o_device = None, o_volname = None\<rparr>"

definition ufs_main ::
  "bool \<Rightarrow> (string \<Rightarrow> string option) \<Rightarrow> (char \<times> string option) list \<Rightarrow> string list \<Rightarrow> bool \<Rightarrow> int \<Rightarrow> string \<Rightarrow> bool \<Rightarrow>
     bool \<Rightarrow> string \<Rightarrow> uufsd \<Rightarrow> (int \<times> (string list \<times> ufs_data) option) option" where
  "ufs_main mem realpath cs args stat_ok fd name rw_ok add_ok package s = do {
     (rc, opts) \<leftarrow> parse_options mem realpath cs args opts0;
     if rc \<noteq> 0 then Some (EINVAL, None)
     else if \<not> stat_ok then Some (EACCES, None)
     else do {
       (rc, volname) \<leftarrow> do_probe fd name s;
       let opts = opts\<lparr>o_volname := volname\<rparr>;
       if rc \<noteq> 0 then Some (ENXIO, None)
       else if \<not> mem then Some (ENOMEM, None)
       else
         (case parse_mount_options (case o_options opts of None \<Rightarrow> '''' | Some t \<Rightarrow> t) (the (o_device opts)) rw_ok opts of
            (err, Some parsed, Some opts) \<Rightarrow>
              if \<not> add_ok then Some (- EIO, None)
              else Some (err, Some ([package, ''-s'', ''-o'', parsed, the (o_mnt_point opts)], opts))
          | (err, _, _) \<Rightarrow> Some (err, None))
     }
   }"

subsection \<open>The probe program (fuse-ufs.probe.c)\<close>

text \<open>Here \<open>getopt_long\<close> also returns the arguments that are not options, with the code 1.\<close>

fun probe_options_loop :: "bool \<Rightarrow> (string \<Rightarrow> string option) \<Rightarrow> (int \<times> string) list \<Rightarrow> ufs_data \<Rightarrow> int \<times> ufs_data" where
  "probe_options_loop mem realpath [] opts = (0, opts)"
| "probe_options_loop mem realpath ((c, optarg) # cs) opts =
     (if c = 1 then
        (if o_device opts \<noteq> None \<or> \<not> mem then (-1, opts)
         else let (rc, d) = device_arg mem realpath optarg;
                  opts = opts\<lparr>o_device := d\<rparr>
              in if rc \<noteq> 0 then (-1, opts) else probe_options_loop mem realpath cs opts)
      else if c = of_char (CHR ''r'') then probe_options_loop mem realpath cs (opts\<lparr>o_readonly := True\<rparr>)
      else if c = of_char (CHR ''w'') then probe_options_loop mem realpath cs (opts\<lparr>o_readonly := False\<rparr>)
      else if c = of_char (CHR ''d'') then probe_options_loop mem realpath cs (opts\<lparr>o_debug := True\<rparr>)
      else (-1, opts))"

definition probe_parse_options :: "bool \<Rightarrow> (string \<Rightarrow> string option) \<Rightarrow> (int \<times> string) list \<Rightarrow> ufs_data \<Rightarrow> int \<times> ufs_data" where
  "probe_parse_options mem realpath cs opts =
     (let (rc, opts) = probe_options_loop mem realpath cs opts
      in if rc \<noteq> 0 \<or> o_device opts = None then (-1, opts) else (0, opts))"

definition probe_main :: "bool \<Rightarrow> (string \<Rightarrow> string option) \<Rightarrow> (int \<times> string) list \<Rightarrow> bool \<Rightarrow> int \<Rightarrow> string \<Rightarrow> uufsd \<Rightarrow> int option" where
  "probe_main mem realpath cs stat_ok fd name s =
     (let (rc, opts) = probe_parse_options mem realpath cs opts0
      in if rc \<noteq> 0 then Some (-1)
         else if \<not> stat_ok then Some (-3)
         else do {
           (rc, volname) \<leftarrow> do_probe fd name s;
           Some (if rc \<noteq> 0 then -4 else 0)
         })"

end
