(* ===== verification/Ufs_Device_Props.thy ===== *)
theory Ufs_Device_Props
  imports Ufs_Dir_Edit Ufs_Mount
begin

section \<open>Block I/O, addresses and the end of directory walks\<close>

text \<open>
  Properties of the lowest layer: what block reads and writes do when they work and when they
  fail, the arithmetic of fs.h and the choice of a group for a directory, and when the walk over
  a directory block returns.
\<close>

subsection \<open>Block input and output\<close>

text \<open>C28. What \<open>bwrite\<close> wrote is what \<open>bread\<close> reads: after a write that reports the full count, reading the same
  block gives the bytes written, whether or not the write had to reopen the device, and no other byte
  of the device has changed.\<close>

theorem bwrite_bread_roundtrip:
  assumes "bwrite b m n s = (n, s')" "0 < n" "0 \<le> d_fd s'" "dev_pread s (b * d_bsize s) n = n"
  shows "(\<exists>m1. bread b m0 n s' = (n, m1) \<and> (\<forall>i. 0 \<le> i \<longrightarrow> i < n \<longrightarrow> m1 i = m i)) \<and>
    (\<forall>a. a < b * d_bsize s \<or> b * d_bsize s + n \<le> a \<longrightarrow> dev_data s' a = dev_data s a)"
proof -
  obtain rv s1 where u: "ufs_disk_write s = (rv, s1)" by (cases "ufs_disk_write s")
  have s1: "d_bsize s1 = d_bsize s" "dev_pread s1 = dev_pread s" "dev_pwrite s1 = dev_pwrite s" "dev_data s1 = dev_data s"
    using u by (auto simp: ufs_disk_write_def Let_def split: if_splits)
  define off cnt where "off = b * d_bsize s" and "cnt = dev_pwrite s1 off n"
  have w: "rv \<noteq> -1" "cnt = n" "s' = s1\<lparr>dev_data := memcpy (dev_data s1) off m 0 n\<rparr>"
    using assms(1,2) u s1 by (auto simp: bwrite_def Let_def off_def cnt_def split: if_splits)
  have "bread b m0 n s' = (n, memcpy m0 0 (dev_data s') off n)"
    using assms(2-4) w(3) s1 by (auto simp: bread_def Let_def off_def)
  moreover have "\<forall>i. 0 \<le> i \<longrightarrow> i < n \<longrightarrow> memcpy m0 0 (dev_data s') off n i = m i" using w(3) by (simp add: memcpy_def)
  ultimately show ?thesis using w(3) s1 by (auto simp: memcpy_def off_def)
qed

text \<open>C30. \<open>getino\<close> does not look at the result of its read: when the block of an inode that is not cached cannot
  be read it still reports success, with an inode that is all zero, and keeps the zero block as its
  cache for all inodes of the block.\<close>

theorem getino_ignores_read_error:
  assumes "env_mem s" "d_ufs s = 2" "fs_ok (d_fs s)" "fs_bsize (d_fs s) = 256 * fs_inopb (d_fs s)" "0 \<le> ino" "\<not> (d_inomin s \<le> ino \<and> ino < d_inomax s)"
    "d_fd s < 0 \<or> dev_pread s (fsbtodb (d_fs s) (ino_to_fsba (d_fs s) ino) * d_bsize s) (fs_bsize (d_fs s)) \<noteq> fs_bsize (d_fs s)"
  shows "\<exists>off s' ip. getino ino s = (0, off, s') \<and> ip = copy_ondisk_to_incore inode0 (the (d_inoblock s')) off ino \<and>
    i_mode ip = 0 \<and> i_nlink ip = 0 \<and> i_size ip = 0 \<and> d_inomin s' \<le> ino \<and> ino < d_inomax s'"
proof -
  define fs where "fs = d_fs s"
  have bs: "0 < fs_bsize fs" "0 < fs_inopb fs" using fs_ok_pos fs_okD(14) assms(3) by (auto simp: fs_def)
  define b0 where "b0 = (case d_inoblock s of Some b \<Rightarrow> b | None \<Rightarrow> env_junk s)"
  define b1 where "b1 = (\<lambda>i. if 0 \<le> i \<and> i < fs_bsize fs then 0 else b0 i)"
  have br: "bread (fsbtodb fs (ino_to_fsba fs ino)) b0 (fs_bsize fs) s = (-1, b1)"
    using assms(7) bs(1) by (auto simp: bread_def Let_def memset_def b1_def fs_def)
  define k where "k = ino mod fs_inopb fs"
  have k: "0 \<le> k" "k < fs_inopb fs" using bs(2) by (simp_all add: k_def)
  define s' where "s' = s\<lparr>d_inoblock := Some b1, d_inomin := ino - k, d_inomax := ino - k + fs_inopb fs\<rparr>"
  have g: "getino ino s = (0, 256 * k, s')"
    using assms(1,2,6) br by (cases "d_inoblock s") (auto simp: getino_def Let_def s'_def k_def INOPB_def fs_def b0_def)
  have z: "memcpy (i_din2 inode0) 0 b1 (256 * k) 256 = (\<lambda>_. 0)"
    using k assms(4) by (auto simp: memcpy_def b1_def fun_eq_iff fs_def inode0_def)
  have "di_mode (\<lambda>_. 0) = 0" "di_nlink (\<lambda>_. 0) = 0" "di_size (\<lambda>_. 0) = 0" by code_simp+
  then show ?thesis using g k by (intro exI [of _ "256 * k"] exI [of _ s'] exI) (auto simp: s'_def copy_ondisk_to_incore_def z Let_def)
qed

subsection \<open>Addresses\<close>

lemma div_lt_mult: "0 < f \<Longrightarrow> y < k * f \<Longrightarrow> y div f < (k :: int)"
  using div_mult_mod_eq [of y f] pos_mod_sign [of f y] by (smt (verit) mult_right_mono)

lemma find_cg_range: "find_cg p cg e = Some c \<Longrightarrow> cg \<le> c \<and> c < e \<and> p c"
  by (induction p cg e rule: find_cg.induct) (subst (asm) find_cg.simps, force split: if_splits)

text \<open>C32. The macros of fs.h on a valid super block: a byte position is its block and the offset in it; the size in
  fragments is the least that holds the bytes, and never more than a block for at most a block; the
  block of an inode lies behind the start of the inode area of the inode's group and before its end.\<close>

theorem fs_macros_bounds:
  assumes "fs_ok fs" "0 \<le> x" "fs_magic fs = FS_UFS2_MAGIC" "fs_ipg fs mod fs_inopb fs = 0"
  shows "x = lblkno fs x * fs_bsize fs + blkoff fs x \<and> 0 \<le> blkoff fs x \<and> blkoff fs x < fs_bsize fs \<and>
    x \<le> fragroundup fs x \<and> fragroundup fs x < x + fs_fsize fs \<and> fragroundup fs x mod fs_fsize fs = 0 \<and>
    (x \<le> fs_bsize fs \<longrightarrow> fragroundup fs x \<le> fs_bsize fs) \<and>
    cgimin fs (ino_to_cg fs x) \<le> ino_to_fsba fs x \<and>
    ino_to_fsba fs x + fs_frag fs \<le> cgimin fs (ino_to_cg fs x) + fs_ipg fs div fs_inopb fs * fs_frag fs"
proof -
  note m = macro_div_mod [OF assms(1)]
  note p = fs_ok_pos [OF assms(1)] and d = fs_okD [OF assms(1)]
  have fr: "x \<le> fragroundup fs x" "fragroundup fs x < x + fs_fsize fs" unfolding m by (rule round_up_bounds [OF p(2)])+
  have "fragroundup fs x \<le> fs_bsize fs" if "x \<le> fs_bsize fs"
  proof -
    have "x + (fs_fsize fs - 1) < (fs_frag fs + 1) * fs_fsize fs" using that d(4) p(2) by (simp add: distrib_right)
    then have "(x + (fs_fsize fs - 1)) div fs_fsize fs < fs_frag fs + 1" by (rule div_lt_mult [OF p(2)])
    then have "(x + (fs_fsize fs - 1)) div fs_fsize fs \<le> fs_frag fs" by simp
    then show ?thesis using p(2) d(4) m(9) by (simp add: mult_right_mono)
  qed
  moreover have "cgimin fs (ino_to_cg fs x) \<le> ino_to_fsba fs x \<and>
    ino_to_fsba fs x + fs_frag fs \<le> cgimin fs (ino_to_cg fs x) + fs_ipg fs div fs_inopb fs * fs_frag fs"
  proof -
    have ip: "0 < fs_ipg fs" "0 < fs_inopb fs" using d(13,14) .
    have q: "x smod fs_ipg fs sdiv fs_inopb fs = x mod fs_ipg fs div fs_inopb fs"
      using assms(2) ip by (simp add: smod_nonneg sdiv_nonneg)
    have "0 \<le> x mod fs_ipg fs div fs_inopb fs" using ip by (simp add: pos_imp_zdiv_nonneg_iff)
    moreover have "x mod fs_ipg fs div fs_inopb fs + 1 \<le> fs_ipg fs div fs_inopb fs"
    proof -
      have "fs_inopb fs * (fs_ipg fs div fs_inopb fs) = fs_ipg fs" using assms(4) by auto
      then have "x mod fs_ipg fs < fs_ipg fs div fs_inopb fs * fs_inopb fs" using ip(1) by (simp add: mult.commute)
      then have "x mod fs_ipg fs div fs_inopb fs < fs_ipg fs div fs_inopb fs" by (rule div_lt_mult [OF ip(2)])
      then show ?thesis by simp
    qed
    ultimately have "0 \<le> x mod fs_ipg fs div fs_inopb fs * fs_frag fs"
      "(x mod fs_ipg fs div fs_inopb fs + 1) * fs_frag fs \<le> fs_ipg fs div fs_inopb fs * fs_frag fs"
      using p(3) by (simp_all add: mult_right_mono)
    then show ?thesis by (simp add: ino_to_fsba_def m(4) q INOPB_def distrib_right)
  qed
  ultimately show ?thesis using fr p by (simp add: m)
qed

lemma find_cg_None: "find_cg p cg e = None \<Longrightarrow> cg \<le> c \<Longrightarrow> c < e \<Longrightarrow> \<not> p c"
proof (induction p cg e rule: find_cg.induct)
  case (1 p cg e)
  have n: "\<not> p cg" "find_cg p (cg + 1) e = None" using 1(2,3,4) by (subst (asm) find_cg.simps, simp split: if_splits)+
  show ?case
  proof (cases "c = cg")
    case False
    then show ?thesis using 1(1) [OF _ n(1,2)] 1(3,4) by simp
  qed (use n(1) in simp)
qed

text \<open>C33. \<open>ufs_dirpref\<close> always names the first inode of an existing group; and whenever some group has at least the
  average number of free inodes, the group it names has as many, or has a free inode and enough
  free blocks and few enough directories.\<close>

theorem dirpref_in_range:
  assumes "fs_ok fs" "0 \<le> ino" "ino < fs_ncg fs * fs_ipg fs" "avg = s32 (cs_nifree (fs_cstotal fs) sdiv fs_ncg fs)"
  shows "\<exists>cg. ufs_dirpref fs ino = fs_ipg fs * cg \<and> 0 \<le> cg \<and> cg < fs_ncg fs \<and>
    ((\<exists>c. 0 \<le> c \<and> c < fs_ncg fs \<and> avg \<le> cs_nifree (fs_csp fs c)) \<longrightarrow>
      avg \<le> cs_nifree (fs_csp fs cg) \<or> 1 \<le> cs_nifree (fs_csp fs cg) \<and> 1 \<le> cs_nbfree (fs_csp fs cg) \<and> cs_ndir (fs_csp fs cg) < fs_ipg fs)"
proof -
  define good where "good = (\<lambda>cg. cs_ndir (fs_csp fs cg) < min (s32 (cs_ndir (fs_cstotal fs) sdiv fs_ncg fs) + fs_ipg fs sdiv 16) (fs_ipg fs) \<and>
    cs_nifree (fs_csp fs cg) \<ge> max 1 (avg - avg sdiv 4) \<and>
    cs_nbfree (fs_csp fs cg) \<ge> max 1 (s32 (cs_nbfree (fs_cstotal fs) sdiv fs_ncg fs) - s32 (cs_nbfree (fs_cstotal fs) sdiv fs_ncg fs) sdiv 4) \<and>
    fs_contigdirs fs cg < dirpref_contigdirs fs)"
  define enough where "enough = (\<lambda>cg. cs_nifree (fs_csp fs cg) \<ge> avg)"
  define pr where "pr = ino_to_cg fs ino"
  define cg where "cg = (case find_cg good pr (fs_ncg fs) of Some cg \<Rightarrow> cg | None \<Rightarrow> (case find_cg good 0 pr of Some cg \<Rightarrow> cg | None \<Rightarrow>
    (case find_cg enough pr (fs_ncg fs) of Some cg \<Rightarrow> cg | None \<Rightarrow> (case find_cg enough 0 pr of Some cg \<Rightarrow> cg | None \<Rightarrow> max 0 pr))))"
  have eq: "ufs_dirpref fs ino = fs_ipg fs * cg"
    unfolding ufs_dirpref_def Let_def cg_def pr_def good_def enough_def assms(4) ..
  have ipg: "0 < fs_ipg fs" using fs_okD(13) [OF assms(1)] .
  have pr: "0 \<le> pr" "pr < fs_ncg fs"
    using assms(2,3) ipg div_lt_mult [OF ipg assms(3)] by (simp_all add: pr_def ino_to_cg_def sdiv_nonneg pos_imp_zdiv_nonneg_iff)
  have g: "good c \<Longrightarrow> 1 \<le> cs_nifree (fs_csp fs c) \<and> 1 \<le> cs_nbfree (fs_csp fs c) \<and> cs_ndir (fs_csp fs c) < fs_ipg fs" for c by (simp add: good_def)
  have none: "\<not> enough c" if "find_cg enough pr (fs_ncg fs) = None" "find_cg enough 0 pr = None" "0 \<le> c" "c < fs_ncg fs" for c
    using find_cg_None [OF that(1), of c] find_cg_None [OF that(2), of c] that(3,4) by (cases "pr \<le> c") auto
  have "0 \<le> cg \<and> cg < fs_ncg fs \<and> (good cg \<or> enough cg \<or> (\<forall>c. 0 \<le> c \<longrightarrow> c < fs_ncg fs \<longrightarrow> \<not> enough c))"
    unfolding cg_def using pr none by (auto split: option.splits dest!: find_cg_range)
  then show ?thesis using eq g by (intro exI [of _ cg]) (auto simp: enough_def)
qed

subsection \<open>When the walk over a directory block ends\<close>

text \<open>
  The contract between the walk over a block and its callbacks: \<open>inv\<close> is what the callback needs of
  its private data when the rest of the block is a chain of entries that ends at \<open>z\<close>. It returns, and
  either it asks for the end of the walk or the rest of the block is again such a chain,
  though with other entries.
\<close>

locale block_callback =
  fixes func :: "'p dirfunc" and inv :: "'p \<Rightarrow> int \<Rightarrow> dent list \<Rightarrow> bool" and z :: int
  assumes callback: "lays m a (e # es) z \<Longrightarrow> inv p a (e # es) \<Longrightarrow> \<exists>r m1 p1. func p m a (a mod DIRBLKSIZ) = Some (r, m1, p1) \<and>
      (r AND DIRENT_ABORT \<noteq> 0 \<or> (\<exists>e1 es1. lays m1 a (e1 # es1) z \<and> inv p1 (a + e_len e1) es1))"
begin

lemma walk_returns:
  assumes "lays m off es z" "inv p off es" and z: "z = min blksize (dir_size - pos)"
  shows "\<exists>res. dir_block func blkno blksize dir_size pos off ret m p s = Some res"
  using assms(1,2)
proof (induction "nat (z - off)" arbitrary: off es ret m p s rule: less_induct)
  case less
  show ?case
  proof (cases es)
    case Nil
    then show ?thesis using less.prems z by (subst dir_block.simps) auto
  next
    case (Cons e es')
    have "off < z" using less.prems(1) lays_le [of m "off + e_len e" es' z] ent_fits_len [of off e] by (auto simp: Cons)
    obtain r m1 p1 where c: "func p m off (off mod DIRBLKSIZ) = Some (r, m1, p1)"
      "r AND DIRENT_ABORT \<noteq> 0 \<or> (\<exists>e1 es1. lays m1 off (e1 # es1) z \<and> inv p1 (off + e_len e1) es1)"
      using callback less.prems unfolding Cons by blast
    have "\<exists>res. dir_block func blkno blksize dir_size pos (off + d_reclen m1 off) r m1 p1 t = Some res" if "r AND DIRENT_ABORT = 0" for t
    proof -
      obtain e1 es1 where e1: "lays m1 off (e1 # es1) z" "inv p1 (off + e_len e1) es1" using c(2) \<open>r AND DIRENT_ABORT = 0\<close> by blast
      have "d_reclen m1 off = e_len e1" "0 < e_len e1" "lays m1 (off + e_len e1) es1 z"
        using e1(1) ent_fits_len [of off e1] by (auto simp: ent_at_def)
      then show ?thesis using less.hyps [of "off + e_len e1" m1 es1 p1 r t] e1(2) \<open>off < z\<close> by simp
    qed
    then show ?thesis using \<open>off < z\<close> z
      by (subst dir_block.simps) (auto simp: c(1) [unfolded DIRBLKSIZ_def] Let_def simp del: split_paired_Ex split: prod.split)
  qed
qed

end

text \<open>All four callbacks that the program walks a directory with to find, add and remove a name and to
  see whether it is empty keep the contract, the two that rewrite entries included.\<close>

interpretation lookup_walk: block_callback lookup_proc "\<lambda>_ _ _. True" z for z
  by unfold_locales (auto simp: lookup_proc_def)

interpretation rmdir_walk: block_callback rmdir_proc "\<lambda>_ _ _. True" z for z
  by unfold_locales (auto simp: rmdir_proc_def)

interpretation link_walk: block_callback link_proc "\<lambda>ls _ _. link_ok ls \<and> z mod DIRBLKSIZ = 0" z for z
proof
  fix m a e es ls assume l: "lays m a (e # es) z" and ok: "link_ok ls \<and> z mod DIRBLKSIZ = 0"
  have ab: "(DIRENT_ABORT OR DIRENT_CHANGED) AND DIRENT_ABORT \<noteq> 0" by simp
  have lk: "link_ok ls" "z mod DIRBLKSIZ = 0" using ok by blast+
  from link_proc_cases [OF lk(1) l lk(2)]
  show "\<exists>r m1 p1. link_proc ls m a (a mod DIRBLKSIZ) = Some (r, m1, p1) \<and>
      (r AND DIRENT_ABORT \<noteq> 0 \<or> (\<exists>e1 es1. lays m1 a (e1 # es1) z \<and> link_ok p1 \<and> z mod DIRBLKSIZ = 0))"
  proof (elim disjE exE conjE, goal_cases)
    case (1 r m1 e1 es1)
    show ?thesis by (intro exI conjI disjI2) (rule 1(1), rule 1(3), rule lk(1), rule lk(2))
  next
    case (2 m2 e2 u es2)
    show ?thesis by (intro exI conjI disjI2) (rule 2(1), rule 2(2), rule lk(1), rule lk(2))
  next
    case (3 m' es')
    show ?thesis by (rule exI, rule exI, rule exI, rule conjI, rule 3(1)) (rule disjI1 [OF ab])
  qed
qed

interpretation unlink_walk: block_callback unlink_proc
  "\<lambda>ls a es. unlink_ok ls \<and> (u_prev_dirent ls \<noteq> None \<or> (\<forall>e es'. es = e # es' \<longrightarrow> a mod DIRBLKSIZ = 0 \<and> e_ino e \<noteq> 0))" z for z
proof
  fix m a e es ls
  assume l: "lays m a (e # es) z"
    and i: "unlink_ok ls \<and> (u_prev_dirent ls \<noteq> None \<or> (\<forall>e' es'. e # es = e' # es' \<longrightarrow> a mod DIRBLKSIZ = 0 \<and> e_ino e' \<noteq> 0))"
  have "ent_at m a e" using l by simp
  note u = unlink_proc_eq [OF conjunct1 [OF i] this, of "a mod DIRBLKSIZ"]
  have ok: "unlink_ok (ls\<lparr>u_prev_dirent := Some a\<rparr>)" using i by (simp add: unlink_ok_def)
  show "\<exists>r m1 p1. unlink_proc ls m a (a mod DIRBLKSIZ) = Some (r, m1, p1) \<and> (r AND DIRENT_ABORT \<noteq> 0 \<or>
      (\<exists>e1 es1. lays m1 a (e1 # es1) z \<and> unlink_ok p1 \<and>
        (u_prev_dirent p1 \<noteq> None \<or> (\<forall>e es'. es1 = e # es' \<longrightarrow> (a + e_len e1) mod DIRBLKSIZ = 0 \<and> e_ino e \<noteq> 0))))"
  proof (cases "e_ino e \<noteq> 0 \<and> unlink_target ls e")
    case True
    obtain m1 where "(if a mod DIRBLKSIZ \<noteq> 0 then map_option (\<lambda>q. set_d_reclen m q (d_reclen m q + d_reclen m a)) (u_prev_dirent ls)
        else Some (set_d_ino m a 0)) = Some m1" using i by (cases "u_prev_dirent ls"; cases "a mod DIRBLKSIZ = 0") auto
    then have "unlink_proc ls m a (a mod DIRBLKSIZ) = Some (DIRENT_ABORT OR DIRENT_CHANGED, m1, ls\<lparr>u_prev_dirent := Some a, u_done := u_done ls + 1\<rparr>)"
      using True by (simp only: u) simp
    moreover have "(DIRENT_ABORT OR DIRENT_CHANGED) AND DIRENT_ABORT \<noteq> 0" by simp
    ultimately show ?thesis by blast
  next
    case False
    then have "unlink_proc ls m a (a mod DIRBLKSIZ) = Some (0, m, if e_ino e = 0 then ls else ls\<lparr>u_prev_dirent := Some a\<rparr>)"
      by (simp only: u) auto
    moreover have "u_prev_dirent (if e_ino e = 0 then ls else ls\<lparr>u_prev_dirent := Some a\<rparr>) \<noteq> None" using i by auto
    moreover have "unlink_ok (if e_ino e = 0 then ls else ls\<lparr>u_prev_dirent := Some a\<rparr>)" using i ok by simp
    ultimately show ?thesis using l by blast
  qed
qed

text \<open>C34. The walk over a block whose entries tile it returns, for each of the four callbacks that look a
  name up, test for emptiness, add a name and remove a name: also when the callback rewrites the entries
  under the walk, as the last two do, and whether or not the device accepts the writes. For removing, the
  walk must have met an entry in use before, or meet one at the start of a directory block: else
  \<open>unlink_proc\<close> follows a null pointer.\<close>

theorem dir_block_terminates:
  assumes "lays m off es z" "z = min blksize (dir_size - pos)" "z mod DIRBLKSIZ = 0" "link_ok ls" "unlink_ok us"
    and "u_prev_dirent us \<noteq> None \<or> off mod DIRBLKSIZ = 0 \<and> e_ino (hd es) \<noteq> 0"
  shows "(\<exists>res. dir_block lookup_proc blkno blksize dir_size pos off ret m lk s = Some res) \<and>
    (\<exists>res. dir_block rmdir_proc blkno blksize dir_size pos off ret m nonempty s = Some res) \<and>
    (\<exists>res. dir_block link_proc blkno blksize dir_size pos off ret m ls s = Some res) \<and>
    (\<exists>res. dir_block unlink_proc blkno blksize dir_size pos off ret m us s = Some res)"
proof (intro conjI)
  show "\<exists>res. dir_block lookup_proc blkno blksize dir_size pos off ret m lk s = Some res"
    by (rule lookup_walk.walk_returns [OF assms(1) TrueI assms(2)])
  show "\<exists>res. dir_block rmdir_proc blkno blksize dir_size pos off ret m nonempty s = Some res"
    by (rule rmdir_walk.walk_returns [OF assms(1) TrueI assms(2)])
  show "\<exists>res. dir_block link_proc blkno blksize dir_size pos off ret m ls s = Some res"
    by (rule link_walk.walk_returns [OF assms(1) conjI [OF assms(4,3)] assms(2)])
  show "\<exists>res. dir_block unlink_proc blkno blksize dir_size pos off ret m us s = Some res"
    by (rule unlink_walk.walk_returns [OF assms(1) _ assms(2)]) (use assms(5,6) in auto)
qed

text \<open>C35. An unused entry of record length 0 makes the walk endless: once a lookup reaches it, it does not return,
  whatever the name.\<close>

theorem dir_block_zero_reclen_hangs:
  assumes "d_reclen m off = 0" "d_ino m off = 0" "off < blksize" "pos + off < dir_size"
  shows "dir_block lookup_proc blkno blksize dir_size pos off ret m ls s = None"
proof -
  have "\<not> (f = lookup_proc \<and> bs = blksize \<and> ds = dir_size \<and> q = pos \<and> a = off \<and> m' = m)"
    if y: "dir_block f b bs ds q a r m' l t = Some y" for f b bs ds q a r m' l t y
  proof (rule dir_block.raw_induct [where P = "\<lambda>f b bs ds q a r m' l t y. \<not> (f = lookup_proc \<and> bs = blksize \<and> ds = dir_size \<and> q = pos \<and> a = off \<and> m' = m)", OF _ y], goal_cases)
    case (1 rec f b bs ds q a r m' l t y)
    show ?case
    proof
      assume e: "f = lookup_proc \<and> bs = blksize \<and> ds = dir_size \<and> q = pos \<and> a = off \<and> m' = m"
      have "rec lookup_proc b blksize dir_size pos off 0 m l t = Some y" using 1(2) e assms by (auto simp: lookup_proc_def)
      then show False using 1(1) by blast
    qed
  qed
  then show ?thesis by (metis option.exhaust)
qed

subsection \<open>Examples\<close>

lemma disk_ex_fields: "d_fd disk_ex = 3" "d_bsize disk_ex = 512" "d_mine disk_ex = 2" "d_ufs disk_ex = 2" "dev_pread disk_ex o' n = n" "dev_pwrite disk_ex o' n = n"
    "d_inoblock disk_ex = None" "d_inomin disk_ex = 0" "d_inomax disk_ex = 0"
  by (simp_all add: disk_ex_def)

theorem bwrite_bread_roundtrip_witness:
  "\<exists>s' m1. bwrite 16 (\<lambda>i. word_of_int i) 512 disk_ex = (512, s') \<and> bread 16 (\<lambda>_. 0) 512 s' = (512, m1) \<and> m1 7 = 7"
proof -
  define s' where "s' = disk_ex\<lparr>dev_data := memcpy (dev_data disk_ex) (16 * d_bsize disk_ex) (\<lambda>i. word_of_int i) 0 512\<rparr>"
  have w: "bwrite 16 (\<lambda>i. word_of_int i) 512 disk_ex = (512, s')" using bwrite_ok [OF io_ok_ex, of 16 512] by (simp add: s'_def)
  have p: "(0 :: int) < 512" "0 \<le> d_fd s'" "dev_pread disk_ex (16 * d_bsize disk_ex) 512 = 512" by (simp_all add: s'_def disk_ex_fields)
  obtain m1 where r: "bread 16 (\<lambda>_. 0) 512 s' = (512, m1)" "\<forall>i. 0 \<le> i \<longrightarrow> i < 512 \<longrightarrow> m1 i = word_of_int i" using bwrite_bread_roundtrip [OF w p, of "\<lambda>_. 0"] by blast
  have "m1 7 = 7" using r(2) by simp
  then show ?thesis using w r(1) by blast
qed

theorem getino_ignores_read_error_witness:
  "\<exists>off s'. getino 5 (disk_ex\<lparr>d_fd := -1\<rparr>) = (0, off, s') \<and> i_nlink (copy_ondisk_to_incore inode0 (the (d_inoblock s')) off 5) = 0"
proof -
  define s where "s = disk_ex\<lparr>d_fd := -1\<rparr>"
  have f: "env_mem s" "d_ufs s = 2" "fs_ok (d_fs s)" "fs_bsize (d_fs s) = 256 * fs_inopb (d_fs s)" "\<not> (d_inomin s \<le> 5 \<and> 5 < d_inomax s)" "d_fd s < 0"
    using fs_one_ok by (simp_all add: s_def disk_ex_fields) (simp_all add: disk_ex_def fs_one_def fs_ex_def)
  show ?thesis using getino_ignores_read_error [OF f(1-4) _ f(5)] f(6) unfolding s_def by auto
qed

theorem fs_macros_bounds_witness:
  "(5000 :: int) = lblkno fs_ex 5000 * 4096 + blkoff fs_ex 5000 \<and> fragroundup fs_ex 5000 < 5512 \<and> ino_to_fsba fs_ex 5000 + 8 \<le> cgimin fs_ex (ino_to_cg fs_ex 5000) + 32"
  using fs_macros_bounds [OF fs_ok_ex, of 5000] by (simp add: fs_ex_def)

theorem dirpref_in_range_witness: "\<exists>cg. ufs_dirpref fs_ex 70 = 64 * cg \<and> 0 \<le> cg \<and> cg < 2 \<and> 1 \<le> cs_nifree (fs_csp fs_ex cg)"
proof -
  have v: "(0 :: int) \<le> 70" "70 < fs_ncg fs_ex * fs_ipg fs_ex" "10 = s32 (cs_nifree (fs_cstotal fs_ex) sdiv fs_ncg fs_ex)" by code_simp+
  have c: "cs_nifree (fs_csp fs_ex c) = 20" "fs_ipg fs_ex = 64" "fs_ncg fs_ex = 2" for c by (simp_all add: fs_ex_def csum_ex_def)
  show ?thesis using dirpref_in_range [OF fs_ok_ex v] by (auto simp: c)
qed

theorem dir_block_terminates_witness:
  "(\<exists>res. dir_block link_proc 16 512 512 0 0 0 (put_ents (\<lambda>_. 0) 0 ents_ex) \<lparr>l_name = ''b'', l_namelen = 1, l_inode = 9, l_flags = IFREG, l_done = 0, l_blocksize = 512\<rparr>
       (disk_ex\<lparr>d_fd := -1\<rparr>) = Some res) \<and>
   (\<exists>res. dir_block unlink_proc 16 512 512 0 0 0 (put_ents (\<lambda>_. 0) 0 ents_ex) \<lparr>u_name = ''b'', u_namelen = 1, u_inode = 9, u_prev_dirent = None, u_done = 0\<rparr>
       (disk_ex\<lparr>d_fd := -1\<rparr>) = Some res)"
proof -
  have l: "lays (put_ents (\<lambda>_. 0) 0 ents_ex) 0 ents_ex 512" "(512 :: int) = min 512 (512 - 0)" "(512 :: int) mod DIRBLKSIZ = 0"
    "link_ok \<lparr>l_name = ''b'', l_namelen = 1, l_inode = 9, l_flags = IFREG, l_done = 0, l_blocksize = 512\<rparr>"
    "unlink_ok \<lparr>u_name = ''b'', u_namelen = 1, u_inode = 9, u_prev_dirent = None, u_done = 0\<rparr>"
    "(0 :: int) mod DIRBLKSIZ = 0 \<and> e_ino (hd ents_ex) \<noteq> 0" by code_simp+
  show ?thesis using dir_block_terminates [OF l(1-5) disjI2 [OF l(6)]] by blast
qed

theorem dir_block_zero_reclen_hangs_witness:
  "dir_block lookup_proc 16 512 512 0 0 0 (\<lambda>_. 0) \<lparr>lk_name = ''x'', lk_len = 1, lk_inode = 0, lk_found = 0\<rparr> disk_ex = None"
proof -
  have z: "d_reclen (\<lambda>_. 0) 0 = 0" "d_ino (\<lambda>_. 0) 0 = 0" by code_simp+
  show ?thesis by (rule dir_block_zero_reclen_hangs [OF z]) simp_all
qed

end
