(* ===== verification/Ufs_Kill_Props.thy ===== *)
theory Ufs_Kill_Props
  imports Ufs_Vnode_Table
begin

section \<open>Deleting a file with its last reference\<close>

text \<open>
  The other half of \<open>vnode_put\<close>: the last reference of a file without links. The release then runs
  \<open>do_killfilebyinode\<close>, which returns the inode number to the map of its group and stores a cleared
  inode. Both write to the device, the first to a group, the second to the inode area, so the
  proof has to show that neither write disturbs what the other one is about.
\<close>

subsection \<open>Groups and inode areas do not overlap\<close>

text \<open>The layout of a group: its descriptor lies before its inode area, which ends before the
  descriptor of the next group.\<close>

definition ino_area_ok :: "fs \<Rightarrow> bool" where
  "ino_area_ok fs \<longleftrightarrow> fs_cblkno fs + fs_frag fs \<le> fs_iblkno fs \<and>
     fs_iblkno fs + fs_ipg fs div fs_inopb fs * fs_frag fs \<le> fs_fpg fs + fs_cblkno fs"

lemma ino_cg_apart:
  assumes g: "ino_geom s" and a: "ino_area_ok (d_fs s)" and ino: "0 \<le> ino"
  shows "ino_addr s ino + fs_bsize (d_fs s) \<le> cg_addr s cg \<or> cg_addr s cg + fs_cgsize (d_fs s) \<le> ino_addr s ino"
proof -
  define fs n h where "fs = d_fs s" and "n = fs_fpg fs" and "h = ino div fs_ipg fs"
  note d = ino_geomD [OF g, folded fs_def]
  define q where "q = ino mod fs_ipg fs div fs_inopb fs"
  have q0: "0 \<le> q" using d(9,10) by (simp add: q_def pos_imp_zdiv_nonneg_iff)
  have "fs_ipg fs = fs_ipg fs div fs_inopb fs * fs_inopb fs" using d(6) by auto
  then have "ino mod fs_ipg fs < fs_ipg fs div fs_inopb fs * fs_inopb fs" using d(10) pos_mod_bound [of "fs_ipg fs" ino] by linarith
  then have "q < fs_ipg fs div fs_inopb fs" using div_less_mult [OF d(9)] by (simp add: q_def)
  then have "(q + 1) * fs_frag fs \<le> fs_ipg fs div fs_inopb fs * fs_frag fs" using fs_ok_pos(3) [OF d(3)] by (intro mult_right_mono) auto
  then have qf: "0 \<le> q * fs_frag fs" "fs_iblkno fs + q * fs_frag fs + fs_frag fs \<le> n + fs_cblkno fs"
    using a q0 fs_ok_pos(3) [OF d(3)] by (auto simp: ino_area_ok_def fs_def n_def distrib_right)
  have n: "0 < n" "0 < fs_fsize fs" using fs_okD(15) [OF d(3)] fs_ok_pos(2) [OF d(3)] by (simp_all add: n_def)
  have ia: "ino_addr s ino = (n * h + fs_iblkno fs + q * fs_frag fs) * fs_fsize fs"
    using ino_addr_eq(1) [OF g ino] fs_okD(4) [OF d(3)] by (simp add: fs_def n_def h_def q_def algebra_simps)
  have ca: "cg_addr s cg = (n * cg + fs_cblkno fs) * fs_fsize fs" using cg_addr_eq [OF d(1)] by (simp add: n_def fs_def)
  have bs: "fs_bsize fs = fs_frag fs * fs_fsize fs" "fs_cgsize fs \<le> fs_frag fs * fs_fsize fs" using fs_okD(4,19) [OF d(3)] by simp_all
  show ?thesis
  proof (cases "cg \<le> h")
    case True
    then have "n * cg \<le> n * h" using n(1) by simp
    then have "n * cg + fs_cblkno fs + fs_frag fs \<le> n * h + fs_iblkno fs + q * fs_frag fs" using a qf(1) by (simp add: ino_area_ok_def fs_def)
    then have "(n * cg + fs_cblkno fs + fs_frag fs) * fs_fsize fs \<le> ino_addr s ino" unfolding ia using n(2) by (intro mult_right_mono) auto
    then show ?thesis using ca bs(2) by (simp add: distrib_right fs_def)
  next
    case False
    then have "n * (h + 1) \<le> n * cg" using n(1) by (intro mult_left_mono) auto
    then have "n * h + fs_iblkno fs + q * fs_frag fs + fs_frag fs \<le> n * cg + fs_cblkno fs" using qf(2) by (simp add: distrib_left)
    then have "(n * h + fs_iblkno fs + q * fs_frag fs + fs_frag fs) * fs_fsize fs \<le> cg_addr s cg" unfolding ca using n(2) by (intro mult_right_mono) auto
    then show ?thesis using ia bs(1) by (simp add: distrib_right fs_def)
  qed
qed

lemma slot_cg_apart:
  assumes g: "ino_geom s" and a: "ino_area_ok (d_fs s)" and ino: "0 \<le> ino"
  shows "ino_slot s ino + 256 \<le> cg_addr s cg \<or> cg_addr s cg + fs_cgsize (d_fs s) \<le> ino_slot s ino"
  using ino_cg_apart [OF assms, of cg] slot_in_block [OF g ino] unfolding ino_slot_def by linarith

text \<open>Writing a group back leaves the table of inodes and its cache as they are.\<close>

lemma put_group_inodes:
  fixes cg c'
  assumes g: "ino_geom s" and c: "ino_cache_ok s" and a: "ino_area_ok (d_fs s)" and ge: "geom_eq (d_fs s) fs'"
  defines "s' \<equiv> put_group s cg fs' c' (fs_cgsize (d_fs s))"
  shows "ino_geom s'" "ino_cache_ok s'" "0 \<le> ino \<Longrightarrow> dinode_at s' ino = dinode_at s ino" "ino_area_ok (d_fs s')"
proof -
  have fs: "d_fs s' = fs'" "d_bsize s' = d_bsize s" "dev_data s' = memcpy (dev_data s) (cg_addr s cg) c' 0 (fs_cgsize (d_fs s))"
    "d_inomin s' = d_inomin s" "d_inomax s' = d_inomax s" "d_inoblock s' = d_inoblock s" by (simp_all add: s'_def put_group_def)
  have eq: "fs_inopb fs' = fs_inopb (d_fs s)" "fs_iblkno fs' = fs_iblkno (d_fs s)" using ge by (auto simp: geom_eq_def)
  note gd = geom_eqD [OF ge]
  have "disk_ok s'" using ino_geomD(1) [OF g] gd by (simp add: disk_ok_def s'_def put_group_def)
  then show gm: "ino_geom s'" using g gd eq unfolding ino_geom_def fs by (simp add: s'_def put_group_def)
  show "ino_area_ok (d_fs s')" using a gd eq by (simp add: ino_area_ok_def fs)
  have ad: "ino_addr s' i = ino_addr s i" "ino_slot s' i = ino_slot s i" if "0 \<le> i" for i
    using ino_addr_eq(1) [OF g that] ino_addr_eq(1) [OF gm that] ino_slot_eq [OF g that] ino_slot_eq [OF gm that] gd eq by (simp_all add: fs(1))
  have kept: "dev_data s' (ino_addr s i + x) = dev_data s (ino_addr s i + x)" if "0 \<le> i" "0 \<le> x" "x < fs_bsize (d_fs s)" for i x
    using ino_cg_apart [OF g a that(1), of cg] that by (auto simp: fs memcpy_def)
  show "ino_cache_ok s'"
    using c kept ad(1) [of "d_inomin s"] unfolding ino_cache_ok_def fs(4-6) by (auto simp: fs(1) INOPB_def eq gd)
  show "dinode_at s' ino = dinode_at s ino" if "0 \<le> ino"
    using slot_cg_apart [OF g a that, of cg] ad(2) [OF that] by (auto simp: fun_eq_iff dinode_at_def memcpy_def fs(3))
qed

text \<open>Storing an inode leaves all groups, and with them the maps and counts, as they are.\<close>

lemma write_inode_junk:
  assumes "ufs_write_inode ino ip s = (rc, ip', s')"
  shows "env_junk s' = env_junk s"
proof -
  have b: "env_junk t' = env_junk t" if "blkwrite k m n t = (e, t')" for k m n t e t'
    using that by (auto simp: blkwrite_def bwrite_def ufs_disk_write_def Let_def split: prod.splits if_splits)
  have g: "env_junk (snd (snd (getino ino s))) = env_junk s"
    by (simp add: getino_def Let_def split: option.split prod.split)
  obtain r off t where t: "getino ino s = (r, off, t)" by (cases "getino ino s")
  show ?thesis using assms g unfolding ufs_write_inode_def t by (auto simp: Let_def split: prod.splits if_splits dest!: b)
qed

lemma inode_write_groups:
  assumes g: "ino_geom s" "ino_geom s'" and a: "ino_area_ok (d_fs s)" and ino: "0 \<le> ino"
    and s': "d_fs s' = d_fs s" "env_junk s' = env_junk s" "dev_data s' = memcpy (dev_data s) (ino_slot s ino) m 0 256"
  shows "group_at s' cg = group_at s cg"
proof -
  have "cg_addr s' cg = cg_addr s cg" using cg_addr_eq [OF ino_geomD(1) [OF g(1)]] cg_addr_eq [OF ino_geomD(1) [OF g(2)]] s'(1) by simp
  then show ?thesis using slot_cg_apart [OF g(1) a ino, of cg] s' by (auto simp: fun_eq_iff group_at_def memcpy_def)
qed

lemma groups_same:
  assumes "ino_geom s'" "\<And>cg. group_at s' cg = group_at s cg" "d_fs s' = d_fs s" "inos_ok s"
  shows "inos_ok s'" "used_ino s' = used_ino s" "free_frag s' = free_frag s"
proof -
  have "group_at s' = group_at s" using assms(2) by (rule ext)
  then show "inos_ok s'" "used_ino s' = used_ino s" "free_frag s' = free_frag s"
    using assms(3,4) ino_geomD(1) [OF assms(1)]
    by (simp_all add: inos_ok_def space_ok_def group_sum_def used_ino_def [abs_def] free_frag_def [abs_def])
qed

subsection \<open>Deleting\<close>

text \<open>What remains of the inode: everything that describes a file is cleared.\<close>

definition cleared :: "inode \<Rightarrow> bool" where
  "cleared d \<longleftrightarrow> i_mode d = 0 \<and> i_nlink d = 0 \<and> i_size d = 0 \<and> i_flags d = 0 \<and> i_uid d = 0 \<and> i_gid d = 0 \<and>
     i_blocks d = 0 \<and> i_atime d = 0 \<and> i_mtime d = 0 \<and> i_ctime d = 0"

lemma kill_without_blocks:
  assumes g: "ino_geom s" "ino_cache_ok s" and a: "ino_area_ok (d_fs s)" and io: "inos_ok s"
    and r: "0 < r" "fs_ncg (d_fs s) * fs_ipg (d_fs s) < 2 ^ 32" "used_ino s r" and ip: "inode_ok ip" "i_blocks ip = 0"
  shows "\<exists>ip' s'. do_killfilebyinode r ip s = Some (0, ip', s') \<and> ino_geom s' \<and> ino_cache_ok s' \<and> inos_ok s' \<and>
    used_ino s' = (\<lambda>i. used_ino s i \<and> i \<noteq> r) \<and> free_frag s' = free_frag s \<and>
    cleared (copy_ondisk_to_incore inode0 (dinode_at s' r) 0 r) \<and>
    (\<forall>j. 0 \<le> j \<longrightarrow> j \<noteq> r \<longrightarrow> dinode_at s' j = dinode_at s j)"
proof -
  define n cg where "n = fs_ipg (d_fs s)" and "cg = r div n"
  have rr: "0 \<le> r" "r < fs_ncg (d_fs s) * n" "0 \<le> r" using r(3) by (auto simp: used_ino_def n_def)
  obtain s1 where s1: "ufs_free_inode r (i_mode ip) s = Some (0, s1)" "ino_given s r s1"
    using free_inode_given [OF io r, where mode = "i_mode ip"] by blast
  obtain c' where c': "s1 = put_group s cg (ino_fs False cg 1 0 (d_fs s)) c' (fs_cgsize (d_fs s))"
    using free_inode_run [OF io rr(1) rr(2) [unfolded n_def] r(2) disjI1 [OF r(3)], where mode = "i_mode ip" and k = 0] s1(1)
    by (auto simp: ufs_free_inode_def cg_def n_def)
  note P = put_group_inodes [OF g a ino_fs_geom [where dir = False and cg = cg and v = 1 and k = 0], where cg = cg and c' = c', folded c']
  define ip1 where "ip1 = ufs_clear_inode (ip\<lparr>i_nlink := 0\<rparr>)"
  have ok1: "inode_ok ip1" using ip(1) by (simp add: ip1_def ufs_clear_inode_def inode_ok_def)
  obtain s2 where s2: "ufs_write_inode r ip1 s1 = (0, copy_incore_to_ondisk (d_fs s1) ip1, s2)" "ino_geom s2" "ino_cache_ok s2" "d_fs s2 = d_fs s1"
    "ino_slot s2 = ino_slot s1" "dev_data s2 = memcpy (dev_data s1) (ino_slot s1 r) (i_din2 (copy_incore_to_ondisk (d_fs s1) ip1)) 0 256"
    using write_inode_ok [OF P(1,2) rr(1), of ip1] by blast
  have run: "do_killfilebyinode r ip s = Some (0, copy_incore_to_ondisk (d_fs s1) ip1, s2)"
    using s1(1) s2(1) ip(2) by (simp add: do_killfilebyinode_def ip1_def)
  have "group_at s2 x = group_at s1 x" for x
    using inode_write_groups [OF P(1) s2(2) P(4) rr(1) s2(4) write_inode_junk [OF s2(1)] s2(6)] .
  from groups_same [OF s2(2) this s2(4)] have keep: "inos_ok s2" "used_ino s2 = used_ino s1" "free_frag s2 = free_frag s1"
    using s1(2) by (simp_all add: ino_given_def)
  note dw = dinode_write [OF P(1) rr(1) s2(5,6)]
  have "stored_as (d_fs s1) ip1 (copy_ondisk_to_incore inode0 (dinode_at s2 r) 0 r)"
    by (rule same_stored [OF ino_geomD(3) [OF P(1)] ino_geom_bsize [OF P(1)] ok1 ondisk_incore [OF ok1 dw(1)]])
  moreover have "sectors_of (d_fs s1) 0 0 = 0"
    using ino_geom_bsize [OF P(1)] fs_ok_pos [OF ino_geomD(3) [OF P(1)]] by (simp add: sectors_of_def ceil_div_def S_ISLNK_def)
  ultimately have "cleared (copy_ondisk_to_incore inode0 (dinode_at s2 r) 0 r)"
    by (simp add: stored_as_def cleared_def ip1_def ufs_clear_inode_def)
  moreover have "dinode_at s2 j = dinode_at s j" if "0 \<le> j" "j \<noteq> r" for j using dw(2) [OF that] P(3) [OF that(1)] by simp
  ultimately show ?thesis using run s2(2,3) keep s1(2) by (auto simp: ino_given_def fun_eq_iff)
qed

text \<open>C31. The last reference of a file that has no links and no blocks (an empty file, a short symbolic
  link), released with \<open>vnode_put\<close>, clean or dirty: the vnode leaves the table and no other entry of it
  changes; exactly this inode number becomes free in the map of its group, the counts of free inodes
  and the block maps stay consistent; the inode on the device is cleared (mode, links, size,
  owner, flags, times and sectors are 0); every other on-disk inode is as before and the inode cache
  agrees with the device.\<close>

theorem vnode_put_deletes:
  assumes w: "world_ok w" "ino_area_ok (d_fs (w_ufs w))" "inos_ok (w_ufs w)" "fs_ncg (d_fs (w_ufs w)) * fs_ipg (d_fs (w_ufs w)) < 2 ^ 32"
    and v: "w_vnodes w p = Some v" "0 < v_ino v" "v_count v = 1" "used_ino (w_ufs w) (v_ino v)"
    and ip: "inode_ok (v_inode v)" "i_nlink (v_inode v) < 1" "i_size (v_inode v) < 2 ^ 38"
      "if dirty then sectors_of (d_fs (w_ufs w)) (i_mode (v_inode v)) (i_size (v_inode v)) = 0 else i_blocks (v_inode v) = 0"
  shows "\<exists>w'. vnode_put p dirty w = Some (0, w') \<and> world_ok w' \<and> vmap w' = (vmap w)(v_ino v := None) \<and>
    inos_ok (w_ufs w') \<and> used_ino (w_ufs w') = (\<lambda>i. used_ino (w_ufs w) i \<and> i \<noteq> v_ino v) \<and> free_frag (w_ufs w') = free_frag (w_ufs w) \<and>
    cleared (disk_inode w' (v_ino v)) \<and> (\<forall>j. 0 \<le> j \<longrightarrow> j \<noteq> v_ino v \<longrightarrow> dinode_at (w_ufs w') j = dinode_at (w_ufs w) j)"
proof -
  obtain T where t: "table w T" using w(1) by (auto simp: world_ok_def vtab_ok_def)
  have g: "ino_geom (w_ufs w)" "ino_cache_ok (w_ufs w)" using w(1) by (auto simp: world_ok_def)
  define ip1 where "ip1 = (if dirty then copy_incore_to_ondisk (d_fs (w_ufs w)) (v_inode v) else v_inode v)"
  have bl: "i_blocks ip1 = 0"
    using ip(4) calc_num_blocks_sectors [OF ino_geomD(3) [OF g(1)] ino_geom_bsize [OF g(1)] inode_size_nonneg [OF ip(1)] ip(3)]
    by (auto simp: ip1_def copy_incore_to_ondisk_def Let_def)
  have ok: "inode_ok ip1" "i_nlink ip1 < 1" using ip(1,2) same_file_twice(1) [OF ip(1)] by (auto simp: ip1_def copy_incore_to_ondisk_def Let_def)
  obtain ip2 s where k: "do_killfilebyinode (v_ino v) ip1 (w_ufs w) = Some (0, ip2, s)" "ino_geom s" "ino_cache_ok s" "inos_ok s"
    "used_ino s = (\<lambda>i. used_ino (w_ufs w) i \<and> i \<noteq> v_ino v)" "free_frag s = free_frag (w_ufs w)"
    "cleared (copy_ondisk_to_incore inode0 (dinode_at s (v_ino v)) 0 (v_ino v))"
    "\<forall>j. 0 \<le> j \<longrightarrow> j \<noteq> v_ino v \<longrightarrow> dinode_at s j = dinode_at (w_ufs w) j"
    using kill_without_blocks [OF g w(2,3) v(2) w(4) v(4) ok(1) bl] by blast
  obtain w' T' where w': "vnode_remove p w = Some w'" "table w' T'" "vmap w' = (vmap w)(v_ino v := None)"
    using table_remove [OF t v(1) refl] by blast
  have rm: "vnode_remove p ((set_vnode p (v\<lparr>v_count := 0, v_inode := ip2\<rparr>) w)\<lparr>w_ufs := s\<rparr>) = Some (w'\<lparr>w_ufs := s\<rparr>)"
    by (rule remove_cong [OF t v(1) _ _ w'(1)]) simp_all
  have "vnode_put p dirty w = Some (0, w'\<lparr>w_ufs := s\<rparr>)"
    using v(1,3) k(1) ok(2) rm by (auto simp: vnode_put_def get_vnode_def Let_def ip1_def)
  moreover have "world_ok (w'\<lparr>w_ufs := s\<rparr>)" using w'(2) k(2,3) by (auto simp: world_ok_def vtab_ok_def table_ufs)
  ultimately show ?thesis using k(4-8) w'(3) by (auto simp: table_ufs disk_inode_def)
qed

text \<open>A world whose only vnode is that of inode 2, without links, referenced once.\<close>

definition vnode_gone :: ufs_vnode where
  "vnode_gone = \<lparr>v_inode = inode_ex\<lparr>i_number := 2, i_nlink := 0, i_size := 0, i_blocks := 0\<rparr>, v_ino = 2, v_count = 1, v_pprevhash = Head 2, v_nexthash = None\<rparr>"

definition world_gone :: world where
  "world_gone = world_ex\<lparr>ht_head := (\<lambda>k. if k = 2 then Some 1 else None), w_vnodes := (\<lambda>p. if p = 1 then Some vnode_gone else None)\<rparr>"

theorem vnode_put_deletes_witness:
  "\<exists>w'. vnode_put 1 False world_gone = Some (0, w') \<and> vmap w' 2 = None \<and> \<not> used_ino (w_ufs w') 2 \<and> i_mode (disk_inode w' 2) = 0"
proof -
  have k: "vnode_hash_key 0 2 = 2" by code_simp
  have "table world_gone (\<lambda>k. if k = 2 then [1] else [])"
    by (auto simp: table_def world_gone_def world_ex_def vnode_gone_def k split: if_splits)
  then have w: "world_ok world_gone" using ino_geom_ex by (auto simp: world_ok_def vtab_ok_def world_gone_def world_ex_def)
  have u: "w_ufs world_gone = disk_ex" "w_vnodes world_gone 1 = Some vnode_gone" by (simp_all add: world_gone_def world_ex_def)
  have f: "ino_area_ok (d_fs disk_ex)" "fs_ncg (d_fs disk_ex) * fs_ipg (d_fs disk_ex) < 2 ^ 32"
    by (simp_all add: ino_area_ok_def disk_ex_def fs_one_def fs_ex_def)
  have v: "v_ino vnode_gone = 2" "v_count vnode_gone = 1" "inode_ok (v_inode vnode_gone)" "i_nlink (v_inode vnode_gone) < 1"
    "i_size (v_inode vnode_gone) < 2 ^ 38" "i_blocks (v_inode vnode_gone) = 0" by code_simp+
  show ?thesis
    using vnode_put_deletes [OF w, of 1 vnode_gone False, unfolded u] f inos_ok_ex used_ino_ex(1) v by (auto simp: cleared_def)
qed

end
