(* ===== verification/Ufs_Mount_Props.thy ===== *)
theory Ufs_Mount_Props
  imports Ufs_Dir_Edit Ufs_Mount
begin

section \<open>Unmounting and mounting\<close>

text \<open>
  The super block and the summaries survive the end of a mount: the fields of \<open>struct fs\<close> are read
  back from their bytes, \<open>sbread\<close> finds what \<open>sbwrite\<close> wrote, the loops over the summary area
  transfer all of it, and together \<open>op_destroy\<close> followed by \<open>op_init\<close> restores the state.
\<close>

subsection \<open>The bytes of the super block\<close>

text \<open>A super block whose fields fit their widths.\<close>

definition fs_typed :: "fs \<Rightarrow> bool" where
  "fs_typed fs \<longleftrightarrow> (\<forall>f \<in> set [fs_sblkno, fs_cblkno, fs_iblkno, fs_dblkno, fs_old_cgoffset, fs_old_cgmask, fs_ncg, fs_bsize, fs_fsize, fs_frag,
       fs_minfree, fs_bmask, fs_fmask, fs_bshift, fs_fshift, fs_fragshift, fs_fsbtodb, fs_nindir, fs_inopb, fs_cssize, fs_cgsize, fs_ipg, fs_fpg,
       fs_pendinginodes, fs_avgfilesize, fs_avgfpdir, fs_contigsumsize, fs_maxsymlinklen, fs_magic]. s32 (f fs) = f fs) \<and>
     s8 (fs_fmod fs) = fs_fmod fs \<and> s8 (fs_ronly fs) = fs_ronly fs \<and>
     (\<forall>f \<in> set [fs_sblockloc, fs_size, fs_dsize, fs_csaddr, fs_pendingblocks, fs_qbmask, fs_qfmask]. s64 (f fs) = f fs) \<and>
     (\<forall>f \<in> set [cs_ndir, cs_nbfree, cs_nifree, cs_nffree]. s64 (f (fs_cstotal fs)) = f (fs_cstotal fs))"

lemma fs_store_load: "fs_typed fs \<Longrightarrow> fs_load (fs_store fs b) fs' = fs\<lparr>fs_contigdirs := fs_contigdirs fs', fs_csp := fs_csp fs', fs_maxcluster := fs_maxcluster fs'\<rparr>"
  unfolding fs_load_def fs_store_def Let_def
  by (simp add: mem_simps fs_typed_def signed_take_bit_take_bit)

subsection \<open>Reading a device\<close>

definition readable :: "uufsd \<Rightarrow> bool" where
  "readable s \<longleftrightarrow> 0 \<le> d_fd s \<and> (\<forall>off n. 0 \<le> off \<longrightarrow> 0 < n \<longrightarrow> dev_pread s off n = n)"

lemma bread_readable:
  assumes "readable s" "0 \<le> b * d_bsize s" "0 < n"
  shows "bread b m n s = (n, memcpy m 0 (dev_data s) (b * d_bsize s) n)"
  using assms by (auto simp: readable_def bread_def Let_def)

text \<open>A super block is found at the first standard place, 65536.\<close>

definition sb_valid :: "fs \<Rightarrow> bool" where
  "sb_valid fs \<longleftrightarrow> fs_ok fs \<and> fs_typed fs \<and> fs_magic fs = FS_UFS2_MAGIC \<and> fs_sblockloc fs = 65536 \<and> fs_bsize fs \<le> MAXBSIZE \<and> SIZEOF_FS \<le> fs_bsize fs"

lemma sbread_run:
  assumes r: "readable s" "d_bsize s = 1" and v: "sb_valid fs" and nz: "fs_fsize fs sdiv 2 ^ nat (fs_fsbtodb fs) \<noteq> 0"
    and d: "\<And>i. 0 \<le> i \<Longrightarrow> i < SBLOCKSIZE \<Longrightarrow> dev_data s (65536 + i) = fs_store fs b i"
  shows "\<exists>sb. sbread s = Some (0, s\<lparr>d_sb := sb, d_fs := fs\<lparr>fs_contigdirs := fs_contigdirs (d_fs s), fs_csp := fs_csp (d_fs s), fs_maxcluster := fs_maxcluster (d_fs s)\<rparr>,
      d_ufs := 2, d_bsize := fs_fsize fs sdiv 2 ^ nat (fs_fsbtodb fs), d_sblock := 65536 sdiv (fs_fsize fs sdiv 2 ^ nat (fs_fsbtodb fs))\<rparr>)"
proof -
  define sb where "sb = memcpy (d_sb s) 0 (dev_data s) 65536 8192"
  define fs1 where "fs1 = fs\<lparr>fs_contigdirs := fs_contigdirs (d_fs s), fs_csp := fs_csp (d_fs s), fs_maxcluster := fs_maxcluster (d_fs s)\<rparr>"
  have br: "bread 65536 (d_sb s) SBLOCKSIZE s = (8192, sb)" using bread_readable [OF r(1), of 65536 8192 "d_sb s"] r(2) by (simp add: sb_def)
  have same: "sb i = fs_store fs b i" if "0 \<le> i" "i < 8192" for i using d [of i] that by (simp add: sb_def memcpy_def)
  have "fs_load sb (d_fs s) = fs_load (fs_store fs b) (d_fs s)"
    unfolding fs_load_def by (simp add: ld_cong [where m = sb and m' = "fs_store fs b"] same)
  then have ld: "fs_load sb (d_fs s) = fs1" using fs_store_load v by (simp add: sb_valid_def fs1_def)
  have f1: "fs_magic fs1 = FS_UFS2_MAGIC" "fs_sblockloc fs1 = 65536" "fs_bsize fs1 \<le> MAXBSIZE" "SIZEOF_FS \<le> fs_bsize fs1" "fs_fsize fs1 = fs_fsize fs" "fs_fsbtodb fs1 = fs_fsbtodb fs"
    using v by (simp_all add: sb_valid_def fs1_def)
  have u: "u64 (fs_bsize fs1) = fs_bsize fs1" using f1(3,4) by (simp add: u_id)
  have "sbread_search superblocks s = Some (0, 65536, s\<lparr>d_sb := sb, d_fs := fs1, d_ufs := 2\<rparr>)"
    using br ld f1 u by (simp add: superblocks_def Let_def)
  then show ?thesis unfolding fs1_def [symmetric]
    by (intro exI [of _ sb]) (simp add: sbread_def f1 fsbtodb_eq Let_def nz)
qed

subsection \<open>Writing the super block\<close>

text \<open>The copies of the super block in the groups leave a range alone that they do not overlap.\<close>

lemma sbwrite_copies_frame:
  assumes "io_ok s" "0 \<le> i" "\<And>c. 0 \<le> c \<Longrightarrow> c < ncg \<Longrightarrow> 0 \<le> fsbtodb (d_fs s) (cgsblock (d_fs s) c) \<and>
      (x < fsbtodb (d_fs s) (cgsblock (d_fs s) c) * d_bsize s \<or> fsbtodb (d_fs s) (cgsblock (d_fs s) c) * d_bsize s + SBLOCKSIZE \<le> x)"
  shows "\<exists>d. sbwrite_copies sb ncg i s = (0, s\<lparr>dev_data := d\<rparr>) \<and> d x = dev_data s x"
  using assms
proof (induction sb ncg i s rule: sbwrite_copies.induct)
  case (1 sb ncg i s)
  show ?case
  proof (cases "i < ncg")
    case False
    then show ?thesis by (subst sbwrite_copies.simps) (auto intro: exI [of _ "dev_data s"])
  next
    case True
    define bn where "bn = fsbtodb (d_fs s) (cgsblock (d_fs s) i)"
    define d1 where "d1 = memcpy (dev_data s) (bn * d_bsize s) sb 0 8192"
    have b: "0 \<le> bn" "x < bn * d_bsize s \<or> bn * d_bsize s + 8192 \<le> x" using 1(4) [OF 1(3) True] by (simp_all add: bn_def)
    have w: "bwrite bn sb SBLOCKSIZE s = (8192, s\<lparr>dev_data := d1\<rparr>)" using bwrite_ok [OF 1(2) b(1), of 8192 sb] by (simp add: d1_def)
    obtain d where "sbwrite_copies sb ncg (i + 1) (s\<lparr>dev_data := d1\<rparr>) = (0, s\<lparr>dev_data := d\<rparr>)" "d x = d1 x"
      using 1(1) [OF True, of "(8192, s\<lparr>dev_data := d1\<rparr>)" 8192 "s\<lparr>dev_data := d1\<rparr>"] w 1(2-4) by (auto simp: bn_def)
    moreover have "d1 x = dev_data s x" using b(2) by (auto simp: d1_def memcpy_def)
    ultimately show ?thesis using True w by (subst sbwrite_copies.simps) (auto simp: bn_def)
  qed
qed

subsection \<open>The summary area\<close>

text \<open>A disk block number of the handle and a fragment number name the same byte.\<close>

definition db_ok :: "fs \<Rightarrow> uufsd \<Rightarrow> bool" where
  "db_ok fs s \<longleftrightarrow> d_bsize s * 2 ^ nat (fs_fsbtodb fs) = fs_fsize fs"

lemma db_byte: "db_ok fs s \<Longrightarrow> fsbtodb fs b * d_bsize s = b * fs_fsize fs"
  by (simp add: db_ok_def fsbtodb_eq mult.assoc mult.commute [of "d_bsize s"])

lemma csum_write_run:
  assumes "io_ok s" "fs_ok fs" "db_ok fs s" "0 \<le> fs_csaddr fs" "0 \<le> i" "i mod fs_bsize fs = 0"
  shows "\<exists>d. csum_write fs area i s = s\<lparr>dev_data := d\<rparr> \<and>
     (\<forall>k. i \<le> k \<longrightarrow> k < fs_cssize fs \<longrightarrow> d (fs_csaddr fs * fs_fsize fs + k) = area k) \<and>
     (\<forall>x. x < fs_csaddr fs * fs_fsize fs + i \<or> fs_csaddr fs * fs_fsize fs + fs_cssize fs \<le> x \<longrightarrow> d x = dev_data s x)"
  using assms
proof (induction fs area i s rule: csum_write.induct)
  case (1 fs area i s)
  note p = fs_ok_pos [OF 1(3)]
  show ?case
  proof (cases "i < fs_cssize fs")
    case False
    then show ?thesis by (subst csum_write.simps) (auto intro: exI [of _ "dev_data s"])
  next
    case True
    define sz where "sz = (if fs_cssize fs - i < fs_bsize fs then fs_cssize fs - i else fs_bsize fs)"
    define base where "base = fs_csaddr fs * fs_fsize fs"
    define d1 where "d1 = memcpy (dev_data s) (base + i) (\<lambda>a. area (i + a)) 0 sz"
    have sz: "0 < sz" "i + sz \<le> fs_cssize fs" "sz \<le> fs_bsize fs" "sz = fs_bsize fs \<or> i + sz = fs_cssize fs" using True p by (auto simp: sz_def)
    have "fs_fsize fs dvd i" using 1(7) fs_okD(4) [OF 1(3)] by (metis dvd_triv_right mod_0_imp_dvd dvd_trans)
    then have off: "fsbtodb fs (fs_csaddr fs + numfrags fs i) * d_bsize s = base + i"
      unfolding db_byte [OF 1(4)] by (simp add: macro_div_mod [OF 1(3)] base_def distrib_right)
    have nn: "0 \<le> fsbtodb fs (fs_csaddr fs + numfrags fs i)" using 1(5,6) p by (simp add: macro_div_mod [OF 1(3)] fsbtodb_eq pos_imp_zdiv_nonneg_iff)
    have w: "blkwrite (fsbtodb fs (fs_csaddr fs + numfrags fs i)) (\<lambda>a. area (i + a)) sz s = (sz, s\<lparr>dev_data := d1\<rparr>)"
      using bwrite_ok [OF 1(2) nn sz(1)] off by (simp add: blkwrite_def d1_def)
    have st: "csum_write fs area i s = csum_write fs area (i + fs_bsize fs) (s\<lparr>dev_data := d1\<rparr>)"
      using True p w by (subst csum_write.simps) (simp add: sz_def [symmetric])
    have iok: "io_ok (s\<lparr>dev_data := d1\<rparr>)" using 1(2) by (simp add: io_ok_def)
    obtain d where d: "csum_write fs area (i + fs_bsize fs) (s\<lparr>dev_data := d1\<rparr>) = s\<lparr>dev_data := d\<rparr>"
      "\<And>k. i + fs_bsize fs \<le> k \<Longrightarrow> k < fs_cssize fs \<Longrightarrow> d (base + k) = area k"
      "\<And>x. x < base + (i + fs_bsize fs) \<or> base + fs_cssize fs \<le> x \<Longrightarrow> d x = d1 x"
      using 1(1) [OF _ sz_def, unfolded w snd_conv] True p iok 1(3-7) unfolding base_def db_ok_def by auto
    have "d (base + k) = area k" if "i \<le> k" "k < fs_cssize fs" for k
      using that d(2) [of k] d(3) [of "base + k"] sz by (cases "i + fs_bsize fs \<le> k") (auto simp: d1_def memcpy_def)
    moreover have "d x = dev_data s x" if "x < base + i \<or> base + fs_cssize fs \<le> x" for x
      using that d(3) [of x] sz p by (auto simp: d1_def memcpy_def)
    ultimately show ?thesis unfolding st base_def [symmetric] using d(1) by blast
  qed
qed

lemma csum_read_run:
  assumes "readable s" "fs_ok (d_fs s)" "db_ok (d_fs s) s" "0 < d_bsize s" "0 \<le> fs_csaddr (d_fs s)" "0 \<le> i" "space = i * fs_fsize (d_fs s)"
  shows "\<exists>a. csum_read blks i buf area space s = Some a \<and>
     (\<forall>k. k < space \<longrightarrow> a k = area k) \<and>
     (\<forall>k. space \<le> k \<longrightarrow> k < blks * fs_fsize (d_fs s) \<longrightarrow> a k = dev_data s (fs_csaddr (d_fs s) * fs_fsize (d_fs s) + k))"
  using assms
proof (induction blks i buf area space s rule: csum_read.induct)
  case (1 blks i buf area space s)
  define fs where "fs = d_fs s"
  note ok = 1(3) [folded fs_def] and p = fs_ok_pos [OF 1(3), folded fs_def]
  show ?case
  proof (cases "i < blks")
    case False
    then have "blks * fs_fsize fs \<le> space" using p 1(8) by (simp add: fs_def)
    then show ?thesis using False by (subst csum_read.simps) (auto simp: fs_def)
  next
    case True
    define sz where "sz = (if i + fs_frag fs > blks then (blks - i) * fs_fsize fs else fs_bsize fs)"
    define base where "base = fs_csaddr fs * fs_fsize fs"
    define b1 where "b1 = memcpy buf 0 (dev_data s) (base + space) sz"
    define a1 where "a1 = memcpy area space b1 0 sz"
    have bs: "fs_bsize fs = fs_frag fs * fs_fsize fs" using fs_okD(4) [OF ok] .
    have sz: "0 < sz" using True p by (simp add: sz_def)
    have szs: "sz = (min blks (i + fs_frag fs) - i) * fs_fsize fs" using bs by (simp add: sz_def min_def algebra_simps)
    have off: "fsbtodb fs (fs_csaddr fs + i) * d_bsize s = base + space"
      unfolding db_byte [OF 1(4) [folded fs_def]] using 1(8) by (simp add: base_def fs_def distrib_right)
    have nn: "0 \<le> fsbtodb fs (fs_csaddr fs + i) * d_bsize s" using 1(5-7) by (simp add: fsbtodb_eq fs_def)
    have r: "bread (fsbtodb fs (fs_csaddr fs + i)) buf sz s = (sz, b1)" using bread_readable [OF 1(2) nn sz] off by (simp add: b1_def)
    have a1: "a1 k = area k" if "k < space" for k using that by (simp add: a1_def memcpy_def)
    have a2: "a1 k = dev_data s (base + k)" if "space \<le> k" "k < space + sz" for k using that by (simp add: a1_def b1_def memcpy_def)
    have st: "csum_read blks i buf area space s = csum_read blks (i + fs_frag fs) b1 a1 (space + sz) s"
      using True p sz r by (subst csum_read.simps) (simp add: sz_def [symmetric] fs_def [symmetric] a1_def)
    show ?thesis
    proof (cases "i + fs_frag fs \<le> blks")
      case True
      then have e: "space + sz = (i + fs_frag fs) * fs_fsize (d_fs s)" using szs 1(8) by (simp add: fs_def min_def algebra_simps)
      obtain a where a: "csum_read blks (i + fs_frag fs) b1 a1 (space + sz) s = Some a"
        "\<And>k. k < space + sz \<Longrightarrow> a k = a1 k"
        "\<And>k. space + sz \<le> k \<Longrightarrow> k < blks * fs_fsize fs \<Longrightarrow> a k = dev_data s (base + k)"
        using 1(1) [of fs sz "(sz, b1)" sz b1] e \<open>i < blks\<close> p sz r 1(2-7) by (auto simp: sz_def fs_def base_def a1_def)
      have "a k = area k" if "k < space" for k using that a(2) [of k] a1 sz by simp
      moreover have "a k = dev_data s (base + k)" if "space \<le> k" "k < blks * fs_fsize fs" for k
        using that a(2,3) [of k] a2 by (cases "k < space + sz") auto
      ultimately show ?thesis unfolding st using a(1) by (auto simp: base_def fs_def)
    next
      case False
      then have e: "space + sz = blks * fs_fsize fs" using szs 1(8) by (simp add: fs_def min_def algebra_simps)
      have "csum_read blks (i + fs_frag fs) b1 a1 (space + sz) s = Some a1" using False by (subst csum_read.simps) (simp add: fs_def)
      then show ?thesis unfolding st using a1 a2 e by (auto simp: base_def fs_def)
    qed
  qed
qed

text \<open>The counts of a group are 32-bit integers.\<close>

definition cs_typed :: "csum \<Rightarrow> bool" where
  "cs_typed c \<longleftrightarrow> s32 (cs_ndir c) = cs_ndir c \<and> s32 (cs_nbfree c) = cs_nbfree c \<and> s32 (cs_nifree c) = cs_nifree c \<and> s32 (cs_nffree c) = cs_nffree c"

lemma ldn4_bytes:
  assumes "\<And>k. 0 \<le> k \<Longrightarrow> k < 4 \<Longrightarrow> m (a + k) = word_of_int (v div 256 ^ nat k)"
  shows "ld32 m a = s32 v"
proof -
  have b: "m a = word_of_int v" "m (a + 1) = word_of_int (v div 256)" "m (a + 2) = word_of_int (v div 65536)" "m (a + 3) = word_of_int (v div 16777216)"
    using assms [of 0] assms [of 1] assms [of 2] assms [of 3] by simp_all
  have "v div 65536 = v div 256 div 256" "v div 16777216 = v div 256 div 256 div 256" by (simp_all flip: zdiv_zmult2_eq)
  then have "st32 m a v = m" using b by (simp add: st32_def eval_nat_numeral add.assoc fun_upd_idem)
  then show ?thesis using ld_st_same(3) [of m a v] by simp
qed

lemma csum_load_bytes:
  assumes "cs_typed (csp i)" and m: "\<And>k. 16 * i \<le> k \<Longrightarrow> k < 16 * i + 16 \<Longrightarrow> m k = csum_bytes csp k"
  shows "csum_load m i = csp i"
proof -
  have d: "(16 * i + k) div 16 = i" "(16 * i + k) mod 16 = k" "(16 * i + k) mod 4 = k mod 4" if "0 \<le> k" "k < 16" for k
    using that by (simp_all, presburger)
  have b: "ld32 m (16 * i + j) = s32 v"
    if j: "j \<in> {0, 4, 8, 12}" and v: "v = (if j < 4 then cs_ndir (csp i) else if j < 8 then cs_nbfree (csp i) else if j < 12 then cs_nifree (csp i) else cs_nffree (csp i))" for j v
  proof (rule ldn4_bytes)
    fix k :: int
    assume k: "0 \<le> k" "k < 4"
    have "\<exists>q. j = q * 4" using j by (auto intro: exI [of _ 0] exI [of _ 1] exI [of _ 2] exI [of _ 3])
    then have "(j + k) mod 4 = k" using k by auto
    then have jk: "0 \<le> j + k" "j + k < 16" "(j + k) mod 4 = k" "(j + k < 4) = (j < 4)" "(j + k < 8) = (j < 8)" "(j + k < 12) = (j < 12)" using j k by auto
    have "m (16 * i + j + k) = csum_bytes csp (16 * i + (j + k))" using m [of "16 * i + (j + k)"] jk(1,2) by (simp add: add.assoc)
    then show "m (16 * i + j + k) = word_of_int (v div 256 ^ nat k)"
      unfolding csum_bytes_def d [OF jk(1,2)] Let_def jk(3-6) v .
  qed
  have "ld32 m (16 * i) = s32 (cs_ndir (csp i))" "ld32 m (16 * i + 4) = s32 (cs_nbfree (csp i))"
    "ld32 m (16 * i + 8) = s32 (cs_nifree (csp i))" "ld32 m (16 * i + 12) = s32 (cs_nffree (csp i))"
    using b [of 0] b [of 4] b [of 8] b [of 12] by simp_all
  then show ?thesis using assms(1) by (simp add: csum_load_def cs_typed_def)
qed

subsection \<open>Unmounting and mounting again\<close>

text \<open>
  A mounted volume: a good super block at byte 65536, the summaries of all groups in their area,
  and the super block, its copies in the groups and the summary area apart from each other.
\<close>

definition sb_at :: "uufsd \<Rightarrow> int \<Rightarrow> int" where
  "sb_at s c = cgsblock (d_fs s) c * fs_fsize (d_fs s)"

definition cs_at :: "uufsd \<Rightarrow> int" where
  "cs_at s = fs_csaddr (d_fs s) * fs_fsize (d_fs s)"

definition mounted :: "uufsd \<Rightarrow> bool" where
  "mounted s \<longleftrightarrow>
     io_ok s \<and> sb_valid (d_fs s) \<and> db_ok (d_fs s) s \<and> d_sblock s * d_bsize s = 65536 \<and>
     16 * fs_ncg (d_fs s) \<le> fs_cssize (d_fs s) \<and> (\<forall>c \<in> {0..<fs_ncg (d_fs s)}. cs_typed (fs_csp (d_fs s) c)) \<and>
     65536 + SBLOCKSIZE \<le> cs_at s \<and>
     (\<forall>c \<in> {0..<fs_ncg (d_fs s)}. 65536 + SBLOCKSIZE \<le> sb_at s c \<and>
        (sb_at s c + SBLOCKSIZE \<le> cs_at s \<or> cs_at s + fs_cssize (d_fs s) \<le> sb_at s c))"

text \<open>The bytes that unmounting writes.\<close>

definition sb_area :: "uufsd \<Rightarrow> int \<Rightarrow> bool" where
  "sb_area s x \<longleftrightarrow> (65536 \<le> x \<and> x < 65536 + SBLOCKSIZE) \<or> (cs_at s \<le> x \<and> x < cs_at s + fs_cssize (d_fs s)) \<or>
     (\<exists>c \<in> {0..<fs_ncg (d_fs s)}. sb_at s c \<le> x \<and> x < sb_at s c + SBLOCKSIZE)"

lemma mountedD:
  assumes "mounted s"
  shows "io_ok s" "sb_valid (d_fs s)" "fs_ok (d_fs s)" "db_ok (d_fs s) s" "d_sblock s * d_bsize s = 65536"
    "16 * fs_ncg (d_fs s) \<le> fs_cssize (d_fs s)" "0 \<le> c \<Longrightarrow> c < fs_ncg (d_fs s) \<Longrightarrow> cs_typed (fs_csp (d_fs s) c)"
    "73728 \<le> cs_at s" "0 \<le> c \<Longrightarrow> c < fs_ncg (d_fs s) \<Longrightarrow> 73728 \<le> sb_at s c"
    "0 \<le> c \<Longrightarrow> c < fs_ncg (d_fs s) \<Longrightarrow> sb_at s c + 8192 \<le> cs_at s \<or> cs_at s + fs_cssize (d_fs s) \<le> sb_at s c"
    "0 < d_bsize s" "0 < d_sblock s" "0 \<le> fs_csaddr (d_fs s)"
proof -
  show *: "io_ok s" "sb_valid (d_fs s)" "db_ok (d_fs s) s" and b: "d_sblock s * d_bsize s = 65536"
    and "16 * fs_ncg (d_fs s) \<le> fs_cssize (d_fs s)" and c: "73728 \<le> cs_at s"
    "0 \<le> c \<Longrightarrow> c < fs_ncg (d_fs s) \<Longrightarrow> cs_typed (fs_csp (d_fs s) c)"
    "0 \<le> c \<Longrightarrow> c < fs_ncg (d_fs s) \<Longrightarrow> 73728 \<le> sb_at s c"
    "0 \<le> c \<Longrightarrow> c < fs_ncg (d_fs s) \<Longrightarrow> sb_at s c + 8192 \<le> cs_at s \<or> cs_at s + fs_cssize (d_fs s) \<le> sb_at s c"
    using assms by (auto simp: mounted_def)
  show k: "fs_ok (d_fs s)" using *(2) by (simp add: sb_valid_def)
  show d: "0 < d_bsize s" using *(1) by (simp add: io_ok_def)
  show "0 < d_sblock s" using b d by (metis zero_less_mult_pos2 zero_less_numeral)
  show "0 \<le> fs_csaddr (d_fs s)" using c(1) fs_ok_pos(2) [OF k] by (metis cs_at_def linorder_not_le mult_neg_pos not_less_iff_gr_or_eq order_trans zero_le_numeral)
qed

text \<open>What is on the device after the program has ended.\<close>

lemma op_destroy_run:
  assumes m: "mounted s" and f: "fs_fmod (d_fs s) \<noteq> 0"
  obtains d where "op_destroy s = s\<lparr>d_sb := fs_store (d_fs s) (d_sb s), d_inoblock := None, dev_data := d\<rparr>"
    "\<And>i. 0 \<le> i \<Longrightarrow> i < 8192 \<Longrightarrow> d (65536 + i) = fs_store (d_fs s) (d_sb s) i"
    "\<And>i. 0 \<le> i \<Longrightarrow> i < fs_cssize (d_fs s) \<Longrightarrow> d (cs_at s + i) = csum_bytes (fs_csp (d_fs s)) i"
    "\<And>x. \<not> sb_area s x \<Longrightarrow> d x = dev_data s x"
proof -
  note M = mountedD [OF m]
  define sb where "sb = fs_store (d_fs s) (d_sb s)"
  obtain d1 where d1: "csum_write (d_fs s) (csum_bytes (fs_csp (d_fs s))) 0 s = s\<lparr>dev_data := d1\<rparr>"
    "\<And>i. 0 \<le> i \<Longrightarrow> i < fs_cssize (d_fs s) \<Longrightarrow> d1 (cs_at s + i) = csum_bytes (fs_csp (d_fs s)) i"
    "\<And>x. x < cs_at s \<or> cs_at s + fs_cssize (d_fs s) \<le> x \<Longrightarrow> d1 x = dev_data s x"
    using csum_write_run [OF M(1,3,4,13), of 0 "csum_bytes (fs_csp (d_fs s))"] unfolding cs_at_def by auto
  define d2 where "d2 = memcpy d1 65536 sb 0 8192"
  define t where "t = s\<lparr>d_sb := sb, dev_data := d2\<rparr>"
  have io: "io_ok (s\<lparr>dev_data := d1, d_sb := sb\<rparr>)" "io_ok t" using M(1) by (simp_all add: io_ok_def t_def)
  have w: "bwrite (d_sblock s) sb SBLOCKSIZE (s\<lparr>dev_data := d1, d_sb := sb\<rparr>) = (8192, t)"
    using bwrite_ok [OF io(1), of "d_sblock s" 8192 sb] M(5,12) by (simp add: d2_def t_def)
  define d where "d = dev_data (snd (sbwrite_copies sb (fs_ncg (d_fs s)) 0 t))"
  have cp: "sbwrite_copies sb (fs_ncg (d_fs s)) 0 t = (0, t\<lparr>dev_data := d\<rparr>) \<and> d x = d2 x"
    if x: "\<And>c. 0 \<le> c \<Longrightarrow> c < fs_ncg (d_fs s) \<Longrightarrow> x < sb_at s c \<or> sb_at s c + 8192 \<le> x" for x
  proof -
    have tt: "d_fs t = d_fs s" "d_bsize t = d_bsize s" "dev_data t = d2" by (simp_all add: t_def)
    have bb: "fsbtodb (d_fs s) (cgsblock (d_fs s) c) * d_bsize s = sb_at s c" for c using db_byte [OF M(4)] by (simp add: sb_at_def)
    have "0 \<le> fsbtodb (d_fs s) (cgsblock (d_fs s) c)" if "0 \<le> c" "c < fs_ncg (d_fs s)" for c
      using bb [of c] M(9) [OF that] M(11) by (metis linorder_not_le mult_neg_pos not_less_iff_gr_or_eq order_trans zero_le_numeral)
    then have "\<exists>d. sbwrite_copies sb (fs_ncg (d_fs s)) 0 t = (0, t\<lparr>dev_data := d\<rparr>) \<and> d x = d2 x"
      using sbwrite_copies_frame [OF io(2), of 0 "fs_ncg (d_fs s)" x sb] x unfolding tt bb by simp
    then show ?thesis unfolding d_def by auto
  qed
  have nf: "0 < fs_ncg (d_fs s)" using fs_okD(12) [OF M(3)] .
  have "sbwrite_copies sb (fs_ncg (d_fs s)) 0 t = (0, t\<lparr>dev_data := d\<rparr>)" using cp [of 0] M(9) by fastforce
  then have eq: "op_destroy s = s\<lparr>d_sb := sb, d_inoblock := None, dev_data := d\<rparr>"
    using f M(12) w by (simp add: op_destroy_def d1(1) sbwrite_def Let_def sb_def [symmetric] ufs_disk_close_def t_def)
  have d2: "d2 x = (if 65536 \<le> x \<and> x < 73728 then sb (x - 65536) else d1 x)" for x by (auto simp: d2_def memcpy_def)
  show ?thesis
  proof (rule that [of d, folded sb_def, OF eq])
    show "d (65536 + i) = sb i" if "0 \<le> i" "i < 8192" for i using cp [of "65536 + i"] M(9) that d2 by fastforce
    show "d (cs_at s + i) = csum_bytes (fs_csp (d_fs s)) i" if i: "0 \<le> i" "i < fs_cssize (d_fs s)" for i
    proof -
      have "cs_at s + i < sb_at s c \<or> sb_at s c + 8192 \<le> cs_at s + i" if "0 \<le> c" "c < fs_ncg (d_fs s)" for c using M(10) [OF that] i by linarith
      then have "d (cs_at s + i) = d2 (cs_at s + i)" using cp by blast
      also have "\<dots> = d1 (cs_at s + i)" using d2 M(8) i by simp
      finally show ?thesis using d1(2) [OF i] by simp
    qed
    show "d x = dev_data s x" if x: "\<not> sb_area s x" for x
    proof -
      have "x < sb_at s c \<or> sb_at s c + 8192 \<le> x" if "0 \<le> c" "c < fs_ncg (d_fs s)" for c using x that by (force simp: sb_area_def)
      then have "d x = d2 x" using cp by blast
      then show ?thesis using x d2 [of x] d1(3) [of x] by (force simp: sb_area_def)
    qed
  qed
qed

text \<open>C4. Unmounting a changed volume (\<open>op_destroy\<close>) and mounting it again (\<open>op_init\<close>) succeeds and
  restores every field of the super block that the disk holds and the summaries of all groups; the
  rotor of directories, the cluster limits and the read-only mark are set anew; no byte outside the
  super block, its copies and the summary area has changed.\<close>

theorem unmount_mount_roundtrip:
  assumes m: "mounted s" and f: "fs_fmod (d_fs s) \<noteq> 0" and fd: "0 \<le> fd"
  shows "\<exists>u. op_init fd ro (op_destroy s) = Some u \<and>
     d_fs u = (d_fs s)\<lparr>fs_csp := fs_csp (d_fs u), fs_contigdirs := fs_contigdirs (d_fs u), fs_maxcluster := fs_maxcluster (d_fs u), fs_ronly := (if ro then 1 else 0)\<rparr> \<and>
     (\<forall>c. 0 \<le> c \<longrightarrow> c < fs_ncg (d_fs s) \<longrightarrow> fs_csp (d_fs u) c = fs_csp (d_fs s) c \<and> fs_contigdirs (d_fs u) c = 0) \<and>
     d_bsize u = d_bsize s \<and> d_sblock u = d_sblock s \<and> d_ufs u = 2 \<and>
     (\<forall>x. \<not> sb_area s x \<longrightarrow> dev_data u x = dev_data s x)"
proof -
  note M = mountedD [OF m] and p = fs_ok_pos [OF mountedD(3) [OF m]]
  obtain d where d: "op_destroy s = s\<lparr>d_sb := fs_store (d_fs s) (d_sb s), d_inoblock := None, dev_data := d\<rparr>"
    "\<And>i. 0 \<le> i \<Longrightarrow> i < 8192 \<Longrightarrow> d (65536 + i) = fs_store (d_fs s) (d_sb s) i"
    "\<And>i. 0 \<le> i \<Longrightarrow> i < fs_cssize (d_fs s) \<Longrightarrow> d (cs_at s + i) = csum_bytes (fs_csp (d_fs s)) i"
    "\<And>x. \<not> sb_area s x \<Longrightarrow> d x = dev_data s x" using op_destroy_run [OF m f] by metis
  define t where "t = s\<lparr>d_sb := fs_store (d_fs s) (d_sb s), d_inoblock := None, dev_data := d, d_bsize := 1, d_ccg := 0, d_fd := fd, d_inomin := 0, d_inomax := 0, d_lcg := 0, d_mine := 0, d_ufs := 0\<rparr>"
  have blank: "ufs_disk_fillout_blank fd (op_destroy s) = (0, t)" using fd by (simp add: ufs_disk_fillout_blank_def d(1) t_def)
  have rd: "readable t" using M(1) fd by (simp add: readable_def io_ok_def t_def)
  have bs: "fs_fsize (d_fs s) sdiv 2 ^ nat (fs_fsbtodb (d_fs s)) = d_bsize s"
    using p(2) by (simp add: sdiv_nonneg flip: M(4) [unfolded db_ok_def])
  have sbl: "65536 sdiv d_bsize s = d_sblock s" using M(11) sdiv_nonneg [of 65536 "d_bsize s"] M(5) by (metis less_imp_le nonzero_mult_div_cancel_right order_less_irrefl zero_le_numeral)
  have "d_fs t = d_fs s" by (simp add: t_def)
  then obtain b where b: "sbread t = Some (0, t\<lparr>d_sb := b, d_fs := d_fs s, d_ufs := 2, d_bsize := d_bsize s, d_sblock := d_sblock s\<rparr>)"
    using sbread_run [OF rd _ M(2), of "d_sb s"] d(2) M(5) by (force simp: t_def bs sbl)
  define v where "v = t\<lparr>d_sb := b, d_fs := d_fs s, d_ufs := 2, d_bsize := d_bsize s, d_sblock := d_sblock s\<rparr>"
  have fo: "ufs_disk_fillout fd (op_destroy s) = Some (0, v)" by (simp add: ufs_disk_fillout_def blank b v_def)
  have vf: "d_fs v = d_fs s" "dev_data v = d" "env_mem v" "d_bsize v = d_bsize s" using M(1) by (simp_all add: v_def t_def)
  define blks where "blks = howmany (fs_cssize (d_fs s)) (fs_fsize (d_fs s))"
  have rv: "readable v" "db_ok (d_fs v) v" using rd M(4) by (simp_all add: readable_def db_ok_def v_def)
  have cs: "fs_cssize (d_fs s) \<le> blks * fs_fsize (d_fs s)" using howmany_ceil [of "fs_cssize (d_fs s)" "fs_fsize (d_fs s)"] M(6) fs_okD(12) [OF M(3)] p(2) by (simp add: blks_def)
  obtain a where a: "csum_read blks 0 (env_junk v) (env_junk v) 0 v = Some a"
    "\<And>i. 0 \<le> i \<Longrightarrow> i < fs_cssize (d_fs s) \<Longrightarrow> a i = d (cs_at s + i)"
    using csum_read_run [OF rv(1) _ rv(2), of 0 0 blks "env_junk v" "env_junk v"] M(3,11,13) cs by (force simp: vf cs_at_def)
  have ld: "csum_load a c = fs_csp (d_fs s) c" if c: "0 \<le> c" "c < fs_ncg (d_fs s)" for c
    by (rule csum_load_bytes [where csp = "fs_csp (d_fs s)", OF M(7) [OF c]]) (use a(2) d(3) M(6) c in auto)
  have nb: "\<not> fs_frag (d_fs s) \<le> 0" using p by simp
  have "\<exists>u. op_init fd ro (op_destroy s) = Some u \<and> fs_csp (d_fs u) = csum_load a \<and>
     (\<forall>c. 0 \<le> c \<longrightarrow> c < fs_ncg (d_fs s) \<longrightarrow> fs_contigdirs (d_fs u) c = 0) \<and>
     d_fs u = (d_fs s)\<lparr>fs_csp := fs_csp (d_fs u), fs_contigdirs := fs_contigdirs (d_fs u), fs_maxcluster := fs_maxcluster (d_fs u), fs_ronly := (if ro then 1 else 0)\<rparr> \<and>
     u = v\<lparr>d_fs := d_fs u\<rparr>"
    unfolding op_init_def fo using nb a(1) vf by (simp add: blks_def Let_def)
  then obtain u where u: "op_init fd ro (op_destroy s) = Some u" "fs_csp (d_fs u) = csum_load a"
    "\<And>c. 0 \<le> c \<Longrightarrow> c < fs_ncg (d_fs s) \<Longrightarrow> fs_contigdirs (d_fs u) c = 0"
    "d_fs u = (d_fs s)\<lparr>fs_csp := fs_csp (d_fs u), fs_contigdirs := fs_contigdirs (d_fs u), fs_maxcluster := fs_maxcluster (d_fs u), fs_ronly := (if ro then 1 else 0)\<rparr>"
    "u = v\<lparr>d_fs := d_fs u\<rparr>" by blast
  have "d_bsize u = d_bsize s" "d_sblock u = d_sblock s" "d_ufs u = 2" "dev_data u = d" by (subst u(5), simp add: v_def t_def)+
  then show ?thesis using u(1,2,3,4) ld d(4) by auto
qed

text \<open>A small volume with two groups: the copies of the super block at fragments 144 and 1168, the
  summaries at fragment 200.\<close>

definition vol_ex :: uufsd where
  "vol_ex = disk_ex\<lparr>d_fs := fs_ex\<lparr>fs_sblkno := 144, fs_csaddr := 200, fs_fmod := 1\<rparr>\<rparr>"

lemma mounted_ex: "mounted vol_ex"
proof -
  have a: "d_fs vol_ex = fs_ex\<lparr>fs_sblkno := 144, fs_csaddr := 200, fs_fmod := 1\<rparr>" "d_bsize vol_ex = 512" "d_sblock vol_ex = 128" by (simp_all add: vol_ex_def disk_ex_def)
  have "io_ok vol_ex" by (simp add: io_ok_def vol_ex_def disk_ex_def)
  moreover have "fs_ok (d_fs vol_ex)" unfolding a by (simp add: fs_ok_def fs_ex_def)
  moreover have "fs_typed (d_fs vol_ex)" unfolding a fs_typed_def by (simp add: fs_ex_def csum_ex_def)
  moreover have "cs_typed (fs_csp (d_fs vol_ex) c)" for c unfolding a by (simp add: fs_ex_def cs_typed_def csum_ex_def)
  moreover have at: "cs_at vol_ex = 102400" by (simp add: a fs_ex_def cs_at_def)
  moreover have "73728 \<le> sb_at vol_ex c \<and> (sb_at vol_ex c + 8192 \<le> 102400 \<or> 102912 \<le> sb_at vol_ex c)" if "0 \<le> c" "c < 2" for c
  proof -
    have "sb_at vol_ex c = 512 * (1024 * c + 144)" by (simp add: a fs_ex_def sb_at_def cgsblock_def cgstart_def cgbase_def)
    moreover have "c = 0 \<or> c = 1" using that by auto
    ultimately show ?thesis by auto
  qed
  ultimately show ?thesis
    unfolding mounted_def sb_valid_def by (simp add: a db_ok_def fs_ex_def)
qed

theorem unmount_mount_roundtrip_witness:
  "\<exists>u. op_init 3 True (op_destroy vol_ex) = Some u \<and> fs_csp (d_fs u) 1 = csum_ex \<and> fs_ipg (d_fs u) = 64 \<and> fs_ronly (d_fs u) = 1 \<and> dev_data u 70 = dev_data vol_ex 70"
proof -
  have f: "d_fs vol_ex = fs_ex\<lparr>fs_sblkno := 144, fs_csaddr := 200, fs_fmod := 1\<rparr>" by (simp add: vol_ex_def)
  have c: "fs_ncg (d_fs vol_ex) = 2" "fs_csp (d_fs vol_ex) 1 = csum_ex" "fs_ipg (d_fs vol_ex) = 64" "fs_fmod (d_fs vol_ex) \<noteq> 0" by (simp_all add: f fs_ex_def)
  have a: "\<not> sb_area vol_ex 70" using mountedD(8,9) [OF mounted_ex] by (force simp: sb_area_def)
  obtain u where u: "op_init 3 True (op_destroy vol_ex) = Some u"
    "d_fs u = (d_fs vol_ex)\<lparr>fs_csp := fs_csp (d_fs u), fs_contigdirs := fs_contigdirs (d_fs u), fs_maxcluster := fs_maxcluster (d_fs u), fs_ronly := 1\<rparr>"
    "fs_csp (d_fs u) 1 = csum_ex" "dev_data u 70 = dev_data vol_ex 70"
    using unmount_mount_roundtrip [OF mounted_ex c(4), of 3 True] c a by auto
  moreover have "fs_ipg (d_fs u) = 64" "fs_ronly (d_fs u) = 1" by (subst u(2), simp add: c)+
  ultimately show ?thesis by blast
qed

end
