(* ===== verification/Ufs_Attr_Props.thy ===== *)
theory Ufs_Attr_Props
  imports Ufs_Dir_Edit Ufs_Mount
begin

section \<open>Operations on the attributes of a file\<close>

text \<open>
  Whole operations, from the path to the device: \<open>op_getattr\<close>, \<open>op_chmod\<close>, \<open>op_chown\<close> and
  \<open>op_utimens\<close> on top of path resolution, the vnode table and the inode table.
\<close>

subsection \<open>Finding a file by its path\<close>

text \<open>The directories a path leads through are readable, and the file it names.\<close>

definition path_seen :: "world \<Rightarrow> (int \<Rightarrow> dent list) \<Rightarrow> string \<Rightarrow> bool" where
  "path_seen w D path \<longleftrightarrow> (\<forall>d \<in> set (walked D ROOTINO (path_names path)). shows_dir w D d)"

definition path_file :: "(int \<Rightarrow> dent list) \<Rightarrow> string \<Rightarrow> int option" where
  "path_file D path = walk D ROOTINO (path_names path)"

lemma namei_root:
  assumes "world_ok w" "path_seen w D path"
  shows "\<exists>w'. ufs_namei ROOTINO ROOTINO path w = Some (case path_file D path of None \<Rightarrow> (ENOENT, 0, w') | Some n \<Rightarrow> (0, n, w')) \<and>
    world_ok w' \<and> same_world w w'"
proof -
  have ps: "path_start ROOTINO ROOTINO path = ROOTINO" by (simp add: path_start_def)
  show ?thesis using namei_run [OF assms(1), of D ROOTINO ROOTINO path] assms(2) unfolding ps path_seen_def path_file_def by blast
qed

lemma readvnode_missing:
  assumes "world_ok w" "path_seen w D path" "path_file D path = None"
  shows "\<exists>w'. do_readvnode path w = Some (- ENOENT, 0, None, w') \<and> world_ok w' \<and> same_world w w'"
  using namei_root [OF assms(1,2)] assms(3) by (auto simp: do_readvnode_def)

text \<open>The reference that \<open>do_readvnode\<close> takes, and what the state looks like until it is released.\<close>

definition holds_vnode :: "world \<Rightarrow> world \<Rightarrow> int \<Rightarrow> int \<Rightarrow> int \<Rightarrow> bool" where
  "holds_vnode w w1 q n c \<longleftrightarrow> world_ok w1 \<and> vview w1 = (vview w)(q \<mapsto> (n, c, inode_of w n)) \<and>
     vview w q = (if c = 1 then None else Some (n, c - 1, inode_of w n)) \<and> 0 < c \<and> same_disk (w_ufs w) (w_ufs w1) \<and>
     w_files w1 = w_files w \<and> w_uid w1 = w_uid w \<and> w_gid w1 = w_gid w"

lemma readvnode_run:
  assumes "world_ok w" "path_seen w D path" "path_file D path = Some n" "0 < n"
  obtains q w1 c where "do_readvnode path w = Some (0, n, Some q, w1)" "holds_vnode w w1 q n c"
proof -
  obtain w0 where w0: "ufs_namei ROOTINO ROOTINO path w = Some (0, n, w0)" "world_ok w0" "same_world w w0"
    using namei_root [OF assms(1,2)] assms(3) by auto
  have i: "inode_of w0 n = inode_of w n" using same_worldD(2) [OF assms(1) w0(2,3)] .
  obtain q w1 c where g: "vnode_get n w0 = Some (Some q, w1)" "world_ok w1" "vview w1 = (vview w0)(q \<mapsto> (n, c, inode_of w n))"
    "vview w0 q = (if c = 1 then None else Some (n, c - 1, inode_of w n))" "0 < c" "same_disk (w_ufs w0) (w_ufs w1)"
    "w_files w1 = w_files w0" "w_uid w1 = w_uid w0" "w_gid w1 = w_gid w0"
    using take_vnode [OF w0(2) assms(4), unfolded i] by blast
  have "do_readvnode path w = Some (0, n, Some q, w1)" using w0(1) g(1) assms(4) by (simp add: do_readvnode_def)
  moreover have "holds_vnode w w1 q n c" using g w0(3) same_disk_trans [of "w_ufs w" "w_ufs w0"] by (simp add: holds_vnode_def same_world_def)
  ultimately show ?thesis by (rule that)
qed

lemma holds_inode: "holds_vnode w w1 q n c \<Longrightarrow> get_inode q w1 = Some (inode_of w n)"
  by (auto simp: holds_vnode_def get_inode_def vview_def fun_upd_def dest!: fun_cong [where x = q] split: if_splits)

lemma release_clean:
  assumes h: "holds_vnode w w1 q n c" and n: "0 < n" "1 \<le> i_nlink (inode_of w n)"
  shows "\<exists>w2. vnode_put q False w1 = Some (0, w2) \<and> world_ok w2 \<and> same_world w w2"
proof -
  note H = h [unfolded holds_vnode_def]
  have v: "vview w1 q = Some (n, c, inode_of w n)" using H by simp
  obtain w2 where w2: "vnode_put q False w1 = Some (0, w2)" "world_ok w2"
    "vview w2 = (vview w1)(q := if c \<le> 1 then None else Some (n, c - 1, inode_of w n))"
    "w_ufs w2 = w_ufs w1" "w_files w2 = w_files w1" "w_uid w2 = w_uid w1" "w_gid w2 = w_gid w1"
    using drop_vnode [OF _ v n] H by blast
  have "vview w2 = vview w" using w2(3) H by (auto simp: fun_eq_iff)
  then show ?thesis using w2 H by (auto simp: same_world_def)
qed

text \<open>C22. \<open>op_getattr\<close> (and \<open>op_fgetattr\<close>, which it calls) on an existing path answers 0 with the inode
  number, mode, link count, owner, group, size, sectors and times of the inode that the walk
  through the abstract directories finds and the fragment size of the file system, and with
  \<open>ENOENT\<close> and no attributes when the walk finds none; reference counts, inodes and the device are as
  before. The files are those with links.\<close>

theorem getattr_refines:
  assumes "world_ok w" "path_seen w D path" "do_check path = 0"
    and live: "\<forall>n. path_file D path = Some n \<longrightarrow> 0 < n \<and> 1 \<le> i_nlink (inode_of w n)"
  shows "\<exists>r st w'. op_getattr path w = Some (r, st, w') \<and> world_ok w' \<and> same_world w w' \<and>
    (case path_file D path of None \<Rightarrow> r = - ENOENT \<and> st = None
     | Some n \<Rightarrow> r = 0 \<and> (\<exists>a. st = Some a \<and>
         st_ino a = i_number (inode_of w n) \<and> st_mode a = i_mode (inode_of w n) \<and> st_nlink a = u64 (i_nlink (inode_of w n)) \<and>
         st_uid a = i_uid (inode_of w n) \<and> st_gid a = i_gid (inode_of w n) \<and> st_size a = s64 (i_size (inode_of w n)) \<and>
         st_blksize a = fs_fsize (d_fs (w_ufs w)) \<and> st_blocks a = s64 (i_blocks (inode_of w n)) \<and>
         st_atime a = i_atime (inode_of w n) \<and> st_mtime a = i_mtime (inode_of w n) \<and> st_ctime a = i_ctime (inode_of w n)))"
proof (cases "path_file D path")
  case None
  then show ?thesis using readvnode_missing [OF assms(1,2) None] assms(3) by (auto simp: op_getattr_def op_fgetattr_def)
next
  case (Some n)
  have n: "0 < n" "1 \<le> i_nlink (inode_of w n)" using live Some by auto
  obtain q w1 c where r: "do_readvnode path w = Some (0, n, Some q, w1)" "holds_vnode w w1 q n c" using readvnode_run [OF assms(1,2) Some n(1)] .
  obtain w2 where w2: "vnode_put q False w1 = Some (0, w2)" "world_ok w2" "same_world w w2" using release_clean [OF r(2) n] by blast
  have "d_fs (w_ufs w1) = d_fs (w_ufs w)" using r(2) same_diskD(2) [of "w_ufs w" "w_ufs w1"] by (simp add: holds_vnode_def)
  moreover have "op_getattr path w = Some (0, Some (do_fillstatbuf (inode_of w n) w1), w2)"
    using r(1) w2(1) assms(3) holds_inode [OF r(2)] by (simp add: op_getattr_def op_fgetattr_def)
  ultimately show ?thesis using Some w2(2,3) by (simp add: do_fillstatbuf_def)
qed

subsection \<open>Changing the attributes of a file\<close>

text \<open>
  The step the operations on attributes share: with the reference of \<open>do_readvnode\<close> the in-core
  inode is changed, and the dirty vnode is released. It leaves all reference counts and all other
  inodes as they were, and the file is then described by the changed inode, whether it is still in
  core or not.
\<close>

definition attr_changed :: "world \<Rightarrow> int \<Rightarrow> inode \<Rightarrow> world \<Rightarrow> bool" where
  "attr_changed w n ip w' \<longleftrightarrow> world_ok w' \<and> vrefs w' = vrefs w \<and>
     same_file (inode_of w' n) (copy_incore_to_ondisk (d_fs (w_ufs w)) ip) \<and>
     (\<forall>m. 0 < m \<longrightarrow> m \<noteq> n \<longrightarrow> inode_of w' m = inode_of w m)"

lemma vrefs_view:
  assumes wo: "world_ok w" and h: "holds_vnode w w1 q n c"
  shows "vmap w1 = (vmap w)(n \<mapsto> (c, inode_of w n))" "vrefs w n = c - 1"
proof -
  note H = h [unfolded holds_vnode_def]
  obtain T T' where t: "table w T" "table w1 T'" using wo H by (auto simp: world_ok_def vtab_ok_def)
  have m: "vmap w' k = Some x \<longleftrightarrow> (\<exists>p. vview w' p = Some (k, x))" if "world_ok w'" "table w' U" for w' k x U
    using vmap_eq(3) [OF that(2), of k] vview_eq [OF that(1), of _ k] by (cases x) (fastforce simp: vview_Some)
  have q: "vview w1 q = Some (n, c, inode_of w n)" using H by simp
  have n1: "vmap w1 n = Some (c, inode_of w n)" using vview_eq [OF _ q] H by simp
  have "vmap w1 k = vmap w k" if "k \<noteq> n" for k
  proof -
    have "vview w1 p = Some (k, x) \<longleftrightarrow> vview w p = Some (k, x)" for p x using H that by (cases "p = q") auto
    then show ?thesis using m [OF _ t(2), of k] m [OF wo t(1), of k] H by (metis option.exhaust)
  qed
  then show "vmap w1 = (vmap w)(n \<mapsto> (c, inode_of w n))" using n1 by (auto simp: fun_eq_iff)
  show "vrefs w n = c - 1"
  proof (cases "c = 1")
    case False
    then show ?thesis using vview_eq [OF wo, of q n "c - 1"] H by (simp add: vrefs_def)
  next
    case True
    have "vview w p \<noteq> Some (n, x)" for p x
    proof
      assume a: "vview w p = Some (n, x)"
      then have b: "vview w1 p = Some (n, x)" "p \<noteq> q" using H True by auto
      obtain u v where "w_vnodes w1 p = Some u" "v_ino u = n" "w_vnodes w1 q = Some v" "v_ino v = n"
        using b(1) q by (cases x) (auto simp: vview_def)
      then show False using tableD(8) [OF t(2)] b(2) by metis
    qed
    then have "vmap w n = None" using m [OF wo t(1), of n] by (metis option.exhaust)
    then show ?thesis using True by (simp add: vrefs_def)
  qed
qed

lemma update_attr:
  assumes wo: "world_ok w" and h: "holds_vnode w w1 q n c" and n: "0 < n"
    and ok: "inode_ok (f (inode_of w n))" and ln: "1 \<le> i_nlink (f (inode_of w n))"
  obtains w2 w3 where "upd_inode q f w1 = Some w2" "vnode_put q True w2 = Some (0, w3)" "attr_changed w n (f (inode_of w n)) w3"
proof -
  note H = h [unfolded holds_vnode_def]
  define fs ip where "fs = d_fs (w_ufs w)" and "ip = f (inode_of w n)"
  obtain v T where v: "w_vnodes w1 q = Some v" "v_ino v = n" "v_count v = c" "v_inode v = inode_of w n" "table w1 T"
    using H by (auto simp: world_ok_def vtab_ok_def vview_def fun_eq_iff split: if_splits dest!: spec [where x = q])
  define u where "u = v\<lparr>v_inode := ip\<rparr>"
  define w2 where "w2 = set_vnode q u w1"
  have c: "0 < c" using H by simp
  have up: "upd_inode q f w1 = Some w2" using v by (simp add: upd_inode_def w2_def u_def ip_def)
  have ts: "table w2 T" "vmap w2 = (vmap w1)(n \<mapsto> (c, ip))"
    using table_set_vnode [OF v(5,1), of u] v c by (simp_all add: w2_def u_def)
  have d2: "w_ufs w2 = w_ufs w1" by (simp add: w2_def set_vnode_def)
  have wo2: "world_ok w2" using ts(1) H d2 by (auto simp: world_ok_def vtab_ok_def)
  have u2: "w_vnodes w2 q = Some u" "v_ino u = n" "v_count u = c" "v_inode u = ip" using v by (simp_all add: w2_def set_vnode_def u_def)
  define ip2 where "ip2 = copy_incore_to_ondisk fs (copy_incore_to_ondisk fs ip)"
  have fs: "d_fs (w_ufs w2) = fs" "dev_data (w_ufs w2) = dev_data (w_ufs w)" using d2 H same_diskD(1,2) [of "w_ufs w" "w_ufs w1"] by (simp_all add: fs_def)
  obtain w3 where w3: "vnode_put q True w2 = Some (0, w3)" "world_ok w3" "d_fs (w_ufs w3) = fs"
    "vmap w3 = (if c = 1 then (vmap w2)(n := None) else (vmap w2)(n \<mapsto> (c - 1, ip2)))"
    "dev_data (w_ufs w3) = memcpy (dev_data (w_ufs w)) (ino_slot (w_ufs w2) n) (i_din2 ip2) 0 256"
    using vnode_put_cases [OF wo2 u2(1), of True] u2 n ln fs by (auto simp: ip2_def ip_def fs_def)
  have gm: "ino_geom (w_ufs w)" "ino_geom (w_ufs w3)" "ino_geom (w_ufs w2)" using wo wo2 w3(2) by (auto simp: world_ok_def)
  have sl: "ino_slot (w_ufs w3) k = ino_slot (w_ufs w) k" "ino_slot (w_ufs w2) k = ino_slot (w_ufs w) k" if "0 \<le> k" for k
    using ino_slot_eq [OF gm(1) that] ino_slot_eq [OF gm(2) that] ino_slot_eq [OF gm(3) that] w3(3) fs(1) by (simp_all add: fs_def)
  have di: "disk_inode w3 m = disk_inode w m" if m: "0 < m" "m \<noteq> n" for m
  proof -
    have "dinode_at (w_ufs w3) m i = dinode_at (w_ufs w) m i" for i
      using ino_slot_apart [OF gm(1), of n m] m n sl [of m] sl(2) [of n] w3(5) by (auto simp: dinode_at_def memcpy_def)
    then have "dinode_at (w_ufs w3) m = dinode_at (w_ufs w) m" by (rule ext)
    then show ?thesis by (simp add: disk_inode_def)
  qed
  have b: "\<forall>i \<in> {0..<256}. dinode_at (w_ufs w3) n (0 + i) = i_din2 ip2 i"
    using w3(5) sl [of n] n by (simp add: dinode_at_def memcpy_def)
  note tw = same_file_twice [OF ok [folded ip_def], where fs = fs]
  have sd: "same_file (disk_inode w3 n) (copy_incore_to_ondisk fs ip)"
    using ondisk_incore [OF tw(1) b [unfolded ip2_def]] tw(2) by (simp add: disk_inode_def)
  have sc: "same_file ip2 (copy_incore_to_ondisk fs ip)" using tw(2) [of ip2] by (simp add: ip2_def same_file_def)
  note V = vrefs_view [OF wo h]
  have "same_file (inode_of w3 n) (copy_incore_to_ondisk fs ip)" using w3(4) sd sc by (auto simp: inode_of_def)
  moreover have "inode_of w3 m = inode_of w m" if "0 < m" "m \<noteq> n" for m
    using w3(4) ts(2) V(1) di [OF that] that by (simp add: inode_of_def split: option.split)
  moreover have "vrefs w3 = vrefs w" using w3(4) ts(2) V by (auto simp: vrefs_def fun_eq_iff)
  ultimately have "attr_changed w n ip w3" using w3(2) by (auto simp: attr_changed_def fs_def)
  then show ?thesis using that [OF up w3(1)] by (simp add: ip_def)
qed

lemma same_disk_time: "same_disk s s' \<Longrightarrow> env_time s' = env_time s"
  by (auto simp: same_disk_def)

lemma mode_bits:
  fixes m k :: int
  shows "u16 m = m \<Longrightarrow> u16 ((m AND NOT 0xFFF) OR (k AND 0xFFF)) = (m AND NOT 0xFFF) OR (k AND 0xFFF)"
    "((m AND NOT 0xFFF) OR (k AND 0xFFF)) AND NOT 0xFFF = m AND NOT 0xFFF"
    "((m AND NOT 0xFFF) OR (k AND 0xFFF)) AND 0xFFF = k AND 0xFFF"
proof -
  have f: "(0xFFF :: int) = mask 12" by (simp add: mask_eq_exp_minus_1)
  show "u16 ((m AND NOT 0xFFF) OR (k AND 0xFFF)) = (m AND NOT 0xFFF) OR (k AND 0xFFF)" if m: "u16 m = m"
  proof (rule bit_eqI)
    fix i
    have "bit m i \<Longrightarrow> i < 16" using m bit_take_bit_iff [of 16 m i] by metis
    then show "bit (u16 ((m AND NOT 0xFFF) OR (k AND 0xFFF))) i = bit ((m AND NOT 0xFFF) OR (k AND 0xFFF)) i"
      unfolding f by (auto simp: bit_take_bit_iff bit_or_iff bit_and_iff bit_mask_iff)
  qed
  show "((m AND NOT 0xFFF) OR (k AND 0xFFF)) AND NOT 0xFFF = m AND NOT 0xFFF"
    unfolding f by (rule bit_eqI) (auto simp: bit_or_iff bit_and_iff bit_not_iff)
  show "((m AND NOT 0xFFF) OR (k AND 0xFFF)) AND 0xFFF = k AND 0xFFF"
    unfolding f by (rule bit_eqI) (auto simp: bit_or_iff bit_and_iff bit_not_iff)
qed

lemma attr_fields:
  assumes "attr_changed w n ip w'"
  shows "i_mode (inode_of w' n) = i_mode ip" "i_uid (inode_of w' n) = i_uid ip" "i_gid (inode_of w' n) = i_gid ip"
    "i_atime (inode_of w' n) = i_atime ip" "i_mtime (inode_of w' n) = i_mtime ip" "i_ctime (inode_of w' n) = i_ctime ip"
  using assms by (simp_all add: attr_changed_def same_file_def copy_incore_to_ondisk_def Let_def)

lemma attr_stored:
  assumes "world_ok w" "attr_changed w n ip w'" "inode_ok ip"
  shows "stored_as (d_fs (w_ufs w)) ip (inode_of w' n)"
  using assms same_stored [OF ino_geomD(3) ino_geom_bsize] by (simp add: attr_changed_def world_ok_def)

text \<open>C23. \<open>op_chmod\<close> on an existing path of a writable volume succeeds: the permission bits of the file
  are those asked for, its type bits are kept and its change time is the present one. Its link
  count, size, flags, generation, owner, group, other times and all block pointers are kept. Its
  number of sectors is not kept but computed anew from the size (stated for files below 256 GB), as
  every release of a dirty vnode does. Every other inode and all reference counts are as before.\<close>

theorem chmod_updates:
  assumes "world_ok w" "path_seen w D path" "do_check path = 0" "\<not> ronly w" "path_file D path = Some n" "0 < n"
    and ok: "inode_ok (inode_of w n)" "1 \<le> i_nlink (inode_of w n)" "s64 (env_time (w_ufs w)) = env_time (w_ufs w)"
  shows "\<exists>w' md. op_chmod path mode w = Some (0, w') \<and> world_ok w' \<and> vrefs w' = vrefs w \<and>
     md AND NOT 0xFFF = i_mode (inode_of w n) AND NOT 0xFFF \<and> md AND 0xFFF = mode AND 0xFFF \<and>
     stored_as (d_fs (w_ufs w)) ((inode_of w n)\<lparr>i_mode := md, i_ctime := env_time (w_ufs w)\<rparr>) (inode_of w' n) \<and>
     (\<forall>m. 0 < m \<longrightarrow> m \<noteq> n \<longrightarrow> inode_of w' m = inode_of w m)"
proof -
  obtain q w1 c where r: "do_readvnode path w = Some (0, n, Some q, w1)" "holds_vnode w w1 q n c" using readvnode_run [OF assms(1,2,5,6)] .
  define md where "md = (i_mode (inode_of w n) AND NOT 0xFFF) OR (mode AND 0xFFF)"
  define f where "f = (\<lambda>ip :: inode. ip\<lparr>i_mode := (i_mode ip AND NOT 0xFFF) OR (mode AND 0xFFF), i_ctime := env_time (w_ufs w)\<rparr>)"
  have tm: "env_time (w_ufs w1) = env_time (w_ufs w)" using r(2) same_disk_time by (simp add: holds_vnode_def)
  have fx: "f (inode_of w n) = (inode_of w n)\<lparr>i_mode := md, i_ctime := env_time (w_ufs w)\<rparr>" by (simp add: f_def md_def)
  have iok: "inode_ok (f (inode_of w n))" using ok(1,3) mode_bits(1) [of "i_mode (inode_of w n)" mode] by (simp add: fx md_def inode_ok_def)
  moreover have "1 \<le> i_nlink (f (inode_of w n))" using ok(2) by (simp add: fx)
  ultimately obtain w2 w3 where w: "upd_inode q f w1 = Some w2" "vnode_put q True w2 = Some (0, w3)" "attr_changed w n (f (inode_of w n)) w3"
    using update_attr [OF assms(1) r(2) assms(6)] by blast
  have "op_chmod path mode w = Some (0, w3)" using assms(3,4) r(1) w(1,2) by (simp add: op_chmod_def tm f_def)
  moreover have "stored_as (d_fs (w_ufs w)) (f (inode_of w n)) (inode_of w3 n)" by (rule attr_stored [OF assms(1) w(3) iok])
  ultimately show ?thesis using w(3) mode_bits(2,3)
    by (intro exI [of _ w3] exI [of _ md]) (simp add: fx md_def attr_changed_def)
qed

text \<open>C39. \<open>op_chown\<close> with an owner and a group, either of which can be -1 for \<open>leave as it is\<close>: the
  group is stored when an owner is given, and the owner when a group is given. With both given
  this is the change asked for; with only an owner, the group becomes \<open>0xffffffff\<close> and the owner
  is not changed.\<close>

theorem chown_swaps_guards:
  assumes "world_ok w" "path_seen w D path" "\<not> ronly w" "path_file D path = Some n" "0 < n"
    and ok: "inode_ok (inode_of w n)" "1 \<le> i_nlink (inode_of w n)" "u32 uid = uid" "u32 gid = gid"
  shows "\<exists>w'. op_chown path uid gid w = Some (0, w') \<and> world_ok w' \<and> vrefs w' = vrefs w \<and>
     i_gid (inode_of w' n) = (if uid = 0xffffffff then i_gid (inode_of w n) else gid) \<and>
     i_uid (inode_of w' n) = (if gid = 0xffffffff then i_uid (inode_of w n) else uid) \<and>
     (\<forall>m. 0 < m \<longrightarrow> m \<noteq> n \<longrightarrow> inode_of w' m = inode_of w m)"
proof -
  obtain q w1 c where r: "do_readvnode path w = Some (0, n, Some q, w1)" "holds_vnode w w1 q n c" using readvnode_run [OF assms(1,2,4,5)] .
  define f where "f = (\<lambda>ip :: inode. let ip = (if uid \<noteq> 0xffffffff then ip\<lparr>i_gid := gid\<rparr> else ip) in if gid \<noteq> 0xffffffff then ip\<lparr>i_uid := uid\<rparr> else ip)"
  have "inode_ok (f (inode_of w n))" "1 \<le> i_nlink (f (inode_of w n))"
    using ok by (cases "uid = 0xffffffff"; cases "gid = 0xffffffff"; simp add: f_def Let_def inode_ok_def)+
  then obtain w2 w3 where w: "upd_inode q f w1 = Some w2" "vnode_put q True w2 = Some (0, w3)" "attr_changed w n (f (inode_of w n)) w3"
    using update_attr [OF assms(1) r(2) assms(5)] by blast
  have "op_chown path uid gid w = Some (0, w3)" using assms(3) r(1) w(1,2) by (simp add: op_chown_def f_def)
  then show ?thesis using attr_fields(2,3) [OF w(3)] w(3) by (auto simp: attr_changed_def f_def Let_def)
qed

text \<open>C40. \<open>op_utimens\<close> sets both times of the file to the first of the two it is given; the second is
  never used.\<close>

theorem utimens_sets_first_time:
  assumes "world_ok w" "path_seen w D path" "path_file D path = Some n" "0 < n"
    and ok: "inode_ok (inode_of w n)" "1 \<le> i_nlink (inode_of w n)" "s64 tv0 = tv0"
  shows "\<exists>w'. op_utimens path tv0 tv1 w = Some (0, w') \<and>
     attr_changed w n ((inode_of w n)\<lparr>i_atime := tv0, i_mtime := tv0\<rparr>) w' \<and>
     i_atime (inode_of w' n) = tv0 \<and> i_mtime (inode_of w' n) = tv0"
proof -
  obtain q w1 c where r: "do_readvnode path w = Some (0, n, Some q, w1)" "holds_vnode w w1 q n c" using readvnode_run [OF assms(1-4)] .
  define f where "f = (\<lambda>ip :: inode. ip\<lparr>i_atime := tv0, i_mtime := tv0\<rparr>)"
  have "inode_ok (f (inode_of w n))" "1 \<le> i_nlink (f (inode_of w n))" using ok by (simp_all add: f_def inode_ok_def)
  then obtain w2 w3 where w: "upd_inode q f w1 = Some w2" "vnode_put q True w2 = Some (0, w3)" "attr_changed w n (f (inode_of w n)) w3"
    using update_attr [OF assms(1) r(2) assms(4)] by blast
  have "op_utimens path tv0 tv1 w = Some (0, w3)" using r(1) w(1,2) by (simp add: op_utimens_def f_def)
  then show ?thesis using w(3) attr_fields(4,5) [OF w(3)] by (auto simp: f_def)
qed

subsection \<open>The sample directory again\<close>

definition D_ex :: "int \<Rightarrow> dent list" where
  "D_ex d = (if d = 2 then ents_ex else [])"

lemma path_ex: "path_seen world_dir D_ex ''/..''" "path_file D_ex ''/..'' = Some 2" "do_check ''/..'' = 0" "\<not> ronly world_dir"
proof -
  have sh: "shows_dir world_dir D_ex 2" using dir_view_ex by (auto simp: shows_dir_def D_ex_def intro!: exI [of _ "[ents_ex]"])
  have w: "set (walked D_ex 2 (path_names ''/..'')) = {2}" "path_file D_ex ''/..'' = Some 2" "do_check ''/..'' = 0" by code_simp+
  show "path_seen world_dir D_ex ''/..''" using sh w(1) by (simp add: path_seen_def)
  show "path_file D_ex ''/..'' = Some 2" "do_check ''/..'' = 0" by (fact w(2) w(3))+
  show "\<not> ronly world_dir" by (simp add: ronly_def world_dir_def root_ex_facts(1) fs_one_def fs_ex_def)
qed

lemma root_ok_ex: "inode_ok (inode_of world_dir 2)" "1 \<le> i_nlink (inode_of world_dir 2)" "env_time (w_ufs world_dir) = 1000"
  "i_mode root_ex AND NOT 0xFFF = 16384" "i_gid root_ex = 1000" "i_uid root_ex = 1000" "i_size root_ex = 512" "i_blocks root_ex = 16"
  unfolding inode_of_ex by (simp_all add: inode_ok_def root_ex_def inode_ex_def inode0_def world_dir_def disk_dir_def disk_ex_def)

theorem getattr_refines_witness:
  "\<exists>st w'. op_getattr ''/..'' world_dir = Some (0, Some st, w') \<and> st_size st = 512 \<and> st_uid st = 1000 \<and> st_blksize st = 512 \<and>
     same_world world_dir w'"
proof -
  have f: "fs_fsize (d_fs (w_ufs world_dir)) = 512" by (simp add: world_dir_def root_ex_facts(1) fs_one_simps)
  show ?thesis
    using getattr_refines [OF world_dir_ok(1) path_ex(1,3)] root_ok_ex path_ex(2) by (auto simp: inode_of_ex f)
qed

theorem chmod_updates_witness:
  "\<exists>w'. op_chmod ''/..'' 0x1C0 world_dir = Some (0, w') \<and> i_mode (inode_of w' 2) AND 0xFFF = 0x1C0 \<and> i_size (inode_of w' 2) = 512 \<and>
     i_blocks (inode_of world_dir 2) = 16 \<and> i_blocks (inode_of w' 2) = 1"
proof -
  obtain w' md where w: "op_chmod ''/..'' 0x1C0 world_dir = Some (0, w')" "md AND 0xFFF = 0x1C0" "md AND NOT 0xFFF = 16384"
    "stored_as (d_fs (w_ufs world_dir)) (root_ex\<lparr>i_mode := md, i_ctime := 1000\<rparr>) (inode_of w' 2)"
    using chmod_updates [OF world_dir_ok(1) path_ex(1,3,4,2) _ root_ok_ex(1,2), of "0x1C0"] root_ok_ex(3,4) by (auto simp: inode_of_ex)
  have "md AND IFMT = (md AND NOT 0xFFF) AND IFMT" by (simp add: and.assoc)
  then have "\<not> S_ISLNK md" unfolding w(3) by (simp add: S_ISLNK_def)
  then have "sectors_of (d_fs (w_ufs world_dir)) md 512 = 1"
    by (simp add: sectors_of_def ceil_div_def world_dir_def root_ex_facts(1) fs_one_simps)
  then show ?thesis using w root_ok_ex(7,8) by (auto simp: stored_as_def inode_of_ex)
qed

theorem chown_swaps_guards_witness:
  "\<exists>w'. op_chown ''/..'' 500 0xffffffff world_dir = Some (0, w') \<and> i_gid (inode_of w' 2) = 0xffffffff \<and> i_uid (inode_of w' 2) = 1000"
  using chown_swaps_guards [OF world_dir_ok(1) path_ex(1,4,2) _ root_ok_ex(1,2), of 500 "0xffffffff"] root_ok_ex by (auto simp: inode_of_ex)

theorem utimens_sets_first_time_witness: "\<exists>w'. op_utimens ''/..'' 7 9 world_dir = Some (0, w') \<and> i_mtime (inode_of w' 2) = 7"
  using utimens_sets_first_time [OF world_dir_ok(1) path_ex(1,2) _ root_ok_ex(1,2), of 7 9] by auto

end
