(* ===== verification/Ufs_File_Props.thy ===== *)
theory Ufs_File_Props
  imports Ufs_Dir_Edit Ufs_Mount
begin

section \<open>Block maps, reading of files and new directories\<close>

text \<open>
  The bytes of a file through its block map and the one-block buffer of an open file, the agreement
  of \<open>ufs_set_block\<close> and \<open>ufs_bmap\<close>, and the first block of a new directory.
\<close>

subsection \<open>The contents of a file\<close>

text \<open>The block map \<open>B\<close> of a file, as \<open>ufs_bmap\<close> reads it, and the bytes the map stands for; a block
  number of 0 is a hole.\<close>

definition block_map :: "uufsd \<Rightarrow> inode \<Rightarrow> (int \<Rightarrow> int) \<Rightarrow> bool" where
  "block_map s ip B \<longleftrightarrow> (\<forall>k p. 0 \<le> k \<longrightarrow> k * fs_bsize (d_fs s) < i_size ip \<longrightarrow> ufs_bmap ip k p s = Some (0, B k) \<and> 0 \<le> B k)"

definition file_byte :: "uufsd \<Rightarrow> (int \<Rightarrow> int) \<Rightarrow> int \<Rightarrow> byte" where
  "file_byte s B x = (let k = B (x div fs_bsize (d_fs s)) in if k = 0 then 0 else dev_data s (blk_base s k + x mod fs_bsize (d_fs s)))"

text \<open>A file of a size the buffer can address.\<close>

definition file_geom :: "uufsd \<Rightarrow> inode \<Rightarrow> bool" where
  "file_geom s ip \<longleftrightarrow> io_ok s \<and> fs_ok (d_fs s) \<and> fs_bsize (d_fs s) \<le> MAXBSIZE \<and> di_size (i_din2 ip) = i_size ip \<and>
     i_size ip \<le> fs_bsize (d_fs s) * 2 ^ 32"

text \<open>The buffer is clean, and if it is valid it holds its block; the position is at the start of a block
  or inside the block that is in the buffer.\<close>

definition buf_holds :: "uufsd \<Rightarrow> inode \<Rightarrow> (int \<Rightarrow> int) \<Rightarrow> ufs_file \<Rightarrow> bool" where
  "buf_holds s ip B f \<longleftrightarrow> f_flags f AND UFS_FILE_BUF_DIRTY = 0 \<and>
     (f_flags f AND UFS_FILE_BUF_VALID \<noteq> 0 \<longrightarrow>
       (\<forall>i. 0 \<le> i \<longrightarrow> i < fs_bsize (d_fs s) \<longrightarrow> f_blockno f * fs_bsize (d_fs s) + i < i_size ip \<longrightarrow>
          f_buf f i = file_byte s B (f_blockno f * fs_bsize (d_fs s) + i)))"

definition read_ready :: "uufsd \<Rightarrow> inode \<Rightarrow> (int \<Rightarrow> int) \<Rightarrow> ufs_file \<Rightarrow> bool" where
  "read_ready s ip B f \<longleftrightarrow> buf_holds s ip B f \<and> 0 \<le> f_pos f \<and>
     (f_pos f mod fs_bsize (d_fs s) = 0 \<or> f_flags f AND UFS_FILE_BUF_VALID \<noteq> 0 \<and> f_blockno f = f_pos f div fs_bsize (d_fs s))"

lemma flag_ops:
  fixes x :: int
  shows "(x OR 0x2000) AND 0x4000 = x AND 0x4000" "(x OR 0x2000) AND 0x2000 = 0x2000"
    "(x AND - 0x2001) AND 0x2000 = 0" "(x AND - 0x2001) AND 0x4000 = x AND 0x4000"
proof -
  show "(x OR 0x2000) AND 0x2000 = 0x2000" by (rule bit_eqI) (auto simp: bit_or_iff bit_and_iff)
qed (simp_all add: bit.conj_disj_distrib2 and.assoc)

text \<open>The number of bytes that are read at the start of a block reach to its end or to that of the file.\<close>

lemma and_mask64:
  assumes "0 \<le> x" "x < 2 ^ 64"
  shows "x AND u64 (- (2 ^ k)) = x div 2 ^ k * (2 ^ k :: int)"
proof -
  have x: "u64 x = x" using assms by (simp add: u_id)
  have "x AND u64 (- (2 ^ k)) = u64 (x AND (- (2 ^ k)))" using x by (metis take_bit_and)
  also have "\<dots> = x div 2 ^ k * 2 ^ k"
  proof -
    have "x div 2 ^ k * 2 ^ k + x mod 2 ^ k = x" by (rule div_mult_mod_eq)
    moreover have "0 \<le> x mod 2 ^ k" "0 \<le> x div 2 ^ k * 2 ^ k" using assms(1) by (simp_all add: pos_imp_zdiv_nonneg_iff)
    ultimately have "0 \<le> x div 2 ^ k * 2 ^ k" "x div 2 ^ k * 2 ^ k \<le> x" by linarith+
    then show ?thesis using assms(2) by (simp add: and_neg_exp u_id)
  qed
  finally show ?thesis .
qed

lemma io_size_read:
  assumes g: "file_geom s ip" and p: "0 \<le> pos" "pos < i_size ip"
  shows "min (fs_bsize (d_fs s)) (i_size ip - pos) \<le> ufs_io_size (d_fs s) ip pos False" "ufs_io_size (d_fs s) ip pos False \<le> fs_bsize (d_fs s)"
proof -
  note G = g [unfolded file_geom_def]
  have ok: "fs_ok (d_fs s)" using G by simp
  note P = fs_ok_pos [OF ok] and d = fs_okD [OF ok]
  show "ufs_io_size (d_fs s) ip pos False \<le> fs_bsize (d_fs s)" unfolding ufs_io_size_def by (rule io_size_le)
  show "min (fs_bsize (d_fs s)) (i_size ip - pos) \<le> ufs_io_size (d_fs s) ip pos False"
  proof (cases "fs_bsize (d_fs s) * NDADDR \<le> i_size ip")
    case True
    then show ?thesis using G by (simp add: ufs_io_size_def ufs_inode_io_size_def)
  next
    case False
    have b: "fs_bsize (d_fs s) \<le> 65536" using G by simp
    have fsz: "fs_fsize (d_fs s) \<le> fs_bsize (d_fs s)" using d(4) P by (metis mult_le_cancel_right1 not_less int_one_le_iff_zero_less less_le_not_le)
    have sz: "i_size ip < 12 * 65536" using False b by simp
    have pos: "s32 pos = pos" using p sz by (simp add: signed_take_bit_int_eq_self)
    define r where "r = i_size ip - pos + (fs_fsize (d_fs s) - 1)"
    have r: "0 \<le> r" "r < 2 ^ 64" using p sz P fsz b by (simp_all add: r_def)
    have "u64 (i_size ip - pos) = i_size ip - pos" "u64 r = r" using p sz r by (simp_all add: u_id)
    then have "ufs_io_size (d_fs s) ip pos False = min (fs_bsize (d_fs s)) (r AND u64 (fs_fmask (d_fs s)))"
      using G False by (simp add: ufs_io_size_def ufs_inode_io_size_def Let_def pos d(9) min_def r_def)
    also have "r AND u64 (fs_fmask (d_fs s)) = r div fs_fsize (d_fs s) * fs_fsize (d_fs s)"
      unfolding d(7) d(2) by (rule and_mask64 [OF r])
    finally show ?thesis using round_up_bounds(1) [OF P(2), of "i_size ip - pos"] by (simp add: r_def)
  qed
qed

subsection \<open>Reading\<close>

text \<open>The file block of the position, and the two steps that bring it into a clean buffer.\<close>

lemma pos_block:
  assumes g: "file_geom s ip" and p: "0 \<le> pos" "pos < i_size ip"
  shows "0 < fs_bsize (d_fs s)" "0 \<le> pos div fs_bsize (d_fs s)" "pos div fs_bsize (d_fs s) * fs_bsize (d_fs s) + pos mod fs_bsize (d_fs s) = pos"
    "pos div fs_bsize (d_fs s) * fs_bsize (d_fs s) \<le> pos" "u32 (lblkno (d_fs s) pos) = pos div fs_bsize (d_fs s)"
proof -
  note G = g [unfolded file_geom_def]
  have ok: "fs_ok (d_fs s)" using G by simp
  define bs b where "bs = fs_bsize (d_fs s)" and "b = pos div bs"
  have bs: "0 < bs" using fs_ok_pos(1) [OF ok] by (simp add: bs_def)
  then show "0 < fs_bsize (d_fs s)" by (simp add: bs_def)
  have e: "b * bs + pos mod bs = pos" unfolding b_def by (rule div_mult_mod_eq)
  have b0: "0 \<le> b" "b * bs \<le> pos" using p(1) e pos_imp_zdiv_nonneg_iff [OF bs, of pos, folded b_def] pos_mod_sign [OF bs, of pos] by linarith+
  have "b * bs < bs * 2 ^ 32" using b0(2) p(2) G by (simp add: bs_def)
  then have "b < 2 ^ 32" using bs by (simp add: mult.commute)
  then have "u32 (lblkno (d_fs s) pos) = b" using b0(1) by (simp add: macro_div_mod(1) [OF ok] b_def bs_def u_id)
  then show "0 \<le> pos div fs_bsize (d_fs s)" "pos div fs_bsize (d_fs s) * fs_bsize (d_fs s) + pos mod fs_bsize (d_fs s) = pos"
    "pos div fs_bsize (d_fs s) * fs_bsize (d_fs s) \<le> pos" "u32 (lblkno (d_fs s) pos) = pos div fs_bsize (d_fs s)"
    using b0 e by (simp_all add: b_def bs_def)
qed

lemma sync_run:
  assumes g: "file_geom s ip" and p: "0 \<le> f_pos f" "f_pos f < i_size ip" and d: "f_flags f AND UFS_FILE_BUF_DIRTY = 0"
  obtains f1 where "sync_buffer_position (f, ip, s) = Some (0, f1, ip, s)" "f_pos f1 = f_pos f" "f_blockno f1 = f_pos f div fs_bsize (d_fs s)"
    "f_buf f1 = f_buf f" "f_flags f1 AND UFS_FILE_BUF_DIRTY = 0"
    "f_flags f1 AND UFS_FILE_BUF_VALID \<noteq> 0 \<longleftrightarrow> f_flags f AND UFS_FILE_BUF_VALID \<noteq> 0 \<and> f_blockno f = f_pos f div fs_bsize (d_fs s)"
proof -
  define b where "b = f_pos f div fs_bsize (d_fs s)"
  have lb: "u32 (lblkno (d_fs s) (f_pos f)) = b" using pos_block(5) [OF g p] by (simp add: b_def)
  define f1 where "f1 = (if b \<noteq> f_blockno f then f\<lparr>f_flags := f_flags f AND NOT UFS_FILE_BUF_VALID, f_blockno := b\<rparr> else f)"
  have "sync_buffer_position (f, ip, s) = Some (0, f1, ip, s)" using d by (simp add: sync_buffer_position_def ufs_file_flush_def lb f1_def)
  then show ?thesis by (rule that) (use d in \<open>auto simp: f1_def b_def flag_ops\<close>)
qed

lemma load_run:
  assumes g: "file_geom s ip" and m: "block_map s ip B" and p: "0 \<le> f_pos f" "f_pos f < i_size ip"
    and f: "f_blockno f = f_pos f div fs_bsize (d_fs s)" "f_flags f AND UFS_FILE_BUF_VALID = 0"
  defines "n \<equiv> ufs_io_size (d_fs s) ip (f_pos f) False" and "k \<equiv> B (f_blockno f)"
  shows "load_buffer False (f, ip, s) = Some (0, f\<lparr>f_physblock := k,
     f_buf := (if k = 0 then memset (f_buf f) 0 0 n else memcpy (f_buf f) 0 (dev_data s) (blk_base s k) n), f_flags := f_flags f OR UFS_FILE_BUF_VALID\<rparr>, ip, s)"
proof -
  note P = pos_block [OF g p]
  have bm: "ufs_bmap ip (f_blockno f) q s = Some (0, k)" "0 \<le> k" for q using m P(2,4) p(2) f(1) by (simp_all add: block_map_def k_def)
  have n0: "0 < n" using io_size_read(1) [OF g p] p(2) P(1) by (simp add: n_def)
  have io: "io_ok s" and nn: "0 \<le> fsbtodb (d_fs s) k" using g bm(2) by (simp_all add: file_geom_def fsbtodb_eq)
  show ?thesis
    using f(2) bm(1) bread_ok [OF io nn n0] n0 unfolding load_buffer_def blk_base_def n_def by (auto simp: Let_def)
qed

text \<open>One round of the loop brings the block of the position into the buffer.\<close>

lemma fill_buffer:
  assumes g: "file_geom s ip" and m: "block_map s ip B" and r: "read_ready s ip B f" and p: "f_pos f < i_size ip"
  obtains f1 f2 where "sync_buffer_position (f, ip, s) = Some (0, f1, ip, s)" "load_buffer False (f1, ip, s) = Some (0, f2, ip, s)"
    "f_pos f2 = f_pos f" "buf_holds s ip B f2" "f_flags f2 AND UFS_FILE_BUF_VALID \<noteq> 0" "f_blockno f2 = f_pos f div fs_bsize (d_fs s)"
proof -
  note R = r [unfolded read_ready_def buf_holds_def]
  have p0: "0 \<le> f_pos f" using R by simp
  note P = pos_block [OF g p0 p]
  define bs b where "bs = fs_bsize (d_fs s)" and "b = f_pos f div bs"
  obtain f1 where sy: "sync_buffer_position (f, ip, s) = Some (0, f1, ip, s)" and f1: "f_pos f1 = f_pos f" "f_blockno f1 = b"
    "f_buf f1 = f_buf f" "f_flags f1 AND 0x4000 = 0" "f_flags f1 AND 0x2000 \<noteq> 0 \<longleftrightarrow> f_flags f AND 0x2000 \<noteq> 0 \<and> f_blockno f = b"
    using sync_run [OF g p0 p] R unfolding bs_def b_def by auto
  show ?thesis
  proof (cases "f_flags f1 AND 0x2000 = 0")
    case False
    then have "load_buffer False (f1, ip, s) = Some (0, f1, ip, s)" by (simp add: load_buffer_def)
    moreover have "buf_holds s ip B f1" using R f1 False by (auto simp: buf_holds_def)
    ultimately show ?thesis using that [OF sy] f1 False by (simp add: b_def bs_def)
  next
    case True
    have al: "f_pos f mod bs = 0" using R True f1(5) by (auto simp: bs_def b_def)
    then have pb: "f_pos f = b * bs" using P(3) by (simp add: b_def bs_def)
    define n where "n = ufs_io_size (d_fs s) ip (f_pos f) False"
    have n: "min bs (i_size ip - f_pos f) \<le> n" using io_size_read(1) [OF g p0 p] by (simp add: n_def bs_def)
    define f2 where "f2 = f1\<lparr>f_physblock := B b, f_buf := (if B b = 0 then memset (f_buf f1) 0 0 n else memcpy (f_buf f1) 0 (dev_data s) (blk_base s (B b)) n),
      f_flags := f_flags f1 OR UFS_FILE_BUF_VALID\<rparr>"
    have ld: "load_buffer False (f1, ip, s) = Some (0, f2, ip, s)"
      using load_run [OF g m, of f1] f1(1,2) p0 p True by (simp add: f2_def n_def b_def bs_def)
    have "f_buf f2 i = file_byte s B (b * bs + i)" if i: "0 \<le> i" "i < bs" "b * bs + i < i_size ip" for i
    proof -
      have "i < n" using i n pb by linarith
      moreover have "(b * bs + i) div bs = b" "(b * bs + i) mod bs = i" using i(1,2) by simp_all
      ultimately show ?thesis using i(1) by (simp add: f2_def file_byte_def bs_def [symmetric] Let_def memset_def memcpy_def)
    qed
    then have "buf_holds s ip B f2" using f1 by (simp add: buf_holds_def f2_def flag_ops bs_def)
    then show ?thesis using that [OF sy ld] f1 by (simp add: f2_def flag_ops b_def bs_def)
  qed
qed

text \<open>The rest of a round: copying from the buffer.\<close>

lemma read_loop_step:
  assumes g: "file_geom s ip" and p: "0 \<le> f_pos f" "f_pos f < i_size ip" "0 < wanted"
    and f: "sync_buffer_position (f, ip, s) = Some (0, f1, ip, s)" "load_buffer False (f1, ip, s) = Some (0, f2, ip, s)" "f_pos f2 = f_pos f"
  defines "st \<equiv> f_pos f mod fs_bsize (d_fs s)"
  defines "c \<equiv> min (min (fs_bsize (d_fs s) - st) wanted) (i_size ip - f_pos f)"
  shows "file_read_loop wanted count out (f, ip, s) =
     file_read_loop (wanted - c) (count + c) (memcpy out count (f_buf f2) st c) (f2\<lparr>f_pos := f_pos f + c\<rparr>, ip, s)"
proof -
  have ck: "(let c = chunk (fs_bsize (d_fs s)) (f_pos f) wanted; left = i_size ip - f_pos f in if c > left then left else c) = c"
    by (auto simp: chunk_def Let_def c_def st_def min_def)
  have nd: "\<not> (fs_bsize (d_fs s) \<le> 0 \<or> i_size ip \<le> f_pos f)" using p(2) pos_block(1) [OF g p(1,2)] by simp
  show ?thesis using p nd f ck by (subst file_read_loop.simps) (simp add: Let_def st_def [symmetric])
qed

definition read_done :: "uufsd \<Rightarrow> inode \<Rightarrow> (int \<Rightarrow> int) \<Rightarrow> ufs_file \<Rightarrow> int \<Rightarrow> int \<Rightarrow> mem \<Rightarrow> mem \<Rightarrow> ufs_file \<Rightarrow> bool" where
  "read_done s ip B f count n out out' f' \<longleftrightarrow>
     (\<forall>j. 0 \<le> j \<longrightarrow> j < n \<longrightarrow> out' (count + j) = file_byte s B (f_pos f + j)) \<and>
     (\<forall>x. x < count \<or> count + n \<le> x \<longrightarrow> out' x = out x) \<and> f_pos f' = f_pos f + n \<and> read_ready s ip B f'"

lemma read_loop_run:
  assumes g: "file_geom s ip" and m: "block_map s ip B" and "read_ready s ip B f" "0 \<le> wanted"
  shows "\<exists>out' f'. file_read_loop wanted count out (f, ip, s) = Some (0, count + min wanted (max 0 (i_size ip - f_pos f)), out', f', ip, s) \<and>
     read_done s ip B f count (min wanted (max 0 (i_size ip - f_pos f))) out out' f'"
  using assms(3,4)
proof (induction "nat wanted" arbitrary: wanted count out f rule: less_induct)
  case less
  show ?case
  proof (cases "f_pos f < i_size ip \<and> 0 < wanted")
    case False
    then have "min wanted (max 0 (i_size ip - f_pos f)) = 0" using less.prems(2) by auto
    then show ?thesis using False less.prems(1) by (subst file_read_loop.simps) (auto simp: read_done_def)
  next
    case True
    define bs where "bs = fs_bsize (d_fs s)"
    have bs: "0 < bs" using g fs_ok_pos(1) by (simp add: file_geom_def bs_def)
    obtain f1 f2 where f: "sync_buffer_position (f, ip, s) = Some (0, f1, ip, s)" "load_buffer False (f1, ip, s) = Some (0, f2, ip, s)"
      "f_pos f2 = f_pos f" "buf_holds s ip B f2" "f_flags f2 AND UFS_FILE_BUF_VALID \<noteq> 0" "f_blockno f2 = f_pos f div bs"
      using fill_buffer [OF g m less.prems(1)] True unfolding bs_def by blast
    define st where "st = f_pos f mod bs"
    define c where "c = min (min (bs - st) wanted) (i_size ip - f_pos f)"
    have st: "0 \<le> st" "st < bs" "f_pos f = f_pos f div bs * bs + st" using bs by (simp_all add: st_def div_mult_mod_eq)
    have c: "0 < c" "c \<le> wanted" "c \<le> i_size ip - f_pos f" "c \<le> bs - st" using True st by (simp_all add: c_def)
    define f3 where "f3 = f2\<lparr>f_pos := f_pos f + c\<rparr>"
    define out1 where "out1 = memcpy out count (f_buf f2) st c"
    have p0: "0 \<le> f_pos f" using less.prems(1) by (simp add: read_ready_def)
    have step: "file_read_loop wanted count out (f, ip, s) = file_read_loop (wanted - c) (count + c) out1 (f3, ip, s)"
      using read_loop_step [OF g p0 _ _ f(1-3)] True unfolding out1_def f3_def c_def st_def bs_def by blast
    have blk: "f_pos f3 mod bs = 0 \<or> f_blockno f3 = f_pos f3 div bs"
    proof (cases "c = bs - st")
      case True
      then have "f_pos f3 = (f_pos f div bs + 1) * bs" using st(3) by (simp add: f3_def algebra_simps)
      then show ?thesis by simp
    next
      case False
      have e: "f_pos f3 = st + c + f_pos f div bs * bs" using st(3) by (simp add: f3_def)
      have "(st + c + f_pos f div bs * bs) div bs = f_pos f div bs" using False c st bs by simp
      then have "f_pos f3 div bs = f_pos f div bs" unfolding e .
      then show ?thesis using f(6) by (simp add: f3_def)
    qed
    then have rr: "read_ready s ip B f3" using f(4,5) p0 c(1) by (auto simp: read_ready_def buf_holds_def f3_def bs_def)
    define n where "n = min (wanted - c) (max 0 (i_size ip - f_pos f3))"
    have n: "c + n = min wanted (max 0 (i_size ip - f_pos f))" "0 \<le> n" using c by (auto simp: n_def f3_def)
    obtain out' f' where r: "file_read_loop (wanted - c) (count + c) out1 (f3, ip, s) = Some (0, count + c + n, out', f', ip, s)"
      "read_done s ip B f3 (count + c) n out1 out' f'"
      using less.hyps [of "wanted - c" f3 "count + c" out1] rr c True unfolding n_def by auto
    have by1: "out1 (count + j) = file_byte s B (f_pos f + j)" if j: "0 \<le> j" "j < c" for j
    proof -
      have "f_pos f + j = f_blockno f2 * bs + (st + j)" using st(3) f(6) by simp
      then show ?thesis using f(4,5) j st c(3,4) by (simp add: buf_holds_def out1_def memcpy_def bs_def add.assoc)
    qed
    have "out' (count + j) = file_byte s B (f_pos f + j)" if j: "0 \<le> j" "j < c + n" for j
    proof (cases "j < c")
      case True
      then show ?thesis using r(2) by1 j by (simp add: read_done_def)
    next
      case False
      then show ?thesis using r(2) j unfolding read_done_def f3_def by (auto dest!: spec [where x = "j - c"])
    qed
    moreover have "out' x = out x" if "x < count \<or> count + (c + n) \<le> x" for x
      using r(2) that n c(1) by (auto simp: read_done_def out1_def memcpy_def)
    ultimately have "read_done s ip B f count (c + n) out out' f'" using r(2) unfolding read_done_def by (simp add: f3_def)
    then show ?thesis using step r(1) unfolding n(1) [symmetric] by (intro exI [of _ out'] exI [of _ f']) (simp add: add.assoc)
  qed
qed

text \<open>C3. \<open>ufs_file_read\<close> returns the bytes of the file: from a position at the start of a block, or
  inside the block that is in the buffer, it reads as many bytes as were asked for or the file still
  has, they are those the block map and the device give, holes as zeros, nothing else of the caller's memory
  changes, and the file is left ready for the next read in sequence. The device is only read.\<close>

theorem file_read_returns_contents:
  assumes "file_geom s ip" "block_map s ip B" "read_ready s ip B f" "0 \<le> wanted" "wanted < 2 ^ 32"
  shows "\<exists>n out' f'. n = min wanted (max 0 (i_size ip - f_pos f)) \<and> ufs_file_read wanted out (f, ip, s) = Some (0, n, out', f', ip, s) \<and>
     (\<forall>j. 0 \<le> j \<longrightarrow> j < n \<longrightarrow> out' j = file_byte s B (f_pos f + j)) \<and> (\<forall>x. x < 0 \<or> n \<le> x \<longrightarrow> out' x = out x) \<and>
     f_pos f' = f_pos f + n \<and> read_ready s ip B f'"
  using read_loop_run [OF assms(1-4), of 0 out] assms(4,5) by (auto simp: ufs_file_read_def read_done_def u_id)

text \<open>C38. A read that starts inside a block which is not in the buffer: \<open>load_buffer\<close> reads the rest of the file,
  rounded up to fragments, but from the start of the block. Where this does not reach the position
  in the last block, \<open>ufs_file_read\<close> reports success and returns what the buffer held before.\<close>

theorem file_read_inside_block_stale:
  assumes g: "file_geom s ip" and m: "block_map s ip B" and w: "0 < wanted" "wanted < 2 ^ 32"
    and f: "f_flags f AND UFS_FILE_BUF_VALID = 0" "f_flags f AND UFS_FILE_BUF_DIRTY = 0"
    and p: "0 \<le> f_pos f" "f_pos f < i_size ip" "i_size ip \<le> (f_pos f div fs_bsize (d_fs s) + 1) * fs_bsize (d_fs s)"
    and far: "ufs_io_size (d_fs s) ip (f_pos f) False \<le> f_pos f mod fs_bsize (d_fs s)"
  shows "\<exists>n out' f'. n = min wanted (i_size ip - f_pos f) \<and> ufs_file_read wanted out (f, ip, s) = Some (0, n, out', f', ip, s) \<and>
     (\<forall>j. 0 \<le> j \<longrightarrow> j < n \<longrightarrow> out' j = f_buf f (f_pos f mod fs_bsize (d_fs s) + j))"
proof -
  note P = pos_block [OF g p(1,2)]
  define bs st n c where "bs = fs_bsize (d_fs s)" and "st = f_pos f mod bs" and "n = ufs_io_size (d_fs s) ip (f_pos f) False"
    and "c = min wanted (i_size ip - f_pos f)"
  obtain f1 where sy: "sync_buffer_position (f, ip, s) = Some (0, f1, ip, s)" and f1: "f_pos f1 = f_pos f" "f_blockno f1 = f_pos f div bs"
    "f_buf f1 = f_buf f" "f_flags f1 AND UFS_FILE_BUF_VALID = 0"
    using sync_run [OF g p(1,2) f(2)] f(1) unfolding bs_def by metis
  obtain f2 where ld: "load_buffer False (f1, ip, s) = Some (0, f2, ip, s)" and f2: "f_pos f2 = f_pos f" "\<And>i. n \<le> i \<Longrightarrow> f_buf f2 i = f_buf f i"
    using load_run [OF g m, of f1] f1 p(1,2) by (simp add: bs_def n_def memset_def memcpy_def)
  have "i_size ip \<le> f_pos f div bs * bs + bs" using p(3) by (simp add: bs_def algebra_simps)
  then have "i_size ip - f_pos f \<le> bs - st" using P(3) unfolding st_def bs_def by linarith
  then have "min (min (bs - st) wanted) (i_size ip - f_pos f) = c" by (auto simp: c_def)
  then have "file_read_loop wanted 0 out (f, ip, s) = file_read_loop (wanted - c) c (memcpy out 0 (f_buf f2) st c) (f2\<lparr>f_pos := f_pos f + c\<rparr>, ip, s)"
    using read_loop_step [OF g p(1,2) w(1) sy ld f2(1), of 0 out] by (simp add: st_def bs_def)
  also have "\<dots> = Some (0, c, memcpy out 0 (f_buf f2) st c, f2\<lparr>f_pos := f_pos f + c\<rparr>, ip, s)" by (subst file_read_loop.simps) (auto simp: c_def)
  finally have "ufs_file_read wanted out (f, ip, s) = Some (0, c, memcpy out 0 (f_buf f2) st c, f2\<lparr>f_pos := f_pos f + c\<rparr>, ip, s)" using w by (simp add: ufs_file_read_def u_id)
  moreover have "memcpy out 0 (f_buf f2) st c j = f_buf f (st + j)" if "0 \<le> j" "j < c" for j
    using that f2(2) [of "st + j"] far by (simp add: memcpy_def n_def st_def bs_def)
  ultimately show ?thesis unfolding c_def st_def bs_def by blast
qed

subsection \<open>A sample file\<close>

text \<open>Two blocks, the second a hole, in \<open>file_ex\<close>; 3000 bytes of one block in \<open>short_ex\<close>.\<close>

definition file_ex :: inode where
  "file_ex = inode_ex\<lparr>i_din2 := st64 (st64 (\<lambda>_. 0) 16 5000) 112 48\<rparr>"

definition short_ex :: inode where
  "short_ex = inode_ex\<lparr>i_size := 3000, i_din2 := st64 (st64 (\<lambda>_. 0) 16 3000) 112 48\<rparr>"

definition open_ex :: ufs_file where
  "open_ex = \<lparr>f_magic = UFS_MAGIC_FILE, f_ino = 5, f_vnode = 1, f_flags = 0, f_pos = 0, f_blockno = 0, f_physblock = 0, f_buf = (\<lambda>_. 77)\<rparr>"

definition B_ex :: "int \<Rightarrow> int" where
  "B_ex k = (if k = 0 then 48 else 0)"

lemma file_ex_ok: "file_geom disk_ex file_ex" "block_map disk_ex file_ex B_ex" "read_ready disk_ex file_ex B_ex open_ex"
  "file_geom disk_ex short_ex" "block_map disk_ex short_ex B_ex"
proof -
  have io: "io_ok disk_ex" and fs: "fs_ok fs_one" "d_fs disk_ex = fs_one" "fs_bsize fs_one = 4096" "env_mem disk_ex"
    using ino_geomD(2,3) [OF ino_geom_ex(1)] by (simp_all add: disk_ex_def fs_one_def fs_ex_def)
  show "file_geom disk_ex file_ex" "file_geom disk_ex short_ex"
    using io fs by (simp_all add: file_geom_def file_ex_def short_ex_def inode_ex_def di_defs mem_simps)
  have k: "k = 0 \<or> k = 1" if "0 \<le> k" "k * 4096 < 5000" for k :: int using that by auto
  have a: "di_db (i_din2 file_ex) 0 = 48" "di_db (i_din2 file_ex) 1 = 0" "di_db (i_din2 short_ex) 0 = 48" by code_simp+
  show "block_map disk_ex file_ex B_ex"
  proof -
    have "i_size file_ex = 5000" by (simp add: file_ex_def inode_ex_def)
    moreover have "ufs_bmap file_ex k p disk_ex = Some (0, B_ex k) \<and> 0 \<le> B_ex k" if "0 \<le> k" "k * 4096 < 5000" for k p
      using k [OF that] fs a(1,2) by (auto simp: ufs_bmap_def bmap_ptr_def B_ex_def)
    ultimately show ?thesis using fs(2,3) by (simp add: block_map_def)
  qed
  show "block_map disk_ex short_ex B_ex"
  proof -
    have k0: "k = 0" if "0 \<le> k" "k * 4096 < 3000" for k :: int using that by auto
    have "i_size short_ex = 3000" by (simp add: short_ex_def)
    moreover have "ufs_bmap short_ex k p disk_ex = Some (0, B_ex k) \<and> 0 \<le> B_ex k" if "0 \<le> k" "k * 4096 < 3000" for k p
      using k0 [OF that] fs a(3) by (simp add: ufs_bmap_def bmap_ptr_def B_ex_def)
    ultimately show ?thesis using fs(2,3) by (simp add: block_map_def)
  qed
  show "read_ready disk_ex file_ex B_ex open_ex" by (simp add: read_ready_def buf_holds_def open_ex_def)
qed

theorem file_read_returns_contents_witness:
  "\<exists>out' f'. ufs_file_read 4100 (\<lambda>_. 0) (open_ex, file_ex, disk_ex) = Some (0, 4100, out', f', file_ex, disk_ex) \<and> out' 9 = dev_data disk_ex 24585 \<and> out' 4099 = 0"
proof -
  have e: "i_size file_ex = 5000" "f_pos open_ex = 0" by (simp_all add: file_ex_def inode_ex_def open_ex_def)
  have "file_byte disk_ex B_ex 9 = dev_data disk_ex 24585" "file_byte disk_ex B_ex 4099 = 0"
    by (simp_all add: file_byte_def B_ex_def blk_base_def disk_ex_def fs_one_def fs_ex_def fsbtodb_eq)
  then show ?thesis using file_read_returns_contents [OF file_ex_ok(1-3), of 4100 "\<lambda>_. 0"] unfolding e by force
qed

theorem file_read_inside_block_stale_witness:
  "\<exists>out' f'. ufs_file_read 500 (\<lambda>_. 0) (open_ex\<lparr>f_pos := 2000\<rparr>, short_ex, disk_ex) = Some (0, 500, out', f', short_ex, disk_ex) \<and> out' 9 = 77"
proof -
  have e: "i_size short_ex = 3000" "fs_bsize (d_fs disk_ex) = 4096" by (simp_all add: short_ex_def inode_ex_def disk_ex_def fs_one_def fs_ex_def)
  have u: "ufs_io_size (d_fs disk_ex) short_ex 2000 False = 1024" by code_simp
  show ?thesis using file_read_inside_block_stale [OF file_ex_ok(4,5), of 500 "open_ex\<lparr>f_pos := 2000\<rparr>" "\<lambda>_. 0"] u e by (force simp: open_ex_def)
qed

subsection \<open>Setting a block pointer\<close>

lemma set_direct:
  assumes "0 \<le> fbn" "fbn < NDADDR" "0 \<le> k" "k < NDADDR" "s64 blk = blk"
  shows "di_db (i_din2 (set_di_db ip fbn blk)) k = (if k = fbn then blk else di_db (i_din2 ip) k)"
    "di_ib (i_din2 (set_di_db ip fbn blk)) 0 = di_ib (i_din2 ip) 0"
  using assms by (cases k fbn rule: linorder_cases; simp add: set_di_db_def di_db_def di_ib_def mem_simps)+

text \<open>The pointers below the second level: the direct ones and those of the first indirect block.\<close>

lemma bmap_low:
  assumes "io_ok s" "fs_ok (d_fs s)" "0 \<le> k" "k < NDADDR + fs_nindir (d_fs s)" "k < NDADDR \<or> 0 \<le> di_ib (i_din2 ip) 0"
  shows "bmap_ptr ip k s = (0, if k < NDADDR then di_db (i_din2 ip) k
     else ld64 (\<lambda>x. dev_data s (blk_base s (di_ib (i_din2 ip) 0) + x)) (8 * (k - NDADDR)))"
proof (cases "k < NDADDR")
  case True
  then show ?thesis by (simp add: bmap_ptr_def)
next
  case False
  have P: "0 < fs_bsize (d_fs s)" "fs_nindir (d_fs s) = fs_bsize (d_fs s) div 8" using fs_ok_pos(1) [OF assms(2)] fs_okD(10) [OF assms(2)] by simp_all
  have nn: "0 \<le> fsbtodb (d_fs s) (di_ib (i_din2 ip) 0)" using assms(5) False by (simp add: fsbtodb_eq)
  have i: "0 \<le> k - 12" "k - 12 < fs_nindir (d_fs s)" "8 * (k - 12) + 8 \<le> fs_bsize (d_fs s)" using False assms(4) P by simp_all
  have "ld64 (memcpy (env_junk s) 0 (dev_data s) (blk_base s (di_ib (i_din2 ip) 0)) (fs_bsize (d_fs s))) (8 * (k - 12)) =
      ld64 (\<lambda>x. dev_data s (blk_base s (di_ib (i_din2 ip) 0) + x)) (8 * (k - 12))"
    by (rule ld_cong) (use i in \<open>simp add: memcpy_def\<close>)
  moreover have "blkread (fsbtodb (d_fs s) (di_ib (i_din2 ip) 0)) (env_junk s) (fs_bsize (d_fs s)) s =
      (fs_bsize (d_fs s), memcpy (env_junk s) 0 (dev_data s) (blk_base s (di_ib (i_din2 ip) 0)) (fs_bsize (d_fs s)))"
    using blkread_ok [OF assms(1) nn P(1)] by (simp add: blk_base_def)
  ultimately show ?thesis using False i P(1) by (simp add: bmap_ptr_def read_ptr_def)
qed

text \<open>C36. \<open>ufs_set_block\<close> and \<open>ufs_bmap\<close> agree on the direct blocks of every file, and on the blocks of the
  first indirect block of a file that has one: after a block number has been stored for such a block,
  reading the block map gives this number, and the number it gave before for every other such block.
  A file that has no indirect block yet is not covered here: it gets one.\<close>

theorem set_block_bmap_roundtrip:
  assumes s: "io_ok s" "fs_ok (d_fs s)" and f: "0 \<le> fbn" "fbn < NDADDR \<or> 0 < di_ib (i_din2 ip) 0 \<and> fbn < NDADDR + fs_nindir (d_fs s)"
    and b: "s64 blk = blk" "blk \<noteq> 1852140901"
  shows "\<exists>ip' s'. ufs_set_block ip fbn blk s = Some (0, ip', s') \<and> ufs_bmap ip' fbn p s' = Some (0, blk) \<and>
     (\<forall>k. 0 \<le> k \<longrightarrow> k < NDADDR \<or> 0 < di_ib (i_din2 ip) 0 \<and> k < NDADDR + fs_nindir (d_fs s) \<longrightarrow> k \<noteq> fbn \<longrightarrow>
        ufs_bmap ip' k p s' = ufs_bmap ip k p s)"
proof (cases "fbn < NDADDR")
  case True
  define ip' where "ip' = set_di_db ip fbn blk"
  have e: "ufs_set_block ip fbn blk s = Some (0, ip', s)" using True s(1) by (simp add: ufs_set_block_def ip'_def)
  have i: "di_ib (i_din2 ip') 0 = di_ib (i_din2 ip) 0" unfolding ip'_def by (rule set_direct(2) [where k = 0]) (use f True b in simp_all)
  have d: "di_db (i_din2 ip') k = (if k = fbn then blk else di_db (i_din2 ip) k)" if "0 \<le> k" "k < NDADDR" for k
    unfolding ip'_def by (rule set_direct(1) [OF f(1) True that b(1)])
  have m: "bmap_ptr ip' k s = (if k = fbn then (0, blk) else bmap_ptr ip k s)"
    if k: "0 \<le> k" "k < NDADDR \<or> 0 < di_ib (i_din2 ip) 0 \<and> k < NDADDR + fs_nindir (d_fs s)" for k
  proof -
    have kn: "k < NDADDR + fs_nindir (d_fs s)" "k < NDADDR \<or> 0 \<le> di_ib (i_din2 ip) 0" "k < NDADDR \<or> 0 \<le> di_ib (i_din2 ip') 0"
      using k fs_okD(11) [OF s(2)] i by auto
    show ?thesis using bmap_low [OF s k(1) kn(1,2)] bmap_low [OF s k(1) kn(1,3)] i d [of k] k(1) True by auto
  qed
  show ?thesis using e m f b(2) s(1) by (intro exI [of _ ip'] exI [of _ s]) (auto simp: ufs_bmap_def)
next
  case False
  have ib: "0 < di_ib (i_din2 ip) 0" "fbn < NDADDR + fs_nindir (d_fs s)" using f False by auto
  define fs nb where "fs = d_fs s" and "nb = fs_bsize fs"
  have P: "0 < nb" "fs_nindir fs = nb div 8" using fs_ok_pos(1) [OF s(2)] fs_okD(10) [OF s(2)] by (simp_all add: nb_def fs_def)
  define a i where "a = blk_base s (di_ib (i_din2 ip) 0)" and "i = fbn - 12"
  have i: "0 \<le> i" "i < fs_nindir fs" "8 * i + 8 \<le> nb" using False ib(2) P by (simp_all add: i_def fs_def)
  have nn: "0 \<le> fsbtodb fs (di_ib (i_din2 ip) 0)" using ib(1) by (simp add: fsbtodb_eq)
  define buf where "buf = st64 (memcpy (memset (env_junk s) 0 0 nb) 0 (dev_data s) a nb) (8 * i) blk"
  define s' where "s' = s\<lparr>dev_data := memcpy (dev_data s) a buf 0 nb\<rparr>"
  have rd: "blkread (fsbtodb fs (di_ib (i_din2 ip) 0)) (memset (env_junk s) 0 0 nb) nb s = (nb, memcpy (memset (env_junk s) 0 0 nb) 0 (dev_data s) a nb)"
    using blkread_ok [OF s(1) nn P(1)] by (simp add: a_def blk_base_def fs_def)
  have wr: "blkwrite (fsbtodb fs (di_ib (i_din2 ip) 0)) buf nb s = (nb, s')"
    using bwrite_ok [OF s(1) nn P(1)] by (simp add: blkwrite_def s'_def a_def blk_base_def fs_def)
  have e: "ufs_set_block ip fbn blk s = Some (0, ip, s')"
    using False s(1) i P(1) ib rd wr
    by (simp add: ufs_set_block_def set_block_l1_def ind_block_def write_ptrs_def Let_def fs_def [symmetric] nb_def [symmetric] i_def [symmetric] buf_def [symmetric])
  have s': "io_ok s'" "d_fs s' = fs" "blk_base s' = blk_base s" "env_mem s'" using s(1) by (auto simp: s'_def io_ok_def fs_def blk_base_def fun_eq_iff)
  have ld: "ld64 (\<lambda>x. dev_data s' (a + x)) (8 * j) = (if j = i then blk else ld64 (\<lambda>x. dev_data s (a + x)) (8 * j))" if j: "0 \<le> j" "j < fs_nindir fs" for j
  proof -
    have j8: "8 * j + 8 \<le> nb" using j P by simp
    have "ld64 (\<lambda>x. dev_data s' (a + x)) (8 * j) = ld64 buf (8 * j)" by (rule ld_cong) (use j j8 in \<open>simp add: s'_def memcpy_def\<close>)
    also have "\<dots> = (if j = i then blk else ld64 (memcpy (memset (env_junk s) 0 0 nb) 0 (dev_data s) a nb) (8 * j))"
      using b(1) by (cases j i rule: linorder_cases) (simp_all add: buf_def mem_simps)
    also have "ld64 (memcpy (memset (env_junk s) 0 0 nb) 0 (dev_data s) a nb) (8 * j) = ld64 (\<lambda>x. dev_data s (a + x)) (8 * j)"
      by (rule ld_cong) (use j j8 in \<open>simp add: memcpy_def\<close>)
    finally show ?thesis .
  qed
  have m: "bmap_ptr ip k s' = (if k = fbn then (0, blk) else bmap_ptr ip k s)" if "0 \<le> k" "k < NDADDR + fs_nindir fs" for k
    using bmap_low [OF s, of k ip] bmap_low [OF s'(1), of k ip] s s' ib ld [of "k - 12"] that False by (auto simp: a_def i_def fs_def)
  show ?thesis using e m f ib b(2) s(1) s'(4) fs_okD(11) [OF s(2)]
    by (intro exI [of _ ip] exI [of _ s'] conjI) (auto simp: ufs_bmap_def fs_def)
qed

theorem set_block_bmap_roundtrip_witness:
  "\<exists>ip' s'. ufs_set_block (inode_ex\<lparr>i_din2 := st64 (\<lambda>_. 0) 208 64\<rparr>) 15 90 disk_ex = Some (0, ip', s') \<and> ufs_bmap ip' 15 0 s' = Some (0, 90)"
proof -
  have "io_ok disk_ex" "fs_ok (d_fs disk_ex)" "fs_nindir (d_fs disk_ex) = 512" using ino_geomD(2,3) [OF ino_geom_ex(1)] by (simp_all add: disk_ex_def fs_one_def fs_ex_def)
  moreover have "0 < di_ib (i_din2 (inode_ex\<lparr>i_din2 := st64 (\<lambda>_. 0) 208 64\<rparr>)) 0" "s64 90 = 90" by code_simp+
  ultimately show ?thesis using set_block_bmap_roundtrip [of disk_ex 15 "inode_ex\<lparr>i_din2 := st64 (\<lambda>_. 0) 208 64\<rparr>" 90 0] by auto
qed

lemma ld64_zero: "ld64 (\<lambda>_. 0) a = 0"
  by (simp add: ld64_def eval_nat_numeral)

text \<open>The block map through an indirect block that was just written with one pointer and zeros.\<close>

lemma fresh_indirect_map:
  assumes s: "io_ok s" "fs_ok (d_fs s)" and ib: "0 < di_ib (i_din2 ip) 0" and b: "s64 blk = blk"
    and i: "0 \<le> i" "i < fs_nindir (d_fs s)" and k: "0 \<le> k" "k < NDADDR + fs_nindir (d_fs s)"
    and d: "dev_data s = memcpy d (blk_base s (di_ib (i_din2 ip) 0)) (st64 (memset j 0 0 (fs_bsize (d_fs s))) (8 * i) blk) 0 (fs_bsize (d_fs s))"
  shows "bmap_ptr ip k s = (0, if k < NDADDR then di_db (i_din2 ip) k else if k = NDADDR + i then blk else 0)"
proof -
  define a nb where "a = blk_base s (di_ib (i_din2 ip) 0)" and "nb = fs_bsize (d_fs s)"
  have P: "fs_nindir (d_fs s) = nb div 8" using fs_okD(10) [OF s(2)] by (simp add: nb_def)
  have "ld64 (\<lambda>x. dev_data s (a + x)) (8 * h) = (if h = i then blk else 0)" if h: "0 \<le> h" "h < fs_nindir (d_fs s)" for h
  proof -
    have h8: "8 * h + 8 \<le> nb" using h P by simp
    have "ld64 (\<lambda>x. dev_data s (a + x)) (8 * h) = ld64 (st64 (memset j 0 0 nb) (8 * i) blk) (8 * h)"
      by (rule ld_cong) (use h h8 in \<open>simp add: d memcpy_def a_def nb_def\<close>)
    also have "\<dots> = (if h = i then blk else ld64 (memset j 0 0 nb) (8 * h))"
      using b by (cases h i rule: linorder_cases) (simp_all add: mem_simps)
    also have "ld64 (memset j 0 0 nb) (8 * h) = ld64 (\<lambda>_. 0) (8 * h)" by (rule ld_cong) (use h h8 in \<open>simp add: memset_def\<close>)
    finally show ?thesis by (simp add: ld64_zero)
  qed
  from this [of "k - 12"] show ?thesis using bmap_low [OF s k, of ip] ib k by (auto simp: a_def)
qed

text \<open>C29. \<open>ufs_set_block\<close> for a block behind the direct ones of a file that has no indirect block yet, on a
  consistent file system. When no whole block is free anywhere it gives -ENOSPC and changes nothing.
  Otherwise a free block is taken from the maps and becomes the indirect block of the file; reading the
  block map then gives the number stored for this block, 0 for every other block of the indirect block
  (the new block is written whole, whatever it held), and the old numbers for the direct blocks; after
  the allocation no byte outside the new block is written.\<close>

theorem set_block_new_indirect:
  assumes sp: "space_ok s" and ib: "di_ib (i_din2 ip) 0 = 0" and f: "NDADDR \<le> fbn" "fbn < NDADDR + fs_nindir (d_fs s)"
    and n: "0 \<le> i_number ip" "ino_to_cg (d_fs s) (i_number ip) < fs_ncg (d_fs s)" "fs_ncg (d_fs s) * fs_fpg (d_fs s) < 2 ^ 63"
    and b: "s64 blk = blk" "blk \<noteq> 1852140901"
  shows "\<exists>r ip' s'. ufs_set_block ip fbn blk s = Some (r, ip', s') \<and>
     (if room s (fs_frag (d_fs s)) then r = 0 \<and>
        (\<exists>t s1. taken s t (fs_frag (d_fs s)) s1 \<and> di_ib (i_din2 ip') 0 = t \<and>
          (\<forall>x. x < blk_base s t \<or> blk_base s t + fs_bsize (d_fs s) \<le> x \<longrightarrow> dev_data s' x = dev_data s1 x)) \<and>
        ufs_bmap ip' fbn p s' = Some (0, blk) \<and>
        (\<forall>k. NDADDR \<le> k \<longrightarrow> k < NDADDR + fs_nindir (d_fs s) \<longrightarrow> k \<noteq> fbn \<longrightarrow> ufs_bmap ip' k p s' = Some (0, 0)) \<and>
        (\<forall>k. 0 \<le> k \<longrightarrow> k < NDADDR \<longrightarrow> ufs_bmap ip' k p s' = ufs_bmap ip k p s)
      else r = - ENOSPC \<and> ip' = ip \<and> s' = s)"
proof -
  define fs nb i where "fs = d_fs s" and "nb = fs_bsize fs" and "i = fbn - 12"
  note o = space_okD [OF sp]
  note ok = o(3)
  have P: "0 < nb" "fs_nindir fs = nb div 8" "nb mod fs_fsize fs = 0" "numfrags fs nb = fs_frag fs"
    using fs_ok_pos [OF ok] fs_okD(4,10) [OF ok] macro_div_mod(2) [OF ok] by (simp_all add: nb_def fs_def)
  have i: "0 \<le> i" "i < fs_nindir fs" "8 * i + 8 \<le> nb" using f P by (simp_all add: i_def fs_def)
  obtain err t s1 where al: "ufs_block_alloc (i_number ip) nb s = Some (err, t, s1)" "alloc_spec s nb err t s1"
    using block_alloc_cases [OF sp P(1) P(3) [unfolded fs_def] n(1,2)] by blast
  have sb: "ufs_set_block ip fbn blk s = set_block_l1 ip i blk (memset (env_junk s) 0 0 nb) s"
    using f i io_ok_mem [OF o(2)] by (simp add: ufs_set_block_def Let_def fs_def nb_def i_def)
  show ?thesis
  proof (cases "room s (fs_frag fs)")
    case False
    then have "err = - ENOSPC" "s1 = s" using al(2) P(4) by (simp_all add: alloc_spec_def nb_def fs_def)
    then have "ufs_set_block ip fbn blk s = Some (- ENOSPC, ip, s)"
      using al(1) by (simp add: sb set_block_l1_def ind_block_def ib nb_def fs_def)
    then show ?thesis using False by (simp add: fs_def)
  next
    case True
    then have e: "err = 0" and tk: "taken s t (fs_frag fs) s1" using al(2) P(4) by (simp_all add: alloc_spec_def nb_def fs_def)
    have T: "space_ok s1" "geom_eq fs (d_fs s1)" "0 < t" "free_frag s t" "s1 = s\<lparr>d_fs := d_fs s1, dev_data := dev_data s1\<rparr>"
      using tk fs_ok_pos(3) [OF ok] unfolding taken_def fs_def by auto
    note g = geom_eqD [OF T(2)]
    have ni: "fs_nindir (d_fs s1) = fs_nindir fs" using T(2) by (auto simp: geom_eq_def)
    have io1: "io_ok s1" "env_junk s1 = env_junk s" "d_bsize s1 = d_bsize s" using space_okD(2) [OF T(1)] by (simp, (subst T(5), simp)+)
    have t63: "s64 t = t" using T(3,4) n(3) by (intro s64_id) (auto simp: free_frag_def)
    have nn: "0 \<le> fsbtodb fs t" using T(3) by (simp add: fsbtodb_eq)
    define a where "a = blk_base s t"
    define buf where "buf = st64 (memset (env_junk s) 0 0 nb) (8 * i) blk"
    define s' where "s' = s1\<lparr>dev_data := memcpy (dev_data s1) a buf 0 nb\<rparr>"
    define ip' where "ip' = set_di_ib ip 0 t"
    have wr: "blkwrite (fsbtodb fs t) buf nb s1 = (nb, s')"
      using blkwrite_ok [OF io1(1) nn P(1)] io1(3) by (simp add: s'_def a_def blk_base_def fs_def)
    have run: "ufs_set_block ip fbn blk s = Some (0, ip', s')"
      using al(1) e wr P(1) i
      by (simp add: sb set_block_l1_def ind_block_def ib write_ptrs_def g(4,15) Let_def ip'_def buf_def nb_def [symmetric] fs_def [symmetric])
    have s': "io_ok s'" "fs_ok (d_fs s')" "fs_nindir (d_fs s') = fs_nindir fs" "blk_base s' t = a" "env_mem s'" "env_mem s"
      using io1 ok g(1) ni io_ok_mem [OF io1(1)] io_ok_mem [OF o(2)] g(4) by (auto simp: s'_def fs_def blk_base_def a_def)
    have ibt: "di_ib (i_din2 ip') 0 = t" "\<And>k. 0 \<le> k \<Longrightarrow> k < NDADDR \<Longrightarrow> di_db (i_din2 ip') k = di_db (i_din2 ip) k"
      using t63 by (simp_all add: ip'_def set_di_ib_def di_ib_def di_db_def mem_simps)
    have "fs_bsize (d_fs s') = nb" "dev_data s' = memcpy (dev_data s1) a buf 0 nb" using g(15) by (simp_all add: s'_def nb_def)
    then have m: "bmap_ptr ip' k s' = (0, if k < NDADDR then di_db (i_din2 ip) k else if k = fbn then blk else 0)"
      if k: "0 \<le> k" "k < NDADDR + fs_nindir fs" for k
      using fresh_indirect_map [OF s'(1,2), where ip = ip' and blk = blk and i = i and k = k and d = "dev_data s1" and j = "env_junk s"]
        s'(3,4) ibt T(3) b(1) i k by (auto simp: buf_def i_def)
    have d: "bmap_ptr ip k s = (0, di_db (i_din2 ip) k)" if "0 \<le> k" "k < NDADDR" for k using that by (simp add: bmap_ptr_def)
    have nz: "0 < fs_nindir fs" using fs_okD(11) [OF ok] by (simp add: fs_def)
    show ?thesis
    proof (intro exI conjI)
      show "ufs_set_block ip fbn blk s = Some (0, ip', s')" by (rule run)
      have "\<forall>x. x < blk_base s t \<or> blk_base s t + fs_bsize (d_fs s) \<le> x \<longrightarrow> dev_data s' x = dev_data s1 x"
        by (auto simp: s'_def memcpy_def a_def nb_def fs_def)
      then show "if room s (fs_frag (d_fs s)) then (0 :: int) = 0 \<and>
          (\<exists>t s1. taken s t (fs_frag (d_fs s)) s1 \<and> di_ib (i_din2 ip') 0 = t \<and>
            (\<forall>x. x < blk_base s t \<or> blk_base s t + fs_bsize (d_fs s) \<le> x \<longrightarrow> dev_data s' x = dev_data s1 x)) \<and>
          ufs_bmap ip' fbn p s' = Some (0, blk) \<and>
          (\<forall>k. NDADDR \<le> k \<longrightarrow> k < NDADDR + fs_nindir (d_fs s) \<longrightarrow> k \<noteq> fbn \<longrightarrow> ufs_bmap ip' k p s' = Some (0, 0)) \<and>
          (\<forall>k. 0 \<le> k \<longrightarrow> k < NDADDR \<longrightarrow> ufs_bmap ip' k p s' = ufs_bmap ip k p s)
        else (0 :: int) = - ENOSPC \<and> ip' = ip \<and> s' = s"
        using True tk ibt(1) m d f b(2) s'(5,6) nz by (auto simp: ufs_bmap_def fs_def)
    qed
  qed
qed

theorem set_block_new_indirect_witness:
  "\<exists>ip' s'. ufs_set_block inode_ex 15 90 disk_ex = Some (0, ip', s') \<and> di_ib (i_din2 inode_ex) 0 = 0 \<and> free_frag disk_ex (di_ib (i_din2 ip') 0) \<and>
     ufs_bmap ip' 15 0 s' = Some (0, 90) \<and> ufs_bmap ip' 16 0 s' = Some (0, 0) \<and> ufs_bmap ip' 0 0 s' = Some (0, 48)"
proof -
  have f: "fs_nindir (d_fs disk_ex) = 512" "fs_frag (d_fs disk_ex) = 8" "fs_ncg (d_fs disk_ex) = 1" "fs_fpg (d_fs disk_ex) = 64"
    "ino_to_cg (d_fs disk_ex) (i_number inode_ex) = 0" "i_number inode_ex = 5" "env_mem disk_ex"
    by (simp_all add: disk_ex_def fs_one_def fs_ex_def ino_to_cg_def inode_ex_def sdiv_nonneg)
  have d: "di_ib (i_din2 inode_ex) 0 = 0" "s64 90 = 90" "di_db (i_din2 inode_ex) 0 = 48" by code_simp+
  have "ufs_bmap inode_ex 0 0 disk_ex = Some (0, 48)" using d(3) f(7) by (simp add: ufs_bmap_def bmap_ptr_def)
  then show ?thesis
    using set_block_new_indirect [OF space_ok_ex d(1), of 15 90 0] f d(1,2) room_ex(1)
    by (fastforce simp: taken_def)
qed

subsection \<open>The block of a new directory\<close>

definition new_ents :: "int \<Rightarrow> int \<Rightarrow> dent list" where
  "new_ents n p = [\<lparr>e_ino = n, e_len = 12, e_type = DT_DIR, e_name = ''.''\<rparr>, \<lparr>e_ino = p, e_len = 500, e_type = DT_DIR, e_name = ''..''\<rparr>]"

text \<open>C37. The block that \<open>ufs_new_dir_block\<close> builds for a new directory is well formed: it is tiled by an entry
  \<open>.\<close> for the directory and an entry \<open>..\<close> for its parent, so that lookups in it find just these
  names and the directory counts as empty.\<close>

theorem new_dir_block_wellformed:
  assumes "env_mem s" "0 < n" "n < 2 ^ 32" "0 < p" "p < 2 ^ 32"
  shows "\<exists>m. ufs_new_dir_block n p s = Some m \<and> lays m 0 (new_ents n p) DIRBLKSIZ \<and>
     dir_find name (new_ents n p) = (if name = ''.'' then Some n else if name = ''..'' then Some p else None) \<and>
     list_all dot_entry (new_ents n p)"
proof -
  have r: "UFS_DIR_REC_LEN 1 = 12" by code_simp
  define m0 where "m0 = memset (env_junk s) 0 0 (fragroundup (d_fs s) 512)"
  define m1 where "m1 = set_d_reclen (set_d_type ((set_d_namlen (set_d_ino m0 0 n) 0 1)(8 := 46)) 0 4) 0 12"
  have l: "d_reclen m1 0 = 12" by (simp add: m1_def dirent_defs mem_simps u_id)
  define m where "m = set_d_reclen (set_d_type ((set_d_namlen (set_d_ino m1 12 p) 12 2)(20 := 46, 21 := 46)) 12 4) 12 500"
  have e: "ufs_new_dir_block n p s = Some m" using assms(1,2) l unfolding m_def
    by (simp add: ufs_new_dir_block_def Let_def r m0_def [symmetric] m1_def [symmetric])
  have u: "k(x := 46) = st8 k x 46" for k :: mem and x by (simp add: st8_def)
  have v: "st8 k x 46 x = 46" for k x by (simp add: st8_def)
  have a1: "ent_at m 0 (new_ents n p ! 0)" "ent_at m 12 (new_ents n p ! 1)"
    using assms unfolding m_def m1_def u by (simp_all add: new_ents_def ent_at_def dirent_defs mem_simps u_id v)
  have a2: "ent_fits 0 (new_ents n p ! 0)" "ent_fits 12 (new_ents n p ! 1)" by (simp_all add: ent_fits_def new_ents_def r UFS_DIR_REC_LEN_def)
  have "lays m 0 (new_ents n p) DIRBLKSIZ" using a1 a2 by (simp add: new_ents_def)
  then show ?thesis using e assms(2,4) by (auto simp: new_ents_def dir_find_def ent_named_def dot_entry_def)
qed

theorem new_dir_block_wellformed_witness: "\<exists>m. ufs_new_dir_block 7 2 disk_ex = Some m \<and> lays m 0 (new_ents 7 2) 512"
  using new_dir_block_wellformed [of disk_ex 7 2 "''.''"] by (auto simp: disk_ex_def)

end
