(* ===== verification/Spec2Isabelle.thy ===== *)
theory Spec2Isabelle
  imports Ufs_Device_Props Ufs_Kill_Props Ufs_Mount_Props Ufs_Attr_Props Ufs_File_Props
begin

text \<open>
  \<^bold>\<open>A verification of fuse-ufs2, a FUSE file system for UFS2 volumes.\<close>

  \<^bold>\<open>The program.\<close> The library \<open>src/libufs\<close> reads and writes blocks, the super block, cylinder
  groups and inodes of a UFS2 volume through a disk handle, \<open>struct uufsd\<close>. On top of it
  \<open>src/fuse-ufs\<close> implements a file system: the allocators of fragments and inodes
  (\<open>fuse-inodeops.c\<close>, \<open>fuse-inodealloc.c\<close>), the block map of a file and the file buffer
  (\<open>fuse-ufs-fileio.c\<close>), directories (\<open>fuse-ufs-utils.c\<close> and part of \<open>fuse-inodeops.c\<close>), a hash
  table of in-core inodes with reference counts (\<open>vnode_hash.c\<close>), and one file \<open>op_*.c\<close> per FUSE
  operation, between \<open>op_init\<close> and \<open>op_destroy\<close>. The parts share the disk handle and call each
  other downwards: an operation splits its path (\<open>do_check.c\<close>), walks it through directories
  (\<open>ufs_namei\<close>), which takes and puts vnodes, which reads and writes inodes, which uses the
  device; a file grows by the block allocator and an unlinked file is truncated and its inode
  freed when the last reference to its vnode goes.

  \<^bold>\<open>The model\<close>, one theory for each part, in the order of the calls.
  \<^item> \<open>Ufs_Prelude\<close>: C integers as \<open>int\<close> with the casts written out (\<open>u8\<close>, \<open>s16\<close>, \<open>u32\<close>,
    \<open>s64\<close> and so on), byte memories \<open>mem\<close> with little-endian loads and stores, \<open>memcpy\<close>, the
    error numbers, and the collection \<open>mem_simps\<close>.
  \<^item> \<open>Ufs_Fs\<close> (\<open>fs.h\<close>, \<open>dinode.h\<close>, \<open>dir.h\<close>): \<open>struct fs\<close> and \<open>struct csum\<close> as records, the
    address macros (\<open>fsbtodb\<close>, \<open>cgbase\<close>, \<open>ino_to_fsba\<close>, \<open>blkoff\<close>, ...).
  \<^item> \<open>Ufs_Disk\<close> (\<open>libufs.h\<close>, \<open>block.c\<close>): \<open>struct uufsd\<close> as the record \<open>uufsd\<close>, \<open>bread\<close>,
    \<open>bwrite\<close>. Its fields \<open>dev_data\<close>, \<open>dev_pread\<close>, \<open>dev_pwrite\<close>, \<open>env_mem\<close>, ... are the environment: the
    bytes of the device, how many bytes a \<open>pread\<close> or \<open>pwrite\<close> transfers, whether \<open>malloc\<close>
    succeeds, the contents of fresh memory, the clock and \<open>rand\<close>.
  \<^item> \<open>Ufs_Bitmap\<close> (\<open>fuse-ufs-tables.c\<close>, \<open>ffs_*\<close> of \<open>fuse-inodeops.c\<close>): free maps, fragment tables,
    cluster summaries. \<open>Ufs_Alloc\<close>: \<open>ufs_alloccg\<close>, \<open>ufs_hashalloc\<close>, \<open>ufs_block_alloc\<close>,
    \<open>ufs_block_free\<close>. \<open>Ufs_Inode\<close>: \<open>getino\<close>, \<open>ufs_write_inode\<close>, \<open>ufs_inode_alloc\<close>,
    \<open>ufs_free_inode\<close>, \<open>ufs_dirpref\<close>. \<open>Ufs_Bmap\<close>: \<open>ufs_bmap\<close>, \<open>ufs_set_block\<close>, \<open>ufs_truncate\<close>.
  \<^item> \<open>Ufs_Vnode\<close> (\<open>vnode_hash.c\<close>, \<open>do_killfilebyinode.c\<close>): the state \<open>world\<close> adds to the handle a
    heap of vnodes with the chains of the hash table, next and back pointers included.
  \<^item> \<open>Ufs_Dir\<close>: \<open>ufs_dir_iterate\<close> with a callback that may change the block, and lookup, link,
    unlink, the emptiness test and \<open>ufs_namei\<close>. \<open>Ufs_File\<close>: the one-block buffer of an open file,
    read, write, seek. \<open>Ufs_Ops\<close>: every \<open>op_*.c\<close>. \<open>Ufs_Mount\<close> (\<open>sblock.c\<close>, \<open>cgroup.c\<close>, \<open>type.c\<close>,
    \<open>op_init.c\<close>, \<open>op_destroy.c\<close>, \<open>fuse-ufs.c\<close>, \<open>fuse-ufs.probe.c\<close>): the super block and the summaries,
    start and end of a mount, mount options and the main functions; what \<open>getopt_long\<close>,
    \<open>realpath\<close>, \<open>stat\<close> and FUSE return are arguments.

  \<^bold>\<open>Conventions.\<close> State is passed explicitly. A function that can end the program (an \<open>exit\<close>, a
  null pointer read or written through, a division by zero) or loop for ever returns an option, with
  \<open>None\<close> for these; where a property speaks of the state at such an end, a function into a sum
  gives it (\<open>ufs_block_free_run\<close>, \<open>ufs_free_inode_run\<close>: \<open>Inl\<close> of the handle is a stop, \<open>Inr\<close> a
  return). Error codes are the integers the C code returns. The summary counters of the super block,
  which consistency bounds, and file positions and sizes next to \<open>2 ^ 64\<close> are not reduced to
  their width. Loops whose end depends on the data (the walk over a directory block, the
  walk along a hash chain, the writing loop) are partial functions into options, so no fuel is
  used and that such a loop returns is always a theorem of its own. Bytes are words of 8 bits,
  byte order is little endian as the program assumes. The default build has debugging enabled.

  \<^bold>\<open>What is proved.\<close>
  \<^item> \<open>Ufs_Runs\<close>, \<open>Ufs_Search\<close>: the bit operations and \<open>ffs_fragacct\<close>, \<open>ffs_mapsearch\<close> against
    maximal runs of free fragments, the tables checked entry by entry.
  \<^item> \<open>Ufs_Count\<close>, \<open>Ufs_Cluster\<close>, \<open>Ufs_Group\<close>, \<open>Ufs_Group_Ops\<close>: one cylinder group is consistent
    when its counters, run counts and cluster summaries agree with its free map; every step of
    the allocator keeps this.
  \<^item> \<open>Ufs_Space\<close>, \<open>Ufs_Space_Alloc\<close>, \<open>Ufs_Space_Free\<close>: the file system as a set of free fragments.
    Allocation takes a free run of the size asked for, or reports \<open>ENOSPC\<close> when there is none;
    freeing gives exactly the fragments back, and a double free stops the program with the handle and
    the device untouched. The locale
    \<open>group_alloc\<close> is the contract between \<open>ufs_hashalloc\<close> and an allocator of one group; it is
    interpreted for blocks (\<open>blk\<close>) and for inodes (\<open>ino\<close>).
  \<^item> \<open>Ufs_Inode_Table\<close>, \<open>Ufs_Inode_Alloc\<close>: inodes written are read back field by field (\<open>stored_as\<close>),
    the cached inode block is transparent; the inode allocator keeps the inode maps and the counts of
    free inodes and directories, as long as all inode blocks are initialised.
  \<^item> \<open>Ufs_Vnode_Table\<close>: the chains implement a table of reference counts. The locale \<open>ref_table\<close>
    states what the table promises of inodes with links and is interpreted (\<open>vt\<close>) on the heap of
    vnodes.
  \<^item> \<open>Ufs_Kill_Props\<close>: the last release of a file without links and blocks frees its inode number and
    clears its inode; groups and inode areas do not disturb each other.
  \<^item> \<open>Ufs_Dir_Scan\<close>, \<open>Ufs_Dir_Edit\<close>: directory blocks as lists of entries. The locale \<open>dir_scan\<close> is
    the contract of a callback that only reads (\<open>lk\<close> for lookup, \<open>rm\<close> for the emptiness test),
    \<open>dir_edit\<close> of one that changes one entry (\<open>ln\<close> for link, \<open>un\<close> for unlink). Path resolution
    refines a walk through abstract directories; adding and removing a name change the map from
    names to inodes in exactly this name.
  \<^item> \<open>Ufs_Device_Props\<close>: block writes read back, an ignored read error, ranges of addresses, and when
    the walk over a directory block ends. The locale \<open>block_callback\<close> is the contract between the walk
    and a callback that may rewrite the block; it is interpreted for the callbacks of lookup, rmdir,
    link and unlink.
  \<^item> \<open>Ufs_Mount_Props\<close>: unmounting and mounting again restores the super block and the summaries.
  \<^item> \<open>Ufs_Attr_Props\<close>: whole operations on attributes, from the path to the device, as changes of one
    inode that keep all reference counts and all other inodes, the recomputed number of sectors
    included.
  \<^item> \<open>Ufs_File_Props\<close>: reading a file gives the bytes its block map stands for; setting a block
    pointer and reading it back, with the allocation of the first indirect block; the first block of a
    new directory.

  Several theorems state what the code does where it does not do what it means to:
  \<open>inode_init_misplaced\<close>, \<open>free_inode_keeps_ndir\<close>, \<open>unlink_misses_after_unused\<close>,
  \<open>getino_ignores_read_error\<close>, \<open>dir_block_zero_reclen_hangs\<close>, \<open>file_read_inside_block_stale\<close>,
  \<open>chown_swaps_guards\<close>, \<open>utimens_sets_first_time\<close>.

  \<^bold>\<open>Not modelled\<close>: \<open>fuse-ufs.wait.c\<close>, a helper for Mac OS X that starts the mount command and waits for
  a notification; the usage texts; how
  \<open>type.c\<close> finds the device of a name (\<open>stat\<close>, \<open>/etc/fstab\<close>), whose result is a parameter; messages
  and the texts kept in \<open>d_error\<close>; the BSD headers no code uses (\<open>acl.h\<close>, \<open>dirhash.h\<close>,
  \<open>extattr.h\<close>, \<open>gjournal.h\<close>, \<open>quota.h\<close>, \<open>ufsmount.h\<close>, \<open>ufs_extern.h\<close>, \<open>sys/mount.h\<close>,
  \<open>sys/disklabel.h\<close>, \<open>sys/ucred.h\<close>). FUSE calls the operations one after another, as the program
  runs it with one thread, so that no interleaving of two operations is modelled.
\<close>

end
